(* ===== verification/SP1_Prelude.thy ===== *)
theory SP1_Prelude
  imports Main "HOL-Library.Word" "HOL-Library.Signed_Division" "HOL-Library.AList"
begin

text \<open>
  Shared vocabulary of the development: the machine integers of the Rust sources, the
  result type that stands for \<open>Result<T, E>\<close> together with panics, the Rust
  integer operations that Isabelle's word library does not have under one name (wrapping
  shifts, casts through signed types, little-endian bytes), and the generic lemmas about
  them.  The collections \<open>rust_int\<close>, \<open>res_simps\<close> and \<open>rec_defs\<close> are filled here and
  in the component theories.

  Integer arithmetic is that of the release profile of \<open>Cargo.toml\<close> (no overflow checks):
  \<open>+\<close>, \<open>-\<close> and \<open>*\<close> wrap.  Array indices out of bounds, failed \<open>assert!\<close>s, \<open>unwrap\<close> on an
  error and \<open>panic!\<close> are the value \<open>Panic\<close>; \<open>debug_assert!\<close> is not executed in that profile
  and is stated as a property instead.
\<close>

unbundle bit_operations_syntax

named_theorems rust_int \<open>unfolding of the Rust integer operations\<close>
named_theorems res_simps \<open>rewriting of results\<close>
named_theorems rec_defs \<open>definitions of the executor's primitive state operations\<close>

type_synonym u8 = "8 word"
type_synonym u16 = "16 word"
type_synonym u32 = "32 word"
type_synonym u64 = "64 word"

text \<open>A Rust \<open>String\<close> as its Unicode scalar values.\<close>

type_synonym rstring = "nat list"

section \<open>Results\<close>

text \<open>
  \<open>Err e\<close> is an error returned as \<open>Result::Err\<close>; \<open>Panic\<close> is a panic (the release build
  aborts).  In both cases the caller never looks at the state again, so the state is
  dropped.
\<close>

datatype 'e fault = Err 'e | Panic

type_synonym ('e, 'a) result = "'e fault + 'a"

text \<open>Rust's \<open>?\<close> operator and plain sequencing.\<close>

fun rbind :: "'f + 'a \<Rightarrow> ('a \<Rightarrow> 'f + 'b) \<Rightarrow> 'f + 'b" where
  "rbind (Inl e) f = Inl e"
| "rbind (Inr x) f = f x"

lemma rbind_cong [fundef_cong]:
  "m = m' \<Longrightarrow> (\<And>x. m' = Inr x \<Longrightarrow> f x = g x) \<Longrightarrow> rbind m f = rbind m' g"
  by (cases m') auto

lemma rbind_eq_Inr [res_simps]:
  "rbind m f = Inr y \<longleftrightarrow> (\<exists>x. m = Inr x \<and> f x = Inr y)"
  by (cases m) auto

lemma rbind_eq_Inl [res_simps]:
  "rbind m f = Inl e \<longleftrightarrow> m = Inl e \<or> (\<exists>x. m = Inr x \<and> f x = Inl e)"
  by (cases m) auto

lemma rbind_assoc: "rbind (rbind m f) g = rbind m (\<lambda>x. rbind (f x) g)"
  by (cases m) auto

lemma rbind_Inr_right [simp]: "rbind m Inr = m"
  by (cases m) auto

text \<open>A computation that succeeds only in states satisfying a postcondition.\<close>

definition res_all :: "('a \<Rightarrow> bool) \<Rightarrow> 'f + 'a \<Rightarrow> bool" where
  "res_all P m \<longleftrightarrow> (case m of Inl _ \<Rightarrow> True | Inr x \<Rightarrow> P x)"

lemma res_all_simps [simp]: "res_all P (Inl e)" "res_all P (Inr x) = P x"
  by (simp_all add: res_all_def)

lemma res_all_bind:
  assumes "res_all Q m" and "\<And>x. m = Inr x \<Longrightarrow> Q x \<Longrightarrow> res_all P (f x)"
  shows "res_all P (rbind m f)"
  using assms by (cases m) auto

lemma res_all_mono: "res_all P m \<Longrightarrow> (\<And>x. P x \<Longrightarrow> Q x) \<Longrightarrow> res_all Q m"
  by (cases m) auto

lemma res_allD: "res_all P m \<Longrightarrow> m = Inr x \<Longrightarrow> P x"
  by simp

text \<open>Two results related componentwise: both fail in the same way, or both succeed.\<close>

fun res_rel :: "('a \<Rightarrow> 'b \<Rightarrow> bool) \<Rightarrow> 'f + 'a \<Rightarrow> 'f + 'b \<Rightarrow> bool" where
  "res_rel R (Inl e) (Inl e') = (e = e')"
| "res_rel R (Inr x) (Inr y) = R x y"
| "res_rel R _ _ = False"

lemma res_rel_bind:
  assumes "res_rel R m m'" and "\<And>x y. m = Inr x \<Longrightarrow> m' = Inr y \<Longrightarrow> R x y \<Longrightarrow> res_rel S (f x) (g y)"
  shows "res_rel S (rbind m f) (rbind m' g)"
  using assms by (cases m; cases m') auto

lemma res_rel_mono: "res_rel R m m' \<Longrightarrow> (\<And>x y. R x y \<Longrightarrow> S x y) \<Longrightarrow> res_rel S m m'"
  by (cases m; cases m') auto

lemma res_rel_InrD: "res_rel R m m' \<Longrightarrow> m = Inr x \<Longrightarrow> \<exists>y. m' = Inr y \<and> R x y"
  by (cases m') auto

lemma res_rel_InlD: "res_rel R m m' \<Longrightarrow> m = Inl e \<Longrightarrow> m' = Inl e"
  by (cases m') auto

section \<open>Integers\<close>

text \<open>Casts and shifts as Rust defines them: a wrapping shift uses the shift amount
  modulo the width.\<close>

definition wrapping_shl :: "u32 \<Rightarrow> u32 \<Rightarrow> u32" where
  "wrapping_shl b c = push_bit (unat c mod 32) b"

definition wrapping_shr :: "u32 \<Rightarrow> u32 \<Rightarrow> u32" where
  "wrapping_shr b c = drop_bit (unat c mod 32) b"

definition wrapping_shr_i32 :: "u32 \<Rightarrow> u32 \<Rightarrow> u32" where
  "wrapping_shr_i32 b c = signed_drop_bit (unat c mod 32) b"

text \<open>\<open>(b as i32).wrapping_div(c as i32) as u32\<close>: truncating division; the one overflow
  (\<open>i32::MIN / -1\<close>) wraps back to \<open>i32::MIN\<close> under \<open>word_of_int\<close>.\<close>

definition wrapping_div_i32 :: "u32 \<Rightarrow> u32 \<Rightarrow> u32" where
  "wrapping_div_i32 b c = word_of_int (sint b sdiv sint c)"

definition wrapping_rem_i32 :: "u32 \<Rightarrow> u32 \<Rightarrow> u32" where
  "wrapping_rem_i32 b c = word_of_int (sint b smod sint c)"

definition unsigned_abs :: "u32 \<Rightarrow> u32" where
  "unsigned_abs x = word_of_int \<bar>sint x\<bar>"

definition slt_i32 :: "u32 \<Rightarrow> u32 \<Rightarrow> bool" where
  "slt_i32 a b \<longleftrightarrow> sint a < sint b"

definition bool_u32 :: "bool \<Rightarrow> u32" where
  "bool_u32 b = (if b then 1 else 0)"

lemmas [rust_int] = wrapping_shl_def wrapping_shr_def wrapping_shr_i32_def
  wrapping_div_i32_def wrapping_rem_i32_def unsigned_abs_def slt_i32_def bool_u32_def

lemma unat_u32_less: "unat (a :: u32) < 4294967296"
  using unsigned_less [of a, where 'a = nat] by simp

text \<open>\<open>u32::to_le_bytes\<close> and \<open>u32::from_le_bytes\<close>.\<close>

definition to_le_bytes :: "u32 \<Rightarrow> u8 list" where
  "to_le_bytes w = [ucast w, ucast (drop_bit 8 w), ucast (drop_bit 16 w), ucast (drop_bit 24 w)]"

definition from_le_bytes4 :: "u8 \<Rightarrow> u8 \<Rightarrow> u8 \<Rightarrow> u8 \<Rightarrow> u32" where
  "from_le_bytes4 b0 b1 b2 b3 =
     ucast b0 OR push_bit 8 (ucast b1) OR push_bit 16 (ucast b2) OR push_bit 24 (ucast b3)"

lemma length_to_le_bytes [simp]: "length (to_le_bytes w) = 4"
  by (simp add: to_le_bytes_def)

section \<open>Vectors\<close>

text \<open>Indexing and slot update of a \<open>Vec\<close>, with the bounds check of the language.\<close>

definition vec_get :: "'a list \<Rightarrow> nat \<Rightarrow> ('e, 'a) result" where
  "vec_get xs i = (if i < length xs then Inr (xs ! i) else Inl Panic)"

definition vec_set :: "'a list \<Rightarrow> nat \<Rightarrow> 'a \<Rightarrow> ('e, 'a list) result" where
  "vec_set xs i v = (if i < length xs then Inr (xs[i := v]) else Inl Panic)"

lemma vec_get_in [simp]: "i < length xs \<Longrightarrow> vec_get xs i = Inr (xs ! i)"
  by (simp add: vec_get_def)

lemma vec_set_in [simp]: "i < length xs \<Longrightarrow> vec_set xs i v = Inr (xs[i := v])"
  by (simp add: vec_set_def)

text \<open>Aligning an address to the word that holds it (\<open>align\<close> of \<open>executor.rs\<close>).\<close>

definition align :: "u32 \<Rightarrow> u32" where
  "align addr = addr - addr mod 4"

lemma unat_align: "unat (align a) = unat a div 4 * 4"
proof -
  have "a mod 4 \<le> a" by (simp add: word_le_nat_alt unat_mod)
  then have "unat (align a) = unat a - unat a mod 4"
    by (simp add: align_def unat_sub unat_mod)
  then show ?thesis using minus_mod_eq_div_mult by metis
qed

lemma align_le: "align a \<le> a"
  by (simp add: word_le_nat_alt unat_align)

text \<open>\<open>addr % 4 == 0\<close>.\<close>

definition word_aligned :: "u32 \<Rightarrow> bool" where
  "word_aligned a \<longleftrightarrow> a mod 4 = 0"

lemma word_aligned_align [simp]: "word_aligned (align a)"
  unfolding word_aligned_def by (simp add: word_unat_eq_iff unat_mod unat_align)

lemma align_aligned: "word_aligned a \<Longrightarrow> align a = a"
  by (simp add: align_def word_aligned_def)

lemma align_align [simp]: "align (align a) = align a"
  by (simp add: align_aligned)

lemma align_eq_iff: "align a = align b \<longleftrightarrow> unat a div 4 = unat b div 4"
  by (metis unat_align mult_right_cancel word_unat_eq_iff zero_neq_numeral)

lemma align_fix_iff: "align a = a \<longleftrightarrow> word_aligned a"
  by (metis align_aligned word_aligned_align)

lemma of_nat_unat_align: "of_nat (unat a div 4 * 4) = align a"
  by (simp flip: unat_align)

end
