(* ===== verification/SP1_Instruction.thy ===== *)
theory SP1_Instruction
  imports SP1_Prelude
begin

text \<open>
  Instructions of the zkVM: \<open>crates/core/executor/src/opcode.rs\<close>, \<open>register.rs\<close>,
  \<open>instruction.rs\<close> and the transpiler of \<open>disassembler/rrs.rs\<close>.

  The 32-bit decoder itself (\<open>rrs_lib::process_instruction\<close>) is a third-party crate.  It
  calls one method of \<open>InstructionProcessor\<close> with the decoded fields, or returns \<open>None\<close>; it
  appears here as a parameter of type \<open>u32 \<Rightarrow> callback option\<close>, where \<open>callback\<close> lists the
  methods.  The fields of its format structs that the sources use are kept; \<open>usize\<close> register
  numbers are \<open>nat\<close>, \<open>i32\<close> immediates are their two's complement bits.
\<close>

section \<open>Opcodes and registers\<close>

datatype (plugins only: code) opcode =
    ADD | SUB | XOR_op | OR_op | AND_op | SLL | SRL | SRA | SLT | SLTU
  | MUL | MULH | MULHU | MULHSU | DIV | DIVU | REM | REMU
  | LB | LH | LW | LBU | LHU | SB | SH | SW
  | BEQ | BNE | BLT | BGE | BLTU | BGEU
  | JAL | JALR | AUIPC | ECALL | EBREAK | UNIMP

primrec opcode_u8 :: "opcode \<Rightarrow> u8" where
  "opcode_u8 ADD = 0" | "opcode_u8 SUB = 1" | "opcode_u8 XOR_op = 2" | "opcode_u8 OR_op = 3"
| "opcode_u8 AND_op = 4" | "opcode_u8 SLL = 5" | "opcode_u8 SRL = 6" | "opcode_u8 SRA = 7"
| "opcode_u8 SLT = 8" | "opcode_u8 SLTU = 9" | "opcode_u8 MUL = 10" | "opcode_u8 MULH = 11"
| "opcode_u8 MULHU = 12" | "opcode_u8 MULHSU = 13" | "opcode_u8 DIV = 14" | "opcode_u8 DIVU = 15"
| "opcode_u8 REM = 16" | "opcode_u8 REMU = 17" | "opcode_u8 LB = 18" | "opcode_u8 LH = 19"
| "opcode_u8 LW = 20" | "opcode_u8 LBU = 21" | "opcode_u8 LHU = 22" | "opcode_u8 SB = 23"
| "opcode_u8 SH = 24" | "opcode_u8 SW = 25" | "opcode_u8 BEQ = 26" | "opcode_u8 BNE = 27"
| "opcode_u8 BLT = 28" | "opcode_u8 BGE = 29" | "opcode_u8 BLTU = 30" | "opcode_u8 BGEU = 31"
| "opcode_u8 JAL = 32" | "opcode_u8 JALR = 33" | "opcode_u8 AUIPC = 34" | "opcode_u8 ECALL = 35"
| "opcode_u8 EBREAK = 36" | "opcode_u8 UNIMP = 37"

datatype (plugins only: code) register =
    X0 | X1 | X2 | X3 | X4 | X5 | X6 | X7 | X8 | X9 | X10 | X11 | X12 | X13 | X14 | X15
  | X16 | X17 | X18 | X19 | X20 | X21 | X22 | X23 | X24 | X25 | X26 | X27 | X28 | X29 | X30 | X31

text \<open>\<open>register as u32\<close>.\<close>

primrec reg_u32 :: "register \<Rightarrow> u32" where
  "reg_u32 X0 = 0" | "reg_u32 X1 = 1" | "reg_u32 X2 = 2" | "reg_u32 X3 = 3" | "reg_u32 X4 = 4"
| "reg_u32 X5 = 5" | "reg_u32 X6 = 6" | "reg_u32 X7 = 7" | "reg_u32 X8 = 8" | "reg_u32 X9 = 9"
| "reg_u32 X10 = 10" | "reg_u32 X11 = 11" | "reg_u32 X12 = 12" | "reg_u32 X13 = 13"
| "reg_u32 X14 = 14" | "reg_u32 X15 = 15" | "reg_u32 X16 = 16" | "reg_u32 X17 = 17"
| "reg_u32 X18 = 18" | "reg_u32 X19 = 19" | "reg_u32 X20 = 20" | "reg_u32 X21 = 21"
| "reg_u32 X22 = 22" | "reg_u32 X23 = 23" | "reg_u32 X24 = 24" | "reg_u32 X25 = 25"
| "reg_u32 X26 = 26" | "reg_u32 X27 = 27" | "reg_u32 X28 = 28" | "reg_u32 X29 = 29"
| "reg_u32 X30 = 30" | "reg_u32 X31 = 31"

text \<open>\<open>Register::from_u8\<close>; \<open>None\<close> is the panic on an invalid register.\<close>

definition from_u8 :: "u8 \<Rightarrow> register option" where
  "from_u8 v =
    (if v = 0 then Some X0 else if v = 1 then Some X1 else if v = 2 then Some X2
     else if v = 3 then Some X3 else if v = 4 then Some X4 else if v = 5 then Some X5
     else if v = 6 then Some X6 else if v = 7 then Some X7 else if v = 8 then Some X8
     else if v = 9 then Some X9 else if v = 10 then Some X10 else if v = 11 then Some X11
     else if v = 12 then Some X12 else if v = 13 then Some X13 else if v = 14 then Some X14
     else if v = 15 then Some X15 else if v = 16 then Some X16 else if v = 17 then Some X17
     else if v = 18 then Some X18 else if v = 19 then Some X19 else if v = 20 then Some X20
     else if v = 21 then Some X21 else if v = 22 then Some X22 else if v = 23 then Some X23
     else if v = 24 then Some X24 else if v = 25 then Some X25 else if v = 26 then Some X26
     else if v = 27 then Some X27 else if v = 28 then Some X28 else if v = 29 then Some X29
     else if v = 30 then Some X30 else if v = 31 then Some X31 else None)"

section \<open>Instructions\<close>

record instruction =
  opcode :: opcode
  op_a :: u8
  op_b :: u32
  op_c :: u32
  imm_b :: bool
  imm_c :: bool

definition instr_new :: "opcode \<Rightarrow> u8 \<Rightarrow> u32 \<Rightarrow> u32 \<Rightarrow> bool \<Rightarrow> bool \<Rightarrow> instruction" where
  "instr_new opc a b c ib ic =
     \<lparr>opcode = opc, op_a = a, op_b = b, op_c = c, imm_b = ib, imm_c = ic\<rparr>"

text \<open>The classification predicates, on the opcode (\<open>matches!(self.opcode, ...)\<close>).\<close>

definition is_alu_instruction :: "instruction \<Rightarrow> bool" where
  "is_alu_instruction i \<longleftrightarrow> opcode i \<in> {ADD, SUB, XOR_op, OR_op, AND_op, SLL, SRL, SRA, SLT, SLTU,
     MUL, MULH, MULHU, MULHSU, DIV, DIVU, REM, REMU}"

definition is_ecall_instruction :: "instruction \<Rightarrow> bool" where
  "is_ecall_instruction i \<longleftrightarrow> opcode i = ECALL"

definition is_memory_load_instruction :: "instruction \<Rightarrow> bool" where
  "is_memory_load_instruction i \<longleftrightarrow> opcode i \<in> {LB, LH, LW, LBU, LHU}"

definition is_memory_store_instruction :: "instruction \<Rightarrow> bool" where
  "is_memory_store_instruction i \<longleftrightarrow> opcode i \<in> {SB, SH, SW}"

definition is_branch_instruction :: "instruction \<Rightarrow> bool" where
  "is_branch_instruction i \<longleftrightarrow> opcode i \<in> {BEQ, BNE, BLT, BGE, BLTU, BGEU}"

definition is_jump_instruction :: "instruction \<Rightarrow> bool" where
  "is_jump_instruction i \<longleftrightarrow> opcode i \<in> {JAL, JALR}"

definition is_auipc_instruction :: "instruction \<Rightarrow> bool" where
  "is_auipc_instruction i \<longleftrightarrow> opcode i = AUIPC"

definition is_divrem_instruction :: "instruction \<Rightarrow> bool" where
  "is_divrem_instruction i \<longleftrightarrow> opcode i \<in> {DIV, DIVU, REM, REMU}"

definition is_ebreak_instruction :: "instruction \<Rightarrow> bool" where
  "is_ebreak_instruction i \<longleftrightarrow> opcode i = EBREAK"

definition is_unimp_instruction :: "instruction \<Rightarrow> bool" where
  "is_unimp_instruction i \<longleftrightarrow> opcode i = UNIMP"

lemmas instr_class_defs = is_alu_instruction_def is_ecall_instruction_def
  is_memory_load_instruction_def is_memory_store_instruction_def is_branch_instruction_def
  is_jump_instruction_def is_auipc_instruction_def is_divrem_instruction_def
  is_ebreak_instruction_def is_unimp_instruction_def

text \<open>The operand views of \<open>rrs.rs\<close>; \<open>None\<close> where \<open>Register::from_u8\<close> panics.\<close>

definition r_type :: "instruction \<Rightarrow> (register \<times> register \<times> register) option" where
  "r_type i = Option.bind (from_u8 (op_a i)) (\<lambda>ra. Option.bind (from_u8 (ucast (op_b i)))
     (\<lambda>rb. Option.bind (from_u8 (ucast (op_c i))) (\<lambda>rc. Some (ra, rb, rc))))"

definition i_type :: "instruction \<Rightarrow> (register \<times> register \<times> u32) option" where
  "i_type i = Option.bind (from_u8 (op_a i)) (\<lambda>ra. Option.bind (from_u8 (ucast (op_b i)))
     (\<lambda>rb. Some (ra, rb, op_c i)))"

definition s_type :: "instruction \<Rightarrow> (register \<times> register \<times> u32) option" where
  "s_type i = Option.bind (from_u8 (op_a i)) (\<lambda>ra. Option.bind (from_u8 (ucast (op_b i)))
     (\<lambda>rb. Some (ra, rb, op_c i)))"

definition b_type :: "instruction \<Rightarrow> (register \<times> register \<times> u32) option" where
  "b_type i = Option.bind (from_u8 (op_a i)) (\<lambda>ra. Option.bind (from_u8 (ucast (op_b i)))
     (\<lambda>rb. Some (ra, rb, op_c i)))"

definition j_type :: "instruction \<Rightarrow> (register \<times> u32) option" where
  "j_type i = Option.bind (from_u8 (op_a i)) (\<lambda>ra. Some (ra, op_b i))"

definition u_type :: "instruction \<Rightarrow> (register \<times> u32) option" where
  "u_type i = Option.bind (from_u8 (op_a i)) (\<lambda>ra. Some (ra, op_b i))"

lemmas operand_view_defs = r_type_def i_type_def s_type_def b_type_def j_type_def u_type_def

section \<open>The transpiler\<close>

text \<open>The decoded formats of the decoder crate, with the fields the transpiler reads.\<close>

record rtype =
  r_rs2 :: nat
  r_rs1 :: nat
  r_rd :: nat

record itype =
  i_imm :: u32
  i_rs1 :: nat
  i_rd :: nat

record itype_shamt =
  sh_shamt :: u32
  sh_rs1 :: nat
  sh_rd :: nat

record stype =
  s_imm :: u32
  s_rs2 :: nat
  s_rs1 :: nat

record utype =
  u_imm :: u32
  u_rd :: nat

text \<open>A B-type instruction has the fields of an S-type one, a J-type those of a U-type one.\<close>

datatype (plugins only: code) callback =
    process_add rtype
  | process_sub rtype
  | process_xor rtype
  | process_or rtype
  | process_and rtype
  | process_sll rtype
  | process_srl rtype
  | process_sra rtype
  | process_slt rtype
  | process_sltu rtype
  | process_addi itype
  | process_xori itype
  | process_ori itype
  | process_andi itype
  | process_slli itype_shamt
  | process_srli itype_shamt
  | process_srai itype_shamt
  | process_slti itype
  | process_sltui itype
  | process_lb itype
  | process_lh itype
  | process_lw itype
  | process_lbu itype
  | process_lhu itype
  | process_sb stype
  | process_sh stype
  | process_sw stype
  | process_beq stype
  | process_bne stype
  | process_blt stype
  | process_bge stype
  | process_bltu stype
  | process_bgeu stype
  | process_jal utype
  | process_jalr itype
  | process_lui utype
  | process_auipc utype
  | process_ecall
  | process_ebreak
  | process_mul rtype
  | process_mulh rtype
  | process_mulhu rtype
  | process_mulhsu rtype
  | process_div rtype
  | process_divu rtype
  | process_rem rtype
  | process_remu rtype
  | process_csrrc
  | process_csrrci
  | process_csrrs
  | process_csrrsi
  | process_csrrw
  | process_csrrwi
  | process_fence itype
  | process_mret
  | process_wfi

definition from_r_type :: "opcode \<Rightarrow> rtype \<Rightarrow> instruction" where
  "from_r_type opc d = instr_new opc (of_nat (r_rd d)) (of_nat (r_rs1 d)) (of_nat (r_rs2 d)) False False"

definition from_i_type :: "opcode \<Rightarrow> itype \<Rightarrow> instruction" where
  "from_i_type opc d = instr_new opc (of_nat (i_rd d)) (of_nat (i_rs1 d)) (i_imm d) False True"

definition from_i_type_shamt :: "opcode \<Rightarrow> itype_shamt \<Rightarrow> instruction" where
  "from_i_type_shamt opc d = instr_new opc (of_nat (sh_rd d)) (of_nat (sh_rs1 d)) (sh_shamt d) False True"

definition from_s_type :: "opcode \<Rightarrow> stype \<Rightarrow> instruction" where
  "from_s_type opc d = instr_new opc (of_nat (s_rs2 d)) (of_nat (s_rs1 d)) (s_imm d) False True"

definition from_b_type :: "opcode \<Rightarrow> stype \<Rightarrow> instruction" where
  "from_b_type opc d = instr_new opc (of_nat (s_rs1 d)) (of_nat (s_rs2 d)) (s_imm d) False True"

definition unimp :: instruction where
  "unimp = instr_new UNIMP 0 0 0 True True"

text \<open>One equation per method of \<open>impl InstructionProcessor for InstructionTranspiler\<close>.\<close>

primrec process_callback :: "callback \<Rightarrow> instruction" where
  "process_callback (process_add d) = from_r_type ADD d"
| "process_callback (process_sub d) = from_r_type SUB d"
| "process_callback (process_xor d) = from_r_type XOR_op d"
| "process_callback (process_or d) = from_r_type OR_op d"
| "process_callback (process_and d) = from_r_type AND_op d"
| "process_callback (process_sll d) = from_r_type SLL d"
| "process_callback (process_srl d) = from_r_type SRL d"
| "process_callback (process_sra d) = from_r_type SRA d"
| "process_callback (process_slt d) = from_r_type SLT d"
| "process_callback (process_sltu d) = from_r_type SLTU d"
| "process_callback (process_addi d) = from_i_type ADD d"
| "process_callback (process_xori d) = from_i_type XOR_op d"
| "process_callback (process_ori d) = from_i_type OR_op d"
| "process_callback (process_andi d) = from_i_type AND_op d"
| "process_callback (process_slli d) = from_i_type_shamt SLL d"
| "process_callback (process_srli d) = from_i_type_shamt SRL d"
| "process_callback (process_srai d) = from_i_type_shamt SRA d"
| "process_callback (process_slti d) = from_i_type SLT d"
| "process_callback (process_sltui d) = from_i_type SLTU d"
| "process_callback (process_lb d) = from_i_type LB d"
| "process_callback (process_lh d) = from_i_type LH d"
| "process_callback (process_lw d) = from_i_type LW d"
| "process_callback (process_lbu d) = from_i_type LBU d"
| "process_callback (process_lhu d) = from_i_type LHU d"
| "process_callback (process_sb d) = from_s_type SB d"
| "process_callback (process_sh d) = from_s_type SH d"
| "process_callback (process_sw d) = from_s_type SW d"
| "process_callback (process_beq d) = from_b_type BEQ d"
| "process_callback (process_bne d) = from_b_type BNE d"
| "process_callback (process_blt d) = from_b_type BLT d"
| "process_callback (process_bge d) = from_b_type BGE d"
| "process_callback (process_bltu d) = from_b_type BLTU d"
| "process_callback (process_bgeu d) = from_b_type BGEU d"
| "process_callback (process_jal d) = instr_new JAL (of_nat (u_rd d)) (u_imm d) 0 True True"
| "process_callback (process_jalr d) = instr_new JALR (of_nat (i_rd d)) (of_nat (i_rs1 d)) (i_imm d) False True"
| "process_callback (process_lui d) = instr_new ADD (of_nat (u_rd d)) 0 (u_imm d) True True"
| "process_callback (process_auipc d) = instr_new AUIPC (of_nat (u_rd d)) (u_imm d) (u_imm d) True True"
| "process_callback process_ecall = instr_new ECALL 5 (reg_u32 X10) (reg_u32 X11) False False"
| "process_callback process_ebreak = instr_new EBREAK 0 0 0 False False"
| "process_callback (process_mul d) = from_r_type MUL d"
| "process_callback (process_mulh d) = from_r_type MULH d"
| "process_callback (process_mulhu d) = from_r_type MULHU d"
| "process_callback (process_mulhsu d) = from_r_type MULHSU d"
| "process_callback (process_div d) = from_r_type DIV d"
| "process_callback (process_divu d) = from_r_type DIVU d"
| "process_callback (process_rem d) = from_r_type REM d"
| "process_callback (process_remu d) = from_r_type REMU d"
| "process_callback process_csrrc = unimp"
| "process_callback process_csrrci = unimp"
| "process_callback process_csrrs = unimp"
| "process_callback process_csrrsi = unimp"
| "process_callback process_csrrw = unimp"
| "process_callback process_csrrwi = unimp"
| "process_callback (process_fence d) = unimp"
| "process_callback process_mret = unimp"
| "process_callback process_wfi = unimp"

text \<open>\<open>transpile\<close>: \<open>unwrap\<close> panics on a word the decoder rejects.\<close>

fun transpile :: "(u32 \<Rightarrow> callback option) \<Rightarrow> u32 list \<Rightarrow> ('e, instruction list) result" where
  "transpile process_instruction [] = Inr []"
| "transpile process_instruction (w # ws) =
     (case process_instruction w of
        None \<Rightarrow> Inl Panic
      | Some cb \<Rightarrow> rbind (transpile process_instruction ws) (\<lambda>is. Inr (process_callback cb # is)))"

text \<open>
  The decoder crate reads 5-bit register fields.  Under that documented bound a transpiled
  instruction has register operands in range and flags that fit its opcode.
\<close>

definition callback_regs :: "callback \<Rightarrow> nat list" where
  "callback_regs cb = (case cb of
     process_add d \<Rightarrow> [r_rs2 d, r_rs1 d, r_rd d] | process_sub d \<Rightarrow> [r_rs2 d, r_rs1 d, r_rd d]
   | process_xor d \<Rightarrow> [r_rs2 d, r_rs1 d, r_rd d] | process_or d \<Rightarrow> [r_rs2 d, r_rs1 d, r_rd d]
   | process_and d \<Rightarrow> [r_rs2 d, r_rs1 d, r_rd d] | process_sll d \<Rightarrow> [r_rs2 d, r_rs1 d, r_rd d]
   | process_srl d \<Rightarrow> [r_rs2 d, r_rs1 d, r_rd d] | process_sra d \<Rightarrow> [r_rs2 d, r_rs1 d, r_rd d]
   | process_slt d \<Rightarrow> [r_rs2 d, r_rs1 d, r_rd d] | process_sltu d \<Rightarrow> [r_rs2 d, r_rs1 d, r_rd d]
   | process_mul d \<Rightarrow> [r_rs2 d, r_rs1 d, r_rd d] | process_mulh d \<Rightarrow> [r_rs2 d, r_rs1 d, r_rd d]
   | process_mulhu d \<Rightarrow> [r_rs2 d, r_rs1 d, r_rd d] | process_mulhsu d \<Rightarrow> [r_rs2 d, r_rs1 d, r_rd d]
   | process_div d \<Rightarrow> [r_rs2 d, r_rs1 d, r_rd d] | process_divu d \<Rightarrow> [r_rs2 d, r_rs1 d, r_rd d]
   | process_rem d \<Rightarrow> [r_rs2 d, r_rs1 d, r_rd d] | process_remu d \<Rightarrow> [r_rs2 d, r_rs1 d, r_rd d]
   | process_addi d \<Rightarrow> [i_rs1 d, i_rd d] | process_xori d \<Rightarrow> [i_rs1 d, i_rd d]
   | process_ori d \<Rightarrow> [i_rs1 d, i_rd d] | process_andi d \<Rightarrow> [i_rs1 d, i_rd d]
   | process_slti d \<Rightarrow> [i_rs1 d, i_rd d] | process_sltui d \<Rightarrow> [i_rs1 d, i_rd d]
   | process_lb d \<Rightarrow> [i_rs1 d, i_rd d] | process_lh d \<Rightarrow> [i_rs1 d, i_rd d]
   | process_lw d \<Rightarrow> [i_rs1 d, i_rd d] | process_lbu d \<Rightarrow> [i_rs1 d, i_rd d]
   | process_lhu d \<Rightarrow> [i_rs1 d, i_rd d] | process_jalr d \<Rightarrow> [i_rs1 d, i_rd d]
   | process_fence d \<Rightarrow> [i_rs1 d, i_rd d]
   | process_slli d \<Rightarrow> [sh_rs1 d, sh_rd d] | process_srli d \<Rightarrow> [sh_rs1 d, sh_rd d]
   | process_srai d \<Rightarrow> [sh_rs1 d, sh_rd d]
   | process_sb d \<Rightarrow> [s_rs2 d, s_rs1 d] | process_sh d \<Rightarrow> [s_rs2 d, s_rs1 d]
   | process_sw d \<Rightarrow> [s_rs2 d, s_rs1 d] | process_beq d \<Rightarrow> [s_rs2 d, s_rs1 d]
   | process_bne d \<Rightarrow> [s_rs2 d, s_rs1 d] | process_blt d \<Rightarrow> [s_rs2 d, s_rs1 d]
   | process_bge d \<Rightarrow> [s_rs2 d, s_rs1 d] | process_bltu d \<Rightarrow> [s_rs2 d, s_rs1 d]
   | process_bgeu d \<Rightarrow> [s_rs2 d, s_rs1 d]
   | process_jal d \<Rightarrow> [u_rd d] | process_lui d \<Rightarrow> [u_rd d] | process_auipc d \<Rightarrow> [u_rd d]
   | _ \<Rightarrow> [])"

definition wf_instruction :: "instruction \<Rightarrow> bool" where
  "wf_instruction i \<longleftrightarrow> op_a i < 32 \<and> (imm_b i \<or> op_b i < 32) \<and> (imm_c i \<or> op_c i < 32)
     \<and> (imm_b i \<longrightarrow> imm_c i)
     \<and> (opcode i \<in> {LB, LH, LW, LBU, LHU, SB, SH, SW, BEQ, BNE, BLT, BGE, BLTU, BGEU, JALR} \<longrightarrow> \<not> imm_b i)"

section \<open>Facts\<close>

lemma from_u8_reg [simp]: "from_u8 (ucast (reg_u32 r)) = Some r"
  by (cases r) (simp_all add: from_u8_def)

lemma reg_u32_inj [simp]: "reg_u32 r = reg_u32 r' \<longleftrightarrow> r = r'"
  by (metis from_u8_reg option.inject)

lemma reg_u32_less [simp]: "reg_u32 r < 32"
  by (cases r) simp_all

lemma reg_u32_0 [simp]: "reg_u32 r = 0 \<longleftrightarrow> r = X0"
  by (cases r) simp_all

lemma from_u8_Some: "from_u8 v = Some r \<Longrightarrow> v = ucast (reg_u32 r)"
  by (auto simp: from_u8_def split: if_splits)

lemma from_u8_lt: "v < 32 \<Longrightarrow> \<exists>r. from_u8 v = Some r"
proof -
  assume "v < 32"
  then have "unat v \<in> set [0..<32]" by (simp add: word_less_nat_alt)
  then have "of_nat (unat v) \<in> set (map of_nat [0..<32] :: u8 list)" by (simp only: set_map image_eqI)
  then have "v \<in> set (map of_nat [0..<32])" by simp
  then show ?thesis by (auto simp: upt_rec from_u8_def)
qed

lemma of_nat_lt32: "n < 32 \<Longrightarrow> (of_nat n :: u8) < 32" "n < 32 \<Longrightarrow> (of_nat n :: u32) < 32"
  by (simp_all add: word_less_nat_alt unat_of_nat)

lemma ucast_lt32: "(b :: u32) < 32 \<Longrightarrow> (ucast b :: u8) < 32"
  by (simp add: word_less_nat_alt unsigned_ucast_eq take_bit_nat_eq_self)

lemma wf_op_lt:
  "wf_instruction i \<Longrightarrow> op_a i < 32"
  "wf_instruction i \<Longrightarrow> \<not> imm_b i \<Longrightarrow> op_b i < 32"
  "wf_instruction i \<Longrightarrow> \<not> imm_c i \<Longrightarrow> op_c i < 32"
  "wf_instruction i \<Longrightarrow> imm_b i \<Longrightarrow> imm_c i"
  unfolding wf_instruction_def by blast+

lemma wf_not_imm_b:
  "wf_instruction i \<Longrightarrow> opcode i \<in> {LB, LH, LW, LBU, LHU, SB, SH, SW, BEQ, BNE, BLT, BGE, BLTU, BGEU, JALR}
   \<Longrightarrow> \<not> imm_b i"
  unfolding wf_instruction_def by blast

lemma wf_i_type: "wf_instruction i \<Longrightarrow> \<not> imm_b i \<Longrightarrow> \<exists>ra rb. i_type i = Some (ra, rb, op_c i)"
  using from_u8_lt [OF wf_op_lt(1), of i] from_u8_lt [OF ucast_lt32 [OF wf_op_lt(2)], of i]
  by (auto simp: i_type_def)

lemma wf_r_type: "wf_instruction i \<Longrightarrow> \<not> imm_c i \<Longrightarrow> \<exists>ra rb rc. r_type i = Some (ra, rb, rc)"
  using from_u8_lt [OF wf_op_lt(1), of i] from_u8_lt [OF ucast_lt32 [OF wf_op_lt(2)], of i]
    from_u8_lt [OF ucast_lt32 [OF wf_op_lt(3)], of i] wf_op_lt(4) [of i]
  by (cases "imm_b i") (auto simp: r_type_def)

lemma wf_j_type: "wf_instruction i \<Longrightarrow> \<exists>ra. j_type i = Some (ra, op_b i)"
  using from_u8_lt [OF wf_op_lt(1), of i] by (auto simp: j_type_def)

lemmas same_views = s_type_def [folded i_type_def] b_type_def [folded i_type_def]
  u_type_def [folded j_type_def]

lemma process_callback_wf:
  "\<forall>n \<in> set (callback_regs cb). n < 32 \<Longrightarrow> wf_instruction (process_callback cb)"
  by (cases cb) (simp_all add: callback_regs_def wf_instruction_def instr_new_def unimp_def
      from_r_type_def from_i_type_def from_i_type_shamt_def from_s_type_def from_b_type_def of_nat_lt32)

text \<open>
  (C23) Every instruction that the transpiler makes from a decoded RISC-V instruction, whose
  register numbers have five bits, is well formed: its register operands are below 32, and
  its immediate flags are those that the executor's operand decoding expects, so none of its
  conversions to a register can fail.
\<close>

theorem transpiled_wf:
  assumes "\<forall>n \<in> set (callback_regs cb). n < 32"
  shows "wf_instruction (process_callback cb)"
  using assms by (rule process_callback_wf)

theorem transpiled_wf_witness:
  "wf_instruction (process_callback (process_lb \<lparr>i_imm = 4, i_rs1 = 2, i_rd = 31\<rparr>))"
  by (rule transpiled_wf) (simp add: callback_regs_def)

end
