(* ===== verification/SP1_Memory.thy ===== *)
theory SP1_Memory
  imports SP1_Prelude
begin

text \<open>
  The memory of the executor, \<open>crates/core/executor/src/memory.rs\<close>.

  \<open>PagedMemory\<close> is modelled as it is written: a vector of pages and an index from the upper
  part of the compressed address to a page number (\<open>NO_PAGE\<close> for none).  The locale
  \<open>word_store\<close> states what its clients rely on (a map from word addresses to values); it is
  interpreted on the paged memory and on the plain maps that the executor model uses, so
  that every sequence of operations gives the same answers, panics included.
\<close>

section \<open>Paged memory as written\<close>

definition LOG_PAGE_LEN :: nat where "LOG_PAGE_LEN = 14"
definition PAGE_LEN :: nat where "PAGE_LEN = 2 ^ LOG_PAGE_LEN"
definition MAX_PAGE_COUNT :: nat where
  "MAX_PAGE_COUNT = (2 ^ 31 - 2 ^ 27) div 4 div PAGE_LEN + 1"
definition NO_PAGE :: u16 where "NO_PAGE = 65535"
definition PAGE_MASK :: nat where "PAGE_MASK = PAGE_LEN - 1"
definition NUM_IGNORED_LOWER_BITS :: nat where "NUM_IGNORED_LOWER_BITS = 2"

record 'v paged_memory =
  pages :: "'v option list list"
  index :: "u16 list"

definition new_page :: "'v option list" where
  "new_page = replicate PAGE_LEN None"

definition new_preallocated :: "'v paged_memory" where
  "new_preallocated = \<lparr>pages = [], index = replicate MAX_PAGE_COUNT NO_PAGE\<rparr>"

definition compress_addr :: "u32 \<Rightarrow> nat" where
  "compress_addr addr = drop_bit NUM_IGNORED_LOWER_BITS (unat addr)"

definition decompress_addr :: "nat \<Rightarrow> u32" where
  "decompress_addr addr = of_nat (push_bit NUM_IGNORED_LOWER_BITS addr)"

definition indices :: "u32 \<Rightarrow> nat \<times> nat" where
  "indices addr = (let i = compress_addr addr in (drop_bit LOG_PAGE_LEN i, i AND PAGE_MASK))"

definition pm_get :: "'v paged_memory \<Rightarrow> u32 \<Rightarrow> ('e, 'v option) result" where
  "pm_get m addr = (let (upper, lower) = indices addr in
     rbind (vec_get (index m) upper) (\<lambda>ix.
       if ix = NO_PAGE then Inr None
       else rbind (vec_get (pages m) (unat ix)) (\<lambda>pg. vec_get pg lower)))"

definition pm_insert :: "'v paged_memory \<Rightarrow> u32 \<Rightarrow> 'v \<Rightarrow> ('e, 'v option \<times> 'v paged_memory) result" where
  "pm_insert m addr v = (let (upper, lower) = indices addr in
     rbind (vec_get (index m) upper) (\<lambda>ix.
       let (ix, m) = (if ix = NO_PAGE
          then (let n = of_nat (length (pages m)) in
                (n, \<lparr>pages = pages m @ [new_page], index = (index m)[upper := n]\<rparr>))
          else (ix, m))
       in rbind (vec_get (pages m) (unat ix)) (\<lambda>pg.
          rbind (vec_get pg lower) (\<lambda>old.
            Inr (old, m\<lparr>pages := (pages m)[unat ix := pg[lower := Some v]]\<rparr>)))))"

definition pm_remove :: "'v paged_memory \<Rightarrow> u32 \<Rightarrow> ('e, 'v option \<times> 'v paged_memory) result" where
  "pm_remove m addr = (let (upper, lower) = indices addr in
     rbind (vec_get (index m) upper) (\<lambda>ix.
       if ix = NO_PAGE then Inr (None, m)
       else rbind (vec_get (pages m) (unat ix)) (\<lambda>pg.
         rbind (vec_get pg lower) (\<lambda>old.
           Inr (old, m\<lparr>pages := (pages m)[unat ix := pg[lower := None]]\<rparr>)))))"

text \<open>
  \<open>entry\<close> allocates the page if there is none and hands out the slot: \<open>None\<close> is
  \<open>Entry::Vacant\<close>, \<open>Some v\<close> is \<open>Entry::Occupied\<close>.  The combinators \<open>or_insert\<close> and
  \<open>or_insert_with\<close> leave an occupied slot alone.
\<close>

definition pm_entry :: "'v paged_memory \<Rightarrow> u32 \<Rightarrow> ('e, 'v option \<times> 'v paged_memory) result" where
  "pm_entry m addr = (let (upper, lower) = indices addr in
     rbind (vec_get (index m) upper) (\<lambda>ix.
       if ix = NO_PAGE
       then (let n = length (pages m);
                 m' = \<lparr>pages = pages m @ [new_page], index = (index m)[upper := of_nat n]\<rparr>
             in rbind (vec_get (pages m') n) (\<lambda>pg. rbind (vec_get pg lower) (\<lambda>_. Inr (None, m'))))
       else rbind (vec_get (pages m) (unat ix)) (\<lambda>pg.
              rbind (vec_get pg lower) (\<lambda>slot. Inr (slot, m)))))"

definition or_insert :: "'v option \<Rightarrow> 'v \<Rightarrow> 'v option" where
  "or_insert slot d = (case slot of None \<Rightarrow> Some d | Some v \<Rightarrow> Some v)"

definition pm_keys :: "'v paged_memory \<Rightarrow> u32 list" where
  "pm_keys m = concat (map (\<lambda>(i, ix). let upper = push_bit LOG_PAGE_LEN i in
       List.map_filter (\<lambda>(lower, v). map_option (\<lambda>_. decompress_addr (upper + lower)) v)
         (enumerate 0 (pages m ! unat ix)))
     (filter (\<lambda>(i, ix). ix \<noteq> NO_PAGE) (enumerate 0 (index m))))"

definition pm_clear :: "'v paged_memory \<Rightarrow> 'v paged_memory" where
  "pm_clear m = \<lparr>pages = [], index = replicate (length (index m)) NO_PAGE\<rparr>"

fun pm_from_iter :: "(u32 \<times> 'v) list \<Rightarrow> 'v paged_memory \<Rightarrow> ('e, 'v paged_memory) result" where
  "pm_from_iter [] m = Inr m"
| "pm_from_iter ((k, v) # kvs) m = rbind (pm_insert m k v) (\<lambda>(_, m). pm_from_iter kvs m)"

section \<open>The invariant\<close>

text \<open>
  Every page is full length, every used index points to a page of its own, and there is one
  page per used index: so the next page number is below \<open>MAX_PAGE_COUNT\<close>, never collides
  with \<open>NO_PAGE\<close> and survives the cast to \<open>u16\<close>.
\<close>

definition pm_wf :: "'v paged_memory \<Rightarrow> bool" where
  "pm_wf m \<longleftrightarrow> length (index m) = MAX_PAGE_COUNT
     \<and> (\<forall>pg \<in> set (pages m). length pg = PAGE_LEN)
     \<and> (\<forall>i < MAX_PAGE_COUNT. index m ! i \<noteq> NO_PAGE \<longrightarrow> unat (index m ! i) < length (pages m))
     \<and> (\<forall>i < MAX_PAGE_COUNT. \<forall>j < MAX_PAGE_COUNT. i \<noteq> j \<longrightarrow> index m ! i \<noteq> NO_PAGE
          \<longrightarrow> index m ! i \<noteq> index m ! j)
     \<and> length (pages m) = length (filter (\<lambda>ix. ix \<noteq> NO_PAGE) (index m))"

definition in_range :: "u32 \<Rightarrow> bool" where
  "in_range addr \<longleftrightarrow> unat addr div 4 < MAX_PAGE_COUNT * PAGE_LEN"

text \<open>The map a paged memory stands for, on word-aligned addresses.\<close>

definition pm_view :: "'v paged_memory \<Rightarrow> u32 \<Rightarrow> 'v option" where
  "pm_view m a = (let (upper, lower) = indices a in
     if word_aligned a \<and> in_range a \<and> index m ! upper \<noteq> NO_PAGE
     then pages m ! unat (index m ! upper) ! lower else None)"

lemma const_simps [simp]: "PAGE_LEN = 16384" "MAX_PAGE_COUNT = 30721"
  by (simp_all add: PAGE_LEN_def MAX_PAGE_COUNT_def LOG_PAGE_LEN_def)

lemma indices_eq: "indices a = (unat a div 4 div 16384, unat a div 4 mod 16384)"
proof -
  have "x AND PAGE_MASK = x mod 16384" for x
    using take_bit_eq_mask [of 14 x] by (simp add: PAGE_MASK_def mask_eq_exp_minus_1 take_bit_eq_mod)
  then show ?thesis
    by (simp add: indices_def compress_addr_def NUM_IGNORED_LOWER_BITS_def LOG_PAGE_LEN_def
        drop_bit_eq_div Let_def)
qed

lemma in_range_upper: "in_range a \<longleftrightarrow> unat a div 4 div 16384 < 30721"
  by (simp add: in_range_def div_less_iff_less_mult)

lemma in_range_align [simp]: "in_range (align a) = in_range a"
  by (simp add: in_range_def unat_align)

lemma indices_align [simp]: "indices (align a) = indices a"
  by (simp add: indices_eq unat_align)

lemma indices_inj: "align a = align b \<longleftrightarrow> indices a = indices b"
  by (auto simp: align_eq_iff indices_eq) (metis div_mult_mod_eq)

lemma decompress_compress: "decompress_addr (compress_addr a) = align a"
  unfolding of_nat_unat_align [symmetric]
  by (simp only: decompress_addr_def compress_addr_def NUM_IGNORED_LOWER_BITS_def push_bit_eq_mult
      drop_bit_eq_div) simp

lemma pm_wfD:
  assumes "pm_wf m"
  shows "length (index m) = 30721"
    and "\<And>pg. pg \<in> set (pages m) \<Longrightarrow> length pg = 16384"
    and "\<And>i. i < 30721 \<Longrightarrow> index m ! i \<noteq> NO_PAGE \<Longrightarrow> unat (index m ! i) < length (pages m)"
    and "\<And>i j. i < 30721 \<Longrightarrow> j < 30721 \<Longrightarrow> index m ! i \<noteq> NO_PAGE \<Longrightarrow> index m ! i = index m ! j \<Longrightarrow> i = j"
    and "length (pages m) = length (filter (\<lambda>ix. ix \<noteq> NO_PAGE) (index m))"
  using assms unfolding pm_wf_def const_simps by metis+

lemma pm_wf_page_length:
  "pm_wf m \<Longrightarrow> i < 30721 \<Longrightarrow> index m ! i \<noteq> NO_PAGE \<Longrightarrow> length (pages m ! unat (index m ! i)) = 16384"
  using pm_wfD(2,3) by (metis nth_mem)

text \<open>A free index leaves room for one more page number below \<open>NO_PAGE\<close>.\<close>

lemma pm_wf_free:
  assumes "pm_wf m" and "i < 30721" and "index m ! i = NO_PAGE"
  shows "length (pages m) < 30721" and "unat (of_nat (length (pages m)) :: u16) = length (pages m)"
    and "(of_nat (length (pages m)) :: u16) \<noteq> NO_PAGE"
proof -
  have "length (filter (\<lambda>ix. ix \<noteq> NO_PAGE) (index m)) < length (index m)"
    using assms pm_wfD(1) [OF assms(1)] by (intro length_filter_less [of NO_PAGE]) (auto simp: in_set_conv_nth)
  then show l: "length (pages m) < 30721" using pm_wfD(1,5) [OF assms(1)] by simp
  then show u: "unat (of_nat (length (pages m)) :: u16) = length (pages m)"
    by (simp add: unat_of_nat)
  show "(of_nat (length (pages m)) :: u16) \<noteq> NO_PAGE"
  proof
    assume "(of_nat (length (pages m)) :: u16) = NO_PAGE"
    then have "length (pages m) = unat NO_PAGE" using u by simp
    then show False using l by (simp add: NO_PAGE_def)
  qed
qed

lemma pm_wf_new [simp]: "pm_wf new_preallocated"
  by (simp add: pm_wf_def new_preallocated_def)

lemma pm_view_new [simp]: "pm_view new_preallocated = Map.empty"
  by (rule ext) (auto simp: pm_view_def new_preallocated_def Let_def indices_eq in_range_upper)

section \<open>Operations against the view\<close>

text \<open>Allocating the page of an address: no change of the view.\<close>

definition pm_alloc :: "'v paged_memory \<Rightarrow> u32 \<Rightarrow> 'v paged_memory" where
  "pm_alloc m a = (let upper = fst (indices a) in
     if index m ! upper = NO_PAGE
     then \<lparr>pages = pages m @ [new_page], index = (index m)[upper := of_nat (length (pages m))]\<rparr>
     else m)"

lemma filter_update_free:
  assumes "i < length xs" and "\<not> P (xs ! i)" and "P y"
  shows "length (filter P (xs[i := y])) = Suc (length (filter P xs))"
  using assms by (subst (2) id_take_nth_drop [OF assms(1)]) (simp add: upd_conv_take_nth_drop)

lemma pm_alloc_wf:
  assumes "pm_wf m" and "in_range a"
  shows "pm_wf (pm_alloc m a)" and "index (pm_alloc m a) ! fst (indices a) \<noteq> NO_PAGE"
    and "pm_view (pm_alloc m a) = pm_view m"
proof -
  let ?u = "fst (indices a)"
  have u: "?u < 30721" using assms(2) by (simp add: in_range_upper indices_eq)
  note wf = pm_wfD [OF assms(1)] and free = pm_wf_free [OF assms(1) u]
  show "pm_wf (pm_alloc m a)"
  proof (cases "index m ! ?u = NO_PAGE")
    case True
    have old: "unat (index m ! i) < length (pages m)" "index m ! i \<noteq> of_nat (length (pages m))"
      if "i < 30721" "index m ! i \<noteq> NO_PAGE" for i
      using wf(3) [OF that] free(2) [OF True] by auto
    show ?thesis unfolding pm_wf_def const_simps
      using True wf u free [OF True] old
      by (auto simp: pm_alloc_def Let_def new_page_def nth_list_update filter_update_free less_Suc_eq) blast
  qed (simp add: pm_alloc_def assms)
  show "index (pm_alloc m a) ! ?u \<noteq> NO_PAGE"
    using free(3) u wf(1) by (auto simp: pm_alloc_def Let_def)
  show "pm_view (pm_alloc m a) = pm_view m"
    using free u wf(1,3) by (auto simp: fun_eq_iff pm_view_def pm_alloc_def Let_def nth_append
        nth_list_update in_range_upper indices_eq new_page_def)
qed

text \<open>Writing a slot of an allocated page.\<close>

definition pm_put :: "'v paged_memory \<Rightarrow> u32 \<Rightarrow> 'v option \<Rightarrow> 'v paged_memory" where
  "pm_put m a v = (let (upper, lower) = indices a; ix = unat (index m ! upper) in
     m\<lparr>pages := (pages m)[ix := (pages m ! ix)[lower := v]]\<rparr>)"

lemma pm_put_wf:
  assumes "pm_wf m" and "in_range a" and "index m ! fst (indices a) \<noteq> NO_PAGE"
  shows "pm_wf (pm_put m a v)" and "pm_view (pm_put m a v) = (pm_view m)(align a := v)"
proof -
  obtain u l where ul: "indices a = (u, l)" by (cases "indices a")
  have u: "u < 30721" and l: "l < 16384" using assms(2) ul by (auto simp: in_range_upper indices_eq)
  let ?i = "unat (index m ! u)"
  note wf = pm_wfD [OF assms(1)]
  have ix: "index m ! u \<noteq> NO_PAGE" using assms(3) ul by simp
  have i: "?i < length (pages m)" and len: "length (pages m ! ?i) = 16384"
    using wf(3) [OF u ix] pm_wf_page_length [OF assms(1) u ix] by auto
  show "pm_wf (pm_put m a v)" unfolding pm_wf_def const_simps
    using wf len by (auto simp: pm_put_def Let_def ul dest!: set_update_subset_insert [THEN subsetD])
  have neq: "unat (index m ! fst (indices b)) \<noteq> ?i"
    if "in_range b" "index m ! fst (indices b) \<noteq> NO_PAGE" "fst (indices b) \<noteq> u" for b
    using wf(4) [of "fst (indices b)" u] that u by (simp add: in_range_upper indices_eq) (metis word_unat_eq_iff)
  show "pm_view (pm_put m a v) = (pm_view m)(align a := v)"
  proof
    fix b
    obtain u' l' where ul': "indices b = (u', l')" by (cases "indices b")
    have ab: "word_aligned b \<Longrightarrow> b = align a \<longleftrightarrow> u' = u \<and> l' = l"
      using indices_inj [of b a] ul ul' by (auto simp: align_aligned)
    show "pm_view (pm_put m a v) b = ((pm_view m)(align a := v)) b"
    proof (cases "b = align a")
      case True
      show ?thesis unfolding True using i len l ix assms(2)
        by (simp add: pm_view_def pm_put_def Let_def ul)
    next
      case False
      have "pm_view (pm_put m a v) b = pm_view m b"
      proof (cases "word_aligned b \<and> in_range b \<and> index m ! u' \<noteq> NO_PAGE")
        case True
        show ?thesis
        proof (cases "u' = u")
          case u': True
          then have "l' \<noteq> l" using ab True False by blast
          then show ?thesis using True u' i by (simp add: pm_view_def pm_put_def Let_def ul ul')
        next
          case u': False
          then show ?thesis using True neq [of b] by (simp add: pm_view_def pm_put_def Let_def ul ul')
        qed
      next
        case False
        then show ?thesis by (auto simp: pm_view_def pm_put_def Let_def ul ul')
      qed
      then show ?thesis using False by simp
    qed
  qed
qed

lemma pm_slot:
  assumes "pm_wf m" and "in_range a" and "index m ! fst (indices a) \<noteq> NO_PAGE"
  shows "pages m ! unat (index m ! fst (indices a)) ! snd (indices a) = pm_view m (align a)"
  using assms by (simp add: pm_view_def Let_def split_beta)

text \<open>The source operations in terms of allocation, slot writes and the view.\<close>

lemma pm_get_view:
  assumes "pm_wf m"
  shows "pm_get m a = (if in_range a then Inr (pm_view m (align a)) else Inl Panic)"
proof -
  obtain u l where ul: "indices a = (u, l)" by (cases "indices a")
  have u: "in_range a = (u < 30721)" and l: "l < 16384" using ul by (auto simp: in_range_upper indices_eq)
  show ?thesis using u ul l pm_wfD(1,3) [OF assms] pm_wf_page_length [OF assms]
    by (auto simp: pm_get_def pm_view_def Let_def vec_get_def)
qed

lemma pm_insert_eq:
  assumes "pm_wf m"
  shows "pm_insert m a v = (if in_range a
    then Inr (pm_view m (align a), pm_put (pm_alloc m a) a (Some v)) else Inl Panic)"
proof (cases "in_range a")
  case True
  obtain u l where ul: "indices a = (u, l)" by (cases "indices a")
  have u: "u < 30721" and l: "l < 16384" using True ul by (auto simp: in_range_upper indices_eq)
  note wf = pm_wfD [OF assms] and al = pm_alloc_wf [OF assms True] and free = pm_wf_free [OF assms u]
  show ?thesis
  proof (cases "index m ! u = NO_PAGE")
    case True
    then show ?thesis using \<open>in_range a\<close> ul u l wf(1) free [OF True]
      by (auto simp: pm_insert_def Let_def pm_alloc_def pm_put_def new_page_def pm_view_def list_update_append)
  next
    case False
    then show ?thesis using \<open>in_range a\<close> ul u l wf(1,3) pm_wf_page_length [OF assms u False]
      by (auto simp: pm_insert_def Let_def pm_alloc_def pm_put_def pm_view_def)
  qed
next
  case False
  then show ?thesis using pm_wfD(1) [OF assms]
    by (simp add: pm_insert_def Let_def indices_eq in_range_upper vec_get_def)
qed

lemma pm_remove_eq:
  assumes "pm_wf m"
  shows "pm_remove m a = (if in_range a
    then Inr (pm_view m (align a), if index m ! fst (indices a) = NO_PAGE then m else pm_put m a None)
    else Inl Panic)"
proof -
  obtain u l where ul: "indices a = (u, l)" by (cases "indices a")
  have u: "in_range a = (u < 30721)" and l: "l < 16384" using ul by (auto simp: in_range_upper indices_eq)
  show ?thesis using u ul l pm_wfD(1,3) [OF assms] pm_wf_page_length [OF assms]
    by (auto simp: pm_remove_def pm_put_def pm_view_def Let_def vec_get_def)
qed

lemma pm_entry_eq:
  assumes "pm_wf m"
  shows "pm_entry m a = (if in_range a then Inr (pm_view m (align a), pm_alloc m a) else Inl Panic)"
proof -
  obtain u l where ul: "indices a = (u, l)" by (cases "indices a")
  have u: "in_range a = (u < 30721)" and l: "l < 16384" using ul by (auto simp: in_range_upper indices_eq)
  show ?thesis using u ul l pm_wfD(1,3) [OF assms] pm_wf_page_length [OF assms]
    by (auto simp: pm_entry_def pm_alloc_def pm_view_def Let_def vec_get_def new_page_def)
qed

section \<open>The page table as a map\<close>

text \<open>
  What the executor model uses for \<open>PagedMemory\<close>: a map on word-aligned addresses.  An
  address whose page number is not below \<open>MAX_PAGE_COUNT\<close> is an index out of bounds.
\<close>

type_synonym 'v page_map = "u32 \<rightharpoonup> 'v"

definition pt_get :: "'v page_map \<Rightarrow> u32 \<Rightarrow> ('e, 'v option) result" where
  "pt_get t a = (if in_range a then Inr (t (align a)) else Inl Panic)"

definition pt_insert :: "'v page_map \<Rightarrow> u32 \<Rightarrow> 'v \<Rightarrow> ('e, 'v option \<times> 'v page_map) result" where
  "pt_insert t a v = (if in_range a then Inr (t (align a), t(align a \<mapsto> v)) else Inl Panic)"

definition pt_remove :: "'v page_map \<Rightarrow> u32 \<Rightarrow> ('e, 'v option \<times> 'v page_map) result" where
  "pt_remove t a = (if in_range a then Inr (t (align a), t(align a := None)) else Inl Panic)"

lemma pt_in [simp]:
  "in_range a \<Longrightarrow> pt_get t a = Inr (t (align a))"
  "in_range a \<Longrightarrow> pt_insert t a v = Inr (t (align a), t(align a \<mapsto> v))"
  "in_range a \<Longrightarrow> pt_remove t a = Inr (t (align a), t(align a := None))"
  by (simp_all add: pt_get_def pt_insert_def pt_remove_def)

lemma pt_out [simp]:
  "\<not> in_range a \<Longrightarrow> pt_get t a = Inl Panic"
  "\<not> in_range a \<Longrightarrow> pt_insert t a v = Inl Panic"
  "\<not> in_range a \<Longrightarrow> pt_remove t a = Inl Panic"
  by (simp_all add: pt_get_def pt_insert_def pt_remove_def)

text \<open>Sequences of operations and what a client observes of them.\<close>

datatype 'v store_op = Op_get u32 | Op_insert u32 'v | Op_remove u32

fun run_ops :: "('m \<Rightarrow> u32 \<Rightarrow> ('e, 'v option) result)
    \<Rightarrow> ('m \<Rightarrow> u32 \<Rightarrow> 'v \<Rightarrow> ('e, 'v option \<times> 'm) result)
    \<Rightarrow> ('m \<Rightarrow> u32 \<Rightarrow> ('e, 'v option \<times> 'm) result)
    \<Rightarrow> 'm \<Rightarrow> 'v store_op list \<Rightarrow> ('e, 'v option list) result" where
  "run_ops g i r m [] = Inr []"
| "run_ops g i r m (Op_get a # ops) =
     rbind (g m a) (\<lambda>x. rbind (run_ops g i r m ops) (\<lambda>xs. Inr (x # xs)))"
| "run_ops g i r m (Op_insert a v # ops) =
     rbind (i m a v) (\<lambda>(x, m). rbind (run_ops g i r m ops) (\<lambda>xs. Inr (x # xs)))"
| "run_ops g i r m (Op_remove a # ops) =
     rbind (r m a) (\<lambda>(x, m). rbind (run_ops g i r m ops) (\<lambda>xs. Inr (x # xs)))"

text \<open>The contract of a word-addressed store.\<close>

locale word_store =
  fixes invar :: "'m \<Rightarrow> bool"
    and view :: "'m \<Rightarrow> u32 \<Rightarrow> 'v option"
    and fresh :: 'm
    and get :: "'m \<Rightarrow> u32 \<Rightarrow> ('e, 'v option) result"
    and ins :: "'m \<Rightarrow> u32 \<Rightarrow> 'v \<Rightarrow> ('e, 'v option \<times> 'm) result"
    and rem :: "'m \<Rightarrow> u32 \<Rightarrow> ('e, 'v option \<times> 'm) result"
  assumes invar_fresh: "invar fresh"
    and view_fresh: "view fresh = Map.empty"
    and get_view: "invar m \<Longrightarrow> get m a = pt_get (view m) a"
    and ins_view: "invar m \<Longrightarrow> in_range a \<Longrightarrow>
          \<exists>m'. ins m a v = Inr (view m (align a), m') \<and> invar m' \<and> view m' = (view m)(align a \<mapsto> v)"
    and rem_view: "invar m \<Longrightarrow> in_range a \<Longrightarrow>
          \<exists>m'. rem m a = Inr (view m (align a), m') \<and> invar m' \<and> view m' = (view m)(align a := None)"
    and ins_out: "invar m \<Longrightarrow> \<not> in_range a \<Longrightarrow> ins m a v = Inl Panic"
    and rem_out: "invar m \<Longrightarrow> \<not> in_range a \<Longrightarrow> rem m a = Inl Panic"
begin

lemma get_ins:
  assumes "invar m" and "ins m a v = Inr (old, m')"
  shows "get m' b = (if in_range b then Inr (if align b = align a then Some v else view m (align b)) else Inl Panic)"
proof -
  have "in_range a" using assms ins_out by fastforce
  then show ?thesis using ins_view [OF assms(1), of a v] assms by (auto simp: get_view pt_get_def)
qed

lemma get_rem:
  assumes "invar m" and "rem m a = Inr (old, m')"
  shows "get m' b = (if in_range b then Inr (if align b = align a then None else view m (align b)) else Inl Panic)"
proof -
  have "in_range a" using assms rem_out by fastforce
  then show ?thesis using rem_view [OF assms(1), of a] assms by (auto simp: get_view pt_get_def)
qed

lemma run_ops_view: "invar m \<Longrightarrow> run_ops get ins rem m ops = run_ops pt_get pt_insert pt_remove (view m) ops"
proof (induction ops arbitrary: m)
  case (Cons op ops)
  show ?case
  proof (cases op)
    case (Op_insert a v)
    then show ?thesis using Cons ins_view [of m a v] ins_out [of m a v]
      by (cases "in_range a") (auto simp del: fun_upd_apply)
  next
    case (Op_remove a)
    then show ?thesis using Cons rem_view [of m a] rem_out [of m a]
      by (cases "in_range a") (auto simp del: fun_upd_apply)
  qed (use Cons get_view in auto)
qed simp

lemma run_ops_fresh: "run_ops get ins rem fresh ops = run_ops pt_get pt_insert pt_remove Map.empty ops"
  using run_ops_view [OF invar_fresh] by (simp add: view_fresh)

end

lemma pm_remove_free_view:
  "pm_wf m \<Longrightarrow> in_range a \<Longrightarrow> index m ! fst (indices a) = NO_PAGE \<Longrightarrow> pm_view m (align a) = None"
  by (simp add: pm_view_def Let_def split_beta)

interpretation paged: word_store pm_wf pm_view new_preallocated pm_get pm_insert pm_remove
proof
  fix m :: "'v paged_memory" and a
  assume m: "pm_wf m"
  show "pm_get m a = pt_get (pm_view m) a"
    using m by (simp add: pm_get_view pt_get_def)
  show "\<exists>m'. pm_insert m a v = Inr (pm_view m (align a), m') \<and> pm_wf m' \<and> pm_view m' = (pm_view m)(align a \<mapsto> v)"
    if "in_range a" for v
    using m that pm_alloc_wf [OF m that] pm_put_wf [OF pm_alloc_wf(1) [OF m that] that pm_alloc_wf(2) [OF m that]]
    by (simp add: pm_insert_eq)
  show "\<exists>m'. pm_remove m a = Inr (pm_view m (align a), m') \<and> pm_wf m' \<and> pm_view m' = (pm_view m)(align a := None)"
    if "in_range a"
    using m that pm_put_wf [OF m that] pm_remove_free_view [OF m that]
    by (simp add: pm_remove_eq fun_upd_idem)
  show "\<not> in_range a \<Longrightarrow> pm_insert m a v = Inl Panic" for v using m by (simp add: pm_insert_eq)
  show "\<not> in_range a \<Longrightarrow> pm_remove m a = Inl Panic" using m by (simp add: pm_remove_eq)
qed simp_all

interpretation mapped: word_store "\<lambda>_. True" "\<lambda>t. t" Map.empty pt_get pt_insert pt_remove
  by unfold_locales (simp_all add: pt_insert_def pt_remove_def)

section \<open>The keys\<close>

lemma indices_decompress:
  assumes "u < 30721" and "l < 16384"
  shows "indices (decompress_addr (push_bit LOG_PAGE_LEN u + l)) = (u, l)"
    and "word_aligned (decompress_addr (push_bit LOG_PAGE_LEN u + l))"
proof -
  let ?n = "push_bit LOG_PAGE_LEN u + l"
  have n: "?n = u * 16384 + l" by (simp add: push_bit_eq_mult LOG_PAGE_LEN_def)
  have "4 * ?n < 2 ^ 32" using assms n by simp
  then have d: "unat (decompress_addr ?n) = 4 * ?n"
    by (simp add: decompress_addr_def NUM_IGNORED_LOWER_BITS_def push_bit_eq_mult unat_of_nat mult.commute
        del: of_nat_add of_nat_mult)
  show "indices (decompress_addr ?n) = (u, l)" using assms unfolding indices_eq d by (simp add: n)
  show "word_aligned (decompress_addr ?n)"
    unfolding word_aligned_def word_unat_eq_iff unat_mod d by simp
qed

lemma pm_keys_iff:
  "a \<in> set (pm_keys m) \<longleftrightarrow> (\<exists>u < length (index m). \<exists>l < length (pages m ! unat (index m ! u)).
     index m ! u \<noteq> NO_PAGE \<and> pages m ! unat (index m ! u) ! l \<noteq> None
     \<and> a = decompress_addr (push_bit LOG_PAGE_LEN u + l))"
  by (fastforce simp: pm_keys_def map_filter_def in_set_enumerate_eq Let_def image_iff)

lemma set_pm_keys:
  assumes "pm_wf m"
  shows "set (pm_keys m) = {a. pm_view m a \<noteq> None}"
proof (intro set_eqI iffI)
  fix a assume "a \<in> set (pm_keys m)"
  then obtain u l where u: "u < 30721" and l: "l < 16384" and ix: "index m ! u \<noteq> NO_PAGE"
    and v: "pages m ! unat (index m ! u) ! l \<noteq> None"
    and a: "a = decompress_addr (push_bit LOG_PAGE_LEN u + l)"
    using pm_wfD(1) [OF assms] pm_wf_page_length [OF assms] by (auto simp: pm_keys_iff)
  have "indices a = (u, l)" "word_aligned a" using indices_decompress [OF u l] a by auto
  moreover from this have "in_range a" using u by (simp add: in_range_upper indices_eq)
  ultimately show "a \<in> {a. pm_view m a \<noteq> None}" using ix v by (simp add: pm_view_def)
next
  fix a assume "a \<in> {a. pm_view m a \<noteq> None}"
  then have al: "word_aligned a" and r: "in_range a" and ix: "index m ! fst (indices a) \<noteq> NO_PAGE"
    and v: "pages m ! unat (index m ! fst (indices a)) ! snd (indices a) \<noteq> None"
    by (auto simp: pm_view_def Let_def split_beta split: if_splits)
  have u: "fst (indices a) < 30721" and l: "snd (indices a) < 16384"
    using r by (auto simp: in_range_upper indices_eq)
  have "push_bit LOG_PAGE_LEN (fst (indices a)) + snd (indices a) = compress_addr a"
    by (simp add: indices_eq compress_addr_def NUM_IGNORED_LOWER_BITS_def push_bit_eq_mult LOG_PAGE_LEN_def
        drop_bit_eq_div)
  then have "a = decompress_addr (push_bit LOG_PAGE_LEN (fst (indices a)) + snd (indices a))"
    using decompress_compress [of a] al by (simp add: align_aligned)
  then show "a \<in> set (pm_keys m)" unfolding pm_keys_iff
    using u l ix v pm_wfD(1) [OF assms] pm_wf_page_length [OF assms u ix]
    by (intro exI [of _ "fst (indices a)"] conjI exI [of _ "snd (indices a)"]) simp_all
qed

section \<open>Registers and page table together\<close>

text \<open>
  \<open>Memory<T>\<close>: an array of 32 registers (a map on the numbers below 32; a \<open>Register\<close> always
  is) and the page table.
\<close>

record 'v memory =
  registers :: "u32 \<rightharpoonup> 'v"
  page_table :: "'v page_map"

definition mem_empty :: "'v memory" where
  "mem_empty = \<lparr>registers = Map.empty, page_table = Map.empty\<rparr>"

definition mem_get :: "'v memory \<Rightarrow> u32 \<Rightarrow> ('e, 'v option) result" where
  "mem_get m addr = (if addr < 32 then Inr (registers m addr) else pt_get (page_table m) addr)"

definition mem_insert :: "'v memory \<Rightarrow> u32 \<Rightarrow> 'v \<Rightarrow> ('e, 'v memory) result" where
  "mem_insert m addr v =
     (if addr < 32 then Inr (m\<lparr>registers := (registers m)(addr \<mapsto> v)\<rparr>)
      else rbind (pt_insert (page_table m) addr v) (\<lambda>(_, t). Inr (m\<lparr>page_table := t\<rparr>)))"

definition mem_remove :: "'v memory \<Rightarrow> u32 \<Rightarrow> ('e, 'v memory) result" where
  "mem_remove m addr =
     (if addr < 32 then Inr (m\<lparr>registers := (registers m)(addr := None)\<rparr>)
      else rbind (pt_remove (page_table m) addr) (\<lambda>(_, t). Inr (m\<lparr>page_table := t\<rparr>)))"

text \<open>\<open>entry(addr).or_insert(v)\<close>.\<close>

definition mem_entry_or_insert :: "'v memory \<Rightarrow> u32 \<Rightarrow> 'v \<Rightarrow> ('e, 'v memory) result" where
  "mem_entry_or_insert m addr v =
     rbind (mem_get m addr) (\<lambda>slot. case slot of None \<Rightarrow> mem_insert m addr v | Some _ \<Rightarrow> Inr m)"

section \<open>The paged memory implements the map\<close>

text \<open>
  (C18) The paged memory (a table of pages behind an index of page numbers) behaves as a map
  from words to values: any sequence of \<open>get\<close>, \<open>insert\<close> and \<open>remove\<close> on a new one gives, call
  by call, the results it gives on the empty map, a panic at the first address out of range
  included.
\<close>

theorem paged_memory_refines_map:
  "run_ops pm_get pm_insert pm_remove new_preallocated ops = run_ops pt_get pt_insert pt_remove Map.empty ops"
  by (rule paged.run_ops_fresh)

text \<open>
  (C22) \<open>keys\<close> lists exactly the addresses that hold a value, as aligned addresses, whatever
  pages they are on.
\<close>

theorem pm_keys_complete:
  assumes "pm_wf m"
  shows "a \<in> set (pm_keys m) \<longleftrightarrow> word_aligned a \<and> (pm_get m a :: ('e, 'v option) result) \<notin> {Inl Panic, Inr None}"
proof -
  have g: "(pm_get m a :: ('e, 'v option) result) = pt_get (pm_view m) a" by (rule paged.get_view [OF assms])
  have "a \<in> set (pm_keys m) \<longleftrightarrow> pm_view m a \<noteq> None" using set_pm_keys [OF assms] by simp
  also have "\<dots> \<longleftrightarrow> word_aligned a \<and> (pm_get m a :: ('e, 'v option) result) \<notin> {Inl Panic, Inr None}"
  proof (cases "word_aligned a \<and> in_range a")
    case True
    then show ?thesis unfolding g by (simp add: align_aligned)
  next
    case False
    then have "pm_view m a = None" by (auto simp: pm_view_def)
    moreover have "word_aligned a \<Longrightarrow> pt_get (pm_view m) a = (Inl Panic :: ('e, 'v option) result)"
      using False by simp
    ultimately show ?thesis unfolding g by auto
  qed
  finally show ?thesis .
qed

theorem pm_keys_complete_witness:
  "\<exists>m. pm_insert new_preallocated 4096 7 = (Inr (None, m) :: (unit, nat option \<times> nat paged_memory) result) \<and> 4096 \<in> set (pm_keys m)"
proof -
  have r: "in_range 4096" by (simp add: in_range_def)
  have al: "align 4096 = (4096 :: u32)" by (simp add: align_def)
  obtain m where m: "pm_insert new_preallocated 4096 7 = (Inr (None, m) :: (unit, nat option \<times> nat paged_memory) result)"
    and wf: "pm_wf m" and v: "pm_view m = [4096 \<mapsto> 7]"
    using paged.ins_view [OF pm_wf_new r, of 7] by (auto simp: al)
  have "(pm_get m 4096 :: (unit, nat option) result) = Inr (Some 7)"
    by (simp add: paged.get_view [OF wf] pt_get_def r v al)
  with pm_keys_complete [OF wf, of 4096, where ?'e = unit] m show ?thesis by (auto simp: word_aligned_def)
qed

end
