(* ===== verification/SP1_Syscall_Code.thy ===== *)
theory SP1_Syscall_Code
  imports SP1_Prelude
begin

text \<open>
  Syscall numbers, \<open>crates/core/executor/src/syscalls/code.rs\<close>: byte 0 of a number is the
  syscall id, byte 1 says whether the core sends it to a table of its own, byte 2 is the
  number of extra cycles.
\<close>

datatype (plugins only: code) syscall_code =
    HALT
  | WRITE
  | ENTER_UNCONSTRAINED
  | EXIT_UNCONSTRAINED
  | SHA_EXTEND
  | SHA_COMPRESS
  | ED_ADD
  | ED_DECOMPRESS
  | KECCAK_PERMUTE
  | SECP256K1_ADD
  | SECP256K1_DOUBLE
  | SECP256K1_DECOMPRESS
  | BN254_ADD
  | BN254_DOUBLE
  | COMMIT
  | COMMIT_DEFERRED_PROOFS
  | VERIFY_SP1_PROOF
  | BLS12381_DECOMPRESS
  | HINT_LEN
  | HINT_READ
  | UINT256_MUL
  | U256XU2048_MUL
  | BLS12381_ADD
  | BLS12381_DOUBLE
  | BLS12381_FP_ADD
  | BLS12381_FP_SUB
  | BLS12381_FP_MUL
  | BLS12381_FP2_ADD
  | BLS12381_FP2_SUB
  | BLS12381_FP2_MUL
  | BN254_FP_ADD
  | BN254_FP_SUB
  | BN254_FP_MUL
  | BN254_FP2_ADD
  | BN254_FP2_SUB
  | BN254_FP2_MUL
  | SECP256R1_ADD
  | SECP256R1_DOUBLE
  | SECP256R1_DECOMPRESS

primrec code_u32 :: "syscall_code \<Rightarrow> u32" where
  "code_u32 HALT = 0x00000000"
| "code_u32 WRITE = 0x00000002"
| "code_u32 ENTER_UNCONSTRAINED = 0x00000003"
| "code_u32 EXIT_UNCONSTRAINED = 0x00000004"
| "code_u32 SHA_EXTEND = 0x00300105"
| "code_u32 SHA_COMPRESS = 0x00010106"
| "code_u32 ED_ADD = 0x00010107"
| "code_u32 ED_DECOMPRESS = 0x00000108"
| "code_u32 KECCAK_PERMUTE = 0x00010109"
| "code_u32 SECP256K1_ADD = 0x0001010A"
| "code_u32 SECP256K1_DOUBLE = 0x0000010B"
| "code_u32 SECP256K1_DECOMPRESS = 0x0000010C"
| "code_u32 BN254_ADD = 0x0001010E"
| "code_u32 BN254_DOUBLE = 0x0000010F"
| "code_u32 COMMIT = 0x00000010"
| "code_u32 COMMIT_DEFERRED_PROOFS = 0x0000001A"
| "code_u32 VERIFY_SP1_PROOF = 0x0000001B"
| "code_u32 BLS12381_DECOMPRESS = 0x0000011C"
| "code_u32 HINT_LEN = 0x000000F0"
| "code_u32 HINT_READ = 0x000000F1"
| "code_u32 UINT256_MUL = 0x0001011D"
| "code_u32 U256XU2048_MUL = 0x0001012F"
| "code_u32 BLS12381_ADD = 0x0001011E"
| "code_u32 BLS12381_DOUBLE = 0x0000011F"
| "code_u32 BLS12381_FP_ADD = 0x00010120"
| "code_u32 BLS12381_FP_SUB = 0x00010121"
| "code_u32 BLS12381_FP_MUL = 0x00010122"
| "code_u32 BLS12381_FP2_ADD = 0x00010123"
| "code_u32 BLS12381_FP2_SUB = 0x00010124"
| "code_u32 BLS12381_FP2_MUL = 0x00010125"
| "code_u32 BN254_FP_ADD = 0x00010126"
| "code_u32 BN254_FP_SUB = 0x00010127"
| "code_u32 BN254_FP_MUL = 0x00010128"
| "code_u32 BN254_FP2_ADD = 0x00010129"
| "code_u32 BN254_FP2_SUB = 0x0001012A"
| "code_u32 BN254_FP2_MUL = 0x0001012B"
| "code_u32 SECP256R1_ADD = 0x0001012C"
| "code_u32 SECP256R1_DOUBLE = 0x0000012D"
| "code_u32 SECP256R1_DECOMPRESS = 0x0000012E"

text \<open>\<open>SyscallCode::from_u32\<close>; \<open>None\<close> is the panic on an unknown number.\<close>

definition from_u32 :: "u32 \<Rightarrow> syscall_code option" where
  "from_u32 v =
    (if v = 0x00000000 then Some HALT
     else if v = 0x00000002 then Some WRITE
     else if v = 0x00000003 then Some ENTER_UNCONSTRAINED
     else if v = 0x00000004 then Some EXIT_UNCONSTRAINED
     else if v = 0x00300105 then Some SHA_EXTEND
     else if v = 0x00010106 then Some SHA_COMPRESS
     else if v = 0x00010107 then Some ED_ADD
     else if v = 0x00000108 then Some ED_DECOMPRESS
     else if v = 0x00010109 then Some KECCAK_PERMUTE
     else if v = 0x0001010A then Some SECP256K1_ADD
     else if v = 0x0000010B then Some SECP256K1_DOUBLE
     else if v = 0x0000010C then Some SECP256K1_DECOMPRESS
     else if v = 0x0001010E then Some BN254_ADD
     else if v = 0x0000010F then Some BN254_DOUBLE
     else if v = 0x0001011E then Some BLS12381_ADD
     else if v = 0x0000011F then Some BLS12381_DOUBLE
     else if v = 0x00000010 then Some COMMIT
     else if v = 0x0000001A then Some COMMIT_DEFERRED_PROOFS
     else if v = 0x0000001B then Some VERIFY_SP1_PROOF
     else if v = 0x000000F0 then Some HINT_LEN
     else if v = 0x000000F1 then Some HINT_READ
     else if v = 0x0001011D then Some UINT256_MUL
     else if v = 0x0001012F then Some U256XU2048_MUL
     else if v = 0x00010120 then Some BLS12381_FP_ADD
     else if v = 0x00010121 then Some BLS12381_FP_SUB
     else if v = 0x00010122 then Some BLS12381_FP_MUL
     else if v = 0x00010123 then Some BLS12381_FP2_ADD
     else if v = 0x00010124 then Some BLS12381_FP2_SUB
     else if v = 0x00010125 then Some BLS12381_FP2_MUL
     else if v = 0x00010126 then Some BN254_FP_ADD
     else if v = 0x00010127 then Some BN254_FP_SUB
     else if v = 0x00010128 then Some BN254_FP_MUL
     else if v = 0x00010129 then Some BN254_FP2_ADD
     else if v = 0x0001012A then Some BN254_FP2_SUB
     else if v = 0x0001012B then Some BN254_FP2_MUL
     else if v = 0x0000011C then Some BLS12381_DECOMPRESS
     else if v = 0x0001012C then Some SECP256R1_ADD
     else if v = 0x0000012D then Some SECP256R1_DOUBLE
     else if v = 0x0000012E then Some SECP256R1_DECOMPRESS
     else None)"

definition syscall_id :: "syscall_code \<Rightarrow> u32" where
  "syscall_id c = ucast (to_le_bytes (code_u32 c) ! 0)"

definition should_send :: "syscall_code \<Rightarrow> u32" where
  "should_send c = ucast (to_le_bytes (code_u32 c) ! 1)"

definition num_cycles :: "syscall_code \<Rightarrow> u32" where
  "num_cycles c = ucast (to_le_bytes (code_u32 c) ! 2)"

definition count_map :: "syscall_code \<Rightarrow> syscall_code" where
  "count_map c = (case c of
     BN254_FP_SUB \<Rightarrow> BN254_FP_ADD
   | BN254_FP_MUL \<Rightarrow> BN254_FP_ADD
   | BN254_FP2_SUB \<Rightarrow> BN254_FP2_ADD
   | BLS12381_FP_SUB \<Rightarrow> BLS12381_FP_ADD
   | BLS12381_FP_MUL \<Rightarrow> BLS12381_FP_ADD
   | BLS12381_FP2_SUB \<Rightarrow> BLS12381_FP2_ADD
   | _ \<Rightarrow> c)"

lemma from_u32_code [simp]: "from_u32 (code_u32 c) = Some c"
  by (cases c) (simp_all add: from_u32_def)

lemma from_u32_Some: "from_u32 v = Some c \<Longrightarrow> v = code_u32 c"
  by (simp add: from_u32_def split: if_splits)

lemma code_u32_inj: "code_u32 c = code_u32 d \<longleftrightarrow> c = d"
  by (metis from_u32_code option.inject)

text \<open>
  (C24) The numbering of the syscalls is a bijection onto the numbers that \<open>from_u32\<close> accepts:
  decoding a number gives a syscall exactly when that is the syscall's number.
\<close>

theorem syscall_code_roundtrip: "from_u32 v = Some c \<longleftrightarrow> v = code_u32 c"
  using from_u32_code from_u32_Some by blast

end
