(* ===== verification/SP1_Events.thy ===== *)
theory SP1_Events
  imports SP1_Instruction SP1_Memory SP1_Syscall_Code
begin

text \<open>
  The events of a trace and the record that collects them: \<open>events/memory.rs\<close>,
  \<open>events/instr.rs\<close>, \<open>events/cpu.rs\<close>, \<open>events/syscall.rs\<close>, \<open>events/precompiles/*.rs\<close>,
  \<open>record.rs\<close>, \<open>program.rs\<close> of \<open>crates/core/executor/src\<close> and the public values of
  \<open>crates/stark/src/air/public_values.rs\<close>.

  Field names carry a prefix of their struct, since Rust scopes them by type.  Fields of
  \<open>ExecutionRecord\<close> that only the prover fills (byte lookups, global interactions, nonces,
  shapes) and the address-bit arrays of the public values are left out.
\<close>

section \<open>Memory events\<close>

record memory_record =
  mem_shard :: u32
  mem_timestamp :: u32
  mem_value :: u32

datatype memory_access_position = Memory_pos | C_pos | B_pos | A_pos

primrec position_u32 :: "memory_access_position \<Rightarrow> u32" where
  "position_u32 Memory_pos = 0"
| "position_u32 C_pos = 1"
| "position_u32 B_pos = 2"
| "position_u32 A_pos = 3"

record memory_read_record =
  rd_value :: u32
  rd_shard :: u32
  rd_timestamp :: u32
  rd_prev_shard :: u32
  rd_prev_timestamp :: u32

record memory_write_record =
  wr_value :: u32
  wr_shard :: u32
  wr_timestamp :: u32
  wr_prev_value :: u32
  wr_prev_shard :: u32
  wr_prev_timestamp :: u32

datatype memory_record_enum = Read_rec memory_read_record | Write_rec memory_write_record

text \<open>\<open>MemoryReadRecord::new\<close> and \<open>MemoryWriteRecord::new\<close>; their \<open>debug_assert!\<close> is the
  predicate \<open>rec_ordered\<close> below.\<close>

definition read_record_new :: "u32 \<Rightarrow> u32 \<Rightarrow> u32 \<Rightarrow> u32 \<Rightarrow> u32 \<Rightarrow> memory_read_record" where
  "read_record_new v sh ts psh pts =
     \<lparr>rd_value = v, rd_shard = sh, rd_timestamp = ts, rd_prev_shard = psh, rd_prev_timestamp = pts\<rparr>"

definition write_record_new :: "u32 \<Rightarrow> u32 \<Rightarrow> u32 \<Rightarrow> u32 \<Rightarrow> u32 \<Rightarrow> u32 \<Rightarrow> memory_write_record" where
  "write_record_new v sh ts pv psh pts =
     \<lparr>wr_value = v, wr_shard = sh, wr_timestamp = ts, wr_prev_value = pv, wr_prev_shard = psh,
      wr_prev_timestamp = pts\<rparr>"

primrec current_record :: "memory_record_enum \<Rightarrow> memory_record" where
  "current_record (Read_rec r) =
     \<lparr>mem_shard = rd_shard r, mem_timestamp = rd_timestamp r, mem_value = rd_value r\<rparr>"
| "current_record (Write_rec r) =
     \<lparr>mem_shard = wr_shard r, mem_timestamp = wr_timestamp r, mem_value = wr_value r\<rparr>"

primrec previous_record :: "memory_record_enum \<Rightarrow> memory_record" where
  "previous_record (Read_rec r) =
     \<lparr>mem_shard = rd_prev_shard r, mem_timestamp = rd_prev_timestamp r, mem_value = rd_value r\<rparr>"
| "previous_record (Write_rec r) =
     \<lparr>mem_shard = wr_prev_shard r, mem_timestamp = wr_prev_timestamp r, mem_value = wr_prev_value r\<rparr>"

definition time_before :: "memory_record \<Rightarrow> memory_record \<Rightarrow> bool" where
  "time_before p r \<longleftrightarrow> mem_shard p < mem_shard r
     \<or> (mem_shard p = mem_shard r \<and> mem_timestamp p < mem_timestamp r)"

definition rec_ordered :: "memory_record_enum \<Rightarrow> bool" where
  "rec_ordered e \<longleftrightarrow> time_before (previous_record e) (current_record e)"

record memory_init_final_event =
  mif_addr :: u32
  mif_value :: u32
  mif_shard :: u32
  mif_timestamp :: u32
  mif_used :: u32

definition mif_initialize :: "u32 \<Rightarrow> u32 \<Rightarrow> bool \<Rightarrow> memory_init_final_event" where
  "mif_initialize a v u =
     \<lparr>mif_addr = a, mif_value = v, mif_shard = 1, mif_timestamp = 1, mif_used = bool_u32 u\<rparr>"

definition mif_finalize_from_record :: "u32 \<Rightarrow> memory_record \<Rightarrow> memory_init_final_event" where
  "mif_finalize_from_record a r =
     \<lparr>mif_addr = a, mif_value = mem_value r, mif_shard = mem_shard r,
      mif_timestamp = mem_timestamp r, mif_used = 1\<rparr>"

record memory_local_event =
  loc_addr :: u32
  initial_mem_access :: memory_record
  final_mem_access :: memory_record

text \<open>A \<open>HashMap<u32, MemoryLocalEvent>\<close>, kept in insertion order: the order in which a hash
  map is drained is unspecified, and no statement below depends on it.\<close>

type_synonym local_map = "(u32 \<times> memory_local_event) list"

text \<open>\<open>entry(addr).and_modify(final).or_insert(initial, final)\<close>.\<close>

fun local_touch :: "local_map \<Rightarrow> u32 \<Rightarrow> memory_record \<Rightarrow> memory_record \<Rightarrow> local_map" where
  "local_touch [] a prev cur =
     [(a, \<lparr>loc_addr = a, initial_mem_access = prev, final_mem_access = cur\<rparr>)]"
| "local_touch ((k, e) # es) a prev cur =
     (if k = a then (k, e\<lparr>final_mem_access := cur\<rparr>) # es
      else (k, e) # local_touch es a prev cur)"

record memory_access_record =
  acc_a :: "memory_record_enum option"
  acc_b :: "memory_record_enum option"
  acc_c :: "memory_record_enum option"
  acc_memory :: "memory_record_enum option"

definition no_accesses :: memory_access_record where
  "no_accesses = \<lparr>acc_a = None, acc_b = None, acc_c = None, acc_memory = None\<rparr>"

section \<open>Instruction events\<close>

record alu_event =
  alu_pc :: u32
  alu_opcode :: opcode
  alu_a :: u32
  alu_b :: u32
  alu_c :: u32
  alu_op_a_0 :: bool

record mem_instr_event =
  mi_shard :: u32
  mi_clk :: u32
  mi_pc :: u32
  mi_opcode :: opcode
  mi_a :: u32
  mi_b :: u32
  mi_c :: u32
  mi_op_a_0 :: bool
  mi_mem_access :: memory_record_enum

text \<open>\<open>BranchEvent\<close> and \<open>JumpEvent\<close> have the same fields.\<close>

record branch_event =
  br_pc :: u32
  br_next_pc :: u32
  br_opcode :: opcode
  br_a :: u32
  br_b :: u32
  br_c :: u32
  br_op_a_0 :: bool

record jump_event =
  jp_pc :: u32
  jp_next_pc :: u32
  jp_opcode :: opcode
  jp_a :: u32
  jp_b :: u32
  jp_c :: u32
  jp_op_a_0 :: bool

record auipc_event =
  au_pc :: u32
  au_opcode :: opcode
  au_a :: u32
  au_b :: u32
  au_c :: u32
  au_op_a_0 :: bool

record cpu_event =
  cpu_clk :: u32
  cpu_pc :: u32
  cpu_next_pc :: u32
  cpu_a :: u32
  cpu_a_record :: "memory_record_enum option"
  cpu_b :: u32
  cpu_b_record :: "memory_record_enum option"
  cpu_c :: u32
  cpu_c_record :: "memory_record_enum option"
  cpu_exit_code :: u32

record syscall_event =
  sy_pc :: u32
  sy_next_pc :: u32
  sy_shard :: u32
  sy_clk :: u32
  sy_a_record :: memory_write_record
  sy_a_record_is_real :: bool
  sy_op_a_0 :: bool
  sy_syscall_code :: syscall_code
  sy_syscall_id :: u32
  sy_arg1 :: u32
  sy_arg2 :: u32

section \<open>Precompile events\<close>

record sha_extend_event =
  se_shard :: u32
  se_clk :: u32
  se_w_ptr :: u32
  se_w_i_minus_15_reads :: "memory_read_record list"
  se_w_i_minus_2_reads :: "memory_read_record list"
  se_w_i_minus_16_reads :: "memory_read_record list"
  se_w_i_minus_7_reads :: "memory_read_record list"
  se_w_i_writes :: "memory_write_record list"
  se_local_mem_access :: "memory_local_event list"

record sha_compress_event =
  sc_shard :: u32
  sc_clk :: u32
  sc_w_ptr :: u32
  sc_h_ptr :: u32
  sc_w :: "u32 list"
  sc_h :: "u32 list"
  sc_h_read_records :: "memory_read_record list"
  sc_w_i_read_records :: "memory_read_record list"
  sc_h_write_records :: "memory_write_record list"
  sc_local_mem_access :: "memory_local_event list"

record keccak_permute_event =
  kp_shard :: u32
  kp_clk :: u32
  kp_pre_state :: "u64 list"
  kp_post_state :: "u64 list"
  kp_state_read_records :: "memory_read_record list"
  kp_state_write_records :: "memory_write_record list"
  kp_state_addr :: u32
  kp_local_mem_access :: "memory_local_event list"

record ec_add_event =
  ea_shard :: u32
  ea_clk :: u32
  ea_p_ptr :: u32
  ea_p :: "u32 list"
  ea_q_ptr :: u32
  ea_q :: "u32 list"
  ea_p_memory_records :: "memory_write_record list"
  ea_q_memory_records :: "memory_read_record list"
  ea_local_mem_access :: "memory_local_event list"

record ec_double_event =
  ed_shard :: u32
  ed_clk :: u32
  ed_p_ptr :: u32
  ed_p :: "u32 list"
  ed_p_memory_records :: "memory_write_record list"
  ed_local_mem_access :: "memory_local_event list"

record uint256_mul_event =
  um_shard :: u32
  um_clk :: u32
  um_x_ptr :: u32
  um_x :: "u32 list"
  um_y_ptr :: u32
  um_y :: "u32 list"
  um_modulus :: "u32 list"
  um_x_memory_records :: "memory_write_record list"
  um_y_memory_records :: "memory_read_record list"
  um_modulus_memory_records :: "memory_read_record list"
  um_local_mem_access :: "memory_local_event list"

record ec_decompress_event =
  dc_shard :: u32
  dc_clk :: u32
  dc_ptr :: u32
  dc_sign_bit :: bool
  dc_x_bytes :: "u8 list"
  dc_decompressed_y_bytes :: "u8 list"
  dc_x_memory_records :: "memory_read_record list"
  dc_y_memory_records :: "memory_write_record list"
  dc_local_mem_access :: "memory_local_event list"

record ed_decompress_event =
  edd_shard :: u32
  edd_clk :: u32
  edd_ptr :: u32
  edd_sign :: bool
  edd_y_bytes :: "u8 list"
  edd_decompressed_x_bytes :: "u8 list"
  edd_x_memory_records :: "memory_write_record list"
  edd_y_memory_records :: "memory_read_record list"
  edd_local_mem_access :: "memory_local_event list"

datatype field_operation = Field_Add | Field_Mul | Field_Sub | Field_Div

record fp_op_event =
  fp_shard :: u32
  fp_clk :: u32
  fp_x_ptr :: u32
  fp_x :: "u32 list"
  fp_y_ptr :: u32
  fp_y :: "u32 list"
  fp_op :: field_operation
  fp_x_memory_records :: "memory_write_record list"
  fp_y_memory_records :: "memory_read_record list"
  fp_local_mem_access :: "memory_local_event list"

record fp2_mul_event =
  fm_shard :: u32
  fm_clk :: u32
  fm_x_ptr :: u32
  fm_x :: "u32 list"
  fm_y_ptr :: u32
  fm_y :: "u32 list"
  fm_x_memory_records :: "memory_write_record list"
  fm_y_memory_records :: "memory_read_record list"
  fm_local_mem_access :: "memory_local_event list"

record u256x2048_mul_event =
  xm_shard :: u32
  xm_clk :: u32
  xm_a_ptr :: u32
  xm_a :: "u32 list"
  xm_b_ptr :: u32
  xm_b :: "u32 list"
  xm_lo_ptr :: u32
  xm_lo :: "u32 list"
  xm_hi_ptr :: u32
  xm_hi :: "u32 list"
  xm_lo_ptr_memory :: memory_read_record
  xm_hi_ptr_memory :: memory_read_record
  xm_a_memory_records :: "memory_read_record list"
  xm_b_memory_records :: "memory_read_record list"
  xm_lo_memory_records :: "memory_write_record list"
  xm_hi_memory_records :: "memory_write_record list"
  xm_local_mem_access :: "memory_local_event list"

text \<open>\<open>Fp2AddSubEvent\<close> has the fields of \<open>FpOpEvent\<close>.\<close>

datatype (plugins only: code) precompile_event =
    ShaExtend sha_extend_event
  | ShaCompress sha_compress_event
  | KeccakPermute keccak_permute_event
  | EdAdd ec_add_event
  | EdDecompress ed_decompress_event
  | Secp256k1Add ec_add_event
  | Secp256k1Double ec_double_event
  | Secp256k1Decompress ec_decompress_event
  | Secp256r1Add ec_add_event
  | Secp256r1Double ec_double_event
  | Secp256r1Decompress ec_decompress_event
  | K256Decompress ec_decompress_event
  | Bn254Add ec_add_event
  | Bn254Double ec_double_event
  | Bn254Fp fp_op_event
  | Bn254Fp2AddSub fp_op_event
  | Bn254Fp2Mul fp2_mul_event
  | Bls12381Add ec_add_event
  | Bls12381Double ec_double_event
  | Bls12381Decompress ec_decompress_event
  | Bls12381Fp fp_op_event
  | Bls12381Fp2AddSub fp_op_event
  | Bls12381Fp2Mul fp2_mul_event
  | Uint256Mul uint256_mul_event
  | U256xU2048Mul u256x2048_mul_event

section \<open>Programs, public values, the execution record\<close>

text \<open>The memory image is an association list: the hash map's entries in some order.\<close>

record program =
  instructions :: "instruction list"
  pc_start :: u32
  pc_base :: u32
  memory_image :: "(u32 \<times> u32) list"

definition program_default :: program where
  "program_default = \<lparr>instructions = [], pc_start = 0, pc_base = 0, memory_image = []\<rparr>"

text \<open>\<open>Program::fetch\<close>: the subtraction wraps and the index is checked.\<close>

definition fetch :: "program \<Rightarrow> u32 \<Rightarrow> ('e, instruction) result" where
  "fetch p pc = vec_get (instructions p) (unat ((pc - pc_base p) div 4))"

record public_values =
  committed_value_digest :: "u32 list"
  deferred_proofs_digest :: "u32 list"
  pv_start_pc :: u32
  pv_next_pc :: u32
  pv_exit_code :: u32
  pv_shard :: u32
  pv_execution_shard :: u32

definition pv_default :: public_values where
  "pv_default = \<lparr>committed_value_digest = replicate 8 0, deferred_proofs_digest = replicate 8 0,
     pv_start_pc = 0, pv_next_pc = 0, pv_exit_code = 0, pv_shard = 0, pv_execution_shard = 0\<rparr>"

text \<open>The tables of the core machine (\<open>RiscvAirId\<close> of \<open>air.rs\<close>).\<close>

datatype (plugins only: code) riscv_air_id =
    Air_Cpu | Air_Program | Air_ShaExtend | Air_ShaCompress | Air_EdAddAssign
  | Air_EdDecompress | Air_Secp256k1Decompress | Air_Secp256k1AddAssign
  | Air_Secp256k1DoubleAssign | Air_Secp256r1Decompress | Air_Secp256r1AddAssign
  | Air_Secp256r1DoubleAssign | Air_KeccakPermute | Air_Bn254AddAssign
  | Air_Bn254DoubleAssign | Air_Bls12381AddAssign | Air_Bls12381DoubleAssign
  | Air_Uint256MulMod | Air_U256XU2048Mul | Air_Bls12381FpOpAssign
  | Air_Bls12831Fp2AddSubAssign | Air_Bls12831Fp2MulAssign | Air_Bn254FpOpAssign
  | Air_Bn254Fp2AddSubAssign | Air_Bn254Fp2MulAssign | Air_Bls12381Decompress
  | Air_SyscallCore | Air_SyscallPrecompile | Air_DivRem | Air_AddSub | Air_Bitwise
  | Air_Mul | Air_ShiftRight | Air_ShiftLeft | Air_Lt | Air_MemoryInstrs | Air_Auipc
  | Air_Branch | Air_Jump | Air_SyscallInstrs | Air_MemoryGlobalInit
  | Air_MemoryGlobalFinalize | Air_MemoryLocal | Air_Global | Air_Byte

record execution_record =
  er_program :: program
  cpu_events :: "cpu_event list"
  add_events :: "alu_event list"
  mul_events :: "alu_event list"
  sub_events :: "alu_event list"
  bitwise_events :: "alu_event list"
  shift_left_events :: "alu_event list"
  shift_right_events :: "alu_event list"
  divrem_events :: "alu_event list"
  lt_events :: "alu_event list"
  memory_instr_events :: "mem_instr_event list"
  auipc_events :: "auipc_event list"
  branch_events :: "branch_event list"
  jump_events :: "jump_event list"
  precompile_events :: "syscall_code \<Rightarrow> (syscall_event \<times> precompile_event) list"
  global_memory_initialize_events :: "memory_init_final_event list"
  global_memory_finalize_events :: "memory_init_final_event list"
  cpu_local_memory_access :: "memory_local_event list"
  syscall_events :: "syscall_event list"
  public_values :: public_values
  counts :: "(riscv_air_id \<Rightarrow> u64) option"

definition record_new :: "program \<Rightarrow> execution_record" where
  "record_new p = \<lparr>er_program = p, cpu_events = [], add_events = [], mul_events = [], sub_events = [],
     bitwise_events = [], shift_left_events = [], shift_right_events = [], divrem_events = [],
     lt_events = [], memory_instr_events = [], auipc_events = [], branch_events = [],
     jump_events = [], precompile_events = (\<lambda>_. []), global_memory_initialize_events = [],
     global_memory_finalize_events = [], cpu_local_memory_access = [], syscall_events = [],
     public_values = pv_default, counts = None\<rparr>"

text \<open>\<open>ExecutionRecord::add_precompile_event\<close> with the assertion of \<open>PrecompileEvents::add_event\<close>.\<close>

definition record_add_precompile_event ::
  "execution_record \<Rightarrow> syscall_code \<Rightarrow> syscall_event \<Rightarrow> precompile_event \<Rightarrow> ('e, execution_record) result" where
  "record_add_precompile_event r c se pe =
     (if should_send c = 1
      then Inr (r\<lparr>precompile_events := (precompile_events r)(c := precompile_events r c @ [(se, pe)])\<rparr>)
      else Inl Panic)"

end
