(* ===== verification/SP1_Executor.thy ===== *)
theory SP1_Executor
  imports SP1_Events
begin

text \<open>
  The executor's state and its accesses to registers and memory: \<open>state.rs\<close> and the first
  half of \<open>executor.rs\<close> in \<open>crates/core/executor/src\<close> (\<open>registers\<close> to \<open>rw_cpu\<close>).

  The six access functions \<open>mr\<close>, \<open>rr\<close>, \<open>rr_traced\<close>, \<open>mw\<close>, \<open>rw_traced\<close>, \<open>rw\<close> repeat the same
  blocks in the source; each block is one definition here (\<open>note_checkpoint\<close>, \<open>note_diff\<close>,
  \<open>first_access\<close>, \<open>note_local\<close>), and each access function is their composition in the
  source's order.  Proofs of the proof stream are opaque: a \<open>nat\<close> stands for one.
\<close>

section \<open>State\<close>

datatype executor_mode = Simple | Checkpoint | Trace | ShapeCollection

datatype (plugins only: code) execution_error =
    HaltWithNonZeroExitCode u32
  | InvalidMemoryAccess opcode u32
  | UnsupportedSyscall u32
  | Breakpoint
  | ExceededCycleLimit u64
  | InvalidSyscallUsage u64
  | Unimplemented
  | EndInUnconstrained

type_synonym 'a res = "(execution_error, 'a) result"

record execution_state =
  pc :: u32
  current_shard :: u32
  memory :: "memory_record memory"
  global_clk :: u64
  clk :: u32
  uninitialized_memory :: "u32 memory"
  input_stream :: "u8 list list"
  proof_stream :: "nat list"
  proof_stream_ptr :: nat
  public_values_stream :: "u8 list"
  public_values_stream_ptr :: nat
  syscall_counts :: "syscall_code \<rightharpoonup> u64"

definition state_new :: "u32 \<Rightarrow> execution_state" where
  "state_new pc0 = \<lparr>pc = pc0, current_shard = 1, memory = mem_empty, global_clk = 0, clk = 0,
     uninitialized_memory = mem_empty, input_stream = [], proof_stream = [], proof_stream_ptr = 0,
     public_values_stream = [], public_values_stream_ptr = 0, syscall_counts = Map.empty\<rparr>"

record fork_state =
  fork_global_clk :: u64
  fork_clk :: u32
  fork_pc :: u32
  memory_diff :: "u32 \<rightharpoonup> memory_record option"
  op_record :: memory_access_record
  fork_record :: execution_record
  fork_executor_mode :: executor_mode

definition fork_default :: fork_state where
  "fork_default = \<lparr>fork_global_clk = 0, fork_clk = 0, fork_pc = 0, memory_diff = Map.empty,
     op_record = no_accesses, fork_record = record_new program_default, fork_executor_mode = Simple\<rparr>"

record local_counts =
  lc_event_counts :: "opcode \<Rightarrow> u64"
  syscalls_sent :: u64
  local_mem :: u64

definition local_counts_default :: local_counts where
  "local_counts_default = \<lparr>lc_event_counts = (\<lambda>_. 0), syscalls_sent = 0, local_mem = 0\<rparr>"

record execution_report =
  opcode_counts :: "opcode \<Rightarrow> u64"
  rep_syscall_counts :: "syscall_code \<Rightarrow> u64"
  rep_cycle_tracker :: "rstring \<rightharpoonup> u64"
  touched_memory_addresses :: u64

definition report_default :: execution_report where
  "report_default = \<lparr>opcode_counts = (\<lambda>_. 0), rep_syscall_counts = (\<lambda>_. 0),
     rep_cycle_tracker = Map.empty, touched_memory_addresses = 0\<rparr>"

record executor =
  program :: program
  state :: execution_state
  memory_checkpoint :: "memory_record option memory"
  uninitialized_memory_checkpoint :: "bool memory"
  report :: execution_report
  executor_mode :: executor_mode
  memory_accesses :: memory_access_record
  unconstrained :: bool
  print_report :: bool
  emit_global_memory_events :: bool
  shard_size :: u32
  shard_batch_size :: u32
  max_syscall_cycles :: u32
  max_cycles :: "u64 option"
  exec_record :: execution_record
  records :: "execution_record list"
  local_memory_access :: local_map
  cycle_tracker :: "(rstring \<times> (u64 \<times> u32)) list"
  io_buf :: "u32 \<rightharpoonup> rstring"
  unconstrained_state :: fork_state
  local_counts :: local_counts
  deferred_proof_verification :: bool
  maximal_shapes :: "(riscv_air_id \<Rightarrow> u32) list option"
  costs :: "riscv_air_id \<rightharpoonup> u64"
  shape_check_frequency :: u64
  lde_size_check :: bool
  lde_size_threshold :: u64
  event_counts :: "riscv_air_id \<Rightarrow> u64"

text \<open>Updates of a part of the state.\<close>

abbreviation upd_state :: "(execution_state \<Rightarrow> execution_state) \<Rightarrow> executor \<Rightarrow> executor" where
  "upd_state f s \<equiv> s\<lparr>state := f (state s)\<rparr>"

abbreviation upd_record :: "(execution_record \<Rightarrow> execution_record) \<Rightarrow> executor \<Rightarrow> executor" where
  "upd_record f s \<equiv> s\<lparr>exec_record := f (exec_record s)\<rparr>"

abbreviation upd_mem :: "(memory_record memory \<Rightarrow> memory_record memory) \<Rightarrow> executor \<Rightarrow> executor" where
  "upd_mem f s \<equiv> upd_state (\<lambda>st. st\<lparr>memory := f (memory st)\<rparr>) s"

abbreviation regs :: "executor \<Rightarrow> u32 \<rightharpoonup> memory_record" where
  "regs s \<equiv> registers (memory (state s))"

abbreviation ptab :: "executor \<Rightarrow> u32 \<rightharpoonup> memory_record" where
  "ptab s \<equiv> page_table (memory (state s))"

section \<open>A new executor\<close>

text \<open>
  \<open>with_context\<close>: the options' shard size counts cycles, the executor's counts clock ticks.
  The context's limit and verification flag are arguments; its hooks and its subproof
  verifier are in \<open>env\<close>.  The costs come from a data file, and the number of extra cycles of
  the slowest syscall from the table of syscalls.
\<close>

definition with_context :: "u32 \<Rightarrow> (riscv_air_id \<rightharpoonup> u64) \<Rightarrow> program \<Rightarrow> u64 \<Rightarrow> u64 \<Rightarrow> u64 option \<Rightarrow> bool \<Rightarrow> executor" where
  "with_context max_syscall_cycles0 costs0 prog opts_shard_size opts_shard_batch_size max_cycles0 deferred =
     \<lparr>program = prog, state = state_new (pc_start prog),
      memory_checkpoint = mem_empty, uninitialized_memory_checkpoint = mem_empty, report = report_default,
      executor_mode = Trace, memory_accesses = no_accesses, unconstrained = False, print_report = False,
      emit_global_memory_events = True, shard_size = ucast opts_shard_size * 4,
      shard_batch_size = ucast opts_shard_batch_size, max_syscall_cycles = max_syscall_cycles0,
      max_cycles = max_cycles0, exec_record = record_new prog, records = [], local_memory_access = [],
      cycle_tracker = [], io_buf = Map.empty, unconstrained_state = fork_default,
      local_counts = local_counts_default, deferred_proof_verification = deferred, maximal_shapes = None,
      costs = costs0, shape_check_frequency = 16, lde_size_check = False, lde_size_threshold = 0,
      event_counts = (\<lambda>_. 0)\<rparr>"

section \<open>The shared blocks of an access\<close>

text \<open>\<open>if self.executor_mode == Checkpoint || self.unconstrained\<close>: keep the first record seen.\<close>

definition keep_first :: "(u32 \<rightharpoonup> 'v) \<Rightarrow> u32 \<Rightarrow> 'v \<Rightarrow> (u32 \<rightharpoonup> 'v)" where
  "keep_first m a v = (case m a of None \<Rightarrow> m(a \<mapsto> v) | Some _ \<Rightarrow> m)"

definition note_checkpoint_reg :: "bool \<Rightarrow> u32 \<Rightarrow> executor \<Rightarrow> executor" where
  "note_checkpoint_reg b addr s = s\<lparr>memory_checkpoint := (if b
     then (memory_checkpoint s)\<lparr>registers := keep_first (registers (memory_checkpoint s)) addr (regs s addr)\<rparr>
     else memory_checkpoint s)\<rparr>"

definition note_checkpoint_page :: "bool \<Rightarrow> u32 \<Rightarrow> executor \<Rightarrow> executor" where
  "note_checkpoint_page b addr s = s\<lparr>memory_checkpoint := (if b
     then (memory_checkpoint s)\<lparr>page_table := keep_first (page_table (memory_checkpoint s)) addr (ptab s addr)\<rparr>
     else memory_checkpoint s)\<rparr>"

text \<open>\<open>if self.unconstrained\<close>: remember the record in \<open>memory_diff\<close>, the first time.\<close>

definition note_diff :: "u32 \<Rightarrow> memory_record option \<Rightarrow> executor \<Rightarrow> executor" where
  "note_diff addr r s = s\<lparr>unconstrained_state := (if unconstrained s
     then (unconstrained_state s)\<lparr>memory_diff := keep_first (memory_diff (unconstrained_state s)) addr r\<rparr>
     else unconstrained_state s)\<rparr>"

text \<open>The match on the entry: an occupied slot is the record, a vacant one is filled with the
  hinted initial value (or 0) at shard 0, timestamp 0.\<close>

definition initial_value :: "(u32 \<rightharpoonup> u32) \<Rightarrow> u32 \<Rightarrow> u32" where
  "initial_value um addr = (case um addr of None \<Rightarrow> 0 | Some v \<Rightarrow> v)"

definition entry_record :: "(u32 \<rightharpoonup> memory_record) \<Rightarrow> (u32 \<rightharpoonup> u32) \<Rightarrow> u32 \<Rightarrow> memory_record" where
  "entry_record m um addr = (case m addr of Some r \<Rightarrow> r
     | None \<Rightarrow> \<lparr>mem_shard = 0, mem_timestamp = 0, mem_value = initial_value um addr\<rparr>)"

definition note_uninit :: "(u32 \<rightharpoonup> memory_record) \<Rightarrow> (u32 \<rightharpoonup> u32) \<Rightarrow> u32 \<Rightarrow> (u32 \<rightharpoonup> bool) \<Rightarrow> (u32 \<rightharpoonup> bool)" where
  "note_uninit m um addr uc = (case m addr of Some _ \<Rightarrow> uc
     | None \<Rightarrow> keep_first uc addr (initial_value um addr \<noteq> 0))"

definition first_access_reg :: "u32 \<Rightarrow> executor \<Rightarrow> memory_record \<times> executor" where
  "first_access_reg addr s =
     (let um = registers (uninitialized_memory (state s)); uc = uninitialized_memory_checkpoint s in
      (entry_record (regs s) um addr,
       s\<lparr>uninitialized_memory_checkpoint := uc\<lparr>registers := note_uninit (regs s) um addr (registers uc)\<rparr>\<rparr>))"

definition first_access_page :: "u32 \<Rightarrow> executor \<Rightarrow> memory_record \<times> executor" where
  "first_access_page addr s =
     (let um = page_table (uninitialized_memory (state s)); uc = uninitialized_memory_checkpoint s in
      (entry_record (ptab s) um addr,
       s\<lparr>uninitialized_memory_checkpoint := uc\<lparr>page_table := note_uninit (ptab s) um addr (page_table uc)\<rparr>\<rparr>))"

definition set_reg :: "u32 \<Rightarrow> memory_record \<Rightarrow> executor \<Rightarrow> executor" where
  "set_reg addr r s = upd_mem (\<lambda>m. m\<lparr>registers := (registers m)(addr \<mapsto> r)\<rparr>) s"

definition set_page :: "u32 \<Rightarrow> memory_record \<Rightarrow> executor \<Rightarrow> executor" where
  "set_page addr r s = upd_mem (\<lambda>m. m\<lparr>page_table := (page_table m)(addr \<mapsto> r)\<rparr>) s"

text \<open>
  The local memory events: of the syscall context if it passes its own map, else of the
  executor.  The optional map is passed and returned.
\<close>

definition note_local :: "bool \<Rightarrow> u32 \<Rightarrow> memory_record \<Rightarrow> memory_record \<Rightarrow> local_map option \<Rightarrow> executor
    \<Rightarrow> local_map option \<times> executor" where
  "note_local b addr prev cur lm s =
     (if b then map_option (\<lambda>l. local_touch l addr prev cur) lm else lm,
      s\<lparr>local_memory_access := (if b \<and> lm = None then local_touch (local_memory_access s) addr prev cur
         else local_memory_access s)\<rparr>)"

definition count_local_mem :: "memory_record \<Rightarrow> u32 \<Rightarrow> local_map option \<Rightarrow> executor \<Rightarrow> executor" where
  "count_local_mem r shard lm s = s\<lparr>local_counts := (if \<not> unconstrained s \<and> (mem_shard r \<noteq> shard \<or> lm \<noteq> None)
     then (local_counts s)\<lparr>local_mem := local_mem (local_counts s) + 1\<rparr> else local_counts s)\<rparr>"

definition tracing :: "executor \<Rightarrow> bool" where
  "tracing s \<longleftrightarrow> \<not> unconstrained s \<and> executor_mode s = Trace"

definition checkpointing :: "executor \<Rightarrow> bool" where
  "checkpointing s \<longleftrightarrow> executor_mode s = Checkpoint \<or> unconstrained s"

text \<open>
  An access to a register and to memory: the blocks in the source's order.  \<open>upd\<close> is the new
  value (the old one for a read); \<open>chk\<close> and \<open>loc\<close> say whether the checkpoint and the local
  events are kept, where the functions differ.
\<close>

definition reg_access :: "bool \<Rightarrow> bool \<Rightarrow> (u32 \<Rightarrow> u32) \<Rightarrow> u32 \<Rightarrow> u32 \<Rightarrow> u32 \<Rightarrow> local_map option \<Rightarrow> executor
    \<Rightarrow> memory_record \<times> memory_record \<times> local_map option \<times> executor" where
  "reg_access chk loc upd addr shard timestamp lm s =
     (let r0 = regs s addr;
          s = note_checkpoint_reg chk addr s;
          s = note_diff addr r0 s;
          (prev, s) = first_access_reg addr s;
          cur = \<lparr>mem_shard = shard, mem_timestamp = timestamp, mem_value = upd (mem_value prev)\<rparr>;
          s = set_reg addr cur s;
          (lm, s) = note_local loc addr prev cur lm s
      in (prev, cur, lm, s))"

definition page_access :: "(u32 \<Rightarrow> u32) \<Rightarrow> u32 \<Rightarrow> u32 \<Rightarrow> u32 \<Rightarrow> local_map option \<Rightarrow> executor
    \<Rightarrow> memory_record \<times> memory_record \<times> local_map option \<times> executor" where
  "page_access upd addr shard timestamp lm s =
     (let r0 = ptab s addr;
          s = note_checkpoint_page (checkpointing s) addr s;
          s = note_diff addr r0 s;
          (prev, s) = first_access_page addr s;
          s = count_local_mem prev shard lm s;
          cur = \<lparr>mem_shard = shard, mem_timestamp = timestamp, mem_value = upd (mem_value prev)\<rparr>;
          s = set_page addr cur s;
          (lm, s) = note_local (tracing s) addr prev cur lm s
      in (prev, cur, lm, s))"

lemmas access_blocks = note_checkpoint_reg_def note_checkpoint_page_def note_diff_def
  first_access_reg_def first_access_page_def count_local_mem_def set_reg_def set_page_def note_local_def

section \<open>Peeks\<close>

definition register_get :: "register \<Rightarrow> executor \<Rightarrow> u32 \<times> executor" where
  "register_get r s = (let addr = reg_u32 r in
     (case regs s addr of Some rec \<Rightarrow> mem_value rec | None \<Rightarrow> 0,
      note_checkpoint_reg (checkpointing s) addr s))"

definition word_get :: "u32 \<Rightarrow> executor \<Rightarrow> (u32 \<times> executor) res" where
  "word_get addr s = rbind (pt_get (ptab s) addr) (\<lambda>rec.
     Inr (case rec of Some r \<Rightarrow> mem_value r | None \<Rightarrow> 0,
          note_checkpoint_page (checkpointing s) (align addr) s))"

definition byte_get :: "u32 \<Rightarrow> executor \<Rightarrow> (u8 \<times> executor) res" where
  "byte_get addr s = rbind (word_get (addr - addr mod 4) s) (\<lambda>(w, s).
     Inr (ucast (drop_bit (unat (addr mod 4) * 8) w), s))"

definition timestamp_at :: "memory_access_position \<Rightarrow> executor \<Rightarrow> u32" where
  "timestamp_at p s = clk (state s) + position_u32 p"

text \<open>\<open>registers\<close>: all 32 values.\<close>

definition registers_get :: "executor \<Rightarrow> u32 list \<times> executor" where
  "registers_get s =
     (map (\<lambda>i. case regs s (of_nat i) of Some rec \<Rightarrow> mem_value rec | None \<Rightarrow> 0) [0..<32],
      fold (\<lambda>i s. note_checkpoint_reg (checkpointing s) (of_nat i) s) [0..<32] s)"

section \<open>Accesses\<close>

definition BABYBEAR_PRIME :: u32 where "BABYBEAR_PRIME = 0x78000001"

definition valid_mem_addr :: "u32 \<Rightarrow> bool" where
  "valid_mem_addr addr \<longleftrightarrow> \<not> (\<not> word_aligned addr \<or> addr \<le> reg_u32 X31 \<or> addr \<ge> BABYBEAR_PRIME)"

definition mr :: "u32 \<Rightarrow> u32 \<Rightarrow> u32 \<Rightarrow> local_map option \<Rightarrow> executor
    \<Rightarrow> (memory_read_record \<times> local_map option \<times> executor) res" where
  "mr addr shard timestamp lm s = (if \<not> valid_mem_addr addr then Inl Panic else
     (let (prev, cur, lm, s) = page_access (\<lambda>v. v) addr shard timestamp lm s in
      Inr (read_record_new (mem_value cur) (mem_shard cur) (mem_timestamp cur) (mem_shard prev)
             (mem_timestamp prev), lm, s)))"

definition rr :: "register \<Rightarrow> u32 \<Rightarrow> u32 \<Rightarrow> executor \<Rightarrow> u32 \<times> executor" where
  "rr r shard timestamp s =
     (let (prev, cur, _, s) = reg_access (checkpointing s) False (\<lambda>v. v) (reg_u32 r) shard timestamp None s
      in (mem_value cur, s))"

definition rr_traced :: "register \<Rightarrow> u32 \<Rightarrow> u32 \<Rightarrow> local_map option \<Rightarrow> executor
    \<Rightarrow> memory_read_record \<times> local_map option \<times> executor" where
  "rr_traced r shard timestamp lm s =
     (let (prev, cur, lm, s) =
        reg_access (checkpointing s) (tracing s) (\<lambda>v. v) (reg_u32 r) shard timestamp lm s
      in (read_record_new (mem_value cur) (mem_shard cur) (mem_timestamp cur) (mem_shard prev)
            (mem_timestamp prev), lm, s))"

definition mw :: "u32 \<Rightarrow> u32 \<Rightarrow> u32 \<Rightarrow> u32 \<Rightarrow> local_map option \<Rightarrow> executor
    \<Rightarrow> (memory_write_record \<times> local_map option \<times> executor) res" where
  "mw addr value shard timestamp lm s = (if \<not> valid_mem_addr addr then Inl Panic else
     (let (prev, cur, lm, s) = page_access (\<lambda>_. value) addr shard timestamp lm s in
      Inr (write_record_new (mem_value cur) (mem_shard cur) (mem_timestamp cur) (mem_value prev)
             (mem_shard prev) (mem_timestamp prev), lm, s)))"

definition rw_traced :: "register \<Rightarrow> u32 \<Rightarrow> u32 \<Rightarrow> u32 \<Rightarrow> local_map option \<Rightarrow> executor
    \<Rightarrow> memory_write_record \<times> local_map option \<times> executor" where
  "rw_traced r value shard timestamp lm s =
     (let (prev, cur, lm, s) =
        reg_access (unconstrained s) (\<not> unconstrained s) (\<lambda>_. value) (reg_u32 r) shard timestamp lm s
      in (write_record_new (mem_value cur) (mem_shard cur) (mem_timestamp cur) (mem_value prev)
            (mem_shard prev) (mem_timestamp prev), lm, s))"

definition rw :: "register \<Rightarrow> u32 \<Rightarrow> u32 \<Rightarrow> u32 \<Rightarrow> executor \<Rightarrow> executor" where
  "rw r value shard timestamp s =
     (let (_, _, _, s) = reg_access (checkpointing s) False (\<lambda>_. value) (reg_u32 r) shard timestamp None s
      in s)"

section \<open>Accesses of the CPU\<close>

definition mr_cpu :: "u32 \<Rightarrow> executor \<Rightarrow> (u32 \<times> executor) res" where
  "mr_cpu addr s = rbind (mr addr (current_shard (state s)) (timestamp_at Memory_pos s) None s) (\<lambda>(rec, _, s).
     Inr (rd_value rec, s\<lparr>memory_accesses := (if executor_mode s = Trace
       then (memory_accesses s)\<lparr>acc_memory := Some (Read_rec rec)\<rparr> else memory_accesses s)\<rparr>))"

definition set_access :: "memory_access_position \<Rightarrow> memory_record_enum \<Rightarrow> memory_access_record
    \<Rightarrow> memory_access_record" where
  "set_access p e acc = (case p of A_pos \<Rightarrow> acc\<lparr>acc_a := Some e\<rparr> | B_pos \<Rightarrow> acc\<lparr>acc_b := Some e\<rparr>
     | C_pos \<Rightarrow> acc\<lparr>acc_c := Some e\<rparr> | Memory_pos \<Rightarrow> acc\<lparr>acc_memory := Some e\<rparr>)"

definition rr_cpu :: "register \<Rightarrow> memory_access_position \<Rightarrow> executor \<Rightarrow> u32 \<times> executor" where
  "rr_cpu r p s = (if executor_mode s = Trace
     then (let (rec, _, s) = rr_traced r (current_shard (state s)) (timestamp_at p s) None s in
           (rd_value rec, s\<lparr>memory_accesses := (if \<not> unconstrained s
              then set_access p (Read_rec rec) (memory_accesses s) else memory_accesses s)\<rparr>))
     else rr r (current_shard (state s)) (timestamp_at p s) s)"

definition mw_cpu :: "u32 \<Rightarrow> u32 \<Rightarrow> executor \<Rightarrow> executor res" where
  "mw_cpu addr value s =
     rbind (mw addr value (current_shard (state s)) (timestamp_at Memory_pos s) None s) (\<lambda>(rec, _, s).
     Inr (s\<lparr>memory_accesses := (if executor_mode s = Trace
       then (memory_accesses s)\<lparr>acc_memory := Some (Write_rec rec)\<rparr> else memory_accesses s)\<rparr>))"

definition rw_cpu :: "register \<Rightarrow> u32 \<Rightarrow> executor \<Rightarrow> executor" where
  "rw_cpu r value s =
     (let value = (if r = X0 then 0 else value) in
      if executor_mode s = Trace
      then (let (rec, _, s) = rw_traced r value (current_shard (state s)) (timestamp_at A_pos s) None s in
            s\<lparr>memory_accesses := (if \<not> unconstrained s
              then (memory_accesses s)\<lparr>acc_a := Some (Write_rec rec)\<rparr> else memory_accesses s)\<rparr>)
      else rw r value (current_shard (state s)) (timestamp_at A_pos s) s)"

section \<open>Each access as one record update\<close>

definition accessed :: "memory_record \<Rightarrow> (u32 \<Rightarrow> u32) \<Rightarrow> u32 \<Rightarrow> u32 \<Rightarrow> memory_record" where
  "accessed prev upd shard ts = \<lparr>mem_shard = shard, mem_timestamp = ts, mem_value = upd (mem_value prev)\<rparr>"

lemma accessed_sel [simp]:
  "mem_shard (accessed p f sh ts) = sh" "mem_timestamp (accessed p f sh ts) = ts"
  "mem_value (accessed p f sh ts) = f (mem_value p)"
  by (simp_all add: accessed_def)

abbreviation reg_entry :: "executor \<Rightarrow> u32 \<Rightarrow> memory_record" where
  "reg_entry s a \<equiv> entry_record (regs s) (registers (uninitialized_memory (state s))) a"

abbreviation page_entry :: "executor \<Rightarrow> u32 \<Rightarrow> memory_record" where
  "page_entry s a \<equiv> entry_record (ptab s) (page_table (uninitialized_memory (state s))) a"

lemma reg_access_eq:
  "reg_access chk loc upd a sh ts lm s =
     (let prev = reg_entry s a; cur = accessed prev upd sh ts in
      (prev, cur, if loc then map_option (\<lambda>l. local_touch l a prev cur) lm else lm,
       s\<lparr>state := (state s)\<lparr>memory := (memory (state s))\<lparr>registers := (regs s)(a \<mapsto> cur)\<rparr>\<rparr>,
         memory_checkpoint := (if chk then (memory_checkpoint s)\<lparr>registers :=
            keep_first (registers (memory_checkpoint s)) a (regs s a)\<rparr> else memory_checkpoint s),
         uninitialized_memory_checkpoint := (uninitialized_memory_checkpoint s)\<lparr>registers :=
            note_uninit (regs s) (registers (uninitialized_memory (state s))) a
              (registers (uninitialized_memory_checkpoint s))\<rparr>,
         unconstrained_state := (if unconstrained s then (unconstrained_state s)\<lparr>memory_diff :=
            keep_first (memory_diff (unconstrained_state s)) a (regs s a)\<rparr> else unconstrained_state s),
         local_memory_access := (if loc \<and> lm = None then local_touch (local_memory_access s) a prev cur
            else local_memory_access s)\<rparr>))"
  by (simp add: reg_access_def access_blocks Let_def accessed_def)

lemma page_access_eq:
  "page_access upd a sh ts lm s =
     (let prev = page_entry s a; cur = accessed prev upd sh ts in
      (prev, cur, if tracing s then map_option (\<lambda>l. local_touch l a prev cur) lm else lm,
       s\<lparr>state := (state s)\<lparr>memory := (memory (state s))\<lparr>page_table := (ptab s)(a \<mapsto> cur)\<rparr>\<rparr>,
         memory_checkpoint := (if checkpointing s then (memory_checkpoint s)\<lparr>page_table :=
            keep_first (page_table (memory_checkpoint s)) a (ptab s a)\<rparr> else memory_checkpoint s),
         uninitialized_memory_checkpoint := (uninitialized_memory_checkpoint s)\<lparr>page_table :=
            note_uninit (ptab s) (page_table (uninitialized_memory (state s))) a
              (page_table (uninitialized_memory_checkpoint s))\<rparr>,
         unconstrained_state := (if unconstrained s then (unconstrained_state s)\<lparr>memory_diff :=
            keep_first (memory_diff (unconstrained_state s)) a (ptab s a)\<rparr> else unconstrained_state s),
         local_counts := (if \<not> unconstrained s \<and> (mem_shard prev \<noteq> sh \<or> lm \<noteq> None)
            then (local_counts s)\<lparr>local_mem := local_mem (local_counts s) + 1\<rparr> else local_counts s),
         local_memory_access := (if tracing s \<and> lm = None
            then local_touch (local_memory_access s) a prev cur else local_memory_access s)\<rparr>))"
  by (simp add: page_access_def access_blocks Let_def accessed_def tracing_def checkpointing_def)

lemma valid_mem_addr_iff: "valid_mem_addr a \<longleftrightarrow> word_aligned a \<and> 31 < a \<and> a < BABYBEAR_PRIME"
  by (auto simp: valid_mem_addr_def)

lemma valid_mem_addr_in_range: "valid_mem_addr a \<Longrightarrow> in_range a"
  by (auto simp: valid_mem_addr_iff in_range_def BABYBEAR_PRIME_def word_less_nat_alt)

lemma valid_mem_addr_ge32: "valid_mem_addr a \<Longrightarrow> \<not> a < 32"
  by (simp add: valid_mem_addr_iff word_less_nat_alt)

section \<open>What the CPU accesses do to the state\<close>

text \<open>
  The record an access leaves behind, and the parts of the executor it does not touch.  The
  simplifier uses these facts; the access functions are not unfolded any further below.
\<close>

definition keeps :: "executor \<Rightarrow> executor \<Rightarrow> bool" where
  "keeps s s' \<longleftrightarrow> program s' = program s \<and> report s' = report s \<and> executor_mode s' = executor_mode s
     \<and> unconstrained s' = unconstrained s \<and> print_report s' = print_report s
     \<and> emit_global_memory_events s' = emit_global_memory_events s \<and> shard_size s' = shard_size s
     \<and> shard_batch_size s' = shard_batch_size s \<and> max_syscall_cycles s' = max_syscall_cycles s
     \<and> max_cycles s' = max_cycles s \<and> exec_record s' = exec_record s \<and> records s' = records s
     \<and> cycle_tracker s' = cycle_tracker s \<and> io_buf s' = io_buf s
     \<and> deferred_proof_verification s' = deferred_proof_verification s
     \<and> maximal_shapes s' = maximal_shapes s \<and> costs s' = costs s
     \<and> shape_check_frequency s' = shape_check_frequency s \<and> lde_size_check s' = lde_size_check s
     \<and> lde_size_threshold s' = lde_size_threshold s \<and> event_counts s' = event_counts s
     \<and> state s'\<lparr>memory := memory (state s)\<rparr> = state s
     \<and> unconstrained_state s'\<lparr>memory_diff := memory_diff (unconstrained_state s)\<rparr> = unconstrained_state s
     \<and> lc_event_counts (local_counts s') = lc_event_counts (local_counts s)
     \<and> syscalls_sent (local_counts s') = syscalls_sent (local_counts s)"

lemma keeps_refl [simp]: "keeps s s"
  by (simp add: keeps_def)

lemma keeps_trans: "keeps s t \<Longrightarrow> keeps t u \<Longrightarrow> keeps s u"
proof -
  have st: "x\<lparr>memory := m\<rparr> = y \<Longrightarrow> z\<lparr>memory := memory x\<rparr> = x \<Longrightarrow> z\<lparr>memory := m\<rparr> = y"
    for x y z :: execution_state and m by (cases x; cases y; cases z) simp
  have fk: "x\<lparr>memory_diff := m\<rparr> = y \<Longrightarrow> z\<lparr>memory_diff := memory_diff x\<rparr> = x \<Longrightarrow> z\<lparr>memory_diff := m\<rparr> = y"
    for x y z :: fork_state and m by (cases x; cases y; cases z) simp
  show "keeps s t \<Longrightarrow> keeps t u \<Longrightarrow> keeps s u"
    unfolding keeps_def using st fk by metis
qed

lemma keeps_reg_access: "reg_access chk loc upd a sh ts lm s = (p, c, lm', s') \<Longrightarrow> keeps s s'"
  by (auto simp: reg_access_eq keeps_def Let_def)

lemma keeps_page_access: "page_access upd a sh ts lm s = (p, c, lm', s') \<Longrightarrow> keeps s s'"
  by (auto simp: page_access_eq keeps_def Let_def)

text \<open>\<open>memory_diff\<close> after an access to \<open>a\<close> whose slot held \<open>r\<close>.\<close>

definition diff_after :: "executor \<Rightarrow> u32 \<Rightarrow> memory_record option \<Rightarrow> (u32 \<rightharpoonup> memory_record option)" where
  "diff_after s a r = (if unconstrained s then keep_first (memory_diff (unconstrained_state s)) a r
     else memory_diff (unconstrained_state s))"

definition reg_effect :: "(u32 \<Rightarrow> u32) \<Rightarrow> u32 \<Rightarrow> u32 \<Rightarrow> executor \<Rightarrow> executor \<Rightarrow> bool" where
  "reg_effect upd a ts s s' \<longleftrightarrow> keeps s s'
     \<and> memory (state s') = (memory (state s))\<lparr>registers :=
         (regs s)(a \<mapsto> accessed (reg_entry s a) upd (current_shard (state s)) ts)\<rparr>
     \<and> memory_diff (unconstrained_state s') = diff_after s a (regs s a)
     \<and> local_counts s' = local_counts s"

definition page_effect :: "(u32 \<Rightarrow> u32) \<Rightarrow> u32 \<Rightarrow> u32 \<Rightarrow> u32 \<Rightarrow> executor \<Rightarrow> executor \<Rightarrow> bool" where
  "page_effect upd a sh ts s s' \<longleftrightarrow> keeps s s' \<and> valid_mem_addr a
     \<and> memory (state s') = (memory (state s))\<lparr>page_table := (ptab s)(a \<mapsto> accessed (page_entry s a) upd sh ts)\<rparr>
     \<and> memory_diff (unconstrained_state s') = diff_after s a (ptab s a)"

lemma keeps_accesses [simp]:
  "keeps s (s'\<lparr>memory_accesses := x\<rparr>) = keeps s s'"
  by (simp add: keeps_def)

lemma reg_effect_accesses [simp]:
  "reg_effect upd a ts s (s'\<lparr>memory_accesses := x\<rparr>) = reg_effect upd a ts s s'"
  by (simp add: reg_effect_def)

lemma reg_access_spec:
  assumes "reg_access chk loc upd a (current_shard (state s)) ts lm s = (p, c, lm', s')"
  shows "p = reg_entry s a" and "c = accessed p upd (current_shard (state s)) ts"
    and "reg_effect upd a ts s s'"
  using assms keeps_reg_access [OF assms]
  by (simp_all add: reg_access_eq Let_def reg_effect_def diff_after_def) auto

lemma page_access_spec:
  assumes "page_access upd a sh ts lm s = (p, c, lm', s')" and "valid_mem_addr a"
  shows "p = page_entry s a" and "c = accessed p upd sh ts" and "page_effect upd a sh ts s s'"
  using assms keeps_page_access [OF assms(1)]
  by (simp_all add: page_access_eq Let_def page_effect_def diff_after_def) auto

lemma rr_cpu_spec:
  assumes "rr_cpu r p s = (v, s')"
  shows "v = mem_value (reg_entry s (reg_u32 r))"
    and "reg_effect (\<lambda>v. v) (reg_u32 r) (clk (state s) + position_u32 p) s s'"
proof -
  obtain chk loc q c lm t x where
    m: "reg_access chk loc (\<lambda>v. v) (reg_u32 r) (current_shard (state s)) (clk (state s) + position_u32 p) None s
        = (q, c, lm, t)" and e: "v = mem_value c" "s' = t\<lparr>memory_accesses := x\<rparr>"
  proof (cases "executor_mode s = Trace")
    case True
    then show ?thesis using assms that
      by (auto simp: rr_cpu_def rr_traced_def timestamp_at_def read_record_new_def split: prod.splits)
  next
    case False
    have "s' = s'\<lparr>memory_accesses := memory_accesses s'\<rparr>" by simp
    with False show ?thesis using assms that [where x = "memory_accesses s'"]
      by (auto simp: rr_cpu_def rr_def timestamp_at_def split: prod.splits)
  qed
  show "v = mem_value (reg_entry s (reg_u32 r))" using reg_access_spec [OF m] e by simp
  show "reg_effect (\<lambda>v. v) (reg_u32 r) (clk (state s) + position_u32 p) s s'"
    using reg_access_spec(3) [OF m] e by simp
qed

lemma rw_cpu_spec:
  "reg_effect (\<lambda>_. if r = X0 then 0 else v) (reg_u32 r) (clk (state s) + 3) s (rw_cpu r v s)"
proof -
  obtain chk loc q c lm t x where
    m: "reg_access chk loc (\<lambda>_. if r = X0 then 0 else v) (reg_u32 r) (current_shard (state s)) (clk (state s) + 3) None s
        = (q, c, lm, t)" and e: "rw_cpu r v s = t\<lparr>memory_accesses := x\<rparr>"
  proof (cases "executor_mode s = Trace")
    case True
    obtain q c lm t where m: "reg_access (unconstrained s) (\<not> unconstrained s)
        (\<lambda>_. if r = X0 then 0 else v) (reg_u32 r) (current_shard (state s)) (clk (state s) + 3) None s = (q, c, lm, t)"
      by (metis prod_cases4)
    show ?thesis
      by (rule that [OF m]) (use True m in \<open>simp add: rw_cpu_def rw_traced_def timestamp_at_def Let_def\<close>)
  next
    case False
    obtain q c lm t where m: "reg_access (checkpointing s) False
        (\<lambda>_. if r = X0 then 0 else v) (reg_u32 r) (current_shard (state s)) (clk (state s) + 3) None s = (q, c, lm, t)"
      by (metis prod_cases4)
    show ?thesis
      by (rule that [OF m, of "memory_accesses t"])
        (use False m in \<open>simp add: rw_cpu_def rw_def timestamp_at_def Let_def split: if_splits\<close>)
  qed
  show ?thesis using reg_access_spec(3) [OF m] e by simp
qed

lemma mr_spec:
  assumes "mr a sh ts lm s = Inr (rec, lm', s')"
  shows "rd_value rec = mem_value (page_entry s a)" and "page_effect (\<lambda>v. v) a sh ts s s'"
    and "current_record (Read_rec rec) = accessed (page_entry s a) (\<lambda>v. v) sh ts"
    and "previous_record (Read_rec rec) = page_entry s a"
  using assms page_access_spec [of "\<lambda>v. v" a sh ts lm s]
  by (auto simp: mr_def read_record_new_def accessed_def split: if_splits prod.splits)

lemma mw_spec:
  assumes "mw a v sh ts lm s = Inr (rec, lm', s')"
  shows "page_effect (\<lambda>_. v) a sh ts s s'"
    and "current_record (Write_rec rec) = accessed (page_entry s a) (\<lambda>_. v) sh ts"
    and "previous_record (Write_rec rec) = page_entry s a"
  using assms page_access_spec [of "\<lambda>_. v" a sh ts lm s]
  by (auto simp: mw_def write_record_new_def accessed_def split: if_splits prod.splits)

lemma page_effect_accesses [simp]:
  "page_effect upd a sh ts s (s'\<lparr>memory_accesses := x\<rparr>) = page_effect upd a sh ts s s'"
  by (simp add: page_effect_def)

lemma mr_cpu_spec:
  assumes "mr_cpu a s = Inr (v, s')"
  shows "v = mem_value (page_entry s a)"
    and "page_effect (\<lambda>v. v) a (current_shard (state s)) (clk (state s)) s s'"
proof -
  obtain rec lm t x where m: "mr a (current_shard (state s)) (clk (state s)) None s = Inr (rec, lm, t)"
    and e: "v = rd_value rec" "s' = t\<lparr>memory_accesses := x\<rparr>"
    using assms by (auto simp: mr_cpu_def timestamp_at_def rbind_eq_Inr)
  show "v = mem_value (page_entry s a)" using mr_spec(1) [OF m] e by simp
  show "page_effect (\<lambda>v. v) a (current_shard (state s)) (clk (state s)) s s'"
    using mr_spec(2) [OF m] e by simp
qed

lemma mw_cpu_spec:
  assumes "mw_cpu a v s = Inr s'"
  shows "page_effect (\<lambda>_. v) a (current_shard (state s)) (clk (state s)) s s'"
proof -
  obtain rec lm t x where m: "mw a v (current_shard (state s)) (clk (state s)) None s = Inr (rec, lm, t)"
    and e: "s' = t\<lparr>memory_accesses := x\<rparr>"
    using assms by (auto simp: mw_cpu_def timestamp_at_def rbind_eq_Inr)
  show ?thesis using mw_spec(1) [OF m] e by simp
qed

lemma mr_total: "valid_mem_addr a \<Longrightarrow> \<exists>rec lm' s'. mr a sh ts lm s = Inr (rec, lm', s')"
  by (simp add: mr_def page_access_eq Let_def)

lemma mw_total: "valid_mem_addr a \<Longrightarrow> \<exists>rec lm' s'. mw a v sh ts lm s = Inr (rec, lm', s')"
  by (simp add: mw_def page_access_eq Let_def)

lemma word_get_spec:
  assumes "word_get a s = Inr (v, s')"
  shows "v = (case ptab s (align a) of Some r \<Rightarrow> mem_value r | None \<Rightarrow> 0)" and "in_range a"
    and "keeps s s'" and "state s' = state s" and "unconstrained_state s' = unconstrained_state s"
    and "local_counts s' = local_counts s"
  using assms by (auto simp: word_get_def pt_get_def note_checkpoint_page_def keeps_def split: if_splits)

lemma register_get_spec:
  assumes "register_get r s = (v, s')"
  shows "v = (case regs s (reg_u32 r) of Some r \<Rightarrow> mem_value r | None \<Rightarrow> 0)"
    and "keeps s s'" and "state s' = state s" and "unconstrained_state s' = unconstrained_state s"
    and "local_counts s' = local_counts s"
  using assms by (auto simp: register_get_def note_checkpoint_reg_def keeps_def Let_def)

end
