(* ===== verification/SP1_Context.thy ===== *)
theory SP1_Context
  imports SP1_Executor
begin

text \<open>
  The context in which a syscall runs (\<open>syscalls/context.rs\<close>): the executor, the clock of the
  precompile's own accesses, the next program counter and exit code it may set, and its
  private map of local memory events.  A syscall is a function from the context to a result
  with a new context; \<open>sbind\<close> is sequencing, \<open>sfor\<close> and \<open>sfold\<close> are the \<open>for\<close> loops.
\<close>

section \<open>Sequencing\<close>

record syscall_context =
  ctx_shard :: u32
  ctx_clk :: u32
  ctx_next_pc :: u32
  ctx_exit_code :: u32
  rt :: executor
  ctx_local :: local_map

type_synonym 'a sys = "syscall_context \<Rightarrow> ('a \<times> syscall_context) res"

definition sret :: "'a \<Rightarrow> 'a sys" where
  "sret x = (\<lambda>c. Inr (x, c))"

definition sbind :: "'a sys \<Rightarrow> ('a \<Rightarrow> 'b sys) \<Rightarrow> 'b sys" where
  "sbind m f = (\<lambda>c. rbind (m c) (\<lambda>(x, c). f x c))"

definition spanic :: "'a sys" where
  "spanic = (\<lambda>_. Inl Panic)"

text \<open>\<open>assert!(b)\<close>.\<close>

definition sassert :: "bool \<Rightarrow> unit sys" where
  "sassert b = (if b then sret () else spanic)"

definition slift :: "'a res \<Rightarrow> 'a sys" where
  "slift r = (\<lambda>c. rbind r (\<lambda>x. Inr (x, c)))"

fun sfor :: "('i \<Rightarrow> 'a sys) \<Rightarrow> 'i list \<Rightarrow> 'a list sys" where
  "sfor f [] = sret []"
| "sfor f (i # is) = sbind (f i) (\<lambda>x. sbind (sfor f is) (\<lambda>xs. sret (x # xs)))"

fun sfold :: "('i \<Rightarrow> 's \<Rightarrow> 's sys) \<Rightarrow> 'i list \<Rightarrow> 's \<Rightarrow> 's sys" where
  "sfold f [] s = sret s"
| "sfold f (i # is) s = sbind (f i s) (sfold f is)"

definition sget :: "(syscall_context \<Rightarrow> 'a) \<Rightarrow> 'a sys" where
  "sget f = (\<lambda>c. Inr (f c, c))"

definition supd :: "(syscall_context \<Rightarrow> syscall_context) \<Rightarrow> unit sys" where
  "supd f = (\<lambda>c. Inr ((), f c))"

section \<open>The context's operations\<close>

definition ctx_new :: "executor \<Rightarrow> syscall_context" where
  "ctx_new s = \<lparr>ctx_shard = current_shard (state s), ctx_clk = clk (state s), ctx_next_pc = pc (state s) + 4,
     ctx_exit_code = 0, rt = s, ctx_local = []\<rparr>"

definition keep_local :: "local_map option \<Rightarrow> syscall_context \<Rightarrow> local_map" where
  "keep_local lm c = (case lm of Some l \<Rightarrow> l | None \<Rightarrow> ctx_local c)"

definition c_mr :: "u32 \<Rightarrow> (memory_read_record \<times> u32) sys" where
  "c_mr addr = (\<lambda>c. rbind (mr addr (ctx_shard c) (ctx_clk c) (Some (ctx_local c)) (rt c)) (\<lambda>(rec, lm, s).
     Inr ((rec, rd_value rec), c\<lparr>rt := s, ctx_local := keep_local lm c\<rparr>)))"

definition c_mw :: "u32 \<Rightarrow> u32 \<Rightarrow> memory_write_record sys" where
  "c_mw addr value = (\<lambda>c. rbind (mw addr value (ctx_shard c) (ctx_clk c) (Some (ctx_local c)) (rt c)) (\<lambda>(rec, lm, s).
     Inr (rec, c\<lparr>rt := s, ctx_local := keep_local lm c\<rparr>)))"

definition c_rr_traced :: "register \<Rightarrow> (memory_read_record \<times> u32) sys" where
  "c_rr_traced r = (\<lambda>c. let (rec, lm, s) = rr_traced r (ctx_shard c) (ctx_clk c) (Some (ctx_local c)) (rt c) in
     Inr ((rec, rd_value rec), c\<lparr>rt := s, ctx_local := keep_local lm c\<rparr>))"

definition c_word :: "u32 \<Rightarrow> u32 sys" where
  "c_word addr = (\<lambda>c. rbind (word_get addr (rt c)) (\<lambda>(w, s). Inr (w, c\<lparr>rt := s\<rparr>)))"

definition c_byte :: "u32 \<Rightarrow> u8 sys" where
  "c_byte addr = (\<lambda>c. rbind (byte_get addr (rt c)) (\<lambda>(b, s). Inr (b, c\<lparr>rt := s\<rparr>)))"

definition c_register :: "register \<Rightarrow> u32 sys" where
  "c_register r = (\<lambda>c. let (v, s) = register_get r (rt c) in Inr (v, c\<lparr>rt := s\<rparr>))"

definition tick :: "unit sys" where
  "tick = supd (\<lambda>c. c\<lparr>ctx_clk := ctx_clk c + 1\<rparr>)"

definition nth_word :: "u32 \<Rightarrow> nat \<Rightarrow> u32" where
  "nth_word addr i = addr + of_nat i * 4"

definition mr_slice :: "u32 \<Rightarrow> nat \<Rightarrow> (memory_read_record list \<times> u32 list) sys" where
  "mr_slice addr len = sbind (sfor (\<lambda>i. c_mr (nth_word addr i)) [0..<len]) (\<lambda>rs. sret (map fst rs, map snd rs))"

definition mw_slice :: "u32 \<Rightarrow> u32 list \<Rightarrow> memory_write_record list sys" where
  "mw_slice addr values = sfor (\<lambda>i. c_mw (nth_word addr i) (values ! i)) [0..<length values]"

definition slice_unsafe :: "u32 \<Rightarrow> nat \<Rightarrow> u32 list sys" where
  "slice_unsafe addr len = sfor (\<lambda>i. c_word (nth_word addr i)) [0..<len]"

definition set_next_pc :: "u32 \<Rightarrow> unit sys" where
  "set_next_pc v = supd (\<lambda>c. c\<lparr>ctx_next_pc := v\<rparr>)"

definition set_exit_code :: "u32 \<Rightarrow> unit sys" where
  "set_exit_code v = supd (\<lambda>c. c\<lparr>ctx_exit_code := v\<rparr>)"

text \<open>
  \<open>postprocess\<close>: the local events of the syscall are returned; an event that the executor
  holds for the same address moves to the record.
\<close>

definition move_local :: "u32 \<Rightarrow> executor \<Rightarrow> executor" where
  "move_local addr s = (case map_of (local_memory_access s) addr of
       None \<Rightarrow> s
     | Some e \<Rightarrow> upd_record (\<lambda>r. r\<lparr>cpu_local_memory_access := cpu_local_memory_access r @ [e]\<rparr>)
                  (s\<lparr>local_memory_access := AList.delete addr (local_memory_access s)\<rparr>))"

definition postprocess :: "memory_local_event list sys" where
  "postprocess = (\<lambda>c. if tracing (rt c)
     then Inr (map snd (ctx_local c), c\<lparr>rt := fold move_local (map fst (ctx_local c)) (rt c), ctx_local := []\<rparr>)
     else Inr ([], c))"

section \<open>Syscall events\<close>

definition write_record_default :: memory_write_record where
  "write_record_default = \<lparr>wr_value = 0, wr_shard = 0, wr_timestamp = 0, wr_prev_value = 0, wr_prev_shard = 0,
     wr_prev_timestamp = 0\<rparr>"

definition syscall_event :: "u32 \<Rightarrow> memory_record_enum option \<Rightarrow> bool option \<Rightarrow> syscall_code \<Rightarrow> u32 \<Rightarrow> u32 \<Rightarrow> u32
    \<Rightarrow> executor \<Rightarrow> syscall_event" where
  "syscall_event start_clk a_record op_a_0 code arg1 arg2 next_pc s =
     (let (write, is_real) = (case a_record of Some (Write_rec r) \<Rightarrow> (r, True) | _ \<Rightarrow> (write_record_default, False)) in
      \<lparr>sy_pc = pc (state s), sy_next_pc = next_pc, sy_shard = current_shard (state s), sy_clk = start_clk,
       sy_a_record = write, sy_a_record_is_real = is_real,
       sy_op_a_0 = (case op_a_0 of None \<Rightarrow> False | Some b \<Rightarrow> b),
       sy_syscall_code = code, sy_syscall_id = syscall_id code, sy_arg1 = arg1, sy_arg2 = arg2\<rparr>)"

text \<open>\<open>ctx.add_precompile_event\<close> checks the mode, \<open>ctx.record_mut().add_precompile_event\<close> does not.\<close>

definition record_mut_add_precompile_event :: "syscall_code \<Rightarrow> syscall_event \<Rightarrow> precompile_event \<Rightarrow> unit sys" where
  "record_mut_add_precompile_event code se pe = (\<lambda>c.
     rbind (record_add_precompile_event (exec_record (rt c)) code se pe) (\<lambda>r.
     Inr ((), c\<lparr>rt := (rt c)\<lparr>exec_record := r\<rparr>\<rparr>)))"

definition add_precompile_event :: "syscall_code \<Rightarrow> syscall_event \<Rightarrow> precompile_event \<Rightarrow> unit sys" where
  "add_precompile_event code se pe = (\<lambda>c.
     if executor_mode (rt c) = Trace then record_mut_add_precompile_event code se pe c else Inr ((), c))"

text \<open>
  The end of every precompile: the event with the shard and the local memory events, the
  syscall event, and its insertion under \<open>key\<close>.  It returns \<open>None\<close>, so \<open>t0\<close> keeps the syscall id.
\<close>

definition finish_precompile :: "(syscall_code \<Rightarrow> syscall_event \<Rightarrow> precompile_event \<Rightarrow> unit sys)
    \<Rightarrow> syscall_code \<Rightarrow> syscall_code \<Rightarrow> u32 \<Rightarrow> u32 \<Rightarrow> u32 \<Rightarrow> (u32 \<Rightarrow> memory_local_event list \<Rightarrow> precompile_event)
    \<Rightarrow> u32 option sys" where
  "finish_precompile add key code start_clk arg1 arg2 event =
     sbind (sget (\<lambda>c. current_shard (state (rt c)))) (\<lambda>shard.
     sbind postprocess (\<lambda>local_mem_access.
     sbind (sget (\<lambda>c. syscall_event start_clk None None code arg1 arg2 (ctx_next_pc c) (rt c))) (\<lambda>se.
     sbind (add key se (event shard local_mem_access)) (\<lambda>_.
     sret None))))"

end
