(* ===== verification/SP1_Curves.thy ===== *)
theory SP1_Curves
  imports SP1_Prelude
begin

text \<open>
  Big integers and elliptic-curve arithmetic of the precompiles: \<open>crates/curves/src\<close>
  (\<open>AffinePoint\<close>, \<open>sw_add\<close>, \<open>sw_double\<close>, \<open>dashu_modpow\<close>, \<open>ed_add\<close>, \<open>ed25519_sqrt\<close>,
  \<open>decompress\<close> and the curve constants) and the conversions of
  \<open>crates/primitives/src/consts.rs\<close>.

  \<open>BigUint\<close> and \<open>UBig\<close> are natural numbers; their subtraction panics when it would be
  negative, which the operations here model with \<open>usub\<close>.  The decompression of the secp and
  BLS curves calls third-party crates and is a parameter of the syscalls.
\<close>

section \<open>Big integers, bytes and words\<close>

definition usub :: "nat \<Rightarrow> nat \<Rightarrow> ('e, nat) result" where
  "usub a b = (if b \<le> a then Inr (a - b) else Inl Panic)"

text \<open>\<open>BigUint::from_bytes_le\<close> and \<open>BigUint::from_slice\<close>.\<close>

fun from_bytes_le :: "u8 list \<Rightarrow> nat" where
  "from_bytes_le [] = 0"
| "from_bytes_le (b # bs) = unat b + 256 * from_bytes_le bs"

fun from_slice :: "u32 list \<Rightarrow> nat" where
  "from_slice [] = 0"
| "from_slice (w # ws) = unat w + 4294967296 * from_slice ws"

text \<open>\<open>BigUint::to_bytes_le\<close> (one zero byte for 0) and \<open>BigUint::to_u32_digits\<close> (none for 0),
  and \<open>Vec::resize\<close>.\<close>

fun to_bytes_le :: "nat \<Rightarrow> u8 list" where
  "to_bytes_le n = (if n < 256 then [of_nat n] else of_nat (n mod 256) # to_bytes_le (n div 256))"

fun to_u32_digits :: "nat \<Rightarrow> u32 list" where
  "to_u32_digits n = (if n = 0 then [] else of_nat (n mod 4294967296) # to_u32_digits (n div 4294967296))"

declare to_bytes_le.simps [simp del] to_u32_digits.simps [simp del]

definition resize :: "'a \<Rightarrow> nat \<Rightarrow> 'a list \<Rightarrow> 'a list" where
  "resize z k xs = take k xs @ replicate (k - length xs) z"

definition words_to_bytes_le :: "u32 list \<Rightarrow> u8 list" where
  "words_to_bytes_le ws = concat (map to_le_bytes ws)"

text \<open>\<open>chunks_exact(4)\<close> drops an incomplete last chunk.\<close>

fun bytes_to_words_le :: "u8 list \<Rightarrow> u32 list" where
  "bytes_to_words_le (b0 # b1 # b2 # b3 # bs) = from_le_bytes4 b0 b1 b2 b3 # bytes_to_words_le bs"
| "bytes_to_words_le _ = []"

section \<open>Affine points\<close>

record affine_point =
  px :: nat
  py :: nat

text \<open>The parameters of a curve: \<open>modulus\<close>, \<open>a_int\<close> (or \<open>d_biguint\<close>), \<open>b_int\<close> (0 for the Edwards curve), and the number of bytes of
  a coordinate (\<open>NumLimbs\<close>); a coordinate has a quarter as many words, a point half as many.\<close>

datatype curve_type = Secp256k1 | Secp256r1 | Bn254 | Ed25519 | Bls12381

record curve =
  curve_type :: curve_type
  modulus :: nat
  a_int :: nat
  b_int :: nat
  num_limbs :: nat

definition words_field_element :: "curve \<Rightarrow> nat" where
  "words_field_element E = num_limbs E div 4"

definition words_curve_point :: "curve \<Rightarrow> nat" where
  "words_curve_point E = num_limbs E div 2"

definition from_words_le :: "u32 list \<Rightarrow> affine_point" where
  "from_words_le ws = (let h = length ws div 2 in
     \<lparr>px = from_bytes_le (words_to_bytes_le (take h ws)),
      py = from_bytes_le (words_to_bytes_le (drop h ws))\<rparr>)"

definition to_words_le :: "curve \<Rightarrow> affine_point \<Rightarrow> u32 list" where
  "to_words_le E p =
     (let num_words = words_curve_point E;
          num_bytes = num_words * 4;
          half_words = num_words div 2;
          x_bytes = resize 0 (num_bytes div 2) (to_bytes_le (px p));
          y_bytes = resize 0 (num_bytes div 2) (to_bytes_le (py p));
          word = (\<lambda>bs i. from_le_bytes4 (bs ! (4 * i)) (bs ! (4 * i + 1)) (bs ! (4 * i + 2)) (bs ! (4 * i + 3)))
      in map (word x_bytes) [0..<half_words] @ map (word y_bytes) [0..<half_words])"

section \<open>Modular exponentiation\<close>

text \<open>
  Of the two variants of the curve operations this is the default one, on the integers of \<open>dashu\<close>; the
  feature \<open>bigint-rug\<close> selects one with the same formulas on the integers of the \<open>rug\<close> crate, which is
  not modelled.  The \<open>while\<close> loop of \<open>dashu_modpow\<close>:
\<close>

function modpow_loop :: "nat \<Rightarrow> nat \<Rightarrow> nat \<Rightarrow> nat \<Rightarrow> nat" where
  "modpow_loop result base e m =
     (if e > 0
      then (let result = (if e mod 2 = 1 then result * base mod m else result)
            in modpow_loop result (base * base mod m) (e div 2) m)
      else result)"
  by pat_completeness auto
termination by (relation "measure (\<lambda>(_, _, e, _). e)") auto

declare modpow_loop.simps [simp del]

definition dashu_modpow :: "nat \<Rightarrow> nat \<Rightarrow> nat \<Rightarrow> nat" where
  "dashu_modpow base e m = (if m = 1 then 0 else modpow_loop 1 (base mod m) e m)"

lemma modpow_loop_power:
  "e = 0 \<longrightarrow> result < m \<Longrightarrow> 0 < m \<Longrightarrow> modpow_loop result base e m = result * base ^ e mod m"
proof (induction result base e m rule: modpow_loop.induct)
  case (1 result base e m)
  show ?case
  proof (cases "e > 0")
    case True
    let ?r = "if e mod 2 = 1 then result * base mod m else result"
    have "base ^ e = base ^ (2 * (e div 2) + e mod 2)" by simp
    also have "\<dots> = (base * base) ^ (e div 2) * base ^ (e mod 2)"
      by (simp only: power_add power_mult power2_eq_square)
    also have "base ^ (e mod 2) = (if e mod 2 = 1 then base else 1)" by (simp add: mod2_eq_if)
    finally have e: "base ^ e = (if e mod 2 = 1 then base else 1) * (base * base) ^ (e div 2)"
      by (simp only: mult.commute)
    show ?thesis
    proof (cases "e div 2 = 0 \<and> \<not> ?r < m")
      case True
      then show ?thesis using 1(3) \<open>e > 0\<close> by (auto split: if_splits)
    next
      case False
      then have "modpow_loop ?r (base * base mod m) (e div 2) m = ?r * (base * base mod m) ^ (e div 2) mod m"
        using 1(1) [OF True refl] 1(3) by blast
      also have "\<dots> = result * base ^ e mod m"
      proof -
        have c: "x * (base * base mod m) ^ k mod m = x * (base * base) ^ k mod m" for x k
          by (metis mod_mult_right_eq power_mod)
        show ?thesis unfolding e c by (auto simp: mod_simps mult.assoc)
      qed
      finally show ?thesis using True by (simp add: modpow_loop.simps [of result base e m])
    qed
  qed (use 1 in \<open>simp add: modpow_loop.simps\<close>)
qed

lemma dashu_modpow_power: "0 < m \<Longrightarrow> dashu_modpow base e m = base ^ e mod m"
  unfolding dashu_modpow_def by (cases "m = 1") (auto simp: modpow_loop_power mod_simps)

text \<open>\<open>BigUint::modpow\<close> of the \<open>num\<close> crate; computed by the same loop.\<close>

definition modpow :: "nat \<Rightarrow> nat \<Rightarrow> nat \<Rightarrow> nat" where
  "modpow base e m = base ^ e mod m"

lemma modpow_code [code]: "modpow base e m = (if m = 0 then base ^ e else dashu_modpow base e m)"
  by (simp add: modpow_def dashu_modpow_power)

section \<open>Short Weierstrass curves\<close>

definition sw_add :: "curve \<Rightarrow> affine_point \<Rightarrow> affine_point \<Rightarrow> ('e, affine_point) result" where
  "sw_add E s other = (if px s = px other \<and> py s = py other then Inl Panic else
     (let p = modulus E in
      rbind (usub (p + py other) (py s)) (\<lambda>num.
      rbind (usub (p + px other) (px s)) (\<lambda>den.
      let slope_numerator = num mod p;
          slope_denominator = den mod p;
          slope_denom_inverse = dashu_modpow slope_denominator (p - 2) p;
          slope = slope_numerator * slope_denom_inverse mod p in
      rbind (usub (slope * slope + p + p) (px s)) (\<lambda>t.
      rbind (usub t (px other)) (\<lambda>t.
      let x_3n = t mod p in
      rbind (usub (p + px s) x_3n) (\<lambda>d.
      rbind (usub (slope * d + p) (py s)) (\<lambda>t.
      Inr \<lparr>px = x_3n, py = t mod p\<rparr>))))))))"

definition sw_double :: "curve \<Rightarrow> affine_point \<Rightarrow> ('e, affine_point) result" where
  "sw_double E s =
     (let p = modulus E;
          slope_numerator = (a_int E + px s * px s * 3) mod p;
          slope_denominator = py s * 2 mod p;
          slope_denom_inverse = dashu_modpow slope_denominator (p - 2) p;
          slope = slope_numerator * slope_denom_inverse mod p in
      rbind (usub (slope * slope + p + p) (px s)) (\<lambda>t.
      rbind (usub t (px s)) (\<lambda>t.
      let x_3n = t mod p in
      rbind (usub (p + px s) x_3n) (\<lambda>d.
      rbind (usub (slope * d + p) (py s)) (\<lambda>t.
      Inr \<lparr>px = x_3n, py = t mod p\<rparr>)))))"

section \<open>The Edwards curve\<close>

definition ed_add :: "curve \<Rightarrow> affine_point \<Rightarrow> affine_point \<Rightarrow> ('e, affine_point) result" where
  "ed_add E s other =
     (let p = modulus E;
          x_3n = (px s * py other + py s * px other) mod p;
          y_3n = (py s * py other + px s * px other) mod p;
          all_xy = px s * py s * px other * py other mod p;
          d = a_int E;
          dxy = d * all_xy mod p;
          den_x = modpow ((1 + dxy) mod p) (p - 2) p in
      rbind (usub (1 + p) dxy) (\<lambda>t.
      let den_y = modpow (t mod p) (p - 2) p in
      Inr \<lparr>px = x_3n * den_x mod p, py = y_3n * den_y mod p\<rparr>))"

text \<open>The bytes \<open>MODULUS\<close> of the base fields, and the curves of the precompiles.\<close>

fun MODULUS :: "curve_type \<Rightarrow> u8 list" where
  "MODULUS Ed25519 = [237, 255, 255, 255, 255, 255, 255, 255, 255, 255, 255, 255, 255, 255, 255, 255, 255,
     255, 255, 255, 255, 255, 255, 255, 255, 255, 255, 255, 255, 255, 255, 127]"
| "MODULUS Secp256k1 = [0x2f, 0xfc, 0xff, 0xff, 0xfe, 0xff, 0xff, 0xff, 0xff, 0xff, 0xff, 0xff, 0xff, 0xff,
     0xff, 0xff, 0xff, 0xff, 0xff, 0xff, 0xff, 0xff, 0xff, 0xff, 0xff, 0xff, 0xff, 0xff, 0xff, 0xff, 0xff,
     0xff]"
| "MODULUS Secp256r1 = [0xff, 0xff, 0xff, 0xff, 0xff, 0xff, 0xff, 0xff, 0xff, 0xff, 0xff, 0xff, 0x00, 0x00,
     0x00, 0x00, 0x00, 0x00, 0x00, 0x00, 0x00, 0x00, 0x00, 0x00, 0x01, 0x00, 0x00, 0x00, 0xff, 0xff, 0xff,
     0xff]"
| "MODULUS Bn254 = [71, 253, 124, 216, 22, 140, 32, 60, 141, 202, 113, 104, 145, 106, 129, 151, 93, 88, 129,
     129, 182, 69, 80, 184, 41, 160, 49, 225, 114, 78, 100, 48]"
| "MODULUS Bls12381 = [171, 170, 255, 255, 255, 255, 254, 185, 255, 255, 83, 177, 254, 255, 171, 30, 36, 246,
     176, 246, 160, 210, 48, 103, 191, 18, 133, 243, 132, 75, 119, 100, 215, 172, 75, 67, 182, 167, 27, 75,
     154, 230, 127, 57, 234, 17, 1, 26]"

definition ed25519_D :: "u8 list" where
  "ed25519_D = [163, 120, 89, 19, 202, 77, 235, 117, 171, 216, 65, 65, 77, 10, 112, 0, 152, 232, 121, 119,
     121, 64, 199, 140, 115, 254, 111, 43, 238, 108, 3, 82]"

definition ed25519 :: curve where
  "ed25519 = \<lparr>curve_type = Ed25519, modulus = 2 ^ 255 - 19, a_int = from_bytes_le ed25519_D, b_int = 0,
     num_limbs = 32\<rparr>"

definition secp256k1 :: curve where
  "secp256k1 = \<lparr>curve_type = Secp256k1, modulus = from_bytes_le (MODULUS Secp256k1), a_int = 0, b_int = 7,
     num_limbs = 32\<rparr>"

definition secp256r1 :: curve where
  "secp256r1 = \<lparr>curve_type = Secp256r1, modulus = from_bytes_le (MODULUS Secp256r1),
     a_int = from_slice [0xFFFFFFFC, 0xFFFFFFFF, 0xFFFFFFFF, 0x00000000, 0x00000000, 0x00000000, 0x00000001,
       0xFFFFFFFF],
     b_int = from_slice [0x27D2604B, 0x3BCE3C3E, 0xCC53B0F6, 0x651D06B0, 0x769886BC, 0xB3EBBD55, 0xAA3A93E7,
       0x5AC635D8], num_limbs = 32\<rparr>"

definition bn254 :: curve where
  "bn254 = \<lparr>curve_type = Bn254,
     modulus = 21888242871839275222246405745257275088696311157297823662689037894645226208583,
     a_int = 0, b_int = 3, num_limbs = 32\<rparr>"

definition bls12381 :: curve where
  "bls12381 = \<lparr>curve_type = Bls12381,
     modulus = 4002409555221667393417789825735904156556882819939007885332058136124031650490837864442687629129015664037894272559787,
     a_int = 0, b_int = 4, num_limbs = 48\<rparr>"

definition ed25519_sqrt :: "nat \<Rightarrow> ('e, nat option) result" where
  "ed25519_sqrt a =
     (let modulus = modulus ed25519;
          beta = modpow a 7237005577332262213973186563042994240829374041602535252466099000494570602494 modulus;
          sqrt_m1 = 19681161376707505956807079304988542015446066515923890162744021073123829784752;
          beta_squared = beta * beta mod modulus in
      rbind (usub modulus a) (\<lambda>neg_a.
      let beta = (if beta_squared = neg_a then beta * sqrt_m1 mod modulus else beta);
          correct_sign_sqrt = (beta_squared = a);
          flipped_sign_sqrt = (beta_squared = neg_a) in
      if \<not> correct_sign_sqrt \<and> \<not> flipped_sign_sqrt then Inr None
      else if hd (to_bytes_le beta) AND 1 = 1
      then rbind (usub modulus beta) (\<lambda>t. Inr (Some (t mod modulus)))
      else Inr (Some beta)))"

definition ed_decompress :: "u8 list \<Rightarrow> ('e, affine_point option) result" where
  "ed_decompress point_bytes =
     (let sign = (drop_bit 7 (point_bytes ! 31) = 1);
          point_bytes = point_bytes[31 := point_bytes ! 31 AND 127];
          modulus = modulus ed25519;
          y = from_bytes_le point_bytes;
          yy = y * y mod modulus in
      rbind (usub (yy + modulus) 1) (\<lambda>t.
      let u = t mod modulus;
          v = (yy * a_int ed25519 + 1) mod modulus;
          v_inv = modpow v (modulus - 2) modulus;
          u_div_v = u * v_inv mod modulus in
      rbind (ed25519_sqrt u_div_v) (\<lambda>r. case r of
          None \<Rightarrow> Inr None
        | Some x \<Rightarrow>
            rbind (if sign then rbind (usub modulus x) (\<lambda>t. Inr (t mod modulus)) else Inr x) (\<lambda>x.
            Inr (Some \<lparr>px = x, py = y\<rparr>)))))"

section \<open>Encodings\<close>

lemma resize_length [simp]: "length (resize z k xs) = k"
  by (simp add: resize_def)

lemma resize_Cons_Suc [simp]: "resize z (Suc k) (x # xs) = x # resize z k xs"
  by (simp add: resize_def)

lemma resize_0 [simp]: "resize z 0 xs = []"
  by (simp add: resize_def)

lemma from_bytes_replicate [simp]: "from_bytes_le (replicate k 0) = 0"
  by (induction k) simp_all

lemma from_bytes_resize: "from_bytes_le (resize 0 k (to_bytes_le n)) = n mod 256 ^ k"
proof (induction k arbitrary: n)
  case (Suc k)
  show ?case
  proof (cases "n < 256")
    case True
    then have "resize 0 (Suc k) (to_bytes_le n) = of_nat n # replicate k 0"
      by (simp add: to_bytes_le.simps [of n]) (simp add: resize_def)
    then show ?thesis using True by (simp add: unat_of_nat mod_mult2_eq)
  next
    case False
    then have "resize 0 (Suc k) (to_bytes_le n) = of_nat (n mod 256) # resize 0 k (to_bytes_le (n div 256))"
      by (simp add: to_bytes_le.simps [of n])
    then show ?thesis using Suc by (simp add: unat_of_nat mod_mult2_eq)
  qed
qed simp

lemma from_bytes_0: "from_bytes_le bs = 0 \<Longrightarrow> bs = replicate (length bs) 0"
  by (induction bs) (auto simp: unat_eq_zero)

lemma resize_from_bytes: "resize 0 (length bs) (to_bytes_le (from_bytes_le bs)) = bs"
proof (induction bs)
  case (Cons b bs)
  let ?m = "from_bytes_le bs"
  have b: "unat b < 256" using unsigned_less [of b, where 'a = nat] by simp
  show ?case
  proof (cases "?m = 0")
    case True
    then have "bs = replicate (length bs) 0" by (rule from_bytes_0)
    then show ?thesis using True b
      by (simp add: to_bytes_le.simps [of "unat b"]) (simp add: resize_def)
  next
    case False
    then have "to_bytes_le (unat b + 256 * ?m) = b # to_bytes_le ?m"
      using b by (simp add: to_bytes_le.simps [of "unat b + 256 * ?m"])
    then show ?thesis using Cons by simp
  qed
qed simp

lemma u8_bit_high: "8 \<le> n \<Longrightarrow> \<not> bit (b :: u8) n"
  using bit_imp_le_length [of b n] by auto

lemma from_le_bytes4_to_le_bytes:
  "from_le_bytes4 (ucast w) (ucast (drop_bit 8 w)) (ucast (drop_bit 16 w)) (ucast (drop_bit 24 w)) = w"
proof (rule bit_word_eqI)
  fix n assume "n < LENGTH(32)"
  then show "bit (from_le_bytes4 (ucast w) (ucast (drop_bit 8 w)) (ucast (drop_bit 16 w)) (ucast (drop_bit 24 w))) n
      = bit w n"
    by (cases "n < 8"; cases "n < 16"; cases "n < 24") (auto simp: from_le_bytes4_def bit_simps u8_bit_high)
qed

lemma to_le_bytes_from_le_bytes4: "to_le_bytes (from_le_bytes4 b0 b1 b2 b3) = [b0, b1, b2, b3]"
  unfolding to_le_bytes_def from_le_bytes4_def
  by (auto intro!: bit_word_eqI simp: bit_simps u8_bit_high)

lemma bytes_to_words_roundtrip [simp]: "bytes_to_words_le (words_to_bytes_le ws) = ws"
  by (induction ws) (simp_all add: words_to_bytes_le_def to_le_bytes_def from_le_bytes4_to_le_bytes)

lemma words_to_bytes_roundtrip: "length bs = 4 * k \<Longrightarrow> words_to_bytes_le (bytes_to_words_le bs) = bs"
proof (induction k arbitrary: bs)
  case (Suc k)
  then obtain b0 b1 b2 b3 cs where "bs = b0 # b1 # b2 # b3 # cs" "length cs = 4 * k"
    by (auto simp: numeral_eq_Suc length_Suc_conv)
  then show ?case using Suc.IH [of cs] by (simp add: words_to_bytes_le_def to_le_bytes_from_le_bytes4)
qed (simp add: words_to_bytes_le_def)

lemma length_words_to_bytes [simp]: "length (words_to_bytes_le ws) = 4 * length ws"
  by (induction ws) (simp_all add: words_to_bytes_le_def)

lemma words_by_index:
  "length bs = 4 * h \<Longrightarrow> map (\<lambda>i. from_le_bytes4 (bs ! (4 * i)) (bs ! (4 * i + 1)) (bs ! (4 * i + 2)) (bs ! (4 * i + 3))) [0..<h]
    = bytes_to_words_le bs"
proof (induction h arbitrary: bs)
  case (Suc h)
  then obtain b0 b1 b2 b3 cs where bs: "bs = b0 # b1 # b2 # b3 # cs" "length cs = 4 * h"
    by (auto simp: numeral_eq_Suc length_Suc_conv)
  show ?case unfolding upt_conv_Cons [OF zero_less_Suc] map_Suc_upt [symmetric]
    using Suc.IH [OF bs(2)] by (simp add: bs o_def numeral_eq_Suc)
qed simp

lemma to_words_le_eq:
  assumes "num_limbs E mod 4 = 0"
  shows "to_words_le E p = bytes_to_words_le (resize 0 (num_limbs E) (to_bytes_le (px p)))
    @ bytes_to_words_le (resize 0 (num_limbs E) (to_bytes_le (py p)))"
proof -
  obtain k where k: "num_limbs E = 4 * k" using assms by auto
  show ?thesis using words_by_index [of "resize 0 (num_limbs E) (to_bytes_le (px p))" k]
    words_by_index [of "resize 0 (num_limbs E) (to_bytes_le (py p))" k]
    by (simp add: to_words_le_def words_curve_point_def k Let_def)
qed


lemma from_to_words_le:
  assumes "num_limbs E mod 4 = 0" and c: "px p < 256 ^ num_limbs E" "py p < 256 ^ num_limbs E"
  shows "from_words_le (to_words_le E p) = p"
proof -
  obtain k where k: "num_limbs E = 4 * k" using assms by auto
  have l: "length (bytes_to_words_le bs) = k" if "length bs = 4 * k" for bs
    using words_to_bytes_roundtrip [OF that] that by (metis length_words_to_bytes mult_cancel1 zero_neq_numeral)
  show ?thesis
    unfolding to_words_le_eq [OF assms(1)]
    using c by (simp add: from_words_le_def Let_def l k words_to_bytes_roundtrip from_bytes_resize)
qed

lemma to_from_words_le:
  assumes "num_limbs E mod 4 = 0" and "length ws = words_curve_point E"
  shows "to_words_le E (from_words_le ws) = ws"
proof -
  obtain k where k: "num_limbs E = 4 * k" using assms by auto
  then have l: "length ws = 2 * k" using assms by (simp add: words_curve_point_def)
  have b: "resize 0 (4 * k) (to_bytes_le (from_bytes_le (words_to_bytes_le vs))) = words_to_bytes_le vs"
    if "length vs = k" for vs
    using resize_from_bytes [of "words_to_bytes_le vs"] that by simp
  show ?thesis unfolding to_words_le_eq [OF assms(1)] by (simp add: from_words_le_def Let_def l k b)
qed

text \<open>
  (C20) The word encoding of a curve point and its decoding are inverse to each other: a
  point whose coordinates fit in the field's bytes survives the round trip through memory
  words, and every memory image of the right length is the encoding of the point it
  decodes to.
\<close>

theorem point_words_roundtrip:
  assumes "num_limbs E mod 4 = 0"
  shows "(length ws = words_curve_point E \<longrightarrow> to_words_le E (from_words_le ws) = ws)
    \<and> (px p < 256 ^ num_limbs E \<and> py p < 256 ^ num_limbs E \<longrightarrow> from_words_le (to_words_le E p) = p)"
  using from_to_words_le [OF assms] to_from_words_le [OF assms] by blast

theorem point_words_roundtrip_witness:
  "from_words_le (to_words_le bn254 \<lparr>px = 1, py = 2\<rparr>) = \<lparr>px = 1, py = 2\<rparr>"
  using point_words_roundtrip [of bn254 "[]" "\<lparr>px = 1, py = 2\<rparr>"] by (simp add: bn254_def)

section \<open>Square roots\<close>

lemma ed25519_modulus: "modulus ed25519 = 57896044618658097711785492504343953926634992332820282019728792003956564819949"
  by (simp add: ed25519_def)

lemma ed25519_modulus_facts: "2 < modulus ed25519" "odd (modulus ed25519)"
  by (simp_all add: ed25519_modulus)

lemma hd_to_bytes_odd: "hd (to_bytes_le n) AND 1 = 1 \<longleftrightarrow> odd n"
proof -
  have "hd (to_bytes_le n) = of_nat n"
    by (simp add: to_bytes_le.simps [of n] word_unat_eq_iff unat_of_nat take_bit_eq_mod)
  moreover have "(of_nat n :: u8) AND 1 = of_bool (odd n)"
    by (simp add: and_one_eq mod2_eq_if)
  ultimately show ?thesis by simp
qed

lemma sqrt_m1_squared:
  "19681161376707505956807079304988542015446066515923890162744021073123829784752
   * 19681161376707505956807079304988542015446066515923890162744021073123829784752 mod modulus ed25519
   = modulus ed25519 - 1"
  by (simp add: ed25519_modulus)

lemma flip_root:
  fixes b i a p :: nat
  assumes "0 < a" "a < p" "b * b mod p = p - a" "i * i mod p = p - 1"
  shows "(b * i mod p) * (b * i mod p) mod p = a"
proof -
  have "(b * i mod p) * (b * i mod p) mod p = (b * b mod p) * (i * i mod p) mod p"
    by (simp only: mod_mult_eq ac_simps)
  also have "\<dots> = (p - a) * (p - 1) mod p" using assms by simp
  also have "(p - a) * (p - 1) = (p - a - 1) * p + a"
  proof -
    obtain c where "p = a + 1 + c" using assms(2) by (metis Suc_eq_plus1 Suc_leI le_iff_add)
    then show ?thesis by (simp add: algebra_simps)
  qed
  finally show ?thesis using assms by simp
qed

lemma neg_root:
  fixes b p :: nat
  assumes "b < p"
  shows "((p - b) mod p) * ((p - b) mod p) mod p = b * b mod p"
proof -
  have "((p - b) mod p) * ((p - b) mod p) mod p = (p - b) * (p - b) mod p" by (simp add: mod_simps)
  also have "\<dots> = b * b mod p"
  proof -
    obtain c where c: "p = b + c" using assms by (metis less_imp_le le_iff_add)
    then have "c * c + 2 * b * p = b * b + p * p" by (simp add: algebra_simps)
    then have "(c * c + 2 * b * p) mod p = (b * b + p * p) mod p" by (rule arg_cong)
    then show ?thesis by (simp add: c)
  qed
  finally show ?thesis .
qed

text \<open>
  (C25) \<open>ed25519_sqrt\<close> returns a square root: whenever it returns a value for a reduced
  argument, that value is reduced, its square is the argument modulo \<open>2^255 - 19\<close>, and it is
  the non-negative root in the sense of its comment (the least significant bit is 0).
\<close>

theorem ed25519_sqrt_correct:
  assumes "a < modulus ed25519" "ed25519_sqrt a = Inr (Some r)"
  shows "r < modulus ed25519 \<and> r * r mod modulus ed25519 = a \<and> even r"
proof -
  let ?p = "modulus ed25519"
  define beta where "beta = modpow a 7237005577332262213973186563042994240829374041602535252466099000494570602494 ?p"
  define i :: nat where "i = 19681161376707505956807079304988542015446066515923890162744021073123829784752"
  have p: "0 < ?p" "odd ?p" using ed25519_modulus_facts by simp_all
  have b: "beta < ?p" using p by (simp add: beta_def modpow_def)
  have i: "i * i mod ?p = ?p - 1" unfolding i_def by (rule sqrt_m1_squared)
  define b' where "b' = (if beta * beta mod ?p = ?p - a then beta * i mod ?p else beta)"
  have r: "beta * beta mod ?p = a \<or> beta * beta mod ?p = ?p - a"
    "(if odd b' then (?p - b') mod ?p else b') = r"
    using assms by (auto simp: ed25519_sqrt_def beta_def i_def b'_def Let_def usub_def rbind_eq_Inr hd_to_bytes_odd split: if_splits)
  have "b' < ?p" using b p by (simp add: b'_def)
  moreover have "b' * b' mod ?p = a"
  proof (cases "beta * beta mod ?p = ?p - a")
    case True
    then have "0 < a" using p by (metis diff_zero gr0I less_irrefl mod_less_divisor)
    then show ?thesis using flip_root [OF _ assms(1) True i] True by (simp add: b'_def)
  qed (use r in \<open>simp add: b'_def\<close>)
  moreover have "even ((?p - b') mod ?p)" if "odd b'"
    using that p \<open>b' < ?p\<close> by (cases "b' = 0") auto
  ultimately show ?thesis using r(2) neg_root [of b' ?p] p by auto
qed

theorem ed25519_sqrt_correct_witness:
  "(modulus ed25519 - 1) * (modulus ed25519 - 1) mod modulus ed25519 = 1 \<and> even (modulus ed25519 - 1)"
proof -
  have "ed25519_sqrt 1 = (Inr (Some (modulus ed25519 - 1)) :: (unit, nat option) result)"
    using ed25519_modulus_facts by (auto simp: ed25519_sqrt_def modpow_def Let_def usub_def hd_to_bytes_odd)
  from ed25519_sqrt_correct [OF _ this] show ?thesis using ed25519_modulus_facts by simp
qed

section \<open>The curve equation\<close>

text \<open>
  Primality in the form the proofs use (Euclid's lemma); the moduli of the curves are primes.
\<close>

definition prime_modulus :: "nat \<Rightarrow> bool" where
  "prime_modulus p \<longleftrightarrow> 2 < p \<and> (\<forall>a b. p dvd a * b \<longrightarrow> p dvd a \<or> p dvd b)"

lemma prime_dvd_binomial:
  assumes "prime_modulus p" "0 < k" "k < p"
  shows "p dvd (p choose k)"
proof -
  have "p dvd k * (p choose k)" using times_binomial_minus1_eq [OF assms(2), of p] by simp
  moreover have "\<not> p dvd k" using assms(2,3) by (simp add: nat_dvd_not_less)
  ultimately show ?thesis using assms(1) unfolding prime_modulus_def by blast
qed

lemma fermat_power: "prime_modulus p \<Longrightarrow> a ^ p mod p = a mod p"
proof (induction a)
  case 0
  then show ?case by (simp add: prime_modulus_def zero_power)
next
  case (Suc a)
  have p: "0 < p" using Suc(2) by (simp add: prime_modulus_def)
  have "(a + 1) ^ p = (\<Sum>k\<le>p. (p choose k) * a ^ k)" using binomial_ring [of a 1 p] by simp
  also have "\<dots> = (\<Sum>k\<in>{0, p}. (p choose k) * a ^ k) + (\<Sum>k\<in>{1..<p}. (p choose k) * a ^ k)"
  proof -
    have s: "{..p} = {0, p} \<union> {1..<p}" using p by auto
    show ?thesis unfolding s by (rule sum.union_disjoint) auto
  qed
  also have "(\<Sum>k\<in>{0, p}. (p choose k) * a ^ k) = 1 + a ^ p" using p by simp
  finally have "(a + 1) ^ p = 1 + a ^ p + (\<Sum>k\<in>{1..<p}. (p choose k) * a ^ k)" .
  moreover have "p dvd (\<Sum>k\<in>{1..<p}. (p choose k) * a ^ k)"
    using prime_dvd_binomial [OF Suc(2)] by (intro dvd_sum) auto
  ultimately have "(a + 1) ^ p mod p = (1 + a ^ p) mod p" by (auto elim!: dvdE)
  also have "\<dots> = (1 + a) mod p" using Suc by (metis mod_add_right_eq)
  finally show ?case by simp
qed

lemma fermat_inverse:
  assumes "prime_modulus p" "\<not> p dvd a"
  shows "a * a ^ (p - 2) mod p = 1"
proof -
  have p: "2 < p" using assms by (simp add: prime_modulus_def)
  have "p = Suc (p - 1)" "p - 1 = Suc (p - 2)" using p by simp_all
  then have e: "a ^ p = a * a ^ (p - 1)" "a ^ (p - 1) = a * a ^ (p - 2)" by (metis power_Suc)+
  have "0 < a ^ (p - 1)" using assms(2) by (cases "a = 0") auto
  then have le: "a \<le> a * a ^ (p - 1)" by simp
  have "p dvd a ^ p - a" using fermat_power [OF assms(1), of a] le e(1) by (simp add: mod_eq_dvd_iff_nat)
  also have "a ^ p - a = a * (a ^ (p - 1) - 1)" by (simp add: e(1) diff_mult_distrib2)
  finally have "p dvd a ^ (p - 1) - 1" using assms unfolding prime_modulus_def by blast
  moreover have "1 \<le> a ^ (p - 1)" using \<open>0 < a ^ (p - 1)\<close> by linarith
  ultimately have "a ^ (p - 1) mod p = 1 mod p" using mod_eq_dvd_iff_nat by blast
  then show ?thesis using p e(2) by simp
qed

lemma chord_identity:
  fixes x1 x2 y1 l a b :: int
  defines "x3 \<equiv> l * l - x1 - x2"
  defines "f \<equiv> \<lambda>x. x * x * x + a * x + b - (y1 + l * (x - x1)) * (y1 + l * (x - x1))"
  shows "f x3 * (x2 - x1) = f x2 * (x3 - x1) - f x1 * (x3 - x2)"
  unfolding f_def x3_def by (simp add: algebra_simps)

lemma tangent_identity:
  fixes x1 y1 l a b :: int
  defines "x3 \<equiv> l * l - x1 - x1"
  defines "f \<equiv> \<lambda>x. x * x * x + a * x + b - (y1 + l * (x - x1)) * (y1 + l * (x - x1))"
  shows "f x3 = f x1 + (3 * (x1 * x1) + a - 2 * y1 * l) * (x3 - x1)"
  unfolding f_def x3_def by (simp add: algebra_simps)

definition on_curve :: "curve \<Rightarrow> affine_point \<Rightarrow> bool" where
  "on_curve E q \<longleftrightarrow> px q < modulus E \<and> py q < modulus E
     \<and> py q * py q mod modulus E = (px q * px q * px q + a_int E * px q + b_int E) mod modulus E"

lemma on_curve_int:
  "on_curve E q \<longleftrightarrow> px q < modulus E \<and> py q < modulus E
     \<and> int (modulus E) dvd int (px q) * int (px q) * int (px q) + int (a_int E) * int (px q) + int (b_int E)
         - int (py q) * int (py q)"
proof -
  have "py q * py q mod modulus E = (px q * px q * px q + a_int E * px q + b_int E) mod modulus E
    \<longleftrightarrow> int (py q * py q) mod int (modulus E) = int (px q * px q * px q + a_int E * px q + b_int E) mod int (modulus E)"
    by (simp only: zmod_int [symmetric] of_nat_eq_iff)
  also have "\<dots> \<longleftrightarrow> int (modulus E) dvd int (px q * px q * px q + a_int E * px q + b_int E) - int (py q * py q)"
    by (metis mod_eq_dvd_iff)
  finally show ?thesis unfolding on_curve_def by simp
qed

lemma third_point:
  fixes x1 y1 l x2 :: int
  assumes f: "m dvd (let x = l * l - x1 - x2; y = y1 + l * (x - x1) in x * x * x + a * x + b - y * y)"
    and x: "x3 = (l * l - x1 - x2) mod m" and y: "y3 = (l * (x1 - x3) - y1) mod m"
  shows "m dvd x3 * x3 * x3 + a * x3 + b - y3 * y3"
proof -
  let ?x = "l * l - x1 - x2"
  let ?y = "l * (x1 - ?x) - y1"
  have x': "x3 mod m = ?x mod m" by (simp add: x)
  have y': "y3 mod m = ?y mod m"
    unfolding y mod_mod_trivial by (intro mod_diff_cong mod_mult_cong x' refl)
  have "(x3 * x3 * x3 + a * x3 + b - y3 * y3) mod m = (?x * ?x * ?x + a * ?x + b - ?y * ?y) mod m"
    by (intro mod_add_cong mod_diff_cong mod_mult_cong x' y' refl)
  also have "?y * ?y = (y1 + l * (?x - x1)) * (y1 + l * (?x - x1))" by (simp add: algebra_simps)
  finally show ?thesis using f by (simp add: dvd_eq_mod_eq_0 Let_def)
qed

lemma slope_correct:
  assumes "prime_modulus p" "\<not> p dvd d"
  shows "(n mod p * dashu_modpow (d mod p) (p - 2) p mod p) * d mod p = n mod p"
proof -
  have p: "0 < p" using assms by (simp add: prime_modulus_def)
  have "(n mod p * dashu_modpow (d mod p) (p - 2) p mod p) * d mod p
      = n * (d * d ^ (p - 2)) mod p"
    unfolding dashu_modpow_power [OF p] by (simp add: mod_simps ac_simps)
  also have "\<dots> = n mod p" using fermat_inverse [OF assms] by (metis mod_mult_right_eq mult.right_neutral)
  finally show ?thesis .
qed

text \<open>The last two steps of both formulas.\<close>

definition third :: "nat \<Rightarrow> nat \<Rightarrow> nat \<Rightarrow> nat \<Rightarrow> nat \<Rightarrow> affine_point" where
  "third m l x1 x2 y1 = (let x3 = (l * l + m + m - (x1 + x2)) mod m in
     \<lparr>px = x3, py = (l * (m + x1 - x3) + m - y1) mod m\<rparr>)"

lemma third_on_curve:
  fixes E
  defines "m \<equiv> modulus E"
  assumes lt: "x1 < m" "x2 < m" "y1 < m"
    and f: "int m dvd (let x = int l * int l - int x1 - int x2; y = int y1 + int l * (x - int x1)
              in x * x * x + int (a_int E) * x + int (b_int E) - y * y)"
  shows "on_curve E (third m l x1 x2 y1)"
proof -
  let ?x = "(l * l + m + m - (x1 + x2)) mod m"
  let ?y = "(l * (m + x1 - ?x) + m - y1) mod m"
  have m: "0 < m" using lt by simp
  then have x: "?x < m" and y: "?y < m" by simp_all
  have "int (l * l + m + m - (x1 + x2)) = int l * int l - int x1 - int x2 + 2 * int m"
    using lt by (simp add: of_nat_diff)
  then have ix: "int ?x = (int l * int l - int x1 - int x2) mod int m"
    by (simp add: zmod_int)
  have "int (l * (m + x1 - z) + m - y1) = int l * (int x1 - int z) - int y1 + (int l + 1) * int m" if "z < m" for z
  proof -
    have "int (m + x1 - z) = int m + int x1 - int z" using that by (simp add: of_nat_diff)
    then have "int (l * (m + x1 - z)) = int l * (int m + int x1 - int z)" by simp
    then show ?thesis using lt by (simp add: of_nat_diff algebra_simps)
  qed
  from this [OF x]
  have iy: "int ?y = (int l * (int x1 - int ?x) - int y1) mod int m"
    by (simp only: zmod_int mod_mult_self1)
  show ?thesis using third_point [OF f ix iy] x y
    by (simp add: on_curve_int third_def Let_def m_def [symmetric])
qed

lemma sw_add_eq:
  fixes E
  defines "m \<equiv> modulus E"
  assumes lt: "px P < m" "py P < m" "px Q < m" "py Q < m" and ne: "px P \<noteq> px Q"
  shows "sw_add E P Q = Inr (third m ((m + py Q - py P) mod m * dashu_modpow ((m + px Q - px P) mod m) (m - 2) m mod m)
    (px P) (px Q) (py P))"
proof -
  define l where "l = (m + py Q - py P) mod m * dashu_modpow ((m + px Q - px P) mod m) (m - 2) m mod m"
  define x3 where "x3 = (l * l + m + m - (px P + px Q)) mod m"
  have "x3 < m" using lt by (simp add: x3_def)
  then have u: "usub (m + py Q) (py P) = Inr (m + py Q - py P)" "usub (m + px Q) (px P) = Inr (m + px Q - px P)"
    "usub (l * l + m + m) (px P) = Inr (l * l + m + m - px P)"
    "usub (l * l + m + m - px P) (px Q) = Inr (l * l + m + m - (px P + px Q))"
    "usub (m + px P) x3 = Inr (m + px P - x3)"
    "usub (l * (m + px P - x3) + m) (py P) = Inr (l * (m + px P - x3) + m - py P)"
    using lt by (simp_all add: usub_def)
  show ?thesis unfolding sw_add_def third_def m_def [symmetric] Let_def
    by (simp only: ne u rbind.simps l_def [symmetric] x3_def [symmetric] simp_thms if_False)
qed

lemma prime_int:
  assumes "prime_modulus p" "int p dvd a * b"
  shows "int p dvd a \<or> int p dvd b"
  using assms unfolding prime_modulus_def dvd_nat_abs_iff [symmetric] nat_abs_mult_distrib by blast

lemma dvd_square_shift:
  fixes m :: int
  assumes "m dvd c - y * y" "m dvd z - y" shows "m dvd c - z * z"
proof -
  have "c - z * z = (c - y * y) - (z - y) * (z + y)" by (simp add: algebra_simps)
  then show ?thesis using assms by (metis dvd_diff dvd_mult2)
qed

lemma mod_eq_int_dvd: "a mod m = b mod m \<Longrightarrow> int m dvd int a - int b"
  by (metis mod_eq_dvd_iff zmod_int)

lemma chord_slope:
  assumes p: "prime_modulus m" and lt: "x1 < m" "y1 < m" "x2 < m" "y2 < m" and ne: "x1 \<noteq> x2"
    and l: "l = (m + y2 - y1) mod m * dashu_modpow ((m + x2 - x1) mod m) (m - 2) m mod m"
  shows "int m dvd int l * (int x2 - int x1) - (int y2 - int y1)" and "\<not> int m dvd int x2 - int x1"
proof -
  have d: "int (m + x2 - x1) = int m + (int x2 - int x1)" "int (m + y2 - y1) = int m + (int y2 - int y1)"
    using lt by (simp_all add: of_nat_diff)
  show nd: "\<not> int m dvd int x2 - int x1"
    using lt ne [unfolded nat_neq_iff] zdvd_imp_le [of "int m" "int x2 - int x1"] zdvd_imp_le [of "int m" "int x1 - int x2"]
    by (auto simp: dvd_diff_commute)
  then have "\<not> m dvd m + x2 - x1" by (metis d(1) dvd_add_triv_left_iff int_dvd_int_iff)
  from mod_eq_int_dvd [OF slope_correct [OF p this]]
  have "int m dvd int l * int (m + x2 - x1) - int (m + y2 - y1)" unfolding l by simp
  then have "int m dvd (int l * (int x2 - int x1) - (int y2 - int y1)) + (int l - 1) * int m"
    unfolding d by (simp add: algebra_simps)
  then show "int m dvd int l * (int x2 - int x1) - (int y2 - int y1)" by simp
qed

lemma prime_modulus_5: "prime_modulus 5"
proof -
  have "5 dvd a \<or> 5 dvd b" if "5 dvd a * b" for a b :: nat
  proof -
    have "(a mod 5) * (b mod 5) mod 5 = 0" using that by (simp add: mod_mult_eq dvd_eq_mod_eq_0)
    moreover have "a mod 5 = 0 \<or> a mod 5 = 1 \<or> a mod 5 = 2 \<or> a mod 5 = 3 \<or> a mod 5 = 4"
      "b mod 5 = 0 \<or> b mod 5 = 1 \<or> b mod 5 = 2 \<or> b mod 5 = 3 \<or> b mod 5 = 4" by linarith+
    ultimately have "a mod 5 = 0 \<or> b mod 5 = 0" by auto
    then show ?thesis by (simp add: dvd_eq_mod_eq_0)
  qed
  then show ?thesis by (simp add: prime_modulus_def)
qed

text \<open>
  (C26) Over a prime field, \<open>sw_add\<close> of two points of the curve \<open>y^2 = x^3 + a x + b\<close> with
  different x coordinates does not panic and returns a point of the curve: the inverse
  computed with \<open>dashu_modpow\<close> is the field inverse and the chord formula is right.
\<close>

theorem sw_add_closed:
  assumes p: "prime_modulus (modulus E)" and P: "on_curve E P" and Q: "on_curve E Q" and ne: "px P \<noteq> px Q"
  shows "\<exists>R. sw_add E P Q = Inr R \<and> on_curve E R"
proof -
  define m where "m = modulus E"
  define l where "l = (m + py Q - py P) mod m * dashu_modpow ((m + px Q - px P) mod m) (m - 2) m mod m"
  have lt: "px P < m" "py P < m" "px Q < m" "py Q < m" using P Q by (simp_all add: on_curve_def m_def)
  let ?f = "\<lambda>x. x * x * x + int (a_int E) * x + int (b_int E)
    - (int (py P) + int l * (x - int (px P))) * (int (py P) + int l * (x - int (px P)))"
  let ?x3 = "int l * int l - int (px P) - int (px Q)"
  note s = chord_slope [OF p [folded m_def] lt ne l_def]
  have f1: "int m dvd ?f (int (px P))" using P by (simp add: on_curve_int m_def)
  have f2: "int m dvd ?f (int (px Q))"
    by (rule dvd_square_shift [of _ _ "int (py Q)"])
      (use Q s(1) in \<open>simp_all add: on_curve_int m_def algebra_simps\<close>)
  have "int m dvd ?f ?x3 * (int (px Q) - int (px P))"
    unfolding chord_identity by (rule dvd_diff [OF dvd_mult2 [OF f2] dvd_mult2 [OF f1]])
  then have "int m dvd ?f ?x3" using prime_int [OF p [folded m_def]] s(2) by blast
  then have "on_curve E (third m l (px P) (px Q) (py P))"
    unfolding m_def using third_on_curve [OF lt(1,3,2) [unfolded m_def]] by (simp add: Let_def)
  then have "on_curve E (third (modulus E) l (px P) (px Q) (py P))" by (simp only: m_def)
  with sw_add_eq [OF lt [unfolded m_def] ne] show ?thesis unfolding l_def m_def by blast
qed

theorem sw_add_closed_witness:
  "\<exists>R. sw_add (bn254\<lparr>modulus := 5\<rparr>) \<lparr>px = 1, py = 2\<rparr> \<lparr>px = 2, py = 1\<rparr> = (Inr R :: (unit, affine_point) result)
     \<and> on_curve (bn254\<lparr>modulus := 5\<rparr>) R"
  by (rule sw_add_closed) (simp_all add: bn254_def on_curve_def prime_modulus_5)

lemma sw_double_eq:
  fixes E
  defines "m \<equiv> modulus E"
  assumes lt: "px P < m" "py P < m"
  shows "sw_double E P = Inr (third m ((a_int E + px P * px P * 3) mod m * dashu_modpow (py P * 2 mod m) (m - 2) m mod m)
    (px P) (px P) (py P))"
proof -
  define l where "l = (a_int E + px P * px P * 3) mod m * dashu_modpow (py P * 2 mod m) (m - 2) m mod m"
  define x3 where "x3 = (l * l + m + m - (px P + px P)) mod m"
  have "x3 < m" using lt by (simp add: x3_def)
  then have u: "usub (l * l + m + m) (px P) = Inr (l * l + m + m - px P)"
    "usub (l * l + m + m - px P) (px P) = Inr (l * l + m + m - (px P + px P))"
    "usub (m + px P) x3 = Inr (m + px P - x3)"
    "usub (l * (m + px P - x3) + m) (py P) = Inr (l * (m + px P - x3) + m - py P)"
    using lt by (simp_all add: usub_def)
  show ?thesis unfolding sw_double_def third_def m_def [symmetric] Let_def
    by (simp only: u rbind.simps l_def [symmetric] x3_def [symmetric])
qed

text \<open>
  (C27) Over a prime field, \<open>sw_double\<close> of a point of the curve whose y coordinate is not 0
  does not panic and returns a point of the curve.
\<close>

theorem sw_double_closed:
  assumes p: "prime_modulus (modulus E)" and P: "on_curve E P" and ne: "py P \<noteq> 0"
  shows "\<exists>R. sw_double E P = Inr R \<and> on_curve E R"
proof -
  define m where "m = modulus E"
  define l where "l = (a_int E + px P * px P * 3) mod m * dashu_modpow (py P * 2 mod m) (m - 2) m mod m"
  have lt: "px P < m" "py P < m" using P by (simp_all add: on_curve_def m_def)
  let ?f = "\<lambda>x. x * x * x + int (a_int E) * x + int (b_int E)
    - (int (py P) + int l * (x - int (px P))) * (int (py P) + int l * (x - int (px P)))"
  let ?x3 = "int l * int l - int (px P) - int (px P)"
  have "2 < m" using p by (simp add: prime_modulus_def m_def)
  then have "\<not> m dvd py P" "\<not> m dvd 2" using ne lt by (simp_all add: nat_dvd_not_less)
  then have "\<not> m dvd py P * 2" using p unfolding prime_modulus_def m_def [symmetric] by blast
  from mod_eq_int_dvd [OF slope_correct [OF p [folded m_def] this, of "a_int E + px P * px P * 3"]]
  have s: "int m dvd 3 * (int (px P) * int (px P)) + int (a_int E) - 2 * int (py P) * int l"
    unfolding l_def [symmetric] by (subst dvd_diff_commute) (simp add: algebra_simps)
  have f1: "int m dvd ?f (int (px P))" using P by (simp add: on_curve_int m_def)
  have "int m dvd ?f ?x3" unfolding tangent_identity using f1 s by (intro dvd_add dvd_mult2)
  then have "on_curve E (third (modulus E) l (px P) (px P) (py P))"
    using third_on_curve [of "px P" E "px P" "py P" l] lt by (simp add: Let_def m_def)
  with sw_double_eq [OF lt [unfolded m_def]] show ?thesis unfolding l_def m_def by blast
qed

theorem sw_double_closed_witness:
  "\<exists>R. sw_double (bn254\<lparr>modulus := 5\<rparr>) \<lparr>px = 1, py = 2\<rparr> = (Inr R :: (unit, affine_point) result)
     \<and> on_curve (bn254\<lparr>modulus := 5\<rparr>) R"
  by (rule sw_double_closed) (simp_all add: bn254_def on_curve_def prime_modulus_5)

lemma bn254_params: "9 < modulus bn254" "a_int bn254 = 0" "b_int bn254 = 3"
  by (simp_all add: bn254_def)

lemma sw_add_same_x:
  assumes "2 < modulus E" "y1 < modulus E" "y2 < modulus E" "x < modulus E" "y1 \<noteq> y2"
  shows "sw_add E \<lparr>px = x, py = y1\<rparr> \<lparr>px = x, py = y2\<rparr> = Inr (third (modulus E) 0 x x y1)"
proof -
  have "n mod modulus E \<le> modulus E + x" for n
    using mod_less_divisor [of "modulus E" n] assms(1) by linarith
  moreover have "x \<le> modulus E + modulus E - x" using assms(4) by linarith
  ultimately show ?thesis
    using assms by (simp add: sw_add_def third_def usub_def Let_def dashu_modpow_power zero_power)
qed

lemma third_same_x:
  fixes x y m :: nat
  assumes "x < m" "y < m"
  shows "int (px (third m 0 x x y)) = (- 2 * int x) mod int m" "int (py (third m 0 x x y)) = (- int y) mod int m"
    "px (third m 0 x x y) < m" "py (third m 0 x x y) < m"
proof -
  have "int (m + m - (x + x)) = - 2 * int x + 2 * int m" "int (m - y) = - int y + 1 * int m" using assms by (simp_all add: of_nat_diff)
  then show "int (px (third m 0 x x y)) = (- 2 * int x) mod int m" "int (py (third m 0 x x y)) = (- int y) mod int m"
    by (simp_all only: third_def Let_def affine_point.simps mult_zero_left add_0 zmod_int mod_mult_self1)
  show "px (third m 0 x x y) < m" "py (third m 0 x x y) < m" using assms by (simp_all add: third_def Let_def)
qed

lemma cubic_mod:
  fixes u v m a b :: int
  shows "m dvd u mod m * (u mod m) * (u mod m) + a * (u mod m) + b - v mod m * (v mod m) \<longleftrightarrow> m dvd u * u * u + a * u + b - v * v"
proof -
  have *: "m dvd x * x * x + a * x + b - y * y" if "m dvd x' * x' * x' + a * x' + b - y' * y'" "x = x' + m * k" "y = y' + m * l" for x x' y y' k l
  proof -
    have "x * x * x + a * x + b - y * y = (x' * x' * x' + a * x' + b - y' * y')
        + m * (3 * x' * x' * k + 3 * x' * m * k * k + m * m * k * k * k + a * k - 2 * y' * l - m * l * l)"
      by (simp add: that(2,3) algebra_simps)
    then show ?thesis using that(1) by (metis dvd_add dvd_triv_left)
  qed
  have m: "u mod m = u + m * - (u div m)" "v mod m = v + m * - (v div m)" by (simp_all add: minus_mult_div_eq_mod [symmetric])
  then show ?thesis using * [of u v "u mod m" "- (u div m)" "v mod m" "- (v div m)"] * [of "u mod m" "v mod m" u "u div m" v "v div m"] by auto
qed

text \<open>
  (C28) \<open>ec_add\<close> is documented to assume that the two points are different.  For two different points
  of the curve with the same x coordinate, hence opposite ones, it does not fail: the inverse
  of 0 comes out as 0, and the result is \<open>(-2 x, -y)\<close>, which is on the curve exactly if the
  modulus divides \<open>3 x (3 x^2 + a)\<close>.
\<close>

theorem sw_add_opposite_points:
  assumes "on_curve E P" "on_curve E Q" "px P = px Q" "py P \<noteq> py Q" "2 < modulus E"
  shows "\<exists>R. sw_add E P Q = Inr R
    \<and> int (px R) = (- 2 * int (px P)) mod int (modulus E) \<and> int (py R) = (- int (py P)) mod int (modulus E)
    \<and> (on_curve E R \<longleftrightarrow> int (modulus E) dvd 3 * int (px P) * (3 * int (px P) * int (px P) + int (a_int E)))"
proof -
  define m where "m = int (modulus E)"
  define x where "x = int (px P)"
  define y where "y = int (py P)"
  define a where "a = int (a_int E)"
  define b where "b = int (b_int E)"
  let ?R = "third (modulus E) 0 (px P) (px P) (py P)"
  have lt: "px P < modulus E" "py P < modulus E" "py Q < modulus E" using assms(1,2) by (simp_all add: on_curve_def)
  note r = third_same_x [OF lt(1,2)]
  have "sw_add E P Q = Inr ?R"
    using sw_add_same_x [OF assms(5) lt(2,3,1) assms(4)] assms(3) by (metis affine_point.surjective old.unit.exhaust)
  moreover have "on_curve E ?R \<longleftrightarrow> m dvd 3 * x * (3 * x * x + a)"
  proof -
    have "on_curve E ?R \<longleftrightarrow> m dvd (- 2 * x) mod m * ((- 2 * x) mod m) * ((- 2 * x) mod m) + a * ((- 2 * x) mod m) + b - (- y) mod m * ((- y) mod m)"
      using r(3,4) by (simp add: on_curve_int r(1,2) m_def x_def y_def a_def b_def)
    also have "\<dots> \<longleftrightarrow> m dvd (- 2 * x) * (- 2 * x) * (- 2 * x) + a * (- 2 * x) + b - (- y) * (- y)"
      by (rule cubic_mod)
    also have "(- 2 * x) * (- 2 * x) * (- 2 * x) + a * (- 2 * x) + b - (- y) * (- y)
        = (x * x * x + a * x + b - y * y) - 3 * x * (3 * x * x + a)" by (simp add: algebra_simps)
    also have "m dvd \<dots> \<longleftrightarrow> m dvd 3 * x * (3 * x * x + a)"
      using assms(1) by (intro dvd_diff_right_iff) (simp add: on_curve_int m_def x_def y_def a_def b_def)
    finally show ?thesis .
  qed
  ultimately show ?thesis using r(1,2) unfolding m_def x_def a_def by blast
qed

text \<open>On BN254, \<open>(1, 2)\<close> and \<open>(1, -2)\<close> give a point off the curve.\<close>

theorem sw_add_opposite_points_witness:
  "\<exists>R. sw_add bn254 \<lparr>px = 1, py = 2\<rparr> \<lparr>px = 1, py = modulus bn254 - 2\<rparr> = (Inr R :: (unit, affine_point) result) \<and> \<not> on_curve bn254 R"
proof -
  define m where "m = modulus bn254"
  have m: "9 < m" using bn254_params by (simp add: m_def)
  have i: "int (m - 2) = int m - 2" using m by (simp add: of_nat_diff)
  have 1: "on_curve bn254 \<lparr>px = 1, py = 2\<rparr>" using m by (simp add: on_curve_def m_def [symmetric] bn254_params)
  have "1 + 3 - (int m - 2) * (int m - 2) = int m * (4 - int m)" by (simp add: algebra_simps)
  then have 2: "on_curve bn254 \<lparr>px = 1, py = m - 2\<rparr>" using m by (simp add: on_curve_int m_def [symmetric] bn254_params i)
  have "\<not> int m dvd 9" using m zdvd_imp_le [of "int m" 9] by auto
  then show ?thesis
    using sw_add_opposite_points [OF 1 2] m less_imp_neq [of 2 "m - 2"] by (auto simp: m_def [symmetric] bn254_params)
qed

end
