(* ===== verification/SP1_Precompiles.thy ===== *)
theory SP1_Precompiles
  imports SP1_Context SP1_Curves
begin

text \<open>
  The precompiles of \<open>syscalls/precompiles\<close> and the event constructors of
  \<open>events/precompiles/ec.rs\<close>.  Each reads its operands from memory, computes, advances the
  context's clock where the code does, writes the result back and records an event.

  Code of other crates is a field of \<open>env\<close>: the Keccak permutation (\<open>tiny_keccak\<close>), the
  point decompression of \<open>k256\<close>, \<open>p256\<close> and \<open>amcl\<close>; \<open>None\<close> stands for their error, on which
  the callers panic.  The hooks are fields of it as well, as functions of the bytes written to them.
  The trait \<open>Hook\<close> also hands a hook the executor to read (\<open>HookEnv\<close>) and allows it a state of its own;
  the hooks that \<open>HookRegistry::default\<close> registers ignore the former and have none of the latter, and
  a hook that uses either is outside the model.
\<close>

record env =
  keccakf :: "u64 list \<Rightarrow> u64 list"
  k256_decompress :: "u8 list \<Rightarrow> bool \<Rightarrow> affine_point option"
  p256_decompress :: "u8 list \<Rightarrow> bool \<Rightarrow> affine_point option"
  deserialize_g1 :: "u8 list \<Rightarrow> affine_point option"
  hook_registry :: "u32 \<Rightarrow> (u8 list \<Rightarrow> u8 list list option) option"
  allow_deprecated_hooks :: "bool option"
  deprecated_hook :: "u32 \<Rightarrow> u8 list \<Rightarrow> u8 list list option"
  subproof_verifier :: "(nat \<Rightarrow> u32 list \<Rightarrow> u32 list \<Rightarrow> bool) option"

definition unwrap :: "'a option \<Rightarrow> 'a sys" where
  "unwrap x = (case x of None \<Rightarrow> spanic | Some v \<Rightarrow> sret v)"

section \<open>SHA-256\<close>

definition sha_s0 :: "u32 \<Rightarrow> u32" where
  "sha_s0 w = word_rotr 7 w XOR word_rotr 18 w XOR drop_bit 3 w"

definition sha_s1 :: "u32 \<Rightarrow> u32" where
  "sha_s1 w = word_rotr 17 w XOR word_rotr 19 w XOR drop_bit 10 w"

definition sha_extend_step :: "u32 \<Rightarrow> nat \<Rightarrow> (memory_read_record \<times> memory_read_record \<times> memory_read_record
    \<times> memory_read_record \<times> memory_write_record) sys" where
  "sha_extend_step w_ptr i =
     sbind (c_mr (nth_word w_ptr (i - 15))) (\<lambda>(r15, w_i_minus_15).
     sbind (c_mr (nth_word w_ptr (i - 2))) (\<lambda>(r2, w_i_minus_2).
     sbind (c_mr (nth_word w_ptr (i - 16))) (\<lambda>(r16, w_i_minus_16).
     sbind (c_mr (nth_word w_ptr (i - 7))) (\<lambda>(r7, w_i_minus_7).
     let w_i = sha_s1 w_i_minus_2 + w_i_minus_16 + sha_s0 w_i_minus_15 + w_i_minus_7 in
     sbind (c_mw (nth_word w_ptr i) w_i) (\<lambda>w.
     sbind tick (\<lambda>_. sret (r15, r2, r16, r7, w)))))))"

definition sha_extend :: "syscall_code \<Rightarrow> u32 \<Rightarrow> u32 \<Rightarrow> u32 option sys" where
  "sha_extend code arg1 arg2 =
     sbind (sget ctx_clk) (\<lambda>clk_init.
     sbind (sassert (arg2 = 0)) (\<lambda>_.
     sbind (sfor (sha_extend_step arg1) [16..<64]) (\<lambda>rs.
     finish_precompile add_precompile_event code code clk_init arg1 arg2 (\<lambda>shard l. ShaExtend
       \<lparr>se_shard = shard, se_clk = clk_init, se_w_ptr = arg1,
        se_w_i_minus_15_reads = map (\<lambda>(r15, r2, r16, r7, w). r15) rs,
        se_w_i_minus_2_reads = map (\<lambda>(r15, r2, r16, r7, w). r2) rs,
        se_w_i_minus_16_reads = map (\<lambda>(r15, r2, r16, r7, w). r16) rs,
        se_w_i_minus_7_reads = map (\<lambda>(r15, r2, r16, r7, w). r7) rs,
        se_w_i_writes = map (\<lambda>(r15, r2, r16, r7, w). w) rs,
        se_local_mem_access = l\<rparr>))))"

definition SHA_COMPRESS_K :: "u32 list" where
  "SHA_COMPRESS_K = concat [
    [0x428a2f98, 0x71374491, 0xb5c0fbcf, 0xe9b5dba5, 0x3956c25b, 0x59f111f1, 0x923f82a4, 0xab1c5ed5],
    [0xd807aa98, 0x12835b01, 0x243185be, 0x550c7dc3, 0x72be5d74, 0x80deb1fe, 0x9bdc06a7, 0xc19bf174],
    [0xe49b69c1, 0xefbe4786, 0x0fc19dc6, 0x240ca1cc, 0x2de92c6f, 0x4a7484aa, 0x5cb0a9dc, 0x76f988da],
    [0x983e5152, 0xa831c66d, 0xb00327c8, 0xbf597fc7, 0xc6e00bf3, 0xd5a79147, 0x06ca6351, 0x14292967],
    [0x27b70a85, 0x2e1b2138, 0x4d2c6dfc, 0x53380d13, 0x650a7354, 0x766a0abb, 0x81c2c92e, 0x92722c85],
    [0xa2bfe8a1, 0xa81a664b, 0xc24b8b70, 0xc76c51a3, 0xd192e819, 0xd6990624, 0xf40e3585, 0x106aa070],
    [0x19a4c116, 0x1e376c08, 0x2748774c, 0x34b0bcb5, 0x391c0cb3, 0x4ed8aa4a, 0x5b9cca4f, 0x682e6ff3],
    [0x748f82ee, 0x78a5636f, 0x84c87814, 0x8cc70208, 0x90befffa, 0xa4506ceb, 0xbef9a3f7, 0xc67178f2]]"

text \<open>One round on \<open>(a, b, c, d, e, f, g, h)\<close>.\<close>

type_synonym sha_state = "u32 \<times> u32 \<times> u32 \<times> u32 \<times> u32 \<times> u32 \<times> u32 \<times> u32"

definition sha_round :: "u32 \<Rightarrow> u32 \<Rightarrow> sha_state \<Rightarrow> sha_state" where
  "sha_round k w_i = (\<lambda>(a, b, c, d, e, f, g, h).
     let s1 = word_rotr 6 e XOR word_rotr 11 e XOR word_rotr 25 e;
         ch = (e AND f) XOR (NOT e AND g);
         temp1 = h + s1 + ch + k + w_i;
         s0 = word_rotr 2 a XOR word_rotr 13 a XOR word_rotr 22 a;
         maj = (a AND b) XOR (a AND c) XOR (b AND c);
         temp2 = s0 + maj
     in (temp1 + temp2, a, b, c, d + temp1, e, f, g))"

definition sha_compress_step :: "u32 \<Rightarrow> nat \<Rightarrow> sha_state \<times> u32 list \<times> memory_read_record list
    \<Rightarrow> (sha_state \<times> u32 list \<times> memory_read_record list) sys" where
  "sha_compress_step w_ptr i = (\<lambda>(v, ws, rs).
     sbind (c_mr (nth_word w_ptr i)) (\<lambda>(rec, w_i).
     sret (sha_round (SHA_COMPRESS_K ! i) w_i v, ws @ [w_i], rs @ [rec])))"

definition sha_state_list :: "sha_state \<Rightarrow> u32 list" where
  "sha_state_list = (\<lambda>(a, b, c, d, e, f, g, h). [a, b, c, d, e, f, g, h])"

definition sha_compress :: "syscall_code \<Rightarrow> u32 \<Rightarrow> u32 \<Rightarrow> u32 option sys" where
  "sha_compress code arg1 arg2 =
     sbind (sassert (arg1 \<noteq> arg2)) (\<lambda>_.
     sbind (sget ctx_clk) (\<lambda>start_clk.
     sbind (mr_slice arg2 8) (\<lambda>(h_read_records, hx).
     sbind (sfold (sha_compress_step arg1) [0..<64]
             ((hx ! 0, hx ! 1, hx ! 2, hx ! 3, hx ! 4, hx ! 5, hx ! 6, hx ! 7), [], []))
       (\<lambda>(v, original_w, w_i_read_records).
     sbind tick (\<lambda>_.
     sbind (mw_slice arg2 (map (\<lambda>(h, v). h + v) (zip hx (sha_state_list v)))) (\<lambda>h_write_records.
     finish_precompile add_precompile_event code code start_clk arg1 arg2 (\<lambda>shard l. ShaCompress
       \<lparr>sc_shard = shard, sc_clk = start_clk, sc_w_ptr = arg1, sc_h_ptr = arg2, sc_w = original_w, sc_h = hx,
        sc_h_read_records = h_read_records, sc_w_i_read_records = w_i_read_records,
        sc_h_write_records = h_write_records, sc_local_mem_access = l\<rparr>)))))))"

section \<open>Keccak\<close>

definition STATE_SIZE :: nat where "STATE_SIZE = 25"

fun words_to_lanes :: "u32 list \<Rightarrow> u64 list" where
  "words_to_lanes (least_sig # most_sig # ws) = (ucast least_sig + push_bit 32 (ucast most_sig)) # words_to_lanes ws"
| "words_to_lanes _ = []"

definition lane_words :: "u64 \<Rightarrow> u32 list" where
  "lane_words x = [ucast (x AND 0xFFFFFFFF), ucast (drop_bit 32 x AND 0xFFFFFFFF)]"

definition keccak_permute :: "env \<Rightarrow> syscall_code \<Rightarrow> u32 \<Rightarrow> u32 \<Rightarrow> u32 option sys" where
  "keccak_permute env code arg1 arg2 =
     sbind (sget ctx_clk) (\<lambda>start_clk.
     sbind (sassert (arg2 = 0)) (\<lambda>_.
     sbind (mr_slice arg1 (STATE_SIZE * 2)) (\<lambda>(state_records, state_values).
     let saved_state = words_to_lanes state_values;
         st = keccakf env saved_state in
     sbind tick (\<lambda>_.
     sbind (mw_slice arg1 (concat (map (\<lambda>i. lane_words (st ! i)) [0..<STATE_SIZE]))) (\<lambda>write_records.
     finish_precompile add_precompile_event code code start_clk arg1 arg2 (\<lambda>shard l. KeccakPermute
       \<lparr>kp_shard = shard, kp_clk = start_clk, kp_pre_state = saved_state, kp_post_state = st,
        kp_state_read_records = state_records, kp_state_write_records = write_records,
        kp_state_addr = arg1, kp_local_mem_access = l\<rparr>))))))"

section \<open>Big-integer multiplication\<close>

definition WORDS_FIELD_ELEMENT :: nat where "WORDS_FIELD_ELEMENT = 8"

definition uint256_mul :: "syscall_code \<Rightarrow> u32 \<Rightarrow> u32 \<Rightarrow> u32 option sys" where
  "uint256_mul code x_ptr y_ptr =
     sbind (sget ctx_clk) (\<lambda>start_clk.
     sbind (sassert (word_aligned x_ptr)) (\<lambda>_.
     sbind (sassert (word_aligned y_ptr)) (\<lambda>_.
     sbind (slice_unsafe x_ptr WORDS_FIELD_ELEMENT) (\<lambda>x.
     sbind (mr_slice y_ptr WORDS_FIELD_ELEMENT) (\<lambda>(y_memory_records, y).
     let modulus_ptr = y_ptr + of_nat WORDS_FIELD_ELEMENT * 4 in
     sbind (mr_slice modulus_ptr WORDS_FIELD_ELEMENT) (\<lambda>(modulus_memory_records, m).
     let uint256_x = from_bytes_le (words_to_bytes_le x);
         uint256_y = from_bytes_le (words_to_bytes_le y);
         uint256_modulus = from_bytes_le (words_to_bytes_le m);
         result = (if uint256_modulus = 0 then uint256_x * uint256_y mod 2 ^ 256
                   else uint256_x * uint256_y mod uint256_modulus);
         result_words = bytes_to_words_le (resize 0 32 (to_bytes_le result)) in
     sbind tick (\<lambda>_.
     sbind (mw_slice x_ptr result_words) (\<lambda>x_memory_records.
     finish_precompile add_precompile_event code code start_clk x_ptr y_ptr (\<lambda>shard l. Uint256Mul
       \<lparr>um_shard = shard, um_clk = start_clk, um_x_ptr = x_ptr, um_x = x, um_y_ptr = y_ptr, um_y = y,
        um_modulus = m, um_x_memory_records = x_memory_records, um_y_memory_records = y_memory_records,
        um_modulus_memory_records = modulus_memory_records, um_local_mem_access = l\<rparr>)))))))))"

definition U256_NUM_WORDS :: nat where "U256_NUM_WORDS = 8"
definition U2048_NUM_WORDS :: nat where "U2048_NUM_WORDS = 64"

definition u256x2048_mul :: "syscall_code \<Rightarrow> u32 \<Rightarrow> u32 \<Rightarrow> u32 option sys" where
  "u256x2048_mul code a_ptr b_ptr =
     sbind (sget ctx_clk) (\<lambda>start_clk.
     sbind (c_rr_traced X12) (\<lambda>(lo_ptr_memory, lo_ptr).
     sbind (c_rr_traced X13) (\<lambda>(hi_ptr_memory, hi_ptr).
     sbind (mr_slice a_ptr U256_NUM_WORDS) (\<lambda>(a_memory_records, a).
     sbind (mr_slice b_ptr U2048_NUM_WORDS) (\<lambda>(b_memory_records, b).
     let result = from_bytes_le (words_to_bytes_le a) * from_bytes_le (words_to_bytes_le b);
         hi = result div 2 ^ 2048;
         lo = result mod 2 ^ 2048;
         lo_words = bytes_to_words_le (resize 0 (U2048_NUM_WORDS * 4) (to_bytes_le lo));
         hi_words = bytes_to_words_le (resize 0 (U256_NUM_WORDS * 4) (to_bytes_le hi)) in
     sbind tick (\<lambda>_.
     sbind (mw_slice lo_ptr lo_words) (\<lambda>lo_memory_records.
     sbind (mw_slice hi_ptr hi_words) (\<lambda>hi_memory_records.
     finish_precompile add_precompile_event code code start_clk a_ptr b_ptr (\<lambda>shard l. U256xU2048Mul
       \<lparr>xm_shard = shard, xm_clk = start_clk, xm_a_ptr = a_ptr, xm_a = a, xm_b_ptr = b_ptr, xm_b = b,
        xm_lo_ptr = lo_ptr, xm_lo = lo_words, xm_hi_ptr = hi_ptr, xm_hi = hi_words,
        xm_lo_ptr_memory = lo_ptr_memory, xm_hi_ptr_memory = hi_ptr_memory,
        xm_a_memory_records = a_memory_records, xm_b_memory_records = b_memory_records,
        xm_lo_memory_records = lo_memory_records, xm_hi_memory_records = hi_memory_records,
        xm_local_mem_access = l\<rparr>)))))))))"

section \<open>Elliptic curves\<close>

text \<open>\<open>ec_add\<close> and \<open>ec_double\<close> of the trait \<open>EllipticCurve\<close>.\<close>

definition ec_add :: "curve \<Rightarrow> affine_point \<Rightarrow> affine_point \<Rightarrow> affine_point res" where
  "ec_add E p q = (if curve_type E = Ed25519 then ed_add E p q else sw_add E p q)"

definition ec_double :: "curve \<Rightarrow> affine_point \<Rightarrow> affine_point res" where
  "ec_double E p = (if curve_type E = Ed25519 then ed_add E p p else sw_double E p)"

text \<open>
  The body of \<open>create_ec_add_event\<close> up to the event, the event's insertion being the
  continuation of the caller, and likewise for \<open>create_ec_double_event\<close> and
  \<open>create_ec_decompress_event\<close>.
\<close>

definition create_ec_add_event :: "curve \<Rightarrow> u32 \<Rightarrow> u32
    \<Rightarrow> (u32 \<times> (u32 \<Rightarrow> memory_local_event list \<Rightarrow> ec_add_event)) sys" where
  "create_ec_add_event E p_ptr q_ptr =
     sbind (sget ctx_clk) (\<lambda>start_clk.
     sbind (sassert (word_aligned p_ptr)) (\<lambda>_.
     sbind (sassert (word_aligned q_ptr)) (\<lambda>_.
     sbind (slice_unsafe p_ptr (words_curve_point E)) (\<lambda>p.
     sbind (mr_slice q_ptr (words_curve_point E)) (\<lambda>(q_memory_records, q).
     sbind tick (\<lambda>_.
     sbind (slift (ec_add E (from_words_le p) (from_words_le q))) (\<lambda>result_affine.
     sbind (mw_slice p_ptr (to_words_le E result_affine)) (\<lambda>p_memory_records.
     sret (start_clk, (\<lambda>shard l.
       \<lparr>ea_shard = shard, ea_clk = start_clk, ea_p_ptr = p_ptr, ea_p = p, ea_q_ptr = q_ptr, ea_q = q,
        ea_p_memory_records = p_memory_records, ea_q_memory_records = q_memory_records,
        ea_local_mem_access = l\<rparr>))))))))))"

definition create_ec_double_event :: "curve \<Rightarrow> u32
    \<Rightarrow> (u32 \<times> (u32 \<Rightarrow> memory_local_event list \<Rightarrow> ec_double_event)) sys" where
  "create_ec_double_event E p_ptr =
     sbind (sget ctx_clk) (\<lambda>start_clk.
     sbind (sassert (word_aligned p_ptr)) (\<lambda>_.
     sbind (slice_unsafe p_ptr (words_curve_point E)) (\<lambda>p.
     sbind (slift (ec_double E (from_words_le p))) (\<lambda>result_affine.
     sbind (mw_slice p_ptr (to_words_le E result_affine)) (\<lambda>p_memory_records.
     sret (start_clk, (\<lambda>shard l.
       \<lparr>ed_shard = shard, ed_clk = start_clk, ed_p_ptr = p_ptr, ed_p = p,
        ed_p_memory_records = p_memory_records, ed_local_mem_access = l\<rparr>)))))))"

text \<open>\<open>bls12381_decompress\<close>: the flags are put into the first byte for \<open>amcl\<close>.\<close>

definition COMPRESSION_FLAG :: u8 where "COMPRESSION_FLAG = 0x80"
definition Y_IS_ODD_FLAG :: u8 where "Y_IS_ODD_FLAG = 0x20"

definition bls12381_decompress :: "env \<Rightarrow> u8 list \<Rightarrow> u32 \<Rightarrow> affine_point sys" where
  "bls12381_decompress env bytes_be sign_bit =
     sbind (sassert (length bytes_be = 48)) (\<lambda>_.
     let flags = (if sign_bit = 1 then COMPRESSION_FLAG OR Y_IS_ODD_FLAG else COMPRESSION_FLAG) in
     unwrap (deserialize_g1 env (bytes_be[0 := bytes_be ! 0 OR flags])))"

definition decompress_fn :: "env \<Rightarrow> curve \<Rightarrow> u8 list \<Rightarrow> u32 \<Rightarrow> affine_point sys" where
  "decompress_fn env E bytes_be sign = (case curve_type E of
       Secp256k1 \<Rightarrow> unwrap (k256_decompress env bytes_be (sign \<noteq> 0))
     | Secp256r1 \<Rightarrow> unwrap (p256_decompress env bytes_be (sign \<noteq> 0))
     | Bls12381 \<Rightarrow> bls12381_decompress env bytes_be sign
     | _ \<Rightarrow> spanic)"

definition create_ec_decompress_event :: "env \<Rightarrow> curve \<Rightarrow> u32 \<Rightarrow> u32
    \<Rightarrow> (u32 \<times> (u32 \<Rightarrow> memory_local_event list \<Rightarrow> ec_decompress_event)) sys" where
  "create_ec_decompress_event env E slice_ptr sign_bit =
     sbind (sget ctx_clk) (\<lambda>start_clk.
     sbind (sassert (word_aligned slice_ptr)) (\<lambda>_.
     sbind (sassert (sign_bit \<le> 1)) (\<lambda>_.
     sbind (mr_slice (slice_ptr + of_nat (num_limbs E)) (num_limbs E div 4)) (\<lambda>(x_memory_records, x_vec).
     let x_bytes = words_to_bytes_le x_vec in
     sbind (decompress_fn env E (rev x_bytes) sign_bit) (\<lambda>computed_point.
     let decompressed_y_bytes = resize 0 (num_limbs E) (to_bytes_le (py computed_point)) in
     sbind (mw_slice slice_ptr (bytes_to_words_le decompressed_y_bytes)) (\<lambda>y_memory_records.
     sret (start_clk, (\<lambda>shard l.
       \<lparr>dc_shard = shard, dc_clk = start_clk, dc_ptr = slice_ptr, dc_sign_bit = (sign_bit \<noteq> 0),
        dc_x_bytes = x_bytes, dc_decompressed_y_bytes = decompressed_y_bytes,
        dc_x_memory_records = x_memory_records, dc_y_memory_records = y_memory_records,
        dc_local_mem_access = l\<rparr>))))))))"

definition edwards_add :: "curve \<Rightarrow> syscall_code \<Rightarrow> u32 \<Rightarrow> u32 \<Rightarrow> u32 option sys" where
  "edwards_add E code arg1 arg2 =
     sbind (create_ec_add_event E arg1 arg2) (\<lambda>(start_clk, event).
     finish_precompile add_precompile_event code code start_clk arg1 arg2 (\<lambda>shard l. EdAdd (event shard l)))"

definition edwards_decompress :: "syscall_code \<Rightarrow> u32 \<Rightarrow> u32 \<Rightarrow> u32 option sys" where
  "edwards_decompress code slice_ptr sign =
     sbind (sget ctx_clk) (\<lambda>start_clk.
     sbind (sassert (word_aligned slice_ptr)) (\<lambda>_.
     sbind (sassert (sign \<le> 1)) (\<lambda>_.
     sbind (mr_slice (slice_ptr + 32) WORDS_FIELD_ELEMENT) (\<lambda>(y_memory_records, y_vec).
     let y_bytes = words_to_bytes_le y_vec;
         compressed = y_bytes[31 := (y_bytes ! 31 AND 127) OR push_bit 7 (ucast sign)] in
     sbind (slift (ed_decompress compressed)) (\<lambda>decompressed.
     sbind (unwrap decompressed) (\<lambda>point.
     let decompressed_x_bytes = resize 0 32 (to_bytes_le (px point)) in
     sbind (mw_slice slice_ptr (bytes_to_words_le decompressed_x_bytes)) (\<lambda>x_memory_records.
     finish_precompile add_precompile_event code code start_clk slice_ptr sign (\<lambda>shard l. EdDecompress
       \<lparr>edd_shard = shard, edd_clk = start_clk, edd_ptr = slice_ptr, edd_sign = (sign \<noteq> 0), edd_y_bytes = y_bytes,
        edd_decompressed_x_bytes = decompressed_x_bytes, edd_x_memory_records = x_memory_records,
        edd_y_memory_records = y_memory_records, edd_local_mem_access = l\<rparr>))))))))"

text \<open>
  The match on \<open>E::CURVE_TYPE\<close>: the Secp256r1 (and, for decompression, BLS12-381) branches
  insert through \<open>record_mut()\<close>, without the check of the mode.
\<close>

definition weierstrass_add :: "curve \<Rightarrow> syscall_code \<Rightarrow> u32 \<Rightarrow> u32 \<Rightarrow> u32 option sys" where
  "weierstrass_add E code arg1 arg2 =
     sbind (create_ec_add_event E arg1 arg2) (\<lambda>(start_clk, event).
     let finish = (\<lambda>add f. finish_precompile add code code start_clk arg1 arg2 (\<lambda>shard l. f (event shard l))) in
     case curve_type E of
       Secp256k1 \<Rightarrow> finish add_precompile_event Secp256k1Add
     | Bn254 \<Rightarrow> finish add_precompile_event Bn254Add
     | Bls12381 \<Rightarrow> finish add_precompile_event Bls12381Add
     | Secp256r1 \<Rightarrow> finish record_mut_add_precompile_event Secp256r1Add
     | _ \<Rightarrow> spanic)"

definition weierstrass_double :: "curve \<Rightarrow> syscall_code \<Rightarrow> u32 \<Rightarrow> u32 \<Rightarrow> u32 option sys" where
  "weierstrass_double E code arg1 arg2 =
     sbind (create_ec_double_event E arg1) (\<lambda>(start_clk, event).
     let finish = (\<lambda>add f. finish_precompile add code code start_clk arg1 arg2 (\<lambda>shard l. f (event shard l))) in
     case curve_type E of
       Secp256k1 \<Rightarrow> finish add_precompile_event Secp256k1Double
     | Secp256r1 \<Rightarrow> finish record_mut_add_precompile_event Secp256r1Double
     | Bn254 \<Rightarrow> finish add_precompile_event Bn254Double
     | Bls12381 \<Rightarrow> finish add_precompile_event Bls12381Double
     | _ \<Rightarrow> spanic)"

definition weierstrass_decompress :: "env \<Rightarrow> curve \<Rightarrow> syscall_code \<Rightarrow> u32 \<Rightarrow> u32 \<Rightarrow> u32 option sys" where
  "weierstrass_decompress env E code arg1 arg2 =
     sbind (create_ec_decompress_event env E arg1 arg2) (\<lambda>(start_clk, event).
     let finish = (\<lambda>add f. finish_precompile add code code start_clk arg1 arg2 (\<lambda>shard l. f (event shard l))) in
     case curve_type E of
       Secp256k1 \<Rightarrow> finish add_precompile_event Secp256k1Decompress
     | Secp256r1 \<Rightarrow> finish record_mut_add_precompile_event Secp256r1Decompress
     | Bls12381 \<Rightarrow> finish record_mut_add_precompile_event Bls12381Decompress
     | _ \<Rightarrow> spanic)"

section \<open>Field operations\<close>

text \<open>\<open>P::MODULUS\<close> as a number; \<open>num_words\<close> of a field element or of a pair of them.\<close>

definition field_modulus :: "curve \<Rightarrow> nat" where
  "field_modulus E = from_bytes_le (MODULUS (curve_type E))"

definition fp_result :: "field_operation \<Rightarrow> nat \<Rightarrow> nat \<Rightarrow> nat \<Rightarrow> nat res" where
  "fp_result op m a b = (case op of
       Field_Add \<Rightarrow> Inr ((a + b) mod m)
     | Field_Sub \<Rightarrow> rbind (usub (a + m) b) (\<lambda>t. Inr (t mod m))
     | Field_Mul \<Rightarrow> Inr (a * b mod m)
     | _ \<Rightarrow> Inl Panic)"

text \<open>The key under which the events of a field are grouped.\<close>

definition fp_code_key :: "curve \<Rightarrow> syscall_code \<Rightarrow> syscall_code sys" where
  "fp_code_key E code =
     (if curve_type E = Bn254
      then (if code \<in> {BN254_FP_ADD, BN254_FP_SUB, BN254_FP_MUL} then sret BN254_FP_ADD else spanic)
      else (if code \<in> {BLS12381_FP_ADD, BLS12381_FP_SUB, BLS12381_FP_MUL} then sret BLS12381_FP_ADD else spanic))"

definition fp_op_syscall :: "curve \<Rightarrow> field_operation \<Rightarrow> syscall_code \<Rightarrow> u32 \<Rightarrow> u32 \<Rightarrow> u32 option sys" where
  "fp_op_syscall E op code x_ptr y_ptr =
     sbind (sget ctx_clk) (\<lambda>start_clk.
     sbind (sassert (word_aligned x_ptr)) (\<lambda>_.
     sbind (sassert (word_aligned y_ptr)) (\<lambda>_.
     sbind (slice_unsafe x_ptr (words_field_element E)) (\<lambda>x.
     sbind (mr_slice y_ptr (words_field_element E)) (\<lambda>(y_memory_records, y).
     let m = field_modulus E;
         a = from_slice x mod m;
         b = from_slice y mod m in
     sbind (slift (fp_result op m a b)) (\<lambda>result.
     sbind tick (\<lambda>_.
     sbind (mw_slice x_ptr (resize 0 (words_field_element E) (to_u32_digits result))) (\<lambda>x_memory_records.
     sbind (fp_code_key E code) (\<lambda>key.
     finish_precompile add_precompile_event key code start_clk x_ptr y_ptr (\<lambda>shard l.
       (if curve_type E = Bn254 then Bn254Fp else Bls12381Fp)
       \<lparr>fp_shard = shard, fp_clk = start_clk, fp_x_ptr = x_ptr, fp_x = x, fp_y_ptr = y_ptr, fp_y = y, fp_op = op,
        fp_x_memory_records = x_memory_records, fp_y_memory_records = y_memory_records,
        fp_local_mem_access = l\<rparr>))))))))))"

definition fp2_addsub_result :: "field_operation \<Rightarrow> nat \<Rightarrow> nat \<Rightarrow> nat \<Rightarrow> nat res" where
  "fp2_addsub_result op m a b = (case op of
       Field_Add \<Rightarrow> Inr ((a + b) mod m)
     | Field_Sub \<Rightarrow> rbind (usub (a + m) b) (\<lambda>t. Inr (t mod m))
     | _ \<Rightarrow> Inl Panic)"

definition fp2_code_key :: "curve \<Rightarrow> syscall_code \<Rightarrow> syscall_code sys" where
  "fp2_code_key E code =
     (if curve_type E = Bn254
      then (if code \<in> {BN254_FP2_ADD, BN254_FP2_SUB} then sret BN254_FP2_ADD else spanic)
      else (if code \<in> {BLS12381_FP2_ADD, BLS12381_FP2_SUB} then sret BLS12381_FP2_ADD else spanic))"

definition fp2_words :: "nat \<Rightarrow> nat \<Rightarrow> nat \<Rightarrow> u32 list" where
  "fp2_words num_words c0 c1 =
     resize 0 num_words (resize 0 (num_words div 2) (to_u32_digits c0) @ to_u32_digits c1)"

definition fp2_addsub :: "curve \<Rightarrow> field_operation \<Rightarrow> syscall_code \<Rightarrow> u32 \<Rightarrow> u32 \<Rightarrow> u32 option sys" where
  "fp2_addsub E op code x_ptr y_ptr =
     sbind (sget ctx_clk) (\<lambda>start_clk.
     sbind (sassert (word_aligned x_ptr)) (\<lambda>_.
     sbind (sassert (word_aligned y_ptr)) (\<lambda>_.
     let num_words = words_curve_point E in
     sbind (slice_unsafe x_ptr num_words) (\<lambda>x.
     sbind (mr_slice y_ptr num_words) (\<lambda>(y_memory_records, y).
     sbind tick (\<lambda>_.
     let h = num_words div 2; m = field_modulus E in
     sbind (slift (fp2_addsub_result op m (from_slice (take h x)) (from_slice (take h y)))) (\<lambda>c0.
     sbind (slift (fp2_addsub_result op m (from_slice (drop h x)) (from_slice (drop h y)))) (\<lambda>c1.
     sbind (mw_slice x_ptr (fp2_words num_words c0 c1)) (\<lambda>x_memory_records.
     sbind (fp2_code_key E code) (\<lambda>key.
     finish_precompile add_precompile_event key code start_clk x_ptr y_ptr (\<lambda>shard l.
       (if curve_type E = Bn254 then Bn254Fp2AddSub else Bls12381Fp2AddSub)
       \<lparr>fp_shard = shard, fp_clk = start_clk, fp_x_ptr = x_ptr, fp_x = x, fp_y_ptr = y_ptr, fp_y = y, fp_op = op,
        fp_x_memory_records = x_memory_records, fp_y_memory_records = y_memory_records,
        fp_local_mem_access = l\<rparr>)))))))))))"

definition fp2_mul_c0 :: "nat \<Rightarrow> nat \<Rightarrow> nat \<Rightarrow> nat \<Rightarrow> nat \<Rightarrow> nat res" where
  "fp2_mul_c0 m ac0 ac1 bc0 bc1 =
     (if ac0 * bc0 mod m < ac1 * bc1 mod m
      then rbind (usub (m + ac0 * bc0 mod m) (ac1 * bc1 mod m)) (\<lambda>t. Inr (t mod m))
      else rbind (usub (ac0 * bc0 mod m) (ac1 * bc1 mod m)) (\<lambda>t. Inr (t mod m)))"

definition fp2_mul :: "curve \<Rightarrow> syscall_code \<Rightarrow> u32 \<Rightarrow> u32 \<Rightarrow> u32 option sys" where
  "fp2_mul E code x_ptr y_ptr =
     sbind (sget ctx_clk) (\<lambda>start_clk.
     sbind (sassert (word_aligned x_ptr)) (\<lambda>_.
     sbind (sassert (word_aligned y_ptr)) (\<lambda>_.
     let num_words = words_curve_point E in
     sbind (slice_unsafe x_ptr num_words) (\<lambda>x.
     sbind (mr_slice y_ptr num_words) (\<lambda>(y_memory_records, y).
     sbind tick (\<lambda>_.
     let h = num_words div 2; m = field_modulus E;
         ac0 = from_slice (take h x); ac1 = from_slice (drop h x);
         bc0 = from_slice (take h y); bc1 = from_slice (drop h y) in
     sbind (slift (fp2_mul_c0 m ac0 ac1 bc0 bc1)) (\<lambda>c0.
     let c1 = (ac0 * bc1 mod m + ac1 * bc0 mod m) mod m in
     sbind (mw_slice x_ptr (fp2_words num_words c0 c1)) (\<lambda>x_memory_records.
     finish_precompile add_precompile_event code code start_clk x_ptr y_ptr (\<lambda>shard l.
       (if curve_type E = Bn254 then Bn254Fp2Mul else Bls12381Fp2Mul)
       \<lparr>fm_shard = shard, fm_clk = start_clk, fm_x_ptr = x_ptr, fm_x = x, fm_y_ptr = y_ptr, fm_y = y,
        fm_x_memory_records = x_memory_records, fm_y_memory_records = y_memory_records,
        fm_local_mem_access = l\<rparr>)))))))))"

end
