(* ===== verification/SP1_Strings.thy ===== *)
theory SP1_Strings
  imports SP1_Prelude
begin

text \<open>
  The string operations of \<open>syscalls/write.rs\<close>: decoding of UTF-8 as \<open>core::str::from_utf8\<close>
  does it, \<open>split_once\<close>, \<open>trim\<close>, \<open>split\<close>, and the commands of the cycle tracker.
\<close>

section \<open>UTF-8\<close>

definition in_bytes :: "nat \<Rightarrow> nat \<Rightarrow> u8 \<Rightarrow> bool" where
  "in_bytes lo hi b \<longleftrightarrow> lo \<le> unat b \<and> unat b \<le> hi"

definition is_cont :: "u8 \<Rightarrow> bool" where
  "is_cont = in_bytes 0x80 0xBF"

text \<open>The first two bytes of a three-byte and a four-byte sequence (no overlong forms, no
  surrogates, nothing above \<open>U+10FFFF\<close>).\<close>

definition lead3 :: "u8 \<Rightarrow> u8 \<Rightarrow> bool" where
  "lead3 b0 b1 \<longleftrightarrow> (in_bytes 0xE0 0xE0 b0 \<and> in_bytes 0xA0 0xBF b1) \<or> (in_bytes 0xE1 0xEC b0 \<and> is_cont b1)
     \<or> (in_bytes 0xED 0xED b0 \<and> in_bytes 0x80 0x9F b1) \<or> (in_bytes 0xEE 0xEF b0 \<and> is_cont b1)"

definition lead4 :: "u8 \<Rightarrow> u8 \<Rightarrow> bool" where
  "lead4 b0 b1 \<longleftrightarrow> (in_bytes 0xF0 0xF0 b0 \<and> in_bytes 0x90 0xBF b1) \<or> (in_bytes 0xF1 0xF3 b0 \<and> is_cont b1)
     \<or> (in_bytes 0xF4 0xF4 b0 \<and> in_bytes 0x80 0x8F b1)"

fun from_utf8 :: "u8 list \<Rightarrow> rstring option" where
  "from_utf8 [] = Some []"
| "from_utf8 (b0 # bs) =
     (if unat b0 < 0x80 then map_option ((#) (unat b0)) (from_utf8 bs)
      else case bs of [] \<Rightarrow> None | b1 # bs1 \<Rightarrow>
        if in_bytes 0xC2 0xDF b0 \<and> is_cont b1
        then map_option ((#) ((unat b0 - 0xC0) * 64 + (unat b1 - 0x80))) (from_utf8 bs1)
        else case bs1 of [] \<Rightarrow> None | b2 # bs2 \<Rightarrow>
          if lead3 b0 b1 \<and> is_cont b2
          then map_option ((#) ((unat b0 - 0xE0) * 4096 + (unat b1 - 0x80) * 64 + (unat b2 - 0x80))) (from_utf8 bs2)
          else case bs2 of [] \<Rightarrow> None | b3 # bs3 \<Rightarrow>
            if lead4 b0 b1 \<and> is_cont b2 \<and> is_cont b3
            then map_option ((#) ((unat b0 - 0xF0) * 262144 + (unat b1 - 0x80) * 4096 + (unat b2 - 0x80) * 64
                   + (unat b3 - 0x80))) (from_utf8 bs3)
            else None)"

section \<open>Splitting and trimming\<close>

definition split_once :: "nat \<Rightarrow> rstring \<Rightarrow> (rstring \<times> rstring) option" where
  "split_once d s = (case dropWhile (\<lambda>c. c \<noteq> d) s of [] \<Rightarrow> None | _ # rest \<Rightarrow> Some (takeWhile (\<lambda>c. c \<noteq> d) s, rest))"

text \<open>\<open>char::is_whitespace\<close>: the Unicode property \<open>White_Space\<close>.\<close>

definition is_whitespace :: "nat \<Rightarrow> bool" where
  "is_whitespace c \<longleftrightarrow> (9 \<le> c \<and> c \<le> 13) \<or> c = 32 \<or> c = 0x85 \<or> c = 0xA0 \<or> c = 0x1680
     \<or> (0x2000 \<le> c \<and> c \<le> 0x200A) \<or> c = 0x2028 \<or> c = 0x2029 \<or> c = 0x202F \<or> c = 0x205F \<or> c = 0x3000"

definition trim :: "rstring \<Rightarrow> rstring" where
  "trim s = rev (dropWhile is_whitespace (rev (dropWhile is_whitespace s)))"

fun split_char :: "nat \<Rightarrow> rstring \<Rightarrow> rstring list" where
  "split_char d [] = [[]]"
| "split_char d (c # cs) = (if c = d then [] # split_char d cs
     else (case split_char d cs of [] \<Rightarrow> [[c]] | l # ls \<Rightarrow> (c # l) # ls))"

section \<open>Commands of the cycle tracker\<close>

definition lit :: "string \<Rightarrow> rstring" where
  "lit s = map of_char s"

datatype cycle_tracker_command = Start rstring | End rstring | ReportStart rstring | ReportEnd rstring

definition parse_cycle_tracker_command :: "rstring \<Rightarrow> cycle_tracker_command option" where
  "parse_cycle_tracker_command s = (case split_once 58 s of None \<Rightarrow> None
     | Some (command, fn_name) \<Rightarrow>
         (let trimmed_name = trim fn_name in
          if command = lit ''cycle-tracker-start'' then Some (Start trimmed_name)
          else if command = lit ''cycle-tracker-end'' then Some (End trimmed_name)
          else if command = lit ''cycle-tracker-report-start'' then Some (ReportStart trimmed_name)
          else if command = lit ''cycle-tracker-report-end'' then Some (ReportEnd trimmed_name)
          else None))"

section \<open>Splitting loses nothing\<close>

text \<open>The pieces with the separator put back.\<close>

fun join :: "nat \<Rightarrow> rstring list \<Rightarrow> rstring" where
  "join d [] = []"
| "join d [l] = l"
| "join d (l # ls) = l @ d # join d ls"

lemma split_char_not_Nil [simp]: "split_char d s \<noteq> []"
  by (cases s) (auto split: list.splits)

lemma join_split_char: "join d (split_char d s) = s"
proof (induction s)
  case (Cons c cs)
  obtain l ls where "split_char d cs = l # ls" by (metis split_char_not_Nil list.exhaust)
  then show ?case using Cons by (cases ls) auto
qed simp

lemma split_char_pieces: "l \<in> set (split_char d s) \<Longrightarrow> d \<notin> set l"
proof (induction s arbitrary: l)
  case (Cons c cs)
  then show ?case by (cases "split_char d cs") (auto split: if_splits)
qed simp

end
