(* ===== verification/SP1_Syscalls.thy ===== *)
theory SP1_Syscalls
  imports SP1_Precompiles SP1_Strings
begin

text \<open>
  The other syscalls (\<open>halt.rs\<close>, \<open>commit.rs\<close>, \<open>deferred.rs\<close>, \<open>hint.rs\<close>, \<open>verify.rs\<close>,
  \<open>unconstrained.rs\<close>, \<open>write.rs\<close>) and the table that maps a syscall code to its
  implementation (\<open>default_syscall_map\<close> of \<open>syscalls/mod.rs\<close>).  A proof of the proof stream
  is a number; what the subproof verifier says of it is a field of \<open>env\<close>, as are the hooks.
\<close>

section \<open>Halting, committing\<close>

definition halt :: "u32 \<Rightarrow> u32 \<Rightarrow> u32 option sys" where
  "halt exit_code _ = sbind (set_next_pc 0) (\<lambda>_. sbind (set_exit_code exit_code) (\<lambda>_. sret None))"

definition upd_public_values :: "(public_values \<Rightarrow> public_values res) \<Rightarrow> unit sys" where
  "upd_public_values f = (\<lambda>c. rbind (f (public_values (exec_record (rt c)))) (\<lambda>pv.
     Inr ((), c\<lparr>rt := upd_record (\<lambda>r. r\<lparr>public_values := pv\<rparr>) (rt c)\<rparr>)))"

definition commit :: "u32 \<Rightarrow> u32 \<Rightarrow> u32 option sys" where
  "commit word_idx public_values_digest_word =
     sbind (upd_public_values (\<lambda>pv. rbind (vec_set (committed_value_digest pv) (unat word_idx) public_values_digest_word)
       (\<lambda>d. Inr (pv\<lparr>committed_value_digest := d\<rparr>)))) (\<lambda>_. sret None)"

definition commit_deferred_proofs :: "u32 \<Rightarrow> u32 \<Rightarrow> u32 option sys" where
  "commit_deferred_proofs word_idx word =
     sbind (upd_public_values (\<lambda>pv. rbind (vec_set (deferred_proofs_digest pv) (unat word_idx) word)
       (\<lambda>d. Inr (pv\<lparr>deferred_proofs_digest := d\<rparr>)))) (\<lambda>_. sret None)"

section \<open>Hints\<close>

definition hint_len :: "u32 \<Rightarrow> u32 \<Rightarrow> u32 option sys" where
  "hint_len _ _ = sbind (sget (\<lambda>c. input_stream (state (rt c)))) (\<lambda>is.
     case is of [] \<Rightarrow> spanic | data # _ \<Rightarrow> sret (Some (of_nat (length data))))"

definition get_or_0 :: "u8 list \<Rightarrow> nat \<Rightarrow> u8" where
  "get_or_0 xs i = (if i < length xs then xs ! i else 0)"

definition hint_word :: "u8 list \<Rightarrow> nat \<Rightarrow> u32 res" where
  "hint_word vec i = rbind (vec_get vec i) (\<lambda>b1.
     Inr (from_le_bytes4 b1 (get_or_0 vec (i + 1)) (get_or_0 vec (i + 2)) (get_or_0 vec (i + 3))))"

definition set_uninit :: "u32 \<Rightarrow> u32 \<Rightarrow> executor \<Rightarrow> executor res" where
  "set_uninit addr word s =
     rbind (mem_entry_or_insert (uninitialized_memory_checkpoint s) addr False) (\<lambda>uc.
     rbind (mem_get (uninitialized_memory (state s)) addr) (\<lambda>slot.
     case slot of Some _ \<Rightarrow> Inl Panic
     | None \<Rightarrow> rbind (mem_insert (uninitialized_memory (state s)) addr word) (\<lambda>um.
         Inr (upd_state (\<lambda>st. st\<lparr>uninitialized_memory := um\<rparr>) (s\<lparr>uninitialized_memory_checkpoint := uc\<rparr>)))))"

definition c_set_uninit :: "u32 \<Rightarrow> u32 \<Rightarrow> unit sys" where
  "c_set_uninit addr word = (\<lambda>c. rbind (set_uninit addr word (rt c)) (\<lambda>s. Inr ((), c\<lparr>rt := s\<rparr>)))"

text \<open>\<open>(0..len).step_by(4)\<close>.\<close>

definition steps4 :: "u32 \<Rightarrow> nat list" where
  "steps4 len = map (\<lambda>k. 4 * k) [0..<(unat len + 3) div 4]"

definition hint_read :: "u32 \<Rightarrow> u32 \<Rightarrow> u32 option sys" where
  "hint_read ptr len =
     sbind (sget (\<lambda>c. input_stream (state (rt c)))) (\<lambda>is.
     case is of [] \<Rightarrow> spanic | vec # rest \<Rightarrow>
     sbind (supd (\<lambda>c. c\<lparr>rt := upd_state (\<lambda>st. st\<lparr>input_stream := rest\<rparr>) (rt c)\<rparr>)) (\<lambda>_.
     sbind (sget (\<lambda>c. unconstrained (rt c))) (\<lambda>u.
     sbind (sassert (\<not> u)) (\<lambda>_.
     sbind (sassert (of_nat (length vec) = len)) (\<lambda>_.
     sbind (sassert (word_aligned ptr)) (\<lambda>_.
     sbind (sfor (\<lambda>i. sbind (slift (hint_word vec i)) (\<lambda>word. c_set_uninit (ptr + of_nat i) word)) (steps4 len)) (\<lambda>_.
     sret None)))))))"

section \<open>Verifying a proof\<close>

definition verify_sp1_proof :: "env \<Rightarrow> u32 \<Rightarrow> u32 \<Rightarrow> u32 option sys" where
  "verify_sp1_proof env vkey_ptr pv_digest_ptr =
     sbind (sassert (word_aligned vkey_ptr)) (\<lambda>_.
     sbind (sassert (word_aligned pv_digest_ptr)) (\<lambda>_.
     sbind (slice_unsafe vkey_ptr 8) (\<lambda>vkey.
     sbind (slice_unsafe pv_digest_ptr 8) (\<lambda>pv_digest.
     sbind (sget (\<lambda>c. proof_stream_ptr (state (rt c)))) (\<lambda>proof_index.
     sbind (sget (\<lambda>c. proof_stream (state (rt c)))) (\<lambda>stream.
     sbind (slift (vec_get stream proof_index)) (\<lambda>prf.
     sbind (supd (\<lambda>c. c\<lparr>rt := upd_state (\<lambda>st. st\<lparr>proof_stream_ptr := proof_stream_ptr st + 1\<rparr>) (rt c)\<rparr>)) (\<lambda>_.
     sbind (sget (\<lambda>c. deferred_proof_verification (rt c))) (\<lambda>enabled.
     sbind (if enabled then (case subproof_verifier env of Some v \<Rightarrow> sassert (v prf vkey pv_digest) | None \<Rightarrow> sret ())
            else sret ()) (\<lambda>_.
     sret None))))))))))"

section \<open>Unconstrained blocks\<close>

definition enter_fork :: "executor \<Rightarrow> executor" where
  "enter_fork s = s\<lparr>unconstrained := True,
     unconstrained_state := \<lparr>fork_global_clk = global_clk (state s), fork_clk = clk (state s), fork_pc = pc (state s),
       memory_diff = Map.empty, op_record = memory_accesses s, fork_record = exec_record s,
       fork_executor_mode = executor_mode s\<rparr>,
     exec_record := record_new program_default, memory_accesses := no_accesses,
     executor_mode := Simple\<rparr>"

definition enter_unconstrained :: "u32 \<Rightarrow> u32 \<Rightarrow> u32 option sys" where
  "enter_unconstrained _ _ =
     sbind (sget (\<lambda>c. unconstrained (rt c))) (\<lambda>u.
     sbind (sassert (\<not> u)) (\<lambda>_.
     sbind (supd (\<lambda>c. c\<lparr>rt := enter_fork (rt c)\<rparr>)) (\<lambda>_.
     sret (Some 1))))"

text \<open>
  The loop over \<open>memory_diff\<close> inserts or removes each recorded entry: a key below 32 is a
  register, any other the address of a valid access (\<open>diff_keys\<close> in \<open>SP1_Unconstrained\<close>), so
  it is its own slot in the page table.
\<close>

definition restore_diff :: "(u32 \<rightharpoonup> memory_record option) \<Rightarrow> memory_record memory \<Rightarrow> memory_record memory" where
  "restore_diff d m = m\<lparr>
     registers := (\<lambda>a. if a < 32 then (case d a of Some v \<Rightarrow> v | None \<Rightarrow> registers m a) else registers m a),
     page_table := (\<lambda>a. if a < 32 then page_table m a else (case d a of Some v \<Rightarrow> v | None \<Rightarrow> page_table m a))\<rparr>"

definition exit_fork :: "executor \<Rightarrow> executor" where
  "exit_fork s = (let f = unconstrained_state s in
     (upd_state (\<lambda>st. st\<lparr>global_clk := fork_global_clk f, clk := fork_clk f, pc := fork_pc f,
        memory := restore_diff (memory_diff f) (memory st)\<rparr>) s)
     \<lparr>exec_record := fork_record f, memory_accesses := op_record f, executor_mode := fork_executor_mode f,
      unconstrained := False, unconstrained_state := fork_default\<rparr>)"

definition exit_unconstrained :: "u32 \<Rightarrow> u32 \<Rightarrow> u32 option sys" where
  "exit_unconstrained _ _ =
     sbind (supd (\<lambda>c. if unconstrained (rt c)
        then c\<lparr>rt := exit_fork (rt c), ctx_next_pc := fork_pc (unconstrained_state (rt c)) + 4\<rparr>
        else c\<lparr>rt := (rt c)\<lparr>unconstrained_state := fork_default\<rparr>\<rparr>)) (\<lambda>_.
     sret (Some 0))"

section \<open>Writing\<close>

definition start_cycle_tracker :: "rstring \<Rightarrow> executor \<Rightarrow> executor" where
  "start_cycle_tracker name s = s\<lparr>cycle_tracker :=
     AList.update name (global_clk (state s), of_nat (length (cycle_tracker s))) (cycle_tracker s)\<rparr>"

definition end_cycle_tracker :: "rstring \<Rightarrow> executor \<Rightarrow> u64 option \<times> executor" where
  "end_cycle_tracker name s = (case map_of (cycle_tracker s) name of
       Some (start, depth) \<Rightarrow> (Some (global_clk (state s) - start),
                               s\<lparr>cycle_tracker := AList.delete name (cycle_tracker s)\<rparr>)
     | None \<Rightarrow> (None, s))"

definition add_cycles :: "rstring \<Rightarrow> u64 \<Rightarrow> (rstring \<rightharpoonup> u64) \<Rightarrow> (rstring \<rightharpoonup> u64)" where
  "add_cycles name n m = m(name \<mapsto> (case m name of Some k \<Rightarrow> k + n | None \<Rightarrow> n))"

fun handle_cycle_tracker_command :: "cycle_tracker_command \<Rightarrow> executor \<Rightarrow> executor" where
  "handle_cycle_tracker_command (Start name) s = start_cycle_tracker name s"
| "handle_cycle_tracker_command (ReportStart name) s = start_cycle_tracker name s"
| "handle_cycle_tracker_command (End name) s = snd (end_cycle_tracker name s)"
| "handle_cycle_tracker_command (ReportEnd name) s = (case end_cycle_tracker name s of
       (Some n, s) \<Rightarrow> s\<lparr>report := (report s)\<lparr>rep_cycle_tracker := add_cycles name n (rep_cycle_tracker (report s))\<rparr>\<rparr>
     | (None, s) \<Rightarrow> s)"

definition NEWLINE :: nat where "NEWLINE = 10"

text \<open>\<open>update_io_buf\<close>: the lines to print, and the new buffer.\<close>

definition update_io_buf :: "u32 \<Rightarrow> rstring \<Rightarrow> executor \<Rightarrow> rstring list \<times> executor" where
  "update_io_buf fd str s =
     (let entry = (case io_buf s fd of Some b \<Rightarrow> b | None \<Rightarrow> []) @ str in
      if NEWLINE \<in> set entry
      then (let lines = split_char NEWLINE entry in (butlast lines, s\<lparr>io_buf := (io_buf s)(fd \<mapsto> last lines)\<rparr>))
      else ([], s\<lparr>io_buf := (io_buf s)(fd \<mapsto> entry)\<rparr>))"

definition LOWEST_ALLOWED_FD :: u32 where "LOWEST_ALLOWED_FD = 10"
definition FD_PUBLIC_VALUES :: u32 where "FD_PUBLIC_VALUES = 3 + LOWEST_ALLOWED_FD"
definition FD_HINT :: u32 where "FD_HINT = 4 + LOWEST_ALLOWED_FD"

definition s_rt :: "(executor \<Rightarrow> executor) \<Rightarrow> unit sys" where
  "s_rt f = supd (\<lambda>c. c\<lparr>rt := f (rt c)\<rparr>)"

definition push_front :: "u8 list \<Rightarrow> executor \<Rightarrow> executor" where
  "push_front v s = upd_state (\<lambda>st. st\<lparr>input_stream := v # input_stream st\<rparr>) s"

definition extend_public_values :: "u8 list \<Rightarrow> executor \<Rightarrow> executor" where
  "extend_public_values bs s = upd_state (\<lambda>st. st\<lparr>public_values_stream := public_values_stream st @ bs\<rparr>) s"

text \<open>The results of a hook are pushed in reverse, so that they are read in order.\<close>

definition push_results :: "u8 list list \<Rightarrow> executor \<Rightarrow> executor" where
  "push_results res s = fold push_front (rev res) s"

definition write_deprecated :: "env \<Rightarrow> u32 \<Rightarrow> u8 list \<Rightarrow> unit sys" where
  "write_deprecated env fd bytes =
     (if fd \<in> {5, 6, 7, 8} then sbind (unwrap (deprecated_hook env fd bytes)) (\<lambda>res. s_rt (push_results res))
      else if fd = 3 then s_rt (extend_public_values bytes)
      else if fd = 4 then s_rt (push_front bytes)
      else sret ())"

definition write_fd :: "env \<Rightarrow> u32 \<Rightarrow> u8 list \<Rightarrow> unit sys" where
  "write_fd env fd bytes =
     (if fd = 1 then
        sbind (unwrap (from_utf8 bytes)) (\<lambda>str. case parse_cycle_tracker_command str of
            Some command \<Rightarrow> s_rt (handle_cycle_tracker_command command)
          | None \<Rightarrow> s_rt (\<lambda>s. snd (update_io_buf fd str s)))
      else if fd = 2 then
        sbind (unwrap (from_utf8 bytes)) (\<lambda>str. s_rt (\<lambda>s. snd (update_io_buf fd str s)))
      else if fd \<le> LOWEST_ALLOWED_FD then
        (case allow_deprecated_hooks env of Some True \<Rightarrow> write_deprecated env fd bytes | _ \<Rightarrow> spanic)
      else if fd = FD_PUBLIC_VALUES then s_rt (extend_public_values bytes)
      else if fd = FD_HINT then s_rt (push_front bytes)
      else (case hook_registry env fd of
          Some hook \<Rightarrow> sbind (unwrap (hook bytes)) (\<lambda>res. s_rt (push_results res))
        | None \<Rightarrow> sret ()))"

definition write_syscall :: "env \<Rightarrow> u32 \<Rightarrow> u32 \<Rightarrow> u32 option sys" where
  "write_syscall env fd write_buf =
     sbind (c_register X12) (\<lambda>nbytes.
     sbind (sfor (\<lambda>i. c_byte (write_buf + of_nat i)) [0..<unat nbytes]) (\<lambda>bytes.
     sbind (write_fd env fd bytes) (\<lambda>_.
     sret None)))"

section \<open>The table of syscalls\<close>

fun syscall_impl :: "env \<Rightarrow> syscall_code \<Rightarrow> (u32 \<Rightarrow> u32 \<Rightarrow> u32 option sys) option" where
  "syscall_impl env HALT = Some halt"
| "syscall_impl env SHA_EXTEND = Some (sha_extend SHA_EXTEND)"
| "syscall_impl env SHA_COMPRESS = Some (sha_compress SHA_COMPRESS)"
| "syscall_impl env ED_ADD = Some (edwards_add ed25519 ED_ADD)"
| "syscall_impl env ED_DECOMPRESS = Some (edwards_decompress ED_DECOMPRESS)"
| "syscall_impl env KECCAK_PERMUTE = Some (keccak_permute env KECCAK_PERMUTE)"
| "syscall_impl env SECP256K1_ADD = Some (weierstrass_add secp256k1 SECP256K1_ADD)"
| "syscall_impl env SECP256K1_DOUBLE = Some (weierstrass_double secp256k1 SECP256K1_DOUBLE)"
| "syscall_impl env SECP256K1_DECOMPRESS = Some (weierstrass_decompress env secp256k1 SECP256K1_DECOMPRESS)"
| "syscall_impl env SECP256R1_ADD = Some (weierstrass_add secp256r1 SECP256R1_ADD)"
| "syscall_impl env SECP256R1_DOUBLE = Some (weierstrass_double secp256r1 SECP256R1_DOUBLE)"
| "syscall_impl env SECP256R1_DECOMPRESS = Some (weierstrass_decompress env secp256r1 SECP256R1_DECOMPRESS)"
| "syscall_impl env BN254_ADD = Some (weierstrass_add bn254 BN254_ADD)"
| "syscall_impl env BN254_DOUBLE = Some (weierstrass_double bn254 BN254_DOUBLE)"
| "syscall_impl env BLS12381_ADD = Some (weierstrass_add bls12381 BLS12381_ADD)"
| "syscall_impl env BLS12381_DOUBLE = Some (weierstrass_double bls12381 BLS12381_DOUBLE)"
| "syscall_impl env UINT256_MUL = Some (uint256_mul UINT256_MUL)"
| "syscall_impl env U256XU2048_MUL = Some (u256x2048_mul U256XU2048_MUL)"
| "syscall_impl env BLS12381_FP_ADD = Some (fp_op_syscall bls12381 Field_Add BLS12381_FP_ADD)"
| "syscall_impl env BLS12381_FP_SUB = Some (fp_op_syscall bls12381 Field_Sub BLS12381_FP_SUB)"
| "syscall_impl env BLS12381_FP_MUL = Some (fp_op_syscall bls12381 Field_Mul BLS12381_FP_MUL)"
| "syscall_impl env BLS12381_FP2_ADD = Some (fp2_addsub bls12381 Field_Add BLS12381_FP2_ADD)"
| "syscall_impl env BLS12381_FP2_SUB = Some (fp2_addsub bls12381 Field_Sub BLS12381_FP2_SUB)"
| "syscall_impl env BLS12381_FP2_MUL = Some (fp2_mul bls12381 BLS12381_FP2_MUL)"
| "syscall_impl env BN254_FP_ADD = Some (fp_op_syscall bn254 Field_Add BN254_FP_ADD)"
| "syscall_impl env BN254_FP_SUB = Some (fp_op_syscall bn254 Field_Sub BN254_FP_SUB)"
| "syscall_impl env BN254_FP_MUL = Some (fp_op_syscall bn254 Field_Mul BN254_FP_MUL)"
| "syscall_impl env BN254_FP2_ADD = Some (fp2_addsub bn254 Field_Add BN254_FP2_ADD)"
| "syscall_impl env BN254_FP2_SUB = Some (fp2_addsub bn254 Field_Sub BN254_FP2_SUB)"
| "syscall_impl env BN254_FP2_MUL = Some (fp2_mul bn254 BN254_FP2_MUL)"
| "syscall_impl env ENTER_UNCONSTRAINED = Some enter_unconstrained"
| "syscall_impl env EXIT_UNCONSTRAINED = Some exit_unconstrained"
| "syscall_impl env WRITE = Some (write_syscall env)"
| "syscall_impl env COMMIT = Some commit"
| "syscall_impl env COMMIT_DEFERRED_PROOFS = Some commit_deferred_proofs"
| "syscall_impl env VERIFY_SP1_PROOF = Some (verify_sp1_proof env)"
| "syscall_impl env HINT_LEN = Some hint_len"
| "syscall_impl env HINT_READ = Some hint_read"
| "syscall_impl env BLS12381_DECOMPRESS = Some (weierstrass_decompress env bls12381 BLS12381_DECOMPRESS)"

text \<open>\<open>num_extra_cycles\<close> of the implementations; the default of the trait is 0.\<close>

definition num_extra_cycles :: "syscall_code \<Rightarrow> u32" where
  "num_extra_cycles code =
     (if code = SHA_EXTEND then 48
      else if code \<in> {SHA_COMPRESS, ED_ADD, KECCAK_PERMUTE, SECP256K1_ADD, SECP256R1_ADD, BN254_ADD, BLS12381_ADD,
        UINT256_MUL, U256XU2048_MUL, BLS12381_FP_ADD, BLS12381_FP_SUB, BLS12381_FP_MUL, BLS12381_FP2_ADD,
        BLS12381_FP2_SUB, BLS12381_FP2_MUL, BN254_FP_ADD, BN254_FP_SUB, BN254_FP_MUL, BN254_FP2_ADD,
        BN254_FP2_SUB, BN254_FP2_MUL} then 1
      else 0)"

text \<open>
  (C39) The number of extra cycles that the implementation of a syscall reports is the number
  that its code carries in byte 2, which is what the tables of the prover read.
\<close>

theorem num_extra_cycles_code: "num_extra_cycles code = num_cycles code"
  by (cases code) (simp_all add: num_extra_cycles_def num_cycles_def to_le_bytes_def)

lemma num_extra_cycles_le: "num_extra_cycles code \<le> 48"
  by (simp add: num_extra_cycles_def)

section \<open>Output\<close>

lemma join_butlast:
  "ls \<noteq> [] \<Longrightarrow> concat (map (\<lambda>l. l @ [d]) (butlast ls)) @ last ls = join d ls"
  by (induction d ls rule: join.induct) auto

text \<open>
  (C21) The line buffers lose and invent no output: the lines that a write completes, each
  with its newline, followed by what stays in the buffer, are what was in the buffer followed
  by the written text; no line and no buffer contains a newline.
\<close>

theorem io_buf_lossless:
  assumes "update_io_buf fd str s = (lines, s')" and "\<forall>b. io_buf s fd = Some b \<longrightarrow> NEWLINE \<notin> set b"
  shows "\<exists>b'. io_buf s' fd = Some b' \<and> NEWLINE \<notin> set b' \<and> (\<forall>l\<in>set lines. NEWLINE \<notin> set l)
    \<and> concat (map (\<lambda>l. l @ [NEWLINE]) lines) @ b' = (case io_buf s fd of Some b \<Rightarrow> b | None \<Rightarrow> []) @ str"
proof -
  define entry where "entry = (case io_buf s fd of Some b \<Rightarrow> b | None \<Rightarrow> []) @ str"
  show ?thesis
  proof (cases "NEWLINE \<in> set entry")
    case True
    let ?ls = "split_char NEWLINE entry"
    have e: "lines = butlast ?ls" "io_buf s' fd = Some (last ?ls)"
      using assms(1) True by (auto simp: update_io_buf_def Let_def entry_def [symmetric])
    moreover have "concat (map (\<lambda>l. l @ [NEWLINE]) (butlast ?ls)) @ last ?ls = entry"
      by (simp add: join_butlast join_split_char)
    moreover have "NEWLINE \<notin> set l" if "l \<in> set ?ls" for l using that by (rule split_char_pieces)
    ultimately show ?thesis by (auto simp: entry_def [symmetric] dest: in_set_butlastD)
  next
    case False
    then show ?thesis using assms(1) by (auto simp: update_io_buf_def Let_def entry_def [symmetric])
  qed
qed

theorem io_buf_lossless_witness:
  "\<exists>s' b'. update_io_buf 1 [97, 10, 98] (with_context 0 Map.empty program_default 0 0 None True) = ([[97]], s')
     \<and> io_buf s' 1 = Some b' \<and> [97, 10] @ b' = [97, 10, 98]"
proof -
  let ?s = "with_context 0 Map.empty program_default 0 0 None True"
  have b: "io_buf ?s = Map.empty" by (simp add: with_context_def)
  have sp: "split_char NEWLINE [97, 10, 98] = [[97], [98]]" by (simp add: NEWLINE_def)
  obtain s' where s': "update_io_buf 1 [97, 10, 98] ?s = ([[97]], s')"
    by (simp add: update_io_buf_def b sp) (simp add: NEWLINE_def)
  from io_buf_lossless [OF s'] s' show ?thesis by (auto simp: b NEWLINE_def)
qed

end
