(* ===== verification/SP1_Alu.thy ===== *)
theory SP1_Alu
  imports SP1_Executor
begin

text \<open>
  The value computed by an ALU instruction (the \<open>match\<close> of \<open>Executor::execute_alu\<close>) and the
  RV32IM specification of it over the integers.  The division facts serve the dependency
  events of \<open>SP1_Dependencies\<close>.
\<close>

section \<open>The result of an ALU instruction\<close>

fun alu_value :: "opcode \<Rightarrow> u32 \<Rightarrow> u32 \<Rightarrow> u32 res" where
  "alu_value ADD b c = Inr (b + c)"
| "alu_value SUB b c = Inr (b - c)"
| "alu_value XOR_op b c = Inr (b XOR c)"
| "alu_value OR_op b c = Inr (b OR c)"
| "alu_value AND_op b c = Inr (b AND c)"
| "alu_value SLL b c = Inr (wrapping_shl b c)"
| "alu_value SRL b c = Inr (wrapping_shr b c)"
| "alu_value SRA b c = Inr (wrapping_shr_i32 b c)"
| "alu_value SLT b c = Inr (if slt_i32 b c then 1 else 0)"
| "alu_value SLTU b c = Inr (if b < c then 1 else 0)"
| "alu_value MUL b c = Inr (b * c)"
| "alu_value MULH b c = Inr (ucast (signed_drop_bit 32 (scast b * scast c :: u64)))"
| "alu_value MULHU b c = Inr (ucast (drop_bit 32 (ucast b * ucast c :: u64)))"
| "alu_value MULHSU b c = Inr (ucast (signed_drop_bit 32 (scast b * ucast c :: u64)))"
| "alu_value DIV b c = Inr (if c = 0 then - 1 else wrapping_div_i32 b c)"
| "alu_value DIVU b c = Inr (if c = 0 then - 1 else b div c)"
| "alu_value REM b c = Inr (if c = 0 then b else wrapping_rem_i32 b c)"
| "alu_value REMU b c = Inr (if c = 0 then b else b mod c)"
| "alu_value _ b c = Inl Panic"

text \<open>\<open>get_quotient_and_remainder\<close>, \<open>is_signed_operation\<close> and \<open>get_msb\<close> of \<open>utils.rs\<close>.\<close>

definition is_signed_operation :: "opcode \<Rightarrow> bool" where
  "is_signed_operation opc \<longleftrightarrow> opc = DIV \<or> opc = REM"

definition get_quotient_and_remainder :: "u32 \<Rightarrow> u32 \<Rightarrow> opcode \<Rightarrow> u32 \<times> u32" where
  "get_quotient_and_remainder b c opc =
     (if c = 0 then (- 1, b)
      else if is_signed_operation opc then (wrapping_div_i32 b c, wrapping_rem_i32 b c)
      else (b div c, b mod c))"

definition get_msb :: "u32 \<Rightarrow> u8" where
  "get_msb a = ucast (drop_bit 31 a AND 1)"

section \<open>The specification over the integers\<close>

text \<open>
  RV32IM, unprivileged specification: registers read as unsigned (\<open>uint\<close>) or two's
  complement (\<open>sint\<close>) integers, division truncating towards zero, division by zero giving
  \<open>-1\<close> and the dividend.
\<close>

fun rv32_spec :: "opcode \<Rightarrow> u32 \<Rightarrow> u32 \<Rightarrow> int" where
  "rv32_spec ADD b c = uint b + uint c"
| "rv32_spec SUB b c = uint b - uint c"
| "rv32_spec XOR_op b c = uint b XOR uint c"
| "rv32_spec OR_op b c = uint b OR uint c"
| "rv32_spec AND_op b c = uint b AND uint c"
| "rv32_spec SLL b c = uint b * 2 ^ nat (uint c mod 32)"
| "rv32_spec SRL b c = uint b div 2 ^ nat (uint c mod 32)"
| "rv32_spec SRA b c = sint b div 2 ^ nat (uint c mod 32)"
| "rv32_spec SLT b c = of_bool (sint b < sint c)"
| "rv32_spec SLTU b c = of_bool (uint b < uint c)"
| "rv32_spec MUL b c = uint b * uint c"
| "rv32_spec MULH b c = (sint b * sint c) div 2 ^ 32"
| "rv32_spec MULHU b c = (uint b * uint c) div 2 ^ 32"
| "rv32_spec MULHSU b c = (sint b * uint c) div 2 ^ 32"
| "rv32_spec DIV b c = (if sint c = 0 then - 1 else sint b sdiv sint c)"
| "rv32_spec DIVU b c = (if uint c = 0 then 2 ^ 32 - 1 else uint b div uint c)"
| "rv32_spec REM b c = (if sint c = 0 then sint b else sint b smod sint c)"
| "rv32_spec REMU b c = (if uint c = 0 then uint b else uint b mod uint c)"
| "rv32_spec _ b c = 0"

section \<open>Word operations as integer operations\<close>

lemma abs_sint_u32: "\<bar>sint (a :: u32)\<bar> \<le> 2147483648"
  using sint_ge [of a] sint_lt [of a] by (simp add: abs_le_iff)

lemma abs_uint_u32: "\<bar>uint (a :: u32)\<bar> \<le> 4294967295"
  using uint_lt2p [of a] by simp

lemma nat_uint_mod: "nat (uint (c::u32) mod 32) = unat c mod 32"
  by (simp add: nat_mod_distrib)

lemma wrapping_shl_int: "wrapping_shl b c = word_of_int (uint b * 2 ^ nat (uint c mod 32))"
  by (simp add: wrapping_shl_def push_bit_eq_mult nat_uint_mod)

lemma drop_bit_int: "drop_bit n (w :: 'a::len word) = word_of_int (uint w div 2 ^ n)"
  by (rule bit_word_eqI)
    (auto simp add: bit_drop_bit_eq bit_word_of_int_iff bit_uint_iff simp flip: drop_bit_eq_div dest: bit_imp_le_length)

lemma signed_drop_bit_int: "signed_drop_bit n (w :: 'a::len word) = word_of_int (sint w div 2 ^ n)"
  using sint_signed_drop_bit_eq [of n w] by (metis drop_bit_eq_div scast_eq scast_id)

lemma abs_mult_le:
  fixes x y :: int
  assumes "\<bar>x\<bar> \<le> m" "\<bar>y\<bar> \<le> n" shows "\<bar>x * y\<bar> \<le> m * n"
  using assms by (simp add: abs_mult mult_mono)

lemma sint_u64_id: "\<bar>x\<bar> < 2 ^ 63 \<Longrightarrow> sint (word_of_int x :: u64) = x"
  by (simp add: sint_sbintrunc' signed_take_bit_int_eq_self abs_less_iff)

lemma sint_scast_mul: "sint (scast (b::u32) * scast (c::u32) :: u64) = sint b * sint c"
proof -
  have "\<bar>sint b * sint c\<bar> < 2 ^ 63" using abs_mult_le [OF abs_sint_u32 [of b] abs_sint_u32 [of c]] by simp
  then show ?thesis unfolding scast_eq of_int_mult [symmetric] by (rule sint_u64_id)
qed

lemma sint_scast_ucast_mul: "sint (scast (b::u32) * ucast (c::u32) :: u64) = sint b * uint c"
proof -
  have "\<bar>sint b * uint c\<bar> < 2 ^ 63" using abs_mult_le [OF abs_sint_u32 [of b] abs_uint_u32 [of c]] by simp
  then show ?thesis unfolding scast_eq ucast_eq of_int_mult [symmetric] by (rule sint_u64_id)
qed

lemma uint_ucast_mul: "uint (ucast (b::u32) * ucast (c::u32) :: u64) = uint b * uint c"
proof -
  have "uint b * uint c < 2 ^ 64"
    using abs_mult_le [OF abs_uint_u32 [of b] abs_uint_u32 [of c]] by (simp add: abs_mult)
  then show ?thesis unfolding ucast_eq of_int_mult [symmetric] uint_word_of_int by simp
qed

lemma ucast_word_of_int: "ucast (word_of_int x :: u64) = (word_of_int x :: u32)"
  by (rule ucast_down_wi) (simp add: is_down)



lemma sint_0_iff32: "sint (c :: u32) = 0 \<longleftrightarrow> c = 0"
  by (metis signed_0 signed_word_eqI)

lemma word_bitwise_int:
  "(b :: 'a::len word) XOR c = word_of_int (uint b XOR uint c)"
  "b OR c = word_of_int (uint b OR uint c)"
  "b AND c = word_of_int (uint b AND uint c)"
  by (auto intro!: bit_word_eqI simp: bit_word_of_int_iff bit_simps)

lemma uint_0_iff32: "uint (c :: u32) = 0 \<longleftrightarrow> c = 0"
  by (simp add: word_uint_eq_iff)

lemmas alu_int = wrapping_shl_int wrapping_shr_def wrapping_shr_i32_def nat_uint_mod
  drop_bit_int signed_drop_bit_int sint_scast_mul sint_scast_ucast_mul uint_ucast_mul
  ucast_word_of_int slt_i32_def word_less_def wrapping_div_i32_def wrapping_rem_i32_def
  sint_0_iff32 uint_0_iff32 word_bitwise_int word_div_def word_mod_def

lemma alu_value_int:
  assumes "is_alu_instruction i"
  shows "alu_value (opcode i) b c = Inr (word_of_int (rv32_spec (opcode i) b c))"
  using assms unfolding is_alu_instruction_def
  by (elim insertE emptyE) (simp_all add: alu_int)

text \<open>
  (C14) Every ALU instruction of RV32IM computes the value the specification gives over the
  integers, reduced to 32 bits; in particular the division by zero and the overflowing
  signed division have the values the specification prescribes.
\<close>

theorem alu_value_spec:
  assumes "is_alu_instruction i"
  shows "alu_value (opcode i) b c = Inr (word_of_int (rv32_spec (opcode i) b c))"
  using assms by (rule alu_value_int)

theorem alu_value_spec_witness:
  "alu_value DIV 0x80000000 0xFFFFFFFF = Inr (word_of_int (rv32_spec DIV 0x80000000 0xFFFFFFFF))"
  using alu_value_spec [of "instr_new DIV 1 2 3 False False" "0x80000000" "0xFFFFFFFF"]
  by (simp add: instr_new_def is_alu_instruction_def)

section \<open>Quotient and remainder\<close>

lemma sint_u32_id: "- 2147483648 \<le> x \<Longrightarrow> x < 2147483648 \<Longrightarrow> sint (word_of_int x :: u32) = x"
  by (simp add: sint_sbintrunc' signed_take_bit_int_eq_self)

lemma sdiv_bounds:
  fixes k l :: int
  assumes k: "\<bar>k\<bar> \<le> 2147483648" "k < 2147483648" and "\<not> (k = - 2147483648 \<and> l = - 1)"
  shows "- 2147483648 \<le> k sdiv l" and "k sdiv l < 2147483648"
proof -
  have r: "\<bar>k sdiv l\<bar> \<le> \<bar>k\<bar>" using sdiv_int_range [of k l] by (simp add: abs_le_iff)
  then show "- 2147483648 \<le> k sdiv l" using k by linarith
  consider "\<bar>k\<bar> < 2147483648" | "k = - 2147483648" "l = 1" | "l = 0"
    | "k = - 2147483648" "2 \<le> \<bar>l\<bar>" using assms by linarith
  then show "k sdiv l < 2147483648"
  proof cases
    case 4
    have "\<bar>k\<bar> div \<bar>l\<bar> \<le> \<bar>k\<bar> div 2" by (rule zdiv_mono2) (use 4 in auto)
    moreover have "k sdiv l \<le> \<bar>k\<bar> div \<bar>l\<bar>"
      by (auto simp: signed_divide_int_def sgn_if pos_imp_zdiv_nonneg_iff)
    ultimately show ?thesis using 4 by simp
  qed (use r in auto)
qed

text \<open>The one operand pair whose signed quotient does not fit.\<close>

definition div_overflow :: "u32 \<Rightarrow> u32 \<Rightarrow> bool" where
  "div_overflow b c \<longleftrightarrow> sint b = - 2147483648 \<and> sint c = - 1"

lemma sint_wrapping_div:
  assumes "\<not> div_overflow b c"
  shows "sint (wrapping_div_i32 b c) = sint b sdiv sint c"
  using sdiv_bounds [of "sint b" "sint c"] assms sint_lt [of b] abs_sint_u32 [of b]
  by (simp add: wrapping_div_i32_def sint_u32_id div_overflow_def)

lemma sint_wrapping_rem:
  assumes "c \<noteq> 0"
  shows "sint (wrapping_rem_i32 b c) = sint b smod sint c"
  unfolding wrapping_rem_i32_def
  by (rule sint_u32_id)
    (use smod_int_range [of "sint c" "sint b"] assms abs_sint_u32 [of c] in \<open>simp_all add: sint_0_iff32\<close>)

lemma abs_smod_less: "(l :: int) \<noteq> 0 \<Longrightarrow> \<bar>k smod l\<bar> < \<bar>l\<bar>"
  using smod_int_range [of l k] by (simp add: abs_less_iff)

lemma smod_sign: "(k :: int) smod l = 0 \<or> sgn (k smod l) = sgn k"
proof -
  have "0 \<le> \<bar>k\<bar> mod \<bar>l\<bar>" by (cases "l = 0") simp_all
  then show ?thesis by (cases "\<bar>k\<bar> mod \<bar>l\<bar> = 0") (simp_all add: signed_modulo_int_def sgn_mult)
qed

lemma remainder_less:
  assumes "c \<noteq> 0" and "get_quotient_and_remainder b c opc = (q, r)"
  shows "is_signed_operation opc \<Longrightarrow> \<bar>sint r\<bar> < \<bar>sint c\<bar>"
    and "\<not> is_signed_operation opc \<Longrightarrow> uint r < uint c"
proof -
  assume "is_signed_operation opc"
  then have "sint r = sint b smod sint c"
    using assms by (auto simp: get_quotient_and_remainder_def sint_wrapping_rem)
  then show "\<bar>sint r\<bar> < \<bar>sint c\<bar>" using assms(1) abs_smod_less [of "sint c" "sint b"] by (simp add: sint_0_iff32)
next
  assume "\<not> is_signed_operation opc"
  then have "r = b mod c" using assms by (auto simp: get_quotient_and_remainder_def)
  then show "uint r < uint c"
    using assms(1) by (simp add: uint_mod uint_0_iff32 word_neq_0_conv word_less_def)
qed

text \<open>
  (C17) The quotient and remainder that the executor computes for \<open>DIV\<close>, \<open>DIVU\<close>, \<open>REM\<close> and
  \<open>REMU\<close> with a non-zero divisor satisfy the division identity: exactly over the integers
  (unsigned; signed when the quotient fits), with the remainder smaller than the divisor
  and of the dividend's sign, and modulo \<open>2^32\<close> in every case.
\<close>

theorem quotient_remainder_identity:
  assumes "c \<noteq> 0" and "get_quotient_and_remainder b c opc = (q, r)"
  shows "q * c + r = b
    \<and> (is_signed_operation opc \<longrightarrow> \<bar>sint r\<bar> < \<bar>sint c\<bar> \<and> (sint r = 0 \<or> sgn (sint r) = sgn (sint b))
         \<and> (\<not> div_overflow b c \<longrightarrow> sint q * sint c + sint r = sint b))
    \<and> (\<not> is_signed_operation opc \<longrightarrow> uint r < uint c \<and> uint q * uint c + uint r = uint b)"
proof (cases "is_signed_operation opc")
  case True
  with assms have q: "q = word_of_int (sint b sdiv sint c)" and r: "r = word_of_int (sint b smod sint c)"
    and d: "q = wrapping_div_i32 b c" "r = wrapping_rem_i32 b c"
    by (auto simp: get_quotient_and_remainder_def wrapping_div_i32_def wrapping_rem_i32_def)
  have "q * c + r = word_of_int ((sint b sdiv sint c) * sint c + sint b smod sint c)"
    unfolding q r by (simp flip: scast_eq)
  then have "q * c + r = b" by (simp add: smod_sdiv_mult_eq add.commute flip: scast_eq)
  then show ?thesis
    using True assms(1) remainder_less(1) [OF assms True] smod_sign [of "sint b" "sint c"]
    by (simp add: d sint_wrapping_rem sint_wrapping_div sint_0_iff32 sdiv_mult_smod_eq)
next
  case False
  with assms have d: "q = b div c" "r = b mod c" by (auto simp: get_quotient_and_remainder_def)
  have "uint r < uint c" by (rule remainder_less(2) [OF assms False])
  moreover have "q * c + r = b" unfolding d by (rule div_mult_mod_eq)
  moreover have "uint q * uint c + uint r = uint b" unfolding d by (simp add: uint_div uint_mod)
  ultimately show ?thesis using False by simp
qed

theorem quotient_remainder_identity_witness:
  "\<bar>sint (0xFFFFFFFE :: u32)\<bar> < \<bar>sint (5 :: u32)\<bar>
   \<and> sint (0xFFFFFFFF :: u32) * sint (5 :: u32) + sint (0xFFFFFFFE :: u32) = sint (0xFFFFFFF9 :: u32)"
proof -
  have "get_quotient_and_remainder 0xFFFFFFF9 5 DIV = (0xFFFFFFFF, 0xFFFFFFFE)"
    by (simp add: get_quotient_and_remainder_def is_signed_operation_def wrapping_div_i32_def wrapping_rem_i32_def)
  from quotient_remainder_identity [OF _ this] show ?thesis
    by (simp add: is_signed_operation_def div_overflow_def)
qed

end
