(* ===== verification/SP1_Load_Store.thy ===== *)
theory SP1_Load_Store
  imports SP1_Executor
begin

text \<open>
  The values moved by load and store instructions: the \<open>match\<close>es of \<open>Executor::execute_load\<close>
  and \<open>Executor::execute_store\<close>, and their meaning on the little-endian bytes of a word.
  Memory is kept in words, so a sub-word store is a read-modify-write of the aligned word.
\<close>

section \<open>The code's masks and shifts\<close>

definition byte_shift :: "u32 \<Rightarrow> nat" where
  "byte_shift addr = unat (addr mod 4) * 8"

definition half_shift :: "u32 \<Rightarrow> nat" where
  "half_shift addr = unat (addr div 2 mod 2) * 16"

fun load_value :: "opcode \<Rightarrow> u32 \<Rightarrow> u32 \<Rightarrow> u32 res" where
  "load_value LB addr w = Inr (scast (ucast (drop_bit (byte_shift addr) w AND 0xFF) :: u8))"
| "load_value LH addr w =
     (if addr mod 2 \<noteq> 0 then Inl (Err (InvalidMemoryAccess LH addr))
      else Inr (scast (ucast (drop_bit (half_shift addr) w AND 0xFFFF) :: u16)))"
| "load_value LW addr w =
     (if addr mod 4 \<noteq> 0 then Inl (Err (InvalidMemoryAccess LW addr)) else Inr w)"
| "load_value LBU addr w = Inr (drop_bit (byte_shift addr) w AND 0xFF)"
| "load_value LHU addr w =
     (if addr mod 2 \<noteq> 0 then Inl (Err (InvalidMemoryAccess LHU addr))
      else Inr (drop_bit (half_shift addr) w AND 0xFFFF))"
| "load_value _ addr w = Inl Panic"

fun store_value :: "opcode \<Rightarrow> u32 \<Rightarrow> u32 \<Rightarrow> u32 \<Rightarrow> u32 res" where
  "store_value SB addr a w =
     Inr (push_bit (byte_shift addr) (a AND 0xFF) OR (w AND NOT (push_bit (byte_shift addr) 0xFF)))"
| "store_value SH addr a w =
     (if addr mod 2 \<noteq> 0 then Inl (Err (InvalidMemoryAccess SH addr))
      else Inr (push_bit (half_shift addr) (a AND 0xFFFF) OR (w AND NOT (push_bit (half_shift addr) 0xFFFF))))"
| "store_value SW addr a w =
     (if addr mod 4 \<noteq> 0 then Inl (Err (InvalidMemoryAccess SW addr)) else Inr a)"
| "store_value _ addr a w = Inl Panic"

section \<open>Bytes of a word\<close>

text \<open>The bytes an access of a given opcode covers, from its address within the word.\<close>

definition lane :: "u32 \<Rightarrow> nat" where
  "lane addr = unat addr mod 4"

fun width :: "opcode \<Rightarrow> nat" where
  "width LB = 1" | "width LBU = 1" | "width SB = 1"
| "width LH = 2" | "width LHU = 2" | "width SH = 2"
| "width LW = 4" | "width SW = 4"
| "width _ = 0"

text \<open>The specification: the accessed bytes read as a little-endian number, extended by its
  sign or by zeros; a store replaces the covered bytes by the low bytes of the source.\<close>

fun le_nat :: "u8 list \<Rightarrow> nat" where
  "le_nat [] = 0"
| "le_nat (b # bs) = unat b + 256 * le_nat bs"

definition lanes :: "opcode \<Rightarrow> u32 \<Rightarrow> u32 \<Rightarrow> u8 list" where
  "lanes opc addr w = take (width opc) (drop (lane addr) (to_le_bytes w))"

definition load_spec :: "opcode \<Rightarrow> u32 \<Rightarrow> u32 \<Rightarrow> int" where
  "load_spec opc addr w = (let n = int (le_nat (lanes opc addr w)) in
     if opc \<in> {LB, LH} then signed_take_bit (8 * width opc - 1) n else n)"

definition store_spec :: "opcode \<Rightarrow> u32 \<Rightarrow> u32 \<Rightarrow> u8 list \<Rightarrow> u8 list" where
  "store_spec opc addr a bs = take (lane addr) bs @ take (width opc) (to_le_bytes a)
     @ drop (lane addr + width opc) bs"

definition access_aligned :: "opcode \<Rightarrow> u32 \<Rightarrow> bool" where
  "access_aligned opc addr \<longleftrightarrow> unat addr mod width opc = 0"

section \<open>Loads\<close>

lemma byte_shift_lane: "byte_shift addr = 8 * lane addr"
  by (simp add: byte_shift_def lane_def unat_mod)

lemma half_shift_lane: "addr mod 2 = 0 \<Longrightarrow> half_shift addr = 8 * lane addr"
  by (simp add: half_shift_def lane_def unat_mod unat_div word_unat_eq_iff [of "addr mod 2"]) presburger

lemma lane_cases: obtains "lane addr = 0" | "lane addr = 1" | "lane addr = 2" | "lane addr = 3"
  unfolding lane_def by linarith

lemma lane_even: "addr mod 2 = 0 \<longleftrightarrow> lane addr = 0 \<or> lane addr = 2"
  by (simp add: lane_def unat_mod word_unat_eq_iff [of "addr mod 2"]) presburger

lemma lane_word: "addr mod 4 = 0 \<longleftrightarrow> lane addr = 0"
  by (simp add: lane_def unat_mod word_unat_eq_iff [of "addr mod 4"])

lemma masks: "(0xFF :: u32) = mask 8" "(0xFFFF :: u32) = mask 16" "(mask 32 :: u32) = - 1"
  by (simp_all add: mask_eq_exp_minus_1)

lemma unat_drop: "unat (drop_bit n (w :: u32)) = unat w div 2 ^ n"
  using unsigned_drop_bit_eq [of n w, where 'a = nat] by (simp only: drop_bit_eq_div take_bit_eq_mod) (simp add: mod_less unat_u32_less)

lemma unat_low: "unat (drop_bit n (w :: u32) AND mask k) = unat w div 2 ^ n mod 2 ^ k"
  by (simp only: unsigned_take_bit_eq unat_drop flip: take_bit_eq_mask take_bit_eq_mod)

lemma unat_byte: "unat (ucast (drop_bit n (w :: u32)) :: u8) = unat w div 2 ^ n mod 256"
  by (simp only: unsigned_ucast_eq unat_drop take_bit_eq_mod) simp

lemma mod_256_step: "(n :: nat) mod 256 + 256 * (n div 256 mod m) = n mod (256 * m)"
  by (simp add: mod_mult2_eq)

lemma eval_256: "(256 :: nat) = 2 ^ 8" by simp

lemma le_nat_bytes: "le_nat (map (\<lambda>k. ucast (drop_bit (8 * k) (w :: u32)) :: u8) [j..<j + k])
    = unat w div 2 ^ (8 * j) mod 2 ^ (8 * k)"
proof (induction k arbitrary: j)
  case (Suc k)
  have l: "[j..<j + Suc k] = j # [Suc j..<Suc j + k]" by (simp add: upt_conv_Cons)
  have "le_nat (map (\<lambda>k. ucast (drop_bit (8 * k) w) :: u8) [j..<j + Suc k])
      = unat w div 2 ^ (8 * j) mod 256 + 256 * (unat w div 2 ^ (8 * Suc j) mod 2 ^ (8 * k))"
    unfolding l list.map le_nat.simps unat_byte Suc.IH ..
  also have "unat w div 2 ^ (8 * Suc j) = unat w div 2 ^ (8 * j) div 256"
    by (metis div_mult2_eq mult_Suc_right power_add add.commute eval_256)
  also have "unat w div 2 ^ (8 * j) mod 256 + 256 * (unat w div 2 ^ (8 * j) div 256 mod 2 ^ (8 * k))
      = unat w div 2 ^ (8 * j) mod (256 * 2 ^ (8 * k))" by (rule mod_256_step)
  finally show ?case by (simp add: power_add)
qed simp

lemma to_le_bytes_map: "to_le_bytes w = map (\<lambda>k. ucast (drop_bit (8 * k) w)) [0..<4]"
  by (simp add: to_le_bytes_def upt_rec)

lemma le_nat_lanes: "lane addr + width opc \<le> 4 \<Longrightarrow>
    le_nat (lanes opc addr w) = unat w div 2 ^ (8 * lane addr) mod 2 ^ (8 * width opc)"
  using le_nat_bytes [of w "lane addr" "width opc"]
  by (simp add: lanes_def to_le_bytes_map take_map drop_map)

lemma access_aligned_simps [simp]:
  "access_aligned LB addr" "access_aligned LBU addr" "access_aligned SB addr"
  "access_aligned LH addr \<longleftrightarrow> addr mod 2 = 0" "access_aligned LHU addr \<longleftrightarrow> addr mod 2 = 0"
  "access_aligned SH addr \<longleftrightarrow> addr mod 2 = 0"
  "access_aligned LW addr \<longleftrightarrow> addr mod 4 = 0" "access_aligned SW addr \<longleftrightarrow> addr mod 4 = 0"
  by (simp_all add: access_aligned_def unat_mod word_unat_eq_iff [of "addr mod 2"] word_unat_eq_iff [of "addr mod 4"])

lemma lane_le: "lane addr \<le> 3"
  unfolding lane_def by linarith

lemma aligned_fits: "access_aligned opc addr \<Longrightarrow> width opc \<noteq> 0 \<Longrightarrow> lane addr + width opc \<le> 4"
  using lane_le [of addr] by (cases opc) (auto simp: lane_even lane_word)

lemma unat_lanes:
  assumes "access_aligned opc addr" "width opc \<noteq> 0"
  shows "unat (drop_bit (8 * lane addr) w AND mask (8 * width opc)) = le_nat (lanes opc addr w)"
  using aligned_fits [OF assms] by (simp only: unat_low le_nat_lanes)

lemma lanes_word:
  assumes "access_aligned opc addr" "width opc \<noteq> 0"
  shows "drop_bit (8 * lane addr) w AND mask (8 * width opc) = word_of_nat (le_nat (lanes opc addr w))"
  unfolding unat_lanes [OF assms, symmetric] by simp

lemma sext_lanes:
  assumes "access_aligned opc addr" "width opc \<noteq> 0" "8 * width opc = LENGTH('a)"
  shows "scast (ucast (drop_bit (8 * lane addr) w AND mask (8 * width opc)) :: 'a::len word)
    = word_of_int (signed_take_bit (8 * width opc - 1) (int (le_nat (lanes opc addr w))))"
proof -
  let ?y = "drop_bit (8 * lane addr) w AND mask (8 * width opc)"
  have "uint ?y = int (le_nat (lanes opc addr w))"
    using unat_lanes [OF assms(1,2)] by (metis uint_nat)
  then have "sint (ucast ?y :: 'a word) = signed_take_bit (LENGTH('a) - 1) (int (le_nat (lanes opc addr w)))"
    unfolding sint_uint unsigned_ucast_eq by (simp add: signed_take_bit_take_bit)
  then show ?thesis unfolding scast_eq assms(3) by (rule arg_cong)
qed

lemma load_value_lanes:
  assumes "is_memory_load_instruction i"
  shows "load_value (opcode i) addr w = (if access_aligned (opcode i) addr
     then Inr (word_of_int (load_spec (opcode i) addr w))
     else Inl (Err (InvalidMemoryAccess (opcode i) addr)))"
proof (cases "access_aligned (opcode i) addr")
  case True
  have w: "width (opcode i) \<noteq> 0" using assms by (auto simp: is_memory_load_instruction_def)
  note lanes_word [OF True w, of w] sext_lanes [OF True w, of w, where 'a = 8]
    sext_lanes [OF True w, of w, where 'a = 16]
  with True assms show ?thesis unfolding is_memory_load_instruction_def
    by (elim insertE emptyE) (simp_all add: load_spec_def byte_shift_lane half_shift_lane masks lane_word)
next
  case False
  with assms show ?thesis unfolding is_memory_load_instruction_def by (elim insertE emptyE) simp_all
qed

text \<open>
  (C15) A load reads the bytes its width covers, starting at the address's byte within the
  aligned word, as a little-endian number, sign-extended for \<open>LB\<close> and \<open>LH\<close> and zero-extended
  otherwise; a misaligned half-word or word load is the error \<open>InvalidMemoryAccess\<close> with the
  opcode and the address.
\<close>

theorem load_value_bytes:
  assumes "is_memory_load_instruction i"
  shows "load_value (opcode i) addr w = (if access_aligned (opcode i) addr
     then Inr (word_of_int (load_spec (opcode i) addr w))
     else Inl (Err (InvalidMemoryAccess (opcode i) addr)))"
  using assms by (rule load_value_lanes)

theorem load_value_bytes_witness:
  "load_value LH 0x1002 0x8001FFFF = Inr (word_of_int (load_spec LH 0x1002 0x8001FFFF))
   \<and> load_value LH 0x1003 0x8001FFFF = Inl (Err (InvalidMemoryAccess LH 0x1003))"
  using load_value_bytes [of "instr_new LH 1 2 0 False True" "0x1002" "0x8001FFFF"]
    load_value_bytes [of "instr_new LH 1 2 0 False True" "0x1003" "0x8001FFFF"]
  by (simp add: instr_new_def is_memory_load_instruction_def)

section \<open>Stores\<close>

lemma patch_bytes:
  fixes a w :: u32
  assumes "k = 8 * l" "n = 8 * m" "l + m \<le> 4"
  shows "to_le_bytes (push_bit k (a AND mask n) OR (w AND NOT (push_bit k (mask n))))
    = take l (to_le_bytes w) @ take m (to_le_bytes a) @ drop (l + m) (to_le_bytes w)"
proof (rule nth_equalityI)
  fix i assume i: "i < length (to_le_bytes (push_bit k (a AND mask n) OR (w AND NOT (push_bit k (mask n)))))"
  have nth: "to_le_bytes x ! j = ucast (drop_bit (8 * j) x)" if "j < 4" for j x
    using that by (simp add: to_le_bytes_map)
  have e: "8 * i + b - 8 * l = 8 * (i - l) + b" if "l \<le> i" for b using that by simp
  show "to_le_bytes (push_bit k (a AND mask n) OR (w AND NOT (push_bit k (mask n)))) ! i
    = (take l (to_le_bytes w) @ take m (to_le_bytes a) @ drop (l + m) (to_le_bytes w)) ! i"
    using i assms
    by (auto simp: nth nth_append not_less e intro!: bit_word_eqI simp: bit_simps)
qed (use assms in auto)

lemma store_value_lanes:
  assumes "is_memory_store_instruction i"
  shows "if access_aligned (opcode i) addr
     then \<exists>w'. store_value (opcode i) addr a w = Inr w' \<and> to_le_bytes w' = store_spec (opcode i) addr a (to_le_bytes w)
     else store_value (opcode i) addr a w = Inl (Err (InvalidMemoryAccess (opcode i) addr))"
proof (cases "access_aligned (opcode i) addr")
  case True
  have w: "width (opcode i) \<noteq> 0" using assms by (auto simp: is_memory_store_instruction_def)
  note patch_bytes [OF refl refl aligned_fits [OF True w], of a w]
  with True assms show ?thesis unfolding is_memory_store_instruction_def
    by (elim insertE emptyE) (simp_all add: store_spec_def byte_shift_lane half_shift_lane masks lane_word)
next
  case False
  with assms show ?thesis unfolding is_memory_store_instruction_def by (elim insertE emptyE) simp_all
qed

text \<open>
  (C16) A store replaces exactly the bytes its width covers by the low bytes of the source
  register and keeps the other bytes of the word; a misaligned half-word or word store is
  the error \<open>InvalidMemoryAccess\<close> with the opcode and the address.
\<close>

theorem store_value_bytes:
  assumes "is_memory_store_instruction i"
  shows "if access_aligned (opcode i) addr
     then \<exists>w'. store_value (opcode i) addr a w = Inr w' \<and> to_le_bytes w' = store_spec (opcode i) addr a (to_le_bytes w)
     else store_value (opcode i) addr a w = Inl (Err (InvalidMemoryAccess (opcode i) addr))"
  using assms by (rule store_value_lanes)

theorem store_value_bytes_witness:
  "\<exists>w'. store_value SB 0x1001 0xABCDEF12 0x11223344 = Inr w'
     \<and> to_le_bytes w' = store_spec SB 0x1001 0xABCDEF12 (to_le_bytes 0x11223344)"
  using store_value_bytes [of "instr_new SB 1 2 0 False True" "0x1001" "0xABCDEF12" "0x11223344"]
  by (simp add: instr_new_def is_memory_store_instruction_def)

end
