(* ===== verification/SP1_Dependencies.thy ===== *)
theory SP1_Dependencies
  imports SP1_Alu SP1_Load_Store
begin

text \<open>
  The ALU events that an instruction's table looks up in another table: \<open>dependencies.rs\<close>
  of \<open>crates/core/executor/src\<close>.  A dependency event is \<^emph>\<open>valid\<close> when its \<open>a\<close> is what the ALU
  computes from its \<open>b\<close> and \<open>c\<close>; only valid events can be proved by the ALU tables, so that
  every emitted event is valid is what the prover relies on.
\<close>

section \<open>The events\<close>

definition UNUSED_PC :: u32 where "UNUSED_PC = 1"

definition dep_event :: "opcode \<Rightarrow> u32 \<Rightarrow> u32 \<Rightarrow> u32 \<Rightarrow> alu_event" where
  "dep_event opc a b c = \<lparr>alu_pc = UNUSED_PC, alu_opcode = opc, alu_a = a, alu_b = b, alu_c = c,
     alu_op_a_0 = False\<rparr>"

definition push_add :: "alu_event \<Rightarrow> executor \<Rightarrow> executor" where
  "push_add e s = upd_record (\<lambda>r. r\<lparr>add_events := add_events r @ [e]\<rparr>) s"

definition push_mul :: "alu_event \<Rightarrow> executor \<Rightarrow> executor" where
  "push_mul e s = upd_record (\<lambda>r. r\<lparr>mul_events := mul_events r @ [e]\<rparr>) s"

definition push_lt :: "alu_event \<Rightarrow> executor \<Rightarrow> executor" where
  "push_lt e s = upd_record (\<lambda>r. r\<lparr>lt_events := lt_events r @ [e]\<rparr>) s"

definition emit_divrem_dependencies :: "alu_event \<Rightarrow> executor \<Rightarrow> executor" where
  "emit_divrem_dependencies event s =
     (let (quotient, remainder) = get_quotient_and_remainder (alu_b event) (alu_c event) (alu_opcode event);
          c_msb = get_msb (alu_c event);
          rem_msb = get_msb remainder;
          signed = is_signed_operation (alu_opcode event);
          c_neg = (if signed then c_msb else 0);
          rem_neg = (if signed then rem_msb else 0);
          s = (if c_neg = 1 then push_add (dep_event ADD 0 (alu_c event) (unsigned_abs (alu_c event))) s else s);
          s = (if rem_neg = 1 then push_add (dep_event ADD 0 remainder (unsigned_abs remainder)) s else s);
          c_times_quotient = (if signed then scast quotient * scast (alu_c event)
                              else ucast quotient * ucast (alu_c event)) :: u64;
          lower_word = ucast c_times_quotient;
          upper_word = ucast (drop_bit 32 c_times_quotient);
          s = push_mul (dep_event MUL lower_word quotient (alu_c event)) s;
          s = push_mul (dep_event (if signed then MULH else MULHU) upper_word quotient (alu_c event)) s;
          lt_event = (if signed
            then dep_event SLTU 1 (unsigned_abs remainder) (max 1 (unsigned_abs (alu_c event)))
            else dep_event SLTU 1 remainder (max 1 (alu_c event)))
      in if alu_c event \<noteq> 0 then push_lt lt_event s else s)"

text \<open>The \<open>match\<close> on \<open>(addr_offset >> 1) % 2\<close> has only the cases 0 and 1.\<close>

definition lh_unsigned_value :: "u8 \<Rightarrow> u32 \<Rightarrow> u32" where
  "lh_unsigned_value addr_offset v =
     (if drop_bit 1 addr_offset mod 2 = 0 then v AND 0x0000FFFF
      else drop_bit 16 (v AND 0xFFFF0000))"

definition emit_memory_dependencies :: "mem_instr_event \<Rightarrow> memory_record \<Rightarrow> executor \<Rightarrow> executor" where
  "emit_memory_dependencies event memory_record s =
     (let memory_addr = mi_b event + mi_c event;
          s = push_add (dep_event ADD memory_addr (mi_b event) (mi_c event)) s;
          addr_offset = ucast (memory_addr mod 4) :: u8;
          v = mem_value memory_record
      in if mi_opcode event = LB \<or> mi_opcode event = LH
         then (let (unsigned_mem_val, most_sig_mem_value_byte, sign_value) =
                 (if mi_opcode event = LB
                  then (let b = to_le_bytes v ! unat addr_offset in (ucast b, b, 256))
                  else (let u = lh_unsigned_value addr_offset v in (u, to_le_bytes u ! 1, 65536)))
               in if drop_bit 7 most_sig_mem_value_byte AND 1 = 1
                  then push_add (dep_event SUB (mi_a event) unsigned_mem_val sign_value) s
                  else s)
         else s)"

definition emit_branch_dependencies :: "branch_event \<Rightarrow> executor \<Rightarrow> executor res" where
  "emit_branch_dependencies event s =
     (let a_eq_b = (br_a event = br_b event);
          use_signed_comparison = (br_opcode event = BLT \<or> br_opcode event = BGE);
          a_lt_b = (if use_signed_comparison then slt_i32 (br_a event) (br_b event) else br_a event < br_b event);
          a_gt_b = (if use_signed_comparison then slt_i32 (br_b event) (br_a event) else br_a event > br_b event);
          alu_op_code = (if use_signed_comparison then SLT else SLTU);
          s = push_lt (dep_event alu_op_code (bool_u32 a_lt_b) (br_a event) (br_b event)) s;
          s = push_lt (dep_event alu_op_code (bool_u32 a_gt_b) (br_b event) (br_a event)) s
      in rbind (case br_opcode event of
            BEQ \<Rightarrow> Inr a_eq_b | BNE \<Rightarrow> Inr (\<not> a_eq_b)
          | BLT \<Rightarrow> Inr a_lt_b | BLTU \<Rightarrow> Inr a_lt_b
          | BGE \<Rightarrow> Inr (a_eq_b \<or> a_gt_b) | BGEU \<Rightarrow> Inr (a_eq_b \<or> a_gt_b)
          | _ \<Rightarrow> Inl Panic) (\<lambda>branching.
         Inr (if branching
              then (let next_pc = br_pc event + br_c event in
                    push_add (dep_event ADD next_pc (br_pc event) (br_c event)) s)
              else s)))"

definition emit_jump_dependencies :: "jump_event \<Rightarrow> executor \<Rightarrow> executor res" where
  "emit_jump_dependencies event s = (case jp_opcode event of
       JAL \<Rightarrow> Inr (let next_pc = jp_pc event + jp_b event in
                    push_add (dep_event ADD next_pc (jp_pc event) (jp_b event)) s)
     | JALR \<Rightarrow> Inr (let next_pc = jp_b event + jp_c event in
                    push_add (dep_event ADD next_pc (jp_b event) (jp_c event)) s)
     | _ \<Rightarrow> Inl Panic)"

definition emit_auipc_dependency :: "auipc_event \<Rightarrow> executor \<Rightarrow> executor" where
  "emit_auipc_dependency event s = push_add (dep_event ADD (au_a event) (au_pc event) (au_b event)) s"

section \<open>Validity\<close>

definition alu_ok :: "alu_event \<Rightarrow> bool" where
  "alu_ok e \<longleftrightarrow> (case alu_value (alu_opcode e) (alu_b e) (alu_c e) of Inl _ \<Rightarrow> False
     | Inr v \<Rightarrow> alu_a e = (if alu_op_a_0 e then 0 else v))"

text \<open>All ALU events of a record, and that they are in the table of their opcode.\<close>

definition alu_tables :: "execution_record \<Rightarrow> alu_event list" where
  "alu_tables r = add_events r @ mul_events r @ sub_events r @ bitwise_events r @ shift_left_events r
     @ shift_right_events r @ divrem_events r @ lt_events r"

definition tables_sorted :: "execution_record \<Rightarrow> bool" where
  "tables_sorted r \<longleftrightarrow> (\<forall>e\<in>set (add_events r). alu_opcode e \<in> {ADD, SUB})
     \<and> (\<forall>e\<in>set (sub_events r). alu_opcode e = SUB)
     \<and> (\<forall>e\<in>set (mul_events r). alu_opcode e \<in> {MUL, MULH, MULHU, MULHSU})
     \<and> (\<forall>e\<in>set (lt_events r). alu_opcode e \<in> {SLT, SLTU})"

definition events_ok :: "execution_record \<Rightarrow> bool" where
  "events_ok r \<longleftrightarrow> (\<forall>e\<in>set (alu_tables r). alu_ok e) \<and> tables_sorted r"

lemma events_ok_push:
  "alu_ok e \<Longrightarrow> alu_opcode e \<in> {ADD, SUB} \<Longrightarrow>
     events_ok (exec_record (push_add e s)) = events_ok (exec_record s)"
  "alu_ok e \<Longrightarrow> alu_opcode e \<in> {MUL, MULH, MULHU, MULHSU} \<Longrightarrow>
     events_ok (exec_record (push_mul e s)) = events_ok (exec_record s)"
  "alu_ok e \<Longrightarrow> alu_opcode e \<in> {SLT, SLTU} \<Longrightarrow>
     events_ok (exec_record (push_lt e s)) = events_ok (exec_record s)"
  by (auto simp: events_ok_def alu_tables_def tables_sorted_def push_add_def push_mul_def push_lt_def)

lemma dep_event_simps [simp]:
  "alu_opcode (dep_event opc a b c) = opc" "alu_b (dep_event opc a b c) = b"
  "alu_c (dep_event opc a b c) = c" "alu_a (dep_event opc a b c) = a"
  "alu_op_a_0 (dep_event opc a b c) = False"
  by (simp_all add: dep_event_def)

lemma alu_ok_dep: "alu_ok (dep_event opc a b c) \<longleftrightarrow> alu_value opc b c = Inr a"
  by (auto simp: alu_ok_def split: sum.splits)

section \<open>Division\<close>

lemma get_msb_bit: "get_msb x = (if bit x 31 then 1 else 0)"
proof -
  have "drop_bit 31 x AND 1 = (if bit x 31 then 1 else 0)"
    by (rule bit_word_eqI) (auto simp: bit_simps bit_1_iff dest: bit_imp_le_length intro: gr0I)
  then show ?thesis by (simp add: get_msb_def)
qed

lemma bit_31_sint: "bit (x :: u32) 31 \<longleftrightarrow> sint x < 0"
  by (simp add: bit_last_iff [of x, simplified])

lemma get_msb_1: "get_msb x = 1 \<longleftrightarrow> sint x < 0"
  by (simp add: get_msb_bit bit_31_sint)

lemma add_unsigned_abs: "sint x < 0 \<Longrightarrow> x + unsigned_abs x = 0"
  by (simp add: unsigned_abs_def flip: scast_eq)

lemma uint_unsigned_abs: "uint (unsigned_abs x) = \<bar>sint x\<bar>"
  using abs_sint_u32 [of x] by (simp add: unsigned_abs_def uint_word_of_int)

lemma ucast_mul32:
  "ucast (scast (q :: u32) * scast (c :: u32) :: u64) = q * c"
  "ucast (ucast (q :: u32) * ucast (c :: u32) :: u64) = q * c"
proof -
  show "ucast (scast (q :: u32) * scast (c :: u32) :: u64) = q * c"
    unfolding scast_eq of_int_mult [symmetric] ucast_word_of_int
    by (simp flip: scast_eq)
  show "ucast (ucast (q :: u32) * ucast (c :: u32) :: u64) = q * c"
    unfolding ucast_eq [of q] ucast_eq [of c] of_int_mult [symmetric] ucast_word_of_int
    by simp
qed

lemma ucast_high: "ucast (drop_bit 32 (w :: u64)) = (ucast (signed_drop_bit 32 w) :: u32)"
  by (rule bit_word_eqI) (simp add: bit_simps bit_signed_drop_bit_iff)

lemma divrem_events_ok:
  assumes "events_ok (exec_record s)"
  shows "events_ok (exec_record (emit_divrem_dependencies event s))"
proof -
  obtain q r where qr: "get_quotient_and_remainder (alu_b event) (alu_c event) (alu_opcode event) = (q, r)"
    by (metis prod.exhaust)
  show ?thesis
    using assms remainder_less [OF _ qr]
    by (auto simp: emit_divrem_dependencies_def qr Let_def events_ok_push alu_ok_dep get_msb_1
      add_unsigned_abs ucast_mul32 ucast_high word_less_def uint_unsigned_abs max_def word_le_def)
qed

text \<open>
  (C19) Whatever the operands, the events a division or remainder instruction adds (the
  negations of the absolute values, the low and high word of quotient times divisor, the
  comparison of remainder and divisor) are valid ALU events in the table of their opcode.
\<close>

theorem divrem_dependencies_ok:
  assumes "events_ok (exec_record s)"
  shows "events_ok (exec_record (emit_divrem_dependencies event s))"
  using assms by (rule divrem_events_ok)

theorem divrem_dependencies_ok_witness:
  "events_ok (exec_record (emit_divrem_dependencies (dep_event DIV 0x80000000 0x80000000 0xFFFFFFFF)
     (with_context 48 Map.empty program_default 0 0 None True)))"
  by (rule divrem_dependencies_ok)
    (simp add: events_ok_def alu_tables_def tables_sorted_def record_new_def with_context_def)

section \<open>Loads and stores\<close>

lemma sext_negative:
  fixes x :: "'a::len word"
  assumes "bit x (LENGTH('a) - 1)" 
  shows "scast x = (ucast x - 2 ^ LENGTH('a) :: u32)"
proof -
  have "sint x = uint x - 2 ^ LENGTH('a)"
    using assms by (simp add: sint_uint signed_take_bit_eq_take_bit_minus bit_uint_iff Suc_diff_Suc take_bit_int_eq_self)
  then show ?thesis unfolding scast_eq ucast_eq by (simp only: of_int_diff of_int_power of_int_numeral)
qed

lemma msb_8: "drop_bit 7 (b :: u8) AND 1 = 1 \<longleftrightarrow> bit b 7"
proof -
  have "drop_bit 7 b AND 1 = (if bit b 7 then 1 else 0)"
    by (rule bit_word_eqI) (auto simp: bit_simps bit_1_iff dest: bit_imp_le_length intro: gr0I)
  then show ?thesis by simp
qed

lemma ucast_and_mask:
  "ucast (x AND mask 8 :: u32) = (ucast x :: u8)" "ucast (x AND mask 16 :: u32) = (ucast x :: u16)"
  "ucast (ucast x :: u16) = (x AND mask 16 :: u32)"
  by (auto intro!: bit_word_eqI simp: bit_simps)

lemma lb_dep:
  assumes "load_value LB addr w = Inr a" "b = to_le_bytes w ! unat (ucast (addr mod 4) :: u8)" "drop_bit 7 b AND 1 = 1"
  shows "a = ucast b - 256"
proof -
  have "lane addr < 4" using lane_le [of addr] by simp
  then have l: "b = ucast (drop_bit (8 * lane addr) w)"
    using assms(2) by (simp add: to_le_bytes_map unsigned_ucast_eq unat_mod lane_def take_bit_nat_eq_self)
  have "a = scast b" using assms(1) unfolding l
    by (simp add: byte_shift_lane masks ucast_and_mask)
  then show ?thesis using sext_negative [of b] assms(3) by (simp add: msb_8)
qed

lemma lh_unsigned_value_eq:
  assumes "addr mod 2 = 0"
  shows "lh_unsigned_value (ucast (addr mod 4)) w = drop_bit (8 * lane addr) w AND mask 16"
proof -
  have m: "drop_bit 16 (w AND 0xFFFF0000) = drop_bit 16 w AND mask 16"
  proof -
    have "(0xFFFF0000 :: u32) = push_bit 16 (mask 16)" by (simp add: mask_eq_exp_minus_1)
    moreover have "drop_bit 16 (w AND push_bit 16 (mask 16)) = drop_bit 16 w AND mask 16"
      by (auto intro!: bit_word_eqI simp: bit_simps dest: bit_imp_le_length)
    ultimately show ?thesis by (simp only:)
  qed
  have u: "(ucast (addr mod 4) :: u8) = of_nat (lane addr)"
    by (simp add: word_unat_eq_iff unsigned_ucast_eq unat_mod lane_def take_bit_nat_eq_self unat_of_nat)
  from assms have "lane addr = 0 \<or> lane addr = 2" by (simp only: lane_even)
  then show ?thesis
    by (elim disjE) (simp_all add: lh_unsigned_value_def u m masks)
qed

lemma lh_dep:
  assumes "load_value LH addr w = Inr a" "u = lh_unsigned_value (ucast (addr mod 4)) w"
    "drop_bit 7 (to_le_bytes u ! 1) AND 1 = 1"
  shows "a = u - 65536"
proof -
  have e: "addr mod 2 = 0" using assms(1) by (auto split: if_splits)
  define h :: u16 where "h = ucast (drop_bit (8 * lane addr) w)"
  have u: "u = ucast h" unfolding h_def ucast_and_mask assms(2) by (rule lh_unsigned_value_eq [OF e])
  have a: "a = scast h" using assms(1) e by (simp add: half_shift_lane masks ucast_and_mask h_def)
  have "bit (to_le_bytes u ! 1) 7" using assms(3) by (simp only: msb_8)
  then have "bit h 15" by (simp add: to_le_bytes_def u bit_simps)
  then show ?thesis using sext_negative [of h] by (simp add: a u)
qed

lemma memory_dependencies_ok:
  assumes "events_ok (exec_record s)"
    and "mi_opcode event \<in> {LB, LH} \<Longrightarrow>
      load_value (mi_opcode event) (mi_b event + mi_c event) (mem_value rec) = Inr (mi_a event)"
  shows "events_ok (exec_record (emit_memory_dependencies event rec s))"
  using assms lb_dep [of "mi_b event + mi_c event" "mem_value rec" "mi_a event", OF _ refl]
    lh_dep [of "mi_b event + mi_c event" "mem_value rec" "mi_a event", OF _ refl]
  by (auto simp: emit_memory_dependencies_def Let_def events_ok_push alu_ok_dep)

section \<open>Branches, jumps, AUIPC\<close>

lemma branch_dependencies_ok:
  assumes "events_ok (exec_record s)" "emit_branch_dependencies event s = Inr s'"
  shows "events_ok (exec_record s')"
  using assms
  by (auto simp: emit_branch_dependencies_def Let_def rbind_eq_Inr events_ok_push alu_ok_dep bool_u32_def)

lemma jump_dependencies_ok:
  assumes "events_ok (exec_record s)" "emit_jump_dependencies event s = Inr s'"
  shows "events_ok (exec_record s')"
  using assms
  by (auto simp: emit_jump_dependencies_def Let_def events_ok_push alu_ok_dep split: opcode.splits)

lemma auipc_dependency_ok:
  assumes "events_ok (exec_record s)"
  shows "events_ok (exec_record (emit_auipc_dependency event s)) \<longleftrightarrow> au_a event = au_pc event + au_b event"
proof (cases "au_a event = au_pc event + au_b event")
  case True
  then show ?thesis using assms by (simp add: emit_auipc_dependency_def events_ok_push alu_ok_dep)
next
  case False
  then have "\<not> alu_ok (dep_event ADD (au_a event) (au_pc event) (au_b event))" by (simp add: alu_ok_dep)
  then show ?thesis using False
    by (simp add: events_ok_def alu_tables_def emit_auipc_dependency_def push_add_def)
qed

end
