(* ===== verification/SP1_Cpu.thy ===== *)
theory SP1_Cpu
  imports SP1_Syscalls SP1_Dependencies
begin

text \<open>
  The instruction cycle: the second half of \<open>executor.rs\<close> (\<open>emit_events\<close> to \<open>execute_jump\<close>).
  An operand view that panics (\<open>Register::from_u8\<close> out of range) is \<open>Panic\<close>.
\<close>

definition of_option :: "'a option \<Rightarrow> 'a res" where
  "of_option x = (case x of None \<Rightarrow> Inl Panic | Some v \<Rightarrow> Inr v)"

lemma of_option_Some [simp]: "of_option (Some v) = Inr v"
  by (simp add: of_option_def)

lemma of_option_Inr [res_simps]: "of_option x = Inr v \<longleftrightarrow> x = Some v"
  by (cases x) (simp_all add: of_option_def)

section \<open>Events of an instruction\<close>

definition emit_cpu :: "u32 \<Rightarrow> u32 \<Rightarrow> u32 \<Rightarrow> u32 \<Rightarrow> u32 \<Rightarrow> memory_access_record \<Rightarrow> u32 \<Rightarrow> executor \<Rightarrow> executor" where
  "emit_cpu clk0 next_pc a b c rec exit_code s = upd_record (\<lambda>r. r\<lparr>cpu_events := cpu_events r @
     [\<lparr>cpu_clk = clk0, cpu_pc = pc (state s), cpu_next_pc = next_pc, cpu_a = a, cpu_a_record = acc_a rec,
       cpu_b = b, cpu_b_record = acc_b rec, cpu_c = c, cpu_c_record = acc_c rec, cpu_exit_code = exit_code\<rparr>]\<rparr>) s"

definition emit_alu_event :: "opcode \<Rightarrow> u32 \<Rightarrow> u32 \<Rightarrow> u32 \<Rightarrow> bool \<Rightarrow> executor \<Rightarrow> executor res" where
  "emit_alu_event opc a b c op_a_0 s =
     (let event = \<lparr>alu_pc = pc (state s), alu_opcode = opc, alu_a = a, alu_b = b, alu_c = c, alu_op_a_0 = op_a_0\<rparr> in
      if opc = ADD then Inr (upd_record (\<lambda>r. r\<lparr>add_events := add_events r @ [event]\<rparr>) s)
      else if opc = SUB then Inr (upd_record (\<lambda>r. r\<lparr>sub_events := sub_events r @ [event]\<rparr>) s)
      else if opc \<in> {XOR_op, OR_op, AND_op} then Inr (upd_record (\<lambda>r. r\<lparr>bitwise_events := bitwise_events r @ [event]\<rparr>) s)
      else if opc = SLL then Inr (upd_record (\<lambda>r. r\<lparr>shift_left_events := shift_left_events r @ [event]\<rparr>) s)
      else if opc \<in> {SRL, SRA} then Inr (upd_record (\<lambda>r. r\<lparr>shift_right_events := shift_right_events r @ [event]\<rparr>) s)
      else if opc \<in> {SLT, SLTU} then Inr (upd_record (\<lambda>r. r\<lparr>lt_events := lt_events r @ [event]\<rparr>) s)
      else if opc \<in> {MUL, MULHU, MULHSU, MULH} then Inr (upd_record (\<lambda>r. r\<lparr>mul_events := mul_events r @ [event]\<rparr>) s)
      else if opc \<in> {DIVU, REMU, DIV, REM} then
        Inr (emit_divrem_dependencies event (upd_record (\<lambda>r. r\<lparr>divrem_events := divrem_events r @ [event]\<rparr>) s))
      else Inl Panic)"

definition emit_mem_instr_event :: "opcode \<Rightarrow> u32 \<Rightarrow> u32 \<Rightarrow> u32 \<Rightarrow> bool \<Rightarrow> executor \<Rightarrow> executor res" where
  "emit_mem_instr_event opc a b c op_a_0 s =
     rbind (of_option (acc_memory (memory_accesses s))) (\<lambda>access.
     let event = \<lparr>mi_shard = current_shard (state s), mi_clk = clk (state s), mi_pc = pc (state s), mi_opcode = opc,
                  mi_a = a, mi_b = b, mi_c = c, mi_op_a_0 = op_a_0, mi_mem_access = access\<rparr> in
     Inr (emit_memory_dependencies event (current_record access)
       (upd_record (\<lambda>r. r\<lparr>memory_instr_events := memory_instr_events r @ [event]\<rparr>) s)))"

definition emit_branch_event :: "opcode \<Rightarrow> u32 \<Rightarrow> u32 \<Rightarrow> u32 \<Rightarrow> bool \<Rightarrow> u32 \<Rightarrow> executor \<Rightarrow> executor res" where
  "emit_branch_event opc a b c op_a_0 next_pc s =
     (let event = \<lparr>br_pc = pc (state s), br_next_pc = next_pc, br_opcode = opc, br_a = a, br_b = b, br_c = c,
                   br_op_a_0 = op_a_0\<rparr> in
      emit_branch_dependencies event (upd_record (\<lambda>r. r\<lparr>branch_events := branch_events r @ [event]\<rparr>) s))"

definition emit_jump_event :: "opcode \<Rightarrow> u32 \<Rightarrow> u32 \<Rightarrow> u32 \<Rightarrow> bool \<Rightarrow> u32 \<Rightarrow> executor \<Rightarrow> executor res" where
  "emit_jump_event opc a b c op_a_0 next_pc s =
     (let event = \<lparr>jp_pc = pc (state s), jp_next_pc = next_pc, jp_opcode = opc, jp_a = a, jp_b = b, jp_c = c,
                   jp_op_a_0 = op_a_0\<rparr> in
      emit_jump_dependencies event (upd_record (\<lambda>r. r\<lparr>jump_events := jump_events r @ [event]\<rparr>) s))"

definition emit_auipc_event :: "opcode \<Rightarrow> u32 \<Rightarrow> u32 \<Rightarrow> u32 \<Rightarrow> bool \<Rightarrow> executor \<Rightarrow> executor" where
  "emit_auipc_event opc a b c op_a_0 s =
     (let event = \<lparr>au_pc = pc (state s), au_opcode = opc, au_a = a, au_b = b, au_c = c, au_op_a_0 = op_a_0\<rparr> in
      emit_auipc_dependency event (upd_record (\<lambda>r. r\<lparr>auipc_events := auipc_events r @ [event]\<rparr>) s))"

definition emit_syscall_event :: "u32 \<Rightarrow> memory_record_enum option \<Rightarrow> bool \<Rightarrow> syscall_code \<Rightarrow> u32 \<Rightarrow> u32 \<Rightarrow> u32
    \<Rightarrow> executor \<Rightarrow> executor" where
  "emit_syscall_event clk0 a_record op_a_0 code arg1 arg2 next_pc s =
     (let event = syscall_event clk0 a_record (Some op_a_0) code arg1 arg2 next_pc s in
      upd_record (\<lambda>r. r\<lparr>syscall_events := syscall_events r @ [event]\<rparr>) s)"

definition emit_events :: "u32 \<Rightarrow> u32 \<Rightarrow> instruction \<Rightarrow> syscall_code \<Rightarrow> u32 \<Rightarrow> u32 \<Rightarrow> u32 \<Rightarrow> bool \<Rightarrow> memory_access_record
    \<Rightarrow> u32 \<Rightarrow> executor \<Rightarrow> executor res" where
  "emit_events clk0 next_pc i code a b c op_a_0 rec exit_code s =
     (let s = emit_cpu clk0 next_pc a b c rec exit_code s in
      if is_alu_instruction i then emit_alu_event (opcode i) a b c op_a_0 s
      else if is_memory_load_instruction i \<or> is_memory_store_instruction i
      then emit_mem_instr_event (opcode i) a b c op_a_0 s
      else if is_branch_instruction i then emit_branch_event (opcode i) a b c op_a_0 next_pc s
      else if is_jump_instruction i then emit_jump_event (opcode i) a b c op_a_0 next_pc s
      else if is_auipc_instruction i then Inr (emit_auipc_event (opcode i) a b c op_a_0 s)
      else if is_ecall_instruction i then Inr (emit_syscall_event clk0 (acc_a rec) op_a_0 code b c next_pc s)
      else Inl Panic)"

section \<open>Operands\<close>

definition alu_rr :: "instruction \<Rightarrow> executor \<Rightarrow> ((register \<times> u32 \<times> u32) \<times> executor) res" where
  "alu_rr i s =
     (if \<not> imm_c i then rbind (of_option (r_type i)) (\<lambda>(rd, rs1, rs2).
        let (c, s) = rr_cpu rs2 C_pos s; (b, s) = rr_cpu rs1 B_pos s in Inr ((rd, b, c), s))
      else if \<not> imm_b i \<and> imm_c i then rbind (of_option (i_type i)) (\<lambda>(rd, rs1, imm).
        let (b, s) = rr_cpu rs1 B_pos s in Inr ((rd, b, imm), s))
      else rbind (of_option (from_u8 (op_a i))) (\<lambda>rd. Inr ((rd, op_b i, op_c i), s)))"

definition load_rr :: "instruction \<Rightarrow> executor \<Rightarrow> ((register \<times> u32 \<times> u32 \<times> u32 \<times> u32) \<times> executor) res" where
  "load_rr i s = rbind (of_option (i_type i)) (\<lambda>(rd, rs1, imm).
     let (b, s) = rr_cpu rs1 B_pos s; c = imm; addr = b + c in
     rbind (mr_cpu (align addr) s) (\<lambda>(memory_value, s).
     Inr ((rd, b, c, addr, memory_value), s)))"

definition store_rr :: "instruction \<Rightarrow> executor \<Rightarrow> ((u32 \<times> u32 \<times> u32 \<times> u32 \<times> u32) \<times> executor) res" where
  "store_rr i s = rbind (of_option (s_type i)) (\<lambda>(rs1, rs2, imm).
     let c = imm; (b, s) = rr_cpu rs2 B_pos s; (a, s) = rr_cpu rs1 A_pos s; addr = b + c in
     rbind (word_get (align addr) s) (\<lambda>(memory_value, s).
     Inr ((a, b, c, addr, memory_value), s)))"

definition branch_rr :: "instruction \<Rightarrow> executor \<Rightarrow> ((u32 \<times> u32 \<times> u32) \<times> executor) res" where
  "branch_rr i s = rbind (of_option (b_type i)) (\<lambda>(rs1, rs2, imm).
     let (b, s) = rr_cpu rs2 B_pos s; (a, s) = rr_cpu rs1 A_pos s in Inr ((a, b, imm), s))"

section \<open>Executing one instruction\<close>

definition execute_alu :: "instruction \<Rightarrow> executor \<Rightarrow> ((u32 \<times> u32 \<times> u32) \<times> executor) res" where
  "execute_alu i s = rbind (alu_rr i s) (\<lambda>((rd, b, c), s).
     rbind (alu_value (opcode i) b c) (\<lambda>a. Inr ((a, b, c), rw_cpu rd a s)))"

definition execute_load :: "instruction \<Rightarrow> executor \<Rightarrow> ((u32 \<times> u32 \<times> u32) \<times> executor) res" where
  "execute_load i s = rbind (load_rr i s) (\<lambda>((rd, b, c, addr, memory_read_value), s).
     rbind (load_value (opcode i) addr memory_read_value) (\<lambda>a. Inr ((a, b, c), rw_cpu rd a s)))"

definition execute_store :: "instruction \<Rightarrow> executor \<Rightarrow> ((u32 \<times> u32 \<times> u32) \<times> executor) res" where
  "execute_store i s = rbind (store_rr i s) (\<lambda>((a, b, c, addr, memory_read_value), s).
     rbind (store_value (opcode i) addr a memory_read_value) (\<lambda>memory_store_value.
     rbind (mw_cpu (align addr) memory_store_value s) (\<lambda>s. Inr ((a, b, c), s))))"

fun branch_taken :: "opcode \<Rightarrow> u32 \<Rightarrow> u32 \<Rightarrow> bool res" where
  "branch_taken BEQ a b = Inr (a = b)"
| "branch_taken BNE a b = Inr (a \<noteq> b)"
| "branch_taken BLT a b = Inr (slt_i32 a b)"
| "branch_taken BGE a b = Inr (\<not> slt_i32 a b)"
| "branch_taken BLTU a b = Inr (a < b)"
| "branch_taken BGEU a b = Inr (a \<ge> b)"
| "branch_taken _ a b = Inl Panic"

definition execute_branch :: "instruction \<Rightarrow> u32 \<Rightarrow> executor \<Rightarrow> ((u32 \<times> u32 \<times> u32 \<times> u32) \<times> executor) res" where
  "execute_branch i next_pc s = rbind (branch_rr i s) (\<lambda>((a, b, c), s).
     rbind (branch_taken (opcode i) a b) (\<lambda>branch.
     Inr ((a, b, c, if branch then pc (state s) + c else next_pc), s)))"

definition execute_jump :: "instruction \<Rightarrow> executor \<Rightarrow> ((u32 \<times> u32 \<times> u32 \<times> u32) \<times> executor) res" where
  "execute_jump i s = (case opcode i of
       JAL \<Rightarrow> rbind (of_option (j_type i)) (\<lambda>(rd, imm).
         let a = pc (state s) + 4; s' = rw_cpu rd a s in
         Inr ((a, imm, 0, pc (state s') + imm), s'))
     | JALR \<Rightarrow> rbind (of_option (i_type i)) (\<lambda>(rd, rs1, imm).
         let (b, s) = rr_cpu rs1 B_pos s; a = pc (state s) + 4; s = rw_cpu rd a s in
         Inr ((a, b, imm, b + imm), s))
     | _ \<Rightarrow> Inl Panic)"

definition count_syscall :: "syscall_code \<Rightarrow> executor \<Rightarrow> executor" where
  "count_syscall code s = upd_state (\<lambda>st. st\<lparr>syscall_counts := (syscall_counts st)(count_map code \<mapsto>
     (case syscall_counts st (count_map code) of Some n \<Rightarrow> n + 1 | None \<Rightarrow> 1))\<rparr>) s"

definition report_syscall :: "syscall_code \<Rightarrow> executor \<Rightarrow> executor" where
  "report_syscall code s = s\<lparr>report := (if print_report s \<and> \<not> unconstrained s
     then (report s)\<lparr>rep_syscall_counts := (rep_syscall_counts (report s))(code := rep_syscall_counts (report s) code + 1)\<rparr>
     else report s)\<rparr>"

definition execute_ecall :: "env \<Rightarrow> executor \<Rightarrow> ((u32 \<times> u32 \<times> u32 \<times> u32 \<times> u32 \<times> syscall_code \<times> u32) \<times> executor) res" where
  "execute_ecall env s =
     (let (id, s) = register_get X5 s;
          (c, s) = rr_cpu X11 C_pos s;
          (b, s) = rr_cpu X10 B_pos s in
      rbind (of_option (from_u32 id)) (\<lambda>code.
      let s = report_syscall code s in
      if unconstrained s \<and> code \<noteq> EXIT_UNCONSTRAINED \<and> code \<noteq> WRITE
      then Inl (Err (InvalidSyscallUsage (ucast id)))
      else
        let s = count_syscall code s in
        (case syscall_impl env code of
           None \<Rightarrow> Inl (Err (UnsupportedSyscall id))
         | Some impl \<Rightarrow>
             rbind (impl b c (ctx_new s)) (\<lambda>(res, ctx).
             let a = (case res of Some val \<Rightarrow> val | None \<Rightarrow> id) in
             if code = HALT \<and> ctx_exit_code ctx \<noteq> 0
             then Inl (Err (HaltWithNonZeroExitCode (ctx_exit_code ctx)))
             else
               let s = rt ctx;
                   (b, c, s) = (if code = EXIT_UNCONSTRAINED
                     then (let (b, s) = register_get X10 s; (c, s) = register_get X11 s in (b, c, s))
                     else (b, c, s));
                   s = rw_cpu X5 a s;
                   clk0 = clk (state s);
                   s = upd_state (\<lambda>st. st\<lparr>clk := clk st + num_extra_cycles code\<rparr>) s
               in Inr ((a, b, c, clk0, ctx_next_pc ctx, code, ctx_exit_code ctx), s)))))"

text \<open>The counters of the report and of the shard.\<close>

definition bump_count :: "opcode \<Rightarrow> u64 \<Rightarrow> (opcode \<Rightarrow> u64) \<Rightarrow> (opcode \<Rightarrow> u64)" where
  "bump_count opc n m = m(opc := m opc + n)"

definition dependency_counts :: "instruction \<Rightarrow> (opcode \<Rightarrow> u64) \<Rightarrow> (opcode \<Rightarrow> u64)" where
  "dependency_counts i m =
     (if is_memory_load_instruction i then bump_count ADD 2 m
      else if is_jump_instruction i then bump_count ADD 1 m
      else if is_branch_instruction i then bump_count SLTU 2 (bump_count ADD 1 m)
      else if is_divrem_instruction i then bump_count SLTU 1 (bump_count ADD 2 (bump_count MUL 2 m))
      else m)"

definition count_instruction :: "instruction \<Rightarrow> executor \<Rightarrow> executor" where
  "count_instruction i s = (if unconstrained s then s else
     s\<lparr>report := (report s)\<lparr>opcode_counts := bump_count (opcode i) 1 (opcode_counts (report s))\<rparr>,
       local_counts := (local_counts s)\<lparr>lc_event_counts :=
         dependency_counts i (bump_count (opcode i) 1 (lc_event_counts (local_counts s)))\<rparr>\<rparr>)"

text \<open>The dispatch of \<open>execute_instruction\<close>: \<open>(a, b, c, clk, next_pc, syscall, exit_code)\<close>.
  \<open>SyscallCode::default()\<close> is \<open>HALT\<close>.\<close>

definition with_defaults :: "u32 \<Rightarrow> u32 \<Rightarrow> ((u32 \<times> u32 \<times> u32) \<times> executor) res
    \<Rightarrow> ((u32 \<times> u32 \<times> u32 \<times> u32 \<times> u32 \<times> syscall_code \<times> u32) \<times> executor) res" where
  "with_defaults clk0 next_pc r = rbind r (\<lambda>((a, b, c), s). Inr ((a, b, c, clk0, next_pc, HALT, 0), s))"

definition execute_operation :: "env \<Rightarrow> instruction \<Rightarrow> executor
    \<Rightarrow> ((u32 \<times> u32 \<times> u32 \<times> u32 \<times> u32 \<times> syscall_code \<times> u32) \<times> executor) res" where
  "execute_operation env i s =
     (let clk0 = clk (state s); next_pc = pc (state s) + 4 in
      if is_alu_instruction i then with_defaults clk0 next_pc (execute_alu i s)
      else if is_memory_load_instruction i then with_defaults clk0 next_pc (execute_load i s)
      else if is_memory_store_instruction i then with_defaults clk0 next_pc (execute_store i s)
      else if is_branch_instruction i then rbind (execute_branch i next_pc s)
        (\<lambda>((a, b, c, next_pc), s). Inr ((a, b, c, clk0, next_pc, HALT, 0), s))
      else if is_jump_instruction i then rbind (execute_jump i s)
        (\<lambda>((a, b, c, next_pc), s). Inr ((a, b, c, clk0, next_pc, HALT, 0), s))
      else if is_auipc_instruction i then rbind (of_option (u_type i)) (\<lambda>(rd, imm).
        let a = pc (state s) + imm in Inr ((a, imm, imm, clk0, next_pc, HALT, 0), rw_cpu rd a s))
      else if is_ecall_instruction i then execute_ecall env s
      else if is_ebreak_instruction i then Inl (Err Breakpoint)
      else if is_unimp_instruction i then Inl (Err Unimplemented)
      else Inl Panic)"

definition execute_instruction :: "env \<Rightarrow> instruction \<Rightarrow> executor \<Rightarrow> executor res" where
  "execute_instruction env i s =
     (let s = (if executor_mode s = Trace then s\<lparr>memory_accesses := no_accesses\<rparr> else s);
          s = count_instruction i s in
      rbind (execute_operation env i s) (\<lambda>((a, b, c, clk0, next_pc, code, exit_code), s).
      let op_a_0 = (op_a i = 0);
          a = (if op_a_0 then 0 else a) in
      rbind (if executor_mode s = Trace
             then emit_events clk0 next_pc i code a b c op_a_0 (memory_accesses s) exit_code s
             else Inr s) (\<lambda>s.
      Inr (upd_state (\<lambda>st. st\<lparr>pc := next_pc, clk := clk st + 4\<rparr>) s))))"

end
