(* ===== verification/SP1_Isa.thy ===== *)
theory SP1_Isa
  imports SP1_Cpu
begin

text \<open>
  The architecture the executor implements: RV32IM over a program counter, 32 registers and
  a byte-addressed memory, without any of the executor's bookkeeping (clocks, memory
  records, events, checkpoints, modes).  \<open>arch\<close> reads the architectural state off an
  executor, and \<open>isa_refinement\<close> says that every instruction other than the system ones is
  a step of the architecture, faults included, if jumps go to aligned addresses.
\<close>

section \<open>The architecture\<close>

record isa =
  isa_pc :: u32
  isa_reg :: "u32 \<Rightarrow> u32"
  isa_mem :: "u32 \<Rightarrow> u8"

text \<open>Register 0 is hard-wired to 0: a write to it has no effect.\<close>

definition isa_set :: "u32 \<Rightarrow> u32 \<Rightarrow> isa \<Rightarrow> isa" where
  "isa_set r v t = (if r = 0 then t else t\<lparr>isa_reg := (isa_reg t)(r := v)\<rparr>)"

definition read_bytes :: "(u32 \<Rightarrow> u8) \<Rightarrow> u32 \<Rightarrow> nat \<Rightarrow> u8 list" where
  "read_bytes m addr n = map (\<lambda>k. m (addr + of_nat k)) [0..<n]"

definition write_bytes :: "(u32 \<Rightarrow> u8) \<Rightarrow> u32 \<Rightarrow> u8 list \<Rightarrow> (u32 \<Rightarrow> u8)" where
  "write_bytes m addr bs = (\<lambda>x. if unat (x - addr) < length bs then bs ! unat (x - addr) else m x)"

definition isa_load :: "opcode \<Rightarrow> (u32 \<Rightarrow> u8) \<Rightarrow> u32 \<Rightarrow> u32" where
  "isa_load opc m addr = (let n = int (le_nat (read_bytes m addr (width opc))) in
     word_of_int (if opc \<in> {LB, LH} then signed_take_bit (8 * width opc - 1) n else n))"

fun isa_branch :: "opcode \<Rightarrow> u32 \<Rightarrow> u32 \<Rightarrow> bool" where
  "isa_branch BEQ a b = (uint a = uint b)"
| "isa_branch BNE a b = (uint a \<noteq> uint b)"
| "isa_branch BLT a b = (sint a < sint b)"
| "isa_branch BGE a b = (sint b \<le> sint a)"
| "isa_branch BLTU a b = (uint a < uint b)"
| "isa_branch BGEU a b = (uint b \<le> uint a)"
| "isa_branch _ a b = False"

definition isa_next :: "isa \<Rightarrow> isa" where
  "isa_next t = t\<lparr>isa_pc := isa_pc t + 4\<rparr>"

text \<open>
  A jump or a branch taken.  Instructions are four bytes long and there is no C extension: a
  target that is not a multiple of 4 raises the instruction-address-misaligned exception, and
  no register is written.
\<close>

definition isa_jump :: "u32 \<Rightarrow> isa \<Rightarrow> isa res" where
  "isa_jump target t = (if word_aligned target then Inr (t\<lparr>isa_pc := target\<rparr>) else Inl Panic)"

text \<open>
  One instruction of RV32IM; JALR clears the lowest bit of its target.  Memory that the field
  cannot address, and the words below 32 where the executor keeps the registers, fault; a
  misaligned half-word or word access is an error.
\<close>

definition isa_step :: "instruction \<Rightarrow> isa \<Rightarrow> isa res" where
  "isa_step i t =
     (let rd = ucast (op_a i);
          reg = isa_reg t;
          b = (if imm_b i then op_b i else reg (op_b i));
          c = (if imm_c i then op_c i else reg (op_c i));
          addr = reg (op_b i) + op_c i
      in if is_alu_instruction i then Inr (isa_next (isa_set rd (word_of_int (rv32_spec (opcode i) b c)) t))
      else if is_memory_load_instruction i then
        (if \<not> valid_mem_addr (align addr) then Inl Panic
         else if \<not> access_aligned (opcode i) addr then Inl (Err (InvalidMemoryAccess (opcode i) addr))
         else Inr (isa_next (isa_set rd (isa_load (opcode i) (isa_mem t) addr) t)))
      else if is_memory_store_instruction i then
        (if \<not> in_range (align addr) then Inl Panic
         else if \<not> access_aligned (opcode i) addr then Inl (Err (InvalidMemoryAccess (opcode i) addr))
         else if \<not> valid_mem_addr (align addr) then Inl Panic
         else Inr (isa_next (t\<lparr>isa_mem := write_bytes (isa_mem t) addr (take (width (opcode i)) (to_le_bytes (reg rd)))\<rparr>)))
      else if is_branch_instruction i then
        (if isa_branch (opcode i) (reg rd) (reg (op_b i)) then isa_jump (isa_pc t + op_c i) t else Inr (isa_next t))
      else if opcode i = JAL then isa_jump (isa_pc t + op_b i) (isa_set rd (isa_pc t + 4) t)
      else if opcode i = JALR then isa_jump (addr AND NOT 1) (isa_set rd (isa_pc t + 4) t)
      else if opcode i = AUIPC then Inr (isa_next (isa_set rd (isa_pc t + op_b i) t))
      else Inl Panic)"

text \<open>The same without the mask of JALR and without the exception for misaligned targets.\<close>

definition unchecked_step :: "instruction \<Rightarrow> isa \<Rightarrow> isa res" where
  "unchecked_step i t =
     (let rd = ucast (op_a i);
          reg = isa_reg t;
          b = (if imm_b i then op_b i else reg (op_b i));
          c = (if imm_c i then op_c i else reg (op_c i));
          addr = reg (op_b i) + op_c i
      in if is_alu_instruction i then Inr (isa_next (isa_set rd (word_of_int (rv32_spec (opcode i) b c)) t))
      else if is_memory_load_instruction i then
        (if \<not> valid_mem_addr (align addr) then Inl Panic
         else if \<not> access_aligned (opcode i) addr then Inl (Err (InvalidMemoryAccess (opcode i) addr))
         else Inr (isa_next (isa_set rd (isa_load (opcode i) (isa_mem t) addr) t)))
      else if is_memory_store_instruction i then
        (if \<not> in_range (align addr) then Inl Panic
         else if \<not> access_aligned (opcode i) addr then Inl (Err (InvalidMemoryAccess (opcode i) addr))
         else if \<not> valid_mem_addr (align addr) then Inl Panic
         else Inr (isa_next (t\<lparr>isa_mem := write_bytes (isa_mem t) addr (take (width (opcode i)) (to_le_bytes (reg rd)))\<rparr>)))
      else if is_branch_instruction i then
        Inr (if isa_branch (opcode i) (reg rd) (reg (op_b i)) then t\<lparr>isa_pc := isa_pc t + op_c i\<rparr> else isa_next t)
      else if opcode i = JAL then Inr ((isa_set rd (isa_pc t + 4) t)\<lparr>isa_pc := isa_pc t + op_b i\<rparr>)
      else if opcode i = JALR then Inr ((isa_set rd (isa_pc t + 4) t)\<lparr>isa_pc := addr\<rparr>)
      else if opcode i = AUIPC then Inr (isa_next (isa_set rd (isa_pc t + op_b i) t))
      else Inl Panic)"

text \<open>The target of a jump or of a branch that is taken, before JALR masks it.\<close>

definition isa_target :: "instruction \<Rightarrow> isa \<Rightarrow> u32 option" where
  "isa_target i t =
     (if is_branch_instruction i then
        (if isa_branch (opcode i) (isa_reg t (ucast (op_a i))) (isa_reg t (op_b i)) then Some (isa_pc t + op_c i) else None)
      else if opcode i = JAL then Some (isa_pc t + op_b i)
      else if opcode i = JALR then Some (isa_reg t (op_b i) + op_c i)
      else None)"

lemma aligned_and_not_1: "word_aligned a \<Longrightarrow> a AND - 2 = a"
proof -
  assume "word_aligned a"
  then have "unat a mod 4 = 0" by (simp add: word_aligned_def word_unat_eq_iff unat_mod)
  then have "even (unat a)" by presburger
  then have "\<not> bit a 0" using bit_unsigned_iff [of a 0, where 'a = nat] by (simp add: bit_0)
  then have "a AND NOT 1 = a" by (intro bit_word_eqI) (auto simp: bit_simps bit_1_iff intro: gr0I)
  then show ?thesis by simp
qed

lemma unchecked_step_aligned:
  assumes "\<And>target. isa_target i t = Some target \<Longrightarrow> word_aligned target"
  shows "unchecked_step i t = isa_step i t"
  using assms by (auto simp: unchecked_step_def isa_step_def Let_def isa_jump_def isa_target_def aligned_and_not_1 instr_class_defs split: if_splits)

section \<open>The architectural state of an executor\<close>

definition arch :: "executor \<Rightarrow> isa" where
  "arch s = \<lparr>isa_pc = pc (state s), isa_reg = (\<lambda>a. mem_value (reg_entry s a)),
     isa_mem = (\<lambda>x. to_le_bytes (mem_value (page_entry s (align x))) ! lane x)\<rparr>"

lemma arch_sel:
  "isa_pc (arch s) = pc (state s)" "isa_reg (arch s) = (\<lambda>a. mem_value (reg_entry s a))"
  "isa_mem (arch s) = (\<lambda>x. to_le_bytes (mem_value (page_entry s (align x))) ! lane x)"
  by (simp_all add: arch_def)

text \<open>Everything \<open>arch\<close> reads is in \<open>state\<close>.\<close>

lemma arch_cong: "state s = state s' \<Longrightarrow> arch s = arch s'"
  by (simp add: arch_def)

lemma arch_upd [simp]:
  "arch (s\<lparr>memory_accesses := x1\<rparr>) = arch s" "arch (s\<lparr>exec_record := x2\<rparr>) = arch s"
  "arch (s\<lparr>report := x3\<rparr>) = arch s" "arch (s\<lparr>local_counts := x4\<rparr>) = arch s"
  by (simp_all add: arch_def)

lemma arch_pc_clk: "arch (upd_state (\<lambda>st. st\<lparr>pc := v, clk := k\<rparr>) s) = (arch s)\<lparr>isa_pc := v\<rparr>"
  by (simp add: arch_def)

lemma entry_record_upd [simp]: "entry_record (m(a \<mapsto> r)) um x = (if x = a then r else entry_record m um x)"
  by (simp add: entry_record_def)

lemma keeps_state:
  assumes "keeps s s'"
  shows "pc (state s') = pc (state s)" "clk (state s') = clk (state s)"
    "current_shard (state s') = current_shard (state s)"
    "uninitialized_memory (state s') = uninitialized_memory (state s)"
    "global_clk (state s') = global_clk (state s)"
    "executor_mode s' = executor_mode s" "unconstrained s' = unconstrained s"
    "exec_record s' = exec_record s" "program s' = program s"
proof -
  have "state s'\<lparr>memory := memory (state s)\<rparr> = state s" using assms by (simp add: keeps_def)
  then show "pc (state s') = pc (state s)" "clk (state s') = clk (state s)"
    "current_shard (state s') = current_shard (state s)"
    "uninitialized_memory (state s') = uninitialized_memory (state s)"
    "global_clk (state s') = global_clk (state s)"
    by (metis execution_state.select_convs execution_state.simps(1-20) execution_state.surjective
        execution_state.update_convs(3))+
qed (use assms in \<open>simp_all add: keeps_def\<close>)

lemma arch_reg_effect:
  assumes "reg_effect upd a ts s s'"
  shows "arch s' = (arch s)\<lparr>isa_reg := (isa_reg (arch s))(a := upd (isa_reg (arch s) a))\<rparr>"
  using assms keeps_state [of s s'] by (auto simp: reg_effect_def arch_def)

lemma arch_page_effect:
  assumes "page_effect upd a sh ts s s'"
  shows "arch s' = (arch s)\<lparr>isa_mem := (\<lambda>x. if align x = a then to_le_bytes (upd (mem_value (page_entry s a))) ! lane x
    else isa_mem (arch s) x)\<rparr>"
  using assms keeps_state [of s s'] by (auto simp: page_effect_def arch_def)

section \<open>Operands\<close>

lemma from_u8_reg_u32: "from_u8 v = Some r \<Longrightarrow> reg_u32 r = ucast v"
  by (drule from_u8_Some) (cases r; simp)

lemma ucast_ucast32: "(b :: u32) < 32 \<Longrightarrow> ucast (ucast b :: u8) = b"
  by (simp add: word_unat_eq_iff unsigned_ucast_eq unsigned_take_bit_eq word_less_nat_alt take_bit_nat_eq_self)

lemma wf_operands:
  assumes "wf_instruction i"
  obtains ra where "from_u8 (op_a i) = Some ra" "reg_u32 ra = ucast (op_a i)"
  using from_u8_lt [OF wf_op_lt(1) [OF assms]] from_u8_reg_u32 by blast

lemma wf_operand_b:
  assumes "wf_instruction i" "\<not> imm_b i"
  obtains rb where "from_u8 (ucast (op_b i)) = Some rb" "reg_u32 rb = op_b i"
  using from_u8_lt [OF ucast_lt32 [OF wf_op_lt(2) [OF assms]]] from_u8_reg_u32
    ucast_ucast32 [OF wf_op_lt(2) [OF assms]] by metis

lemma wf_operand_c:
  assumes "wf_instruction i" "\<not> imm_c i"
  obtains rc where "from_u8 (ucast (op_c i)) = Some rc" "reg_u32 rc = op_c i"
  using from_u8_lt [OF ucast_lt32 [OF wf_op_lt(3) [OF assms]]] from_u8_reg_u32
    ucast_ucast32 [OF wf_op_lt(3) [OF assms]] by metis

lemma wf_i_operands:
  assumes "wf_instruction i" "\<not> imm_b i"
  obtains ra rb where "i_type i = Some (ra, rb, op_c i)" "reg_u32 ra = ucast (op_a i)" "reg_u32 rb = op_b i"
proof -
  obtain ra where a: "from_u8 (op_a i) = Some ra" "reg_u32 ra = ucast (op_a i)" using wf_operands [OF assms(1)] by blast
  obtain rb where b: "from_u8 (ucast (op_b i)) = Some rb" "reg_u32 rb = op_b i" using wf_operand_b [OF assms] by blast
  have "i_type i = Some (ra, rb, op_c i)" unfolding i_type_def a(1) b(1) by simp
  then show ?thesis by (rule that) (fact a(2), fact b(2))
qed

lemma wf_r_operands:
  assumes "wf_instruction i" "\<not> imm_c i"
  obtains ra rb rc where "r_type i = Some (ra, rb, rc)" "reg_u32 ra = ucast (op_a i)" "reg_u32 rb = op_b i"
    "reg_u32 rc = op_c i" "\<not> imm_b i"
proof -
  have nb: "\<not> imm_b i" using wf_op_lt(4) [OF assms(1)] assms(2) by blast
  obtain ra where a: "from_u8 (op_a i) = Some ra" "reg_u32 ra = ucast (op_a i)" using wf_operands [OF assms(1)] by blast
  obtain rb where b: "from_u8 (ucast (op_b i)) = Some rb" "reg_u32 rb = op_b i" using wf_operand_b [OF assms(1) nb] by blast
  obtain rc where c: "from_u8 (ucast (op_c i)) = Some rc" "reg_u32 rc = op_c i" using wf_operand_c [OF assms] by blast
  have "r_type i = Some (ra, rb, rc)" unfolding r_type_def a(1) b(1) c(1) by simp
  then show ?thesis by (rule that) (fact a(2), fact b(2), fact c(2), fact nb)
qed

section \<open>Accesses on the architectural state\<close>

text \<open>The parts of the executor that an access of the CPU keeps, for the steps that follow it.\<close>

definition stays :: "executor \<Rightarrow> executor \<Rightarrow> bool" where
  "stays s s' \<longleftrightarrow> keeps s s' \<and> arch s' = arch s"

lemma stays_trans: "stays s t \<Longrightarrow> stays t u \<Longrightarrow> stays s u"
  unfolding stays_def using keeps_trans by metis

lemma rr_cpu_arch:
  assumes "rr_cpu r p s = (v, s')"
  shows "v = isa_reg (arch s) (reg_u32 r)" and "stays s s'"
  using rr_cpu_spec(1) [OF assms] rr_cpu_spec(2) [OF assms] arch_reg_effect [OF rr_cpu_spec(2) [OF assms]]
  by (simp add: arch_sel, simp add: stays_def reg_effect_def)

lemma rw_cpu_arch:
  assumes "isa_reg (arch s) 0 = 0"
  shows "keeps s (rw_cpu r v s)" and "arch (rw_cpu r v s) = isa_set (reg_u32 r) v (arch s)"
proof -
  show "keeps s (rw_cpu r v s)" using rw_cpu_spec [of r v s] by (simp add: reg_effect_def)
  show "arch (rw_cpu r v s) = isa_set (reg_u32 r) v (arch s)"
    using assms arch_reg_effect [OF rw_cpu_spec [of r v s]]
    by (cases "r = X0") (simp_all add: isa_set_def fun_upd_idem)
qed

lemma mr_cpu_arch:
  assumes "valid_mem_addr a"
  obtains s' where "mr_cpu a s = Inr (mem_value (page_entry s a), s')" "stays s s'"
    "executor_mode s = Trace \<Longrightarrow> acc_memory (memory_accesses s') \<noteq> None"
proof -
  obtain rec lm t where m: "mr a (current_shard (state s)) (timestamp_at Memory_pos s) None s = Inr (rec, lm, t)"
    using mr_total [OF assms] by blast
  obtain s' where e: "mr_cpu a s = Inr (rd_value rec, s')"
    "executor_mode t = Trace \<Longrightarrow> acc_memory (memory_accesses s') \<noteq> None"
    by (auto simp: mr_cpu_def m)
  have p: "page_effect (\<lambda>v. v) a (current_shard (state s)) (clk (state s)) s s'"
    using mr_cpu_spec(2) [OF e(1)] .
  then have k: "keeps s s'" by (simp add: page_effect_def)
  have "executor_mode t = executor_mode s"
    using mr_spec(2) [OF m] by (simp add: page_effect_def keeps_def)
  moreover have "arch s' = arch s" using arch_page_effect [OF p] assms
    by (auto simp: arch_def fun_eq_iff)
  ultimately show ?thesis using that e k mr_cpu_spec(1) [OF e(1)] by (auto simp: stays_def)
qed

lemma mw_cpu_arch:
  assumes "valid_mem_addr a"
  obtains s' where "mw_cpu a v s = Inr s'" "keeps s s'"
    "arch s' = (arch s)\<lparr>isa_mem := (\<lambda>x. if align x = a then to_le_bytes v ! lane x else isa_mem (arch s) x)\<rparr>"
    "executor_mode s = Trace \<Longrightarrow> acc_memory (memory_accesses s') \<noteq> None"
proof -
  obtain rec lm t where m: "mw a v (current_shard (state s)) (timestamp_at Memory_pos s) None s = Inr (rec, lm, t)"
    using mw_total [OF assms] by blast
  obtain s' where e: "mw_cpu a v s = Inr s'"
    "executor_mode t = Trace \<Longrightarrow> acc_memory (memory_accesses s') \<noteq> None"
    by (auto simp: mw_cpu_def m)
  note p = mw_cpu_spec [OF e(1)]
  have "executor_mode t = executor_mode s"
    using mw_spec(1) [OF m] by (simp add: page_effect_def keeps_def)
  then show ?thesis using that [OF e(1)] e(2) p arch_page_effect [OF p] by (simp add: page_effect_def)
qed

lemma rw_cpu_acc_memory: "acc_memory (memory_accesses (rw_cpu r v s)) = acc_memory (memory_accesses s)"
  by (simp add: rw_cpu_def rw_def rw_traced_def Let_def reg_access_eq)

lemma word_get_arch:
  assumes "in_range a"
  obtains s' where "word_get a s = Inr (case ptab s (align a) of Some r \<Rightarrow> mem_value r | None \<Rightarrow> 0, s')" "stays s s'"
proof -
  obtain v s' where e: "word_get a s = Inr (v, s')" using assms by (auto simp: word_get_def pt_get_def)
  have "arch s' = arch s" by (rule arch_cong) (fact word_get_spec(4) [OF e])
  then have "stays s s'" using word_get_spec(3) [OF e] by (simp add: stays_def)
  with e show ?thesis unfolding word_get_spec(1) [OF e] by (rule that)
qed

section \<open>Events\<close>

text \<open>Emitting the events of an instruction changes the record only, and does not fail.\<close>

definition only_record :: "executor \<Rightarrow> executor \<Rightarrow> bool" where
  "only_record s s' \<longleftrightarrow> s' = s\<lparr>exec_record := exec_record s'\<rparr>"

lemma only_record_upd [simp]: "only_record s (t\<lparr>exec_record := r\<rparr>) \<longleftrightarrow> only_record s t"
  unfolding only_record_def by (cases s; cases t) auto

lemma only_record_refl [simp]: "only_record s s"
  by (simp add: only_record_def)

lemma only_record_trans: "only_record s t \<Longrightarrow> only_record t u \<Longrightarrow> only_record s u"
  unfolding only_record_def by (cases s; cases t; cases u) auto

lemma only_record_push [simp]:
  "only_record s (push_add e t) = only_record s t" "only_record s (push_mul e t) = only_record s t"
  "only_record s (push_lt e t) = only_record s t"
  by (simp_all add: push_add_def push_mul_def push_lt_def)

lemma only_record_dependencies:
  "only_record s t \<Longrightarrow> only_record s (emit_divrem_dependencies ev1 t)"
  "only_record s t \<Longrightarrow> only_record s (emit_memory_dependencies ev2 rec t)"
  "only_record s t \<Longrightarrow> only_record s (emit_auipc_dependency ev3 t)"
  by (auto simp: emit_divrem_dependencies_def emit_memory_dependencies_def emit_auipc_dependency_def Let_def
      split: prod.splits)

lemma emit_branch_dependencies_record:
  assumes "br_opcode ev \<in> {BEQ, BNE, BLT, BGE, BLTU, BGEU}" "only_record s t"
  shows "\<exists>s'. emit_branch_dependencies ev t = Inr s' \<and> only_record s s'"
  using assms by (elim insertE emptyE) (auto simp: emit_branch_dependencies_def Let_def)

lemma emit_jump_dependencies_record:
  assumes "jp_opcode ev \<in> {JAL, JALR}" "only_record s t"
  shows "\<exists>s'. emit_jump_dependencies ev t = Inr s' \<and> only_record s s'"
  using assms by (elim insertE emptyE) (auto simp: emit_jump_dependencies_def Let_def)

lemma emit_alu_event_record:
  assumes "is_alu_instruction i"
  obtains s' where "emit_alu_event (opcode i) a b c z s = Inr s'" "only_record s s'"
proof -
  have "\<exists>s'. emit_alu_event (opcode i) a b c z s = Inr s' \<and> only_record s s'"
    using assms unfolding is_alu_instruction_def
    by (elim insertE emptyE) (simp_all add: emit_alu_event_def Let_def only_record_dependencies)
  then show ?thesis using that by blast
qed

definition emits :: "instruction \<Rightarrow> bool" where
  "emits i \<longleftrightarrow> opcode i \<noteq> EBREAK \<and> opcode i \<noteq> UNIMP"

definition touches_memory :: "instruction \<Rightarrow> bool" where
  "touches_memory i \<longleftrightarrow> is_memory_load_instruction i \<or> is_memory_store_instruction i"

lemma emits_cases: "emits i \<longleftrightarrow> is_alu_instruction i \<or> touches_memory i \<or> is_branch_instruction i
    \<or> is_jump_instruction i \<or> is_auipc_instruction i \<or> is_ecall_instruction i"
  by (cases "opcode i") (simp_all add: emits_def touches_memory_def instr_class_defs)

lemma emit_events_record:
  assumes "emits i" and "touches_memory i \<Longrightarrow> acc_memory (memory_accesses s) \<noteq> None"
  obtains s' where "emit_events k npc i code a b c z rec ec s = Inr s'" "only_record s s'"
proof -
  define t where "t = emit_cpu k npc a b c rec ec s"
  have t: "only_record s t" "memory_accesses t = memory_accesses s" by (simp_all add: t_def emit_cpu_def)
  have "\<exists>s'. emit_events k npc i code a b c z rec ec s = Inr s' \<and> only_record t s'"
  proof (cases "is_alu_instruction i")
    case True
    then show ?thesis by (rule emit_alu_event_record [of i a b c z t]) (auto simp: emit_events_def Let_def t_def True)
  next
    case na: False
    show ?thesis
    proof (cases "touches_memory i")
      case True
      with na assms(2) t show ?thesis
        by (auto simp: emit_events_def Let_def emit_mem_instr_event_def touches_memory_def only_record_dependencies
            simp flip: t_def)
    next
      case nm: False
      show ?thesis
      proof (cases "is_branch_instruction i")
        case True
        with na nm show ?thesis
          by (auto simp: emit_events_def Let_def emit_branch_event_def touches_memory_def is_branch_instruction_def
              simp flip: t_def intro!: emit_branch_dependencies_record)
      next
        case nb: False
        with na nm assms(1) show ?thesis
          by (auto simp: emits_cases emit_events_def Let_def emit_jump_event_def emit_auipc_event_def
              emit_syscall_event_def touches_memory_def is_jump_instruction_def only_record_dependencies
              simp flip: t_def intro!: emit_jump_dependencies_record)
      qed
    qed
  qed
  then show ?thesis using that only_record_trans [OF t(1)] by blast
qed

section \<open>The frame of an instruction\<close>

text \<open>What \<open>execute_instruction\<close> does before and after the operation itself.\<close>

definition begin_instruction :: "instruction \<Rightarrow> executor \<Rightarrow> executor" where
  "begin_instruction i s =
     count_instruction i (if executor_mode s = Trace then s\<lparr>memory_accesses := no_accesses\<rparr> else s)"

definition end_instruction :: "instruction
    \<Rightarrow> (u32 \<times> u32 \<times> u32 \<times> u32 \<times> u32 \<times> syscall_code \<times> u32) \<times> executor \<Rightarrow> executor res" where
  "end_instruction i = (\<lambda>((a, b, c, clk0, next_pc, code, exit_code), s).
     rbind (if executor_mode s = Trace
            then emit_events clk0 next_pc i code (if op_a i = 0 then 0 else a) b c (op_a i = 0) (memory_accesses s) exit_code s
            else Inr s) (\<lambda>s.
     Inr (upd_state (\<lambda>st. st\<lparr>pc := next_pc, clk := clk st + 4\<rparr>) s)))"

lemma execute_instruction_eq:
  "execute_instruction env i s = rbind (execute_operation env i (begin_instruction i s)) (end_instruction i)"
  unfolding execute_instruction_def begin_instruction_def end_instruction_def Let_def
  by (rule rbind_cong) (auto split: prod.split)

lemma arch_begin [simp]: "arch (begin_instruction i s) = arch s"
  by (simp add: begin_instruction_def count_instruction_def)

lemma begin_instruction_state [simp]: "state (begin_instruction i s) = state s"
  by (simp add: begin_instruction_def count_instruction_def)

lemma arch_only_record: "only_record s s' \<Longrightarrow> arch s' = arch s"
  unfolding only_record_def by (metis arch_upd(2))

lemma end_instruction_arch:
  assumes "emits i" "touches_memory i \<Longrightarrow> executor_mode s = Trace \<Longrightarrow> acc_memory (memory_accesses s) \<noteq> None"
  obtains s' where "end_instruction i ((a, b, c, k, npc, code, ec), s) = Inr s'" "arch s' = (arch s)\<lparr>isa_pc := npc\<rparr>"
proof -
  obtain u where u: "(if executor_mode s = Trace
       then emit_events k npc i code (if op_a i = 0 then 0 else a) b c (op_a i = 0) (memory_accesses s) ec s
       else Inr s) = Inr u" "only_record s u"
  proof (cases "executor_mode s = Trace")
    case True
    obtain u where "emit_events k npc i code (if op_a i = 0 then 0 else a) b c (op_a i = 0) (memory_accesses s) ec s = Inr u"
      "only_record s u" by (rule emit_events_record [OF assms(1) assms(2) [OF _ True]])
    then show ?thesis using True by (intro that) simp_all
  next
    case False
    with that [of s] show ?thesis by simp
  qed
  have "end_instruction i ((a, b, c, k, npc, code, ec), s)
      = Inr (upd_state (\<lambda>st. st\<lparr>pc := npc, clk := clk st + 4\<rparr>) u)"
    using u(1) by (simp add: end_instruction_def)
  then show ?thesis by (rule that) (simp add: arch_pc_clk arch_only_record [OF u(2)])
qed

text \<open>An operation that leaves the architectural state \<open>t\<close> behind.\<close>

definition op_arch :: "instruction \<Rightarrow> (u32 \<times> u32 \<times> u32 \<times> u32 \<times> u32 \<times> syscall_code \<times> u32) \<times> executor \<Rightarrow> isa \<Rightarrow> bool" where
  "op_arch i r t = (case r of ((a, b, c, k, npc, code, ec), s) \<Rightarrow> t = (arch s)\<lparr>isa_pc := npc\<rparr>
     \<and> (touches_memory i \<and> executor_mode s = Trace \<longrightarrow> acc_memory (memory_accesses s) \<noteq> None))"

lemma refine_operation:
  assumes "emits i" "res_rel (op_arch i) (execute_operation env i (begin_instruction i s)) m"
  shows "res_rel (\<lambda>s' t. arch s' = t) (execute_instruction env i s) m"
proof (cases "execute_operation env i (begin_instruction i s)")
  case (Inl e)
  then show ?thesis using assms(2) by (cases m) (simp_all add: execute_instruction_eq)
next
  case (Inr r)
  then obtain t where m: "m = Inr t" and r: "op_arch i r t" using assms(2) by (cases m) auto
  obtain a b c k npc code ec s1 where e: "r = ((a, b, c, k, npc, code, ec), s1)" by (metis prod.exhaust)
  obtain s' where "end_instruction i r = Inr s'" "arch s' = (arch s1)\<lparr>isa_pc := npc\<rparr>"
    using end_instruction_arch [OF assms(1), of s1 a b c k npc code ec] r unfolding e op_arch_def by auto
  then show ?thesis using r Inr by (simp add: m e op_arch_def execute_instruction_eq)
qed

section \<open>The operations refine the architecture\<close>

lemma arch_next: "(arch s)\<lparr>isa_pc := pc (state s') + 4\<rparr> = isa_next (arch s)" if "pc (state s') = pc (state s)"
  using that by (simp add: isa_next_def arch_sel)

lemma isa_pc_set [simp]: "isa_pc (isa_set r v t) = isa_pc t"
  by (simp add: isa_set_def)

lemma alu_operands:
  assumes "wf_instruction i"
  obtains rd s' where "alu_rr i s = Inr ((rd, (if imm_b i then op_b i else isa_reg (arch s) (op_b i)),
        (if imm_c i then op_c i else isa_reg (arch s) (op_c i))), s')"
    "reg_u32 rd = ucast (op_a i)" "stays s s'"
proof (cases "imm_c i")
  case False
  obtain ra rb rc where o: "r_type i = Some (ra, rb, rc)" "reg_u32 ra = ucast (op_a i)" "reg_u32 rb = op_b i"
    "reg_u32 rc = op_c i" "\<not> imm_b i" by (rule wf_r_operands [OF assms False])
  obtain c s1 where c: "rr_cpu rc C_pos s = (c, s1)" by (metis prod.exhaust)
  obtain b s2 where b: "rr_cpu rb B_pos s1 = (b, s2)" by (metis prod.exhaust)
  have "arch s1 = arch s" using rr_cpu_arch(2) [OF c] by (simp add: stays_def)
  then have "alu_rr i s = Inr ((ra, isa_reg (arch s) (op_b i), isa_reg (arch s) (op_c i)), s2)"
    using False rr_cpu_arch(1) [OF c] rr_cpu_arch(1) [OF b] o by (simp add: alu_rr_def c b)
  with that False o stays_trans [OF rr_cpu_arch(2) [OF c] rr_cpu_arch(2) [OF b]] show ?thesis by simp
next
  case True
  show ?thesis
  proof (cases "imm_b i")
    case b: True
    obtain ra where o: "from_u8 (op_a i) = Some ra" "reg_u32 ra = ucast (op_a i)" by (rule wf_operands [OF assms])
    show ?thesis by (rule that [of ra s]) (use True b o in \<open>simp_all add: alu_rr_def stays_def\<close>)
  next
    case nb: False
    obtain ra rb where o: "i_type i = Some (ra, rb, op_c i)" "reg_u32 ra = ucast (op_a i)" "reg_u32 rb = op_b i"
      by (rule wf_i_operands [OF assms nb])
    obtain b s2 where b: "rr_cpu rb B_pos s = (b, s2)" by (metis prod.exhaust)
    have "alu_rr i s = Inr ((ra, isa_reg (arch s) (op_b i), op_c i), s2)"
      using True nb rr_cpu_arch(1) [OF b] o by (simp add: alu_rr_def b)
    with that True nb o rr_cpu_arch(2) [OF b] show ?thesis by simp
  qed
qed

lemma refine_alu:
  assumes "wf_instruction i" "is_alu_instruction i" "isa_reg (arch s) 0 = 0"
  shows "res_rel (op_arch i) (execute_operation env i s) (unchecked_step i (arch s))"
proof -
  let ?b = "if imm_b i then op_b i else isa_reg (arch s) (op_b i)"
  let ?c = "if imm_c i then op_c i else isa_reg (arch s) (op_c i)"
  obtain rd s' where o: "alu_rr i s = Inr ((rd, ?b, ?c), s')" "reg_u32 rd = ucast (op_a i)" "stays s s'"
    by (rule alu_operands [OF assms(1)])
  let ?v = "word_of_int (rv32_spec (opcode i) ?b ?c) :: u32"
  have k: "arch s' = arch s" "pc (state s') = pc (state s)"
    using o(3) keeps_state [of s s'] by (simp_all add: stays_def)
  have "execute_alu i s = Inr ((?v, ?b, ?c), rw_cpu rd ?v s')"
    unfolding execute_alu_def o(1) rbind.simps prod.case alu_value_int [OF assms(2)] ..
  moreover have "arch (rw_cpu rd ?v s') = isa_set (ucast (op_a i)) ?v (arch s)"
    using rw_cpu_arch(2) [of s' rd ?v] k assms(3) o(2) by simp
  moreover have "\<not> touches_memory i" using assms(2) by (auto simp: touches_memory_def instr_class_defs)
  moreover have "unchecked_step i (arch s) = Inr (isa_next (isa_set (ucast (op_a i)) ?v (arch s)))"
    using assms(2) by (simp only: unchecked_step_def Let_def if_True)
  ultimately show ?thesis using assms(2)
    by (simp add: execute_operation_def with_defaults_def op_arch_def isa_next_def arch_sel)
qed

section \<open>Bytes of memory and lanes of words\<close>

lemma unat_align_lane: "unat addr = unat (align addr) + lane addr"
  by (simp add: unat_align lane_def)

lemma within_word:
  assumes "lane addr + k < 4"
  shows "align (addr + of_nat k) = align addr" and "lane (addr + of_nat k) = lane addr + k"
proof -
  have "unat addr div 4 < 1073741824" using unat_u32_less [of addr] by (intro less_mult_imp_div_less) simp
  then have "unat addr + k < 4294967296"
    using assms div_mult_mod_eq [of "unat addr" 4] unfolding lane_def by linarith
  then have u: "unat (addr + of_nat k) = unat addr + k"
    by (simp add: unat_word_ariths unat_of_nat take_bit_nat_eq_self)
  have "(unat addr + k) div 4 = unat addr div 4" "(unat addr + k) mod 4 = unat addr mod 4 + k"
    using assms div_mult_mod_eq [of "unat addr" 4] unfolding lane_def
    by (simp_all add: div_add1_eq [of "unat addr" k] mod_add_eq [of "unat addr" 4 k, symmetric])
  then show "align (addr + of_nat k) = align addr" "lane (addr + of_nat k) = lane addr + k"
    by (simp_all add: align_eq_iff lane_def u)
qed

lemma same_word_diff:
  assumes "align x = align addr"
  shows "lane addr \<le> lane x \<Longrightarrow> x = addr + of_nat (lane x - lane addr)"
    and "lane addr \<le> lane x \<Longrightarrow> unat (x - addr) = lane x - lane addr"
    and "lane x < lane addr \<Longrightarrow> 4 \<le> unat (x - addr)"
proof -
  have u: "unat x = unat (align addr) + lane x" "unat addr = unat (align addr) + lane addr"
    using unat_align_lane assms by metis+
  show e: "x = addr + of_nat (lane x - lane addr)" if "lane addr \<le> lane x"
  proof -
    have "lane addr + (lane x - lane addr) < 4" using lane_le [of x] that by simp
    from within_word [OF this] that assms show ?thesis
      by (metis le_add_diff_inverse unat_align_lane word_unat_eq_iff)
  qed
  show "unat (x - addr) = lane x - lane addr" if "lane addr \<le> lane x"
  proof -
    have "x - addr = of_nat (lane x - lane addr)" using e [OF that] by (metis add_diff_cancel_left')
    then show ?thesis using lane_le [of x] by (simp add: unat_of_nat take_bit_nat_eq_self)
  qed
  show "4 \<le> unat (x - addr)" if "lane x < lane addr"
  proof -
    have "unat (x - addr) = unat x + 4294967296 - unat addr"
      using that u unat_u32_less [of addr] by (simp add: unat_sub_if')
    then show ?thesis using u lane_le [of addr] by simp
  qed
qed

lemma read_bytes_lanes:
  assumes "access_aligned opc addr" "width opc \<noteq> 0"
    and m: "\<And>x. align x = align addr \<Longrightarrow> m x = to_le_bytes w ! lane x"
  shows "read_bytes m addr (width opc) = lanes opc addr w"
proof -
  have f: "lane addr + width opc \<le> 4" by (rule aligned_fits [OF assms(1,2)])
  then have "m (addr + of_nat k) = to_le_bytes w ! (lane addr + k)" if "k < width opc" for k
    using that within_word [of addr k] m [of "addr + of_nat k"] by simp
  then show ?thesis using f by (auto simp: read_bytes_def lanes_def list_eq_iff_nth_eq)
qed

lemma isa_load_spec:
  assumes "access_aligned opc addr" "width opc \<noteq> 0"
  shows "isa_load opc (isa_mem (arch s)) addr
    = word_of_int (load_spec opc addr (mem_value (page_entry s (align addr))))"
  by (simp add: isa_load_def load_spec_def read_bytes_lanes [OF assms] arch_sel Let_def)

lemma write_bytes_lanes:
  assumes "access_aligned opc addr" "width opc \<noteq> 0"
    and m: "\<And>x. align x = align addr \<Longrightarrow> m x = to_le_bytes w ! lane x"
    and w': "to_le_bytes w' = store_spec opc addr a (to_le_bytes w)"
  shows "write_bytes m addr (take (width opc) (to_le_bytes a))
    = (\<lambda>x. if align x = align addr then to_le_bytes w' ! lane x else m x)"
proof
  fix x
  have f: "lane addr + width opc \<le> 4" by (rule aligned_fits [OF assms(1,2)])
  show "write_bytes m addr (take (width opc) (to_le_bytes a)) x
    = (if align x = align addr then to_le_bytes w' ! lane x else m x)"
  proof (cases "align x = align addr")
    case True
    have "to_le_bytes w' ! lane x = (if lane x < lane addr then to_le_bytes w ! lane x
        else if lane x < lane addr + width opc then to_le_bytes a ! (lane x - lane addr) else to_le_bytes w ! lane x)"
      using f lane_le [of x] unfolding w' store_spec_def by (auto simp: nth_append)
    then show ?thesis using True f m [OF True] same_word_diff [OF True] by (auto simp: write_bytes_def)
  next
    case False
    have "\<not> unat (x - addr) < width opc"
    proof
      assume l: "unat (x - addr) < width opc"
      have "align (addr + of_nat (unat (x - addr))) = align addr" using l f by (intro within_word) simp
      with False show False by simp
    qed
    with False f show ?thesis by (simp add: write_bytes_def)
  qed
qed

section \<open>Loads and stores\<close>

lemma invalid_access:
  "\<not> valid_mem_addr a \<Longrightarrow> mr_cpu a s = Inl Panic" "\<not> valid_mem_addr a \<Longrightarrow> mw_cpu a v s = Inl Panic"
  "\<not> in_range a \<Longrightarrow> word_get a s = Inl Panic"
  by (simp_all add: mr_cpu_def mr_def mw_cpu_def mw_def word_get_def pt_get_def)

lemma load_classes:
  assumes "is_memory_load_instruction i"
  shows "\<not> is_alu_instruction i" "width (opcode i) \<noteq> 0" "touches_memory i"
  using assms by (auto simp: touches_memory_def instr_class_defs)

lemma refine_load:
  assumes "wf_instruction i" "is_memory_load_instruction i" "isa_reg (arch s) 0 = 0"
  shows "res_rel (op_arch i) (execute_operation env i s) (unchecked_step i (arch s))"
proof -
  define addr where "addr = isa_reg (arch s) (op_b i) + op_c i"
  have nb: "\<not> imm_b i" using assms by (auto simp: is_memory_load_instruction_def dest: wf_not_imm_b)
  obtain ra rb where o: "i_type i = Some (ra, rb, op_c i)" "reg_u32 ra = ucast (op_a i)" "reg_u32 rb = op_b i"
    by (rule wf_i_operands [OF assms(1) nb])
  obtain b s1 where b: "rr_cpu rb B_pos s = (b, s1)" by (metis prod.exhaust)
  have k1: "b + op_c i = addr" "arch s1 = arch s" "executor_mode s1 = executor_mode s"
    using rr_cpu_arch [OF b] keeps_state [of s s1] by (simp_all add: addr_def o stays_def)
  note cl = load_classes [OF assms(2)]
  have step: "unchecked_step i (arch s) =
      (if \<not> valid_mem_addr (align addr) then Inl Panic
       else if \<not> access_aligned (opcode i) addr then Inl (Err (InvalidMemoryAccess (opcode i) addr))
       else Inr (isa_next (isa_set (ucast (op_a i)) (isa_load (opcode i) (isa_mem (arch s)) addr) (arch s))))"
    using cl assms(2) by (simp add: unchecked_step_def Let_def addr_def)
  have op: "execute_operation env i s = with_defaults (clk (state s)) (pc (state s) + 4) (execute_load i s)"
    using cl assms(2) by (simp add: execute_operation_def Let_def)
  show ?thesis
  proof (cases "valid_mem_addr (align addr)")
    case False
    then show ?thesis
      by (simp add: step op with_defaults_def execute_load_def load_rr_def o(1) b k1(1) invalid_access)
  next
    case True
    obtain s2 where m: "mr_cpu (align addr) s1 = Inr (mem_value (page_entry s1 (align addr)), s2)" "stays s1 s2"
      "executor_mode s1 = Trace \<Longrightarrow> acc_memory (memory_accesses s2) \<noteq> None" using mr_cpu_arch [OF True] by blast
    have k2: "arch s2 = arch s" using m(2) k1 by (simp add: stays_def)
    have w: "load_value (opcode i) addr (mem_value (page_entry s1 (align addr)))
      = (if access_aligned (opcode i) addr then Inr (isa_load (opcode i) (isa_mem (arch s)) addr)
         else Inl (Err (InvalidMemoryAccess (opcode i) addr)))"
      unfolding load_value_lanes [OF assms(2)] using isa_load_spec [OF _ cl(2), of addr s1] k1(2) by simp
    show ?thesis
    proof (cases "access_aligned (opcode i) addr")
      case False
      then show ?thesis using True
        by (simp add: step op with_defaults_def execute_load_def load_rr_def o(1) b k1(1) m(1) w)
    next
      case al: True
      let ?v = "isa_load (opcode i) (isa_mem (arch s)) addr"
      have "arch (rw_cpu ra ?v s2) = isa_set (ucast (op_a i)) ?v (arch s)"
        using rw_cpu_arch(2) [of s2 ra ?v] k2 assms(3) o(2) by simp
      moreover have "executor_mode (rw_cpu ra ?v s2) = executor_mode s1"
        using keeps_state(6) [OF rw_cpu_arch(1), of s2 ra ?v] keeps_state(6) [of s1 s2] m(2) k2 assms(3)
        by (simp add: stays_def)
      ultimately show ?thesis using True al m(3)
        by (simp add: step op with_defaults_def execute_load_def load_rr_def o(1) b k1(1) m(1) w op_arch_def
            rw_cpu_acc_memory isa_next_def arch_sel)
    qed
  qed
qed

text \<open>
  A store reads the word it patches with \<open>word\<close>, which looks at the memory only, not at a
  hinted initial value that has not been accessed yet; \<open>hint_consumed\<close> says that there is
  none at the word.
\<close>

definition hint_consumed :: "executor \<Rightarrow> u32 \<Rightarrow> bool" where
  "hint_consumed s a \<longleftrightarrow> ptab s a \<noteq> None \<or> initial_value (page_table (uninitialized_memory (state s))) a = 0"

lemma hint_consumed_value:
  "hint_consumed s a \<Longrightarrow> (case ptab s a of Some r \<Rightarrow> mem_value r | None \<Rightarrow> 0) = mem_value (page_entry s a)"
  by (auto simp: hint_consumed_def entry_record_def split: option.splits)

lemma store_classes:
  assumes "is_memory_store_instruction i"
  shows "\<not> is_alu_instruction i" "\<not> is_memory_load_instruction i" "width (opcode i) \<noteq> 0" "touches_memory i"
  using assms by (auto simp: touches_memory_def instr_class_defs)

lemma store_operands:
  assumes "wf_instruction i" "is_memory_store_instruction i"
    and "addr = isa_reg (arch s) (op_b i) + op_c i"
  obtains s1 where "store_rr i s = rbind (word_get (align addr) s1) (\<lambda>(v, s).
      Inr ((isa_reg (arch s1) (ucast (op_a i)), isa_reg (arch s1) (op_b i), op_c i, addr, v), s))"
    "stays s s1" "ptab s1 = ptab s"
proof -
  have nb: "\<not> imm_b i" using assms by (auto simp: is_memory_store_instruction_def dest: wf_not_imm_b)
  obtain ra rb where o: "i_type i = Some (ra, rb, op_c i)" "reg_u32 ra = ucast (op_a i)" "reg_u32 rb = op_b i"
    by (rule wf_i_operands [OF assms(1) nb])
  obtain b s1 where b: "rr_cpu rb B_pos s = (b, s1)" by (metis prod.exhaust)
  obtain a s2 where a: "rr_cpu ra A_pos s1 = (a, s2)" by (metis prod.exhaust)
  have st: "stays s s2" by (rule stays_trans [OF rr_cpu_arch(2) [OF b] rr_cpu_arch(2) [OF a]])
  have p: "ptab s2 = ptab s" using rr_cpu_spec(2) [OF b] rr_cpu_spec(2) [OF a] by (simp add: reg_effect_def)
  have "arch s1 = arch s" "arch s2 = arch s" using rr_cpu_arch(2) [OF b] st by (simp_all add: stays_def)
  then have "store_rr i s = rbind (word_get (align addr) s2) (\<lambda>(v, s).
      Inr ((isa_reg (arch s2) (ucast (op_a i)), isa_reg (arch s2) (op_b i), op_c i, addr, v), s))"
    using rr_cpu_arch(1) [OF b] rr_cpu_arch(1) [OF a] assms(3) o(2,3)
    by (simp add: store_rr_def same_views o(1) b a Let_def)
  then show ?thesis using st p by (rule that)
qed

definition peek :: "executor \<Rightarrow> u32 \<Rightarrow> u32" where
  "peek s a = (case ptab s a of Some r \<Rightarrow> mem_value r | None \<Rightarrow> 0)"

definition put_word :: "u32 \<Rightarrow> u32 \<Rightarrow> isa \<Rightarrow> isa" where
  "put_word a w t = t\<lparr>isa_mem := (\<lambda>x. if align x = a then to_le_bytes w ! lane x else isa_mem t x)\<rparr>"

lemma execute_store_cases:
  assumes "wf_instruction i" "is_memory_store_instruction i"
    and addr: "addr = isa_reg (arch s) (op_b i) + op_c i" and a: "a = isa_reg (arch s) (ucast (op_a i))"
  shows "\<not> in_range (align addr) \<Longrightarrow> execute_store i s = Inl Panic"
    and "in_range (align addr) \<Longrightarrow> \<not> access_aligned (opcode i) addr
      \<Longrightarrow> execute_store i s = Inl (Err (InvalidMemoryAccess (opcode i) addr))"
    and "in_range (align addr) \<Longrightarrow> access_aligned (opcode i) addr \<Longrightarrow> \<not> valid_mem_addr (align addr)
      \<Longrightarrow> execute_store i s = Inl Panic"
    and "access_aligned (opcode i) addr \<Longrightarrow> valid_mem_addr (align addr)
      \<Longrightarrow> \<exists>w' b s'. execute_store i s = Inr ((a, b, op_c i), s')
        \<and> to_le_bytes w' = store_spec (opcode i) addr a (to_le_bytes (peek s (align addr)))
        \<and> arch s' = put_word (align addr) w' (arch s)
        \<and> (executor_mode s' = Trace \<longrightarrow> acc_memory (memory_accesses s') \<noteq> None)"
proof -
  obtain s1 where o: "store_rr i s = rbind (word_get (align addr) s1) (\<lambda>(v, s).
      Inr ((isa_reg (arch s1) (ucast (op_a i)), isa_reg (arch s1) (op_b i), op_c i, addr, v), s))"
    "stays s s1" "ptab s1 = ptab s" by (rule store_operands [OF assms(1,2) addr])
  have k1: "arch s1 = arch s" using o(2) by (simp add: stays_def)
  show "\<not> in_range (align addr) \<Longrightarrow> execute_store i s = Inl Panic"
    by (simp add: execute_store_def o(1) invalid_access)
  have ex: "\<exists>s2. arch s2 = arch s \<and> execute_store i s = rbind (store_value (opcode i) addr a (peek s (align addr))) (\<lambda>w'.
        rbind (mw_cpu (align addr) w' s2) (\<lambda>t. Inr ((a, isa_reg (arch s) (op_b i), op_c i), t)))"
    if r: "in_range (align addr)"
  proof -
    obtain s2 where g: "word_get (align addr) s1 = Inr (peek s (align addr), s2)" "stays s1 s2"
      using word_get_arch [OF r, of s1] unfolding peek_def o(3) align_align by blast
    have "arch s2 = arch s" using g(2) k1 by (simp add: stays_def)
    then show ?thesis by (intro exI [of _ s2]) (simp add: execute_store_def o(1) g(1) k1 a)
  qed
  note sv = store_value_lanes [OF assms(2), of addr a "peek s (align addr)"]
  show "execute_store i s = Inl (Err (InvalidMemoryAccess (opcode i) addr))"
    if "in_range (align addr)" "\<not> access_aligned (opcode i) addr"
    using ex that sv by auto
  show "execute_store i s = Inl Panic"
    if "in_range (align addr)" "access_aligned (opcode i) addr" "\<not> valid_mem_addr (align addr)"
    using ex that sv by (auto simp: invalid_access)
  show "\<exists>w' b s'. execute_store i s = Inr ((a, b, op_c i), s')
        \<and> to_le_bytes w' = store_spec (opcode i) addr a (to_le_bytes (peek s (align addr)))
        \<and> arch s' = put_word (align addr) w' (arch s)
        \<and> (executor_mode s' = Trace \<longrightarrow> acc_memory (memory_accesses s') \<noteq> None)"
    if al: "access_aligned (opcode i) addr" and va: "valid_mem_addr (align addr)"
  proof -
    obtain s2 where s2: "arch s2 = arch s"
      and e: "execute_store i s = rbind (store_value (opcode i) addr a (peek s (align addr))) (\<lambda>w'.
        rbind (mw_cpu (align addr) w' s2) (\<lambda>t. Inr ((a, isa_reg (arch s) (op_b i), op_c i), t)))"
      using ex [OF valid_mem_addr_in_range [OF va]] by blast
    obtain w' where w: "store_value (opcode i) addr a (peek s (align addr)) = Inr w'"
      and sp: "to_le_bytes w' = store_spec (opcode i) addr a (to_le_bytes (peek s (align addr)))" using sv al by auto
    obtain s3 where m: "mw_cpu (align addr) w' s2 = Inr s3" "keeps s2 s3" "arch s3 = put_word (align addr) w' (arch s2)"
      "executor_mode s2 = Trace \<Longrightarrow> acc_memory (memory_accesses s3) \<noteq> None"
      using mw_cpu_arch [OF va, of w' s2] unfolding put_word_def by blast
    show ?thesis using m(4) keeps_state(6) [OF m(2)]
      by (intro exI [of _ w'] exI [of _ "isa_reg (arch s) (op_b i)"] exI [of _ s3]) (simp add: e w m(1,3) sp s2)
  qed
qed

lemma refine_store:
  assumes "wf_instruction i" "is_memory_store_instruction i"
    and h: "opcode i \<noteq> SW \<Longrightarrow> hint_consumed s (align (isa_reg (arch s) (op_b i) + op_c i))"
  shows "res_rel (op_arch i) (execute_operation env i s) (unchecked_step i (arch s))"
proof -
  define addr where "addr = isa_reg (arch s) (op_b i) + op_c i"
  define a where "a = isa_reg (arch s) (ucast (op_a i))"
  note cl = store_classes [OF assms(2)]
  note ex = execute_store_cases [OF assms(1,2) addr_def a_def]
  have step: "unchecked_step i (arch s) =
      (if \<not> in_range (align addr) then Inl Panic
       else if \<not> access_aligned (opcode i) addr then Inl (Err (InvalidMemoryAccess (opcode i) addr))
       else if \<not> valid_mem_addr (align addr) then Inl Panic
       else Inr (isa_next ((arch s)\<lparr>isa_mem :=
         write_bytes (isa_mem (arch s)) addr (take (width (opcode i)) (to_le_bytes a))\<rparr>)))"
    using cl assms(2) by (simp add: unchecked_step_def Let_def addr_def a_def)
  have op: "execute_operation env i s = with_defaults (clk (state s)) (pc (state s) + 4) (execute_store i s)"
    using cl assms(2) by (simp add: execute_operation_def Let_def)
  show ?thesis
  proof (cases "access_aligned (opcode i) addr \<and> valid_mem_addr (align addr)")
    case False
    then show ?thesis using ex(1-3) by (auto simp: step op with_defaults_def)
  next
    case True
    then have al: "access_aligned (opcode i) addr" and va: "valid_mem_addr (align addr)" by simp_all
    obtain w' b s' where e: "execute_store i s = Inr ((a, b, op_c i), s')"
      and sp: "to_le_bytes w' = store_spec (opcode i) addr a (to_le_bytes (peek s (align addr)))"
      and s': "arch s' = put_word (align addr) w' (arch s)"
      and acc: "executor_mode s' = Trace \<longrightarrow> acc_memory (memory_accesses s') \<noteq> None" using ex(4) [OF al va] by blast
    have sp': "to_le_bytes w' = store_spec (opcode i) addr a (to_le_bytes (mem_value (page_entry s (align addr))))"
    proof (cases "opcode i = SW")
      case True
      then show ?thesis using sp al by (simp add: store_spec_def lane_word)
    next
      case False
      then show ?thesis using sp hint_consumed_value [OF h] by (simp add: peek_def addr_def)
    qed
    have "write_bytes (isa_mem (arch s)) addr (take (width (opcode i)) (to_le_bytes a))
        = (\<lambda>x. if align x = align addr then to_le_bytes w' ! lane x else isa_mem (arch s) x)"
      by (rule write_bytes_lanes [OF al cl(3) _ sp']) (simp add: arch_sel)
    then show ?thesis using al va acc valid_mem_addr_in_range [OF va]
      by (simp add: step op with_defaults_def e op_arch_def isa_next_def s' put_word_def arch_sel(1))
  qed
qed

section \<open>Branches, jumps, AUIPC\<close>

lemma refine_branch:
  assumes "wf_instruction i" "is_branch_instruction i"
  shows "res_rel (op_arch i) (execute_operation env i s) (unchecked_step i (arch s))"
proof -
  have nb: "\<not> imm_b i" using assms by (auto simp: is_branch_instruction_def dest: wf_not_imm_b)
  obtain ra rb where o: "i_type i = Some (ra, rb, op_c i)" "reg_u32 ra = ucast (op_a i)" "reg_u32 rb = op_b i"
    by (rule wf_i_operands [OF assms(1) nb])
  obtain b s1 where b: "rr_cpu rb B_pos s = (b, s1)" by (metis prod.exhaust)
  obtain a s2 where a: "rr_cpu ra A_pos s1 = (a, s2)" by (metis prod.exhaust)
  have k: "arch s1 = arch s" "arch s2 = arch s"
    using rr_cpu_arch(2) [OF b] rr_cpu_arch(2) [OF a] by (simp_all add: stays_def)
  have v: "b = isa_reg (arch s) (op_b i)" "a = isa_reg (arch s) (ucast (op_a i))"
    using rr_cpu_arch(1) [OF b] rr_cpu_arch(1) [OF a] by (simp_all add: k o)
  have p: "pc (state s2) = pc (state s)" using arg_cong [OF k(2), of isa_pc] by (simp add: arch_sel)
  have cl: "\<not> is_alu_instruction i" "\<not> is_memory_load_instruction i" "\<not> is_memory_store_instruction i"
    "\<not> touches_memory i" using assms(2) by (auto simp: touches_memory_def instr_class_defs)
  have t: "branch_taken (opcode i) a b = Inr (isa_branch (opcode i) a b)"
    using assms(2) unfolding is_branch_instruction_def
    by (elim insertE emptyE) (auto simp: slt_i32_def word_less_def word_le_def word_uint_eq_iff)
  show ?thesis using cl assms(2)
    by (simp add: execute_operation_def unchecked_step_def Let_def execute_branch_def branch_rr_def same_views o(1) b a t
        op_arch_def k p isa_next_def arch_sel(1) flip: v)
qed

lemma refine_jump:
  assumes "wf_instruction i" "is_jump_instruction i" "isa_reg (arch s) 0 = 0"
  shows "res_rel (op_arch i) (execute_operation env i s) (unchecked_step i (arch s))"
proof -
  have cl: "\<not> is_alu_instruction i" "\<not> is_memory_load_instruction i" "\<not> is_memory_store_instruction i"
    "\<not> is_branch_instruction i" "\<not> touches_memory i" using assms(2) by (auto simp: touches_memory_def instr_class_defs)
  have j: "opcode i = JAL \<or> opcode i = JALR" using assms(2) by (simp add: is_jump_instruction_def)
  then show ?thesis
  proof
    assume jal: "opcode i = JAL"
    obtain ra where o: "from_u8 (op_a i) = Some ra" "reg_u32 ra = ucast (op_a i)" by (rule wf_operands [OF assms(1)])
    note w = rw_cpu_arch [OF assms(3), of ra "pc (state s) + 4"]
    show ?thesis using cl assms(2) w keeps_state(1) [OF w(1)]
      by (simp add: execute_operation_def unchecked_step_def Let_def execute_jump_def jal j_type_def o op_arch_def arch_sel(1))
  next
    assume jalr: "opcode i = JALR"
    have nb: "\<not> imm_b i" using assms jalr by (auto dest: wf_not_imm_b)
    obtain ra rb where o: "i_type i = Some (ra, rb, op_c i)" "reg_u32 ra = ucast (op_a i)" "reg_u32 rb = op_b i"
      by (rule wf_i_operands [OF assms(1) nb])
    obtain b s1 where b: "rr_cpu rb B_pos s = (b, s1)" by (metis prod.exhaust)
    have k: "arch s1 = arch s" using rr_cpu_arch(2) [OF b] by (simp add: stays_def)
    have p: "pc (state s1) = pc (state s)" using arg_cong [OF k, of isa_pc] by (simp add: arch_sel)
    note w = rw_cpu_arch(2) [of s1 ra "pc (state s) + 4"]
    show ?thesis using cl assms(2,3) w rr_cpu_arch(1) [OF b]
      by (simp add: execute_operation_def unchecked_step_def Let_def execute_jump_def jalr o b op_arch_def arch_sel(1) k p)
  qed
qed

lemma refine_auipc:
  assumes "wf_instruction i" "opcode i = AUIPC" "isa_reg (arch s) 0 = 0"
  shows "res_rel (op_arch i) (execute_operation env i s) (unchecked_step i (arch s))"
proof -
  obtain ra where o: "from_u8 (op_a i) = Some ra" "reg_u32 ra = ucast (op_a i)" by (rule wf_operands [OF assms(1)])
  note w = rw_cpu_arch [OF assms(3), of ra "pc (state s) + op_b i"]
  show ?thesis using w
    by (simp add: execute_operation_def unchecked_step_def Let_def instr_class_defs assms(2) u_type_def o op_arch_def
        touches_memory_def isa_next_def arch_sel(1))
qed

section \<open>The refinement\<close>

lemma refine_instruction:
  assumes "wf_instruction i" "opcode i \<notin> {ECALL, EBREAK, UNIMP}" "isa_reg (arch s) 0 = 0"
    and "opcode i \<in> {SB, SH} \<Longrightarrow> hint_consumed s (align (isa_reg (arch s) (op_b i) + op_c i))"
  shows "res_rel (\<lambda>s' t. arch s' = t) (execute_instruction env i s) (unchecked_step i (arch s))"
proof (rule refine_operation)
  show e: "emits i" using assms(2) by (simp add: emits_def)
  let ?s = "begin_instruction i s"
  have x0: "isa_reg (arch ?s) 0 = 0" using assms(3) by simp
  have h: "hint_consumed ?s (align (isa_reg (arch ?s) (op_b i) + op_c i))" if "opcode i \<in> {SB, SH}"
    using assms(4) [OF that] by (simp add: hint_consumed_def)
  have c: "is_alu_instruction i \<or> is_memory_load_instruction i \<or> is_memory_store_instruction i
      \<or> is_branch_instruction i \<or> is_jump_instruction i \<or> opcode i = AUIPC"
    using assms(2) by (cases "opcode i") (simp_all add: instr_class_defs)
  have "res_rel (op_arch i) (execute_operation env i ?s) (unchecked_step i (arch ?s))"
    using c
  proof (elim disjE)
    assume st: "is_memory_store_instruction i"
    then have "opcode i \<noteq> SW \<Longrightarrow> opcode i \<in> {SB, SH}" by (auto simp: is_memory_store_instruction_def)
    with h show ?thesis by (intro refine_store [OF assms(1) st]) blast
  qed (blast intro: refine_alu [OF assms(1) _ x0] refine_load [OF assms(1) _ x0] refine_branch [OF assms(1)]
      refine_jump [OF assms(1) _ x0] refine_auipc [OF assms(1) _ x0])+
  then show "res_rel (op_arch i) (execute_operation env i ?s) (unchecked_step i (arch s))" by simp
qed

text \<open>
  (C1) Every instruction but ECALL, EBREAK and UNIMP, executed in any mode, is one step of the RV32IM
  architecture on the program counter, the registers and the bytes of memory: the executor
  succeeds exactly when the architecture does and with the state it prescribes, and
  otherwise fails with the same fault.  The hypotheses are that the operands are in range,
  that x0 holds 0, that the target of a jump or a taken branch is a multiple of 4 (else the
  architecture masks it or raises an exception, the executor does not: \<open>jalr_target_unmasked\<close>), and, for a store
  of a byte or a half-word, that the word does not hold a hint that was never accessed.
\<close>

theorem isa_refinement:
  assumes "wf_instruction i" "opcode i \<notin> {ECALL, EBREAK, UNIMP}" "isa_reg (arch s) 0 = 0"
    and "\<And>target. isa_target i (arch s) = Some target \<Longrightarrow> word_aligned target"
    and "opcode i \<in> {SB, SH} \<Longrightarrow> hint_consumed s (align (isa_reg (arch s) (op_b i) + op_c i))"
  shows "res_rel (\<lambda>s' t. arch s' = t) (execute_instruction env i s) (isa_step i (arch s))"
proof -
  have "unchecked_step i (arch s) = isa_step i (arch s)" by (rule unchecked_step_aligned) (rule assms(4))
  moreover have "res_rel (\<lambda>s' t. arch s' = t) (execute_instruction env i s) (unchecked_step i (arch s))"
    using assms(1-3,5) by (rule refine_instruction)
  ultimately show ?thesis by simp
qed

definition fresh :: executor where
  "fresh = with_context 48 Map.empty program_default 2097152 1 None True"

lemma fresh_state [simp]:
  "state fresh = state_new 0" "unconstrained fresh = False" "executor_mode fresh = Trace"
  "program fresh = program_default"
  by (simp_all add: fresh_def with_context_def program_default_def)

lemma arch_fresh: "isa_reg (arch fresh) a = 0"
  by (simp add: arch_sel state_new_def entry_record_def initial_value_def mem_empty_def)

theorem isa_refinement_witness:
  "\<exists>s'. execute_instruction undefined (instr_new SB 0 0 0x1001 False True) fresh = Inr s'
     \<and> arch s' = isa_next ((arch fresh)\<lparr>isa_mem := write_bytes (isa_mem (arch fresh)) 0x1001 [0]\<rparr>)"
proof -
  let ?i = "instr_new SB 0 0 0x1001 False True"
  have "res_rel (\<lambda>s' t. arch s' = t) (execute_instruction undefined ?i fresh) (isa_step ?i (arch fresh))"
    by (rule isa_refinement)
      (simp_all add: instr_new_def wf_instruction_def arch_fresh hint_consumed_def state_new_def mem_empty_def
        initial_value_def isa_target_def instr_class_defs)
  moreover have "isa_step ?i (arch fresh)
      = Inr (isa_next ((arch fresh)\<lparr>isa_mem := write_bytes (isa_mem (arch fresh)) 0x1001 [0]\<rparr>))"
    by (simp add: isa_step_def instr_new_def instr_class_defs Let_def arch_fresh in_range_def align_def
        valid_mem_addr_def word_aligned_def BABYBEAR_PRIME_def to_le_bytes_def)
  ultimately show ?thesis by (cases "execute_instruction undefined ?i fresh") auto
qed

text \<open>
  (C37) JALR to a target that is not a multiple of 4: the executor does not fail and goes to the
  sum of register and immediate as it is, the lowest bit included, which is not what RV32IM
  does.
\<close>

theorem jalr_target_unmasked:
  assumes "wf_instruction i" "opcode i = JALR" "isa_reg (arch s) 0 = 0"
    and "target = isa_reg (arch s) (op_b i) + op_c i" "\<not> word_aligned target"
  shows "\<exists>s'. execute_instruction env i s = Inr s' \<and> isa_pc (arch s') = target \<and> isa_step i (arch s) \<noteq> Inr (arch s')"
proof -
  have cl: "\<not> is_alu_instruction i" "\<not> is_memory_load_instruction i" "\<not> is_memory_store_instruction i" "\<not> is_branch_instruction i"
    using assms(2) by (simp_all add: instr_class_defs)
  have "res_rel (\<lambda>s' t. arch s' = t) (execute_instruction env i s) (unchecked_step i (arch s))"
    by (rule refine_instruction) (use assms in simp_all)
  then obtain s' where s': "execute_instruction env i s = Inr s'" "isa_pc (arch s') = target"
    using assms(2,4) cl by (cases "execute_instruction env i s") (auto simp: unchecked_step_def Let_def)
  moreover have "isa_step i (arch s) \<noteq> Inr (arch s')"
  proof
    assume "isa_step i (arch s) = Inr (arch s')"
    then have "word_aligned (isa_pc (arch s'))"
      using assms(2) cl by (auto simp: isa_step_def Let_def isa_jump_def split: if_splits dest!: arg_cong [where f = isa_pc])
    then show False using s'(2) assms(5) by simp
  qed
  ultimately show ?thesis by blast
qed

theorem jalr_target_unmasked_witness:
  "\<exists>s'. execute_instruction undefined (instr_new JALR 1 0 7 False True) fresh = Inr s' \<and> isa_pc (arch s') = 7
     \<and> isa_step (instr_new JALR 1 0 7 False True) (arch fresh) \<noteq> Inr (arch s')"
  by (rule jalr_target_unmasked) (simp_all add: instr_new_def wf_instruction_def arch_fresh word_aligned_def instr_class_defs)

text \<open>
  (C31) The last hypothesis is needed: a store into a word that is not in memory yet takes the
  bytes it does not cover from the value 0 that \<open>word\<close> reports, not from the hint the word
  was given.  A hinted word whose first access is a store of a byte or a half-word loses its
  other bytes.
\<close>

theorem store_ignores_hint:
  assumes "wf_instruction i" "is_memory_store_instruction i"
    and "addr = isa_reg (arch s) (op_b i) + op_c i" "access_aligned (opcode i) addr" "valid_mem_addr (align addr)"
    and "ptab s (align addr) = None"
  shows "\<exists>s'. execute_instruction env i s = Inr s'
    \<and> map (\<lambda>k. isa_mem (arch s') (align addr + of_nat k)) [0..<4]
      = store_spec (opcode i) addr (isa_reg (arch s) (ucast (op_a i))) [0, 0, 0, 0]"
proof -
  let ?s = "begin_instruction i s"
  note cl = store_classes [OF assms(2)]
  obtain w' b s' where e: "execute_store i ?s = Inr ((isa_reg (arch s) (ucast (op_a i)), b, op_c i), s')"
    and sp: "to_le_bytes w' = store_spec (opcode i) addr (isa_reg (arch s) (ucast (op_a i))) (to_le_bytes (peek ?s (align addr)))"
    and s': "arch s' = put_word (align addr) w' (arch s)"
    and acc: "executor_mode s' = Trace \<longrightarrow> acc_memory (memory_accesses s') \<noteq> None"
    using execute_store_cases(4) [OF assms(1,2) _ refl assms(4,5), of ?s] assms(3) by auto
  let ?r = "((isa_reg (arch s) (ucast (op_a i)), b, op_c i, clk (state s), pc (state s) + 4, HALT, 0), s')"
  have o: "execute_operation env i ?s = Inr ?r"
    using cl assms(2) e by (simp add: execute_operation_def Let_def with_defaults_def)
  have em: "emits i" using cl by (simp add: emits_cases)
  obtain u where "end_instruction i ?r = Inr u" and ua: "arch u = (arch s')\<lparr>isa_pc := pc (state s) + 4\<rparr>"
    using end_instruction_arch [OF em, of s'] acc by blast
  then have u: "execute_instruction env i s = Inr u" by (simp add: execute_instruction_eq o)
  have z: "lane (align addr) = 0" by (simp add: lane_def unat_align)
  have "isa_mem (arch u) (align addr + of_nat k) = to_le_bytes w' ! k" if "k < 4" for k
    using that within_word [of "align addr" k] z by (simp add: ua s' put_word_def)
  then have "map (\<lambda>k. isa_mem (arch u) (align addr + of_nat k)) [0..<4] = to_le_bytes w'"
    by (simp add: list_eq_iff_nth_eq)
  then show ?thesis using u sp assms(6) by (simp add: peek_def to_le_bytes_def)
qed

definition hinted :: executor where
  "hinted = upd_state (\<lambda>st. st\<lparr>uninitialized_memory := mem_empty\<lparr>page_table := [0x1000 \<mapsto> 0x44332211]\<rparr>\<rparr>) fresh"

theorem store_ignores_hint_witness:
  "map (\<lambda>k. isa_mem (arch hinted) (0x1000 + of_nat k)) [0..<4] = [0x11, 0x22, 0x33, 0x44]
   \<and> (\<exists>s'. execute_instruction undefined (instr_new SB 0 0 0x1000 False True) hinted = Inr s'
        \<and> map (\<lambda>k. isa_mem (arch s') (0x1000 + of_nat k)) [0..<4] = [0, 0, 0, 0])"
proof -
  let ?i = "instr_new SB 0 0 0x1000 False True"
  have r: "isa_reg (arch hinted) a = 0" for a
    by (simp add: arch_sel hinted_def state_new_def entry_record_def initial_value_def mem_empty_def)
  have pt: "ptab hinted = Map.empty" by (simp add: hinted_def state_new_def mem_empty_def)
  have al: "align 0x1000 = (0x1000 :: u32)" by (simp add: align_def)
  have "\<exists>s'. execute_instruction undefined ?i hinted = Inr s' \<and> map (\<lambda>k. isa_mem (arch s') (align 0x1000 + of_nat k)) [0..<4]
      = store_spec (opcode ?i) 0x1000 (isa_reg (arch hinted) (ucast (op_a ?i))) [0, 0, 0, 0]"
    by (rule store_ignores_hint)
      (simp_all add: instr_new_def wf_instruction_def is_memory_store_instruction_def r al valid_mem_addr_def
        word_aligned_def BABYBEAR_PRIME_def pt)
  moreover have "map (\<lambda>k. isa_mem (arch hinted) (0x1000 + of_nat k)) [0..<4] = [0x11, 0x22, 0x33, 0x44]"
    by (simp add: upt_rec arch_sel hinted_def state_new_def entry_record_def initial_value_def mem_empty_def align_def
        lane_def to_le_bytes_def)
  ultimately show ?thesis by (simp add: al r instr_new_def store_spec_def lane_def to_le_bytes_def)
qed

end
