(* ===== verification/SP1_Run.thy ===== *)
theory SP1_Run
  imports SP1_Cpu
begin

text \<open>
  The cycle with its shard boundaries, and the drivers: \<open>execute_cycle\<close>, \<open>bump_record\<close>,
  \<open>initialize\<close>, \<open>execute\<close>, \<open>postprocess\<close>, \<open>execute_record\<close>, \<open>execute_state\<close>,
  \<open>estimate_riscv_event_counts\<close> of \<open>executor.rs\<close>, and \<open>cost.rs\<close>.

  A program may run forever, so the loop of \<open>execute\<close> is a partial function: \<open>None\<close> means
  that it does not return.
\<close>

section \<open>Estimates of the trace\<close>

definition div_ceil :: "u64 \<Rightarrow> u64 \<Rightarrow> u64" where
  "div_ceil a b = (if a mod b > 0 then a div b + 1 else a div b)"

definition NUM_LOCAL_MEMORY_ENTRIES_PER_ROW_EXEC :: u64 where
  "NUM_LOCAL_MEMORY_ENTRIES_PER_ROW_EXEC = 4"

definition estimate_counts :: "u64 \<Rightarrow> u64 \<Rightarrow> u64 \<Rightarrow> (opcode \<Rightarrow> u64) \<Rightarrow> (riscv_air_id \<Rightarrow> u64) \<Rightarrow> (riscv_air_id \<Rightarrow> u64)" where
  "estimate_counts cpu_cycles touched_addresses syscalls oc m =
     (let m = m(Air_Cpu := cpu_cycles);
          m = m(Air_AddSub := oc ADD + oc SUB);
          m = m(Air_Mul := oc MUL + oc MULH + oc MULHU + oc MULHSU);
          m = m(Air_Bitwise := oc XOR_op + oc OR_op + oc AND_op);
          m = m(Air_ShiftLeft := oc SLL);
          m = m(Air_ShiftRight := oc SRL + oc SRA);
          m = m(Air_DivRem := oc DIV + oc DIVU + oc REM + oc REMU);
          m = m(Air_Lt := oc SLT + oc SLTU);
          m = m(Air_MemoryLocal := div_ceil touched_addresses NUM_LOCAL_MEMORY_ENTRIES_PER_ROW_EXEC);
          m = m(Air_Branch := oc BEQ + oc BNE + oc BLT + oc BGE + oc BLTU + oc BGEU);
          m = m(Air_Jump := oc JAL + oc JALR);
          m = m(Air_Auipc := oc AUIPC + oc UNIMP + oc EBREAK);
          m = m(Air_MemoryInstrs := oc LB + oc LH + oc LW + oc LBU + oc LHU + oc SB + oc SH + oc SW);
          m = m(Air_SyscallInstrs := oc ECALL);
          m = m(Air_SyscallCore := syscalls);
          m = m(Air_Global := 2 * touched_addresses + m Air_SyscallInstrs);
          m = m(Air_Mul := m Air_Mul + m Air_DivRem);
          m = m(Air_Lt := m Air_Lt + m Air_DivRem)
      in m)"

definition estimate_riscv_event_counts :: "u64 \<Rightarrow> u64 \<Rightarrow> u64 \<Rightarrow> (opcode \<Rightarrow> u64) \<Rightarrow> executor \<Rightarrow> executor" where
  "estimate_riscv_event_counts cpu_cycles touched_addresses syscalls oc s =
     s\<lparr>event_counts := estimate_counts cpu_cycles touched_addresses syscalls oc (event_counts s)\<rparr>"

text \<open>\<open>cost.rs\<close>: \<open>next_power_of_two\<close> wraps to 0 above \<open>2^63\<close> in the release profile; indexing the
  costs panics where there is none.\<close>

fun bit_length :: "nat \<Rightarrow> nat" where
  "bit_length n = (if n = 0 then 0 else Suc (bit_length (n div 2)))"

declare bit_length.simps [simp del]

definition next_power_of_two :: "u64 \<Rightarrow> u64" where
  "next_power_of_two n = (if n \<le> 1 then 1 else 2 ^ bit_length (unat n - 1))"

definition cost_of :: "(riscv_air_id \<rightharpoonup> u64) \<Rightarrow> riscv_air_id \<Rightarrow> u64 res" where
  "cost_of cs air = of_option (cs air)"

definition BYTE_NUM_ROWS :: u64 where "BYTE_NUM_ROWS = 2 ^ 16"
definition MAX_PROGRAM_SIZE :: u64 where "MAX_PROGRAM_SIZE = 2 ^ 22"

definition lde_airs :: "riscv_air_id list" where
  "lde_airs = [Air_Cpu, Air_AddSub, Air_Mul, Air_Bitwise, Air_ShiftLeft, Air_ShiftRight, Air_DivRem, Air_Lt,
     Air_MemoryLocal, Air_Branch, Air_Jump, Air_Auipc, Air_MemoryInstrs, Air_SyscallInstrs, Air_SyscallCore, Air_Global]"

fun add_cells :: "(riscv_air_id \<Rightarrow> u64) \<Rightarrow> (riscv_air_id \<rightharpoonup> u64) \<Rightarrow> riscv_air_id list \<Rightarrow> u64 \<Rightarrow> u64 res" where
  "add_cells m cs [] cells = Inr cells"
| "add_cells m cs (air # airs) cells =
     rbind (cost_of cs air) (\<lambda>c. add_cells m cs airs (cells + next_power_of_two (m air) * c))"

text \<open>\<open>size_of::<BabyBear>()\<close> is 4.\<close>

definition estimate_riscv_lde_size :: "(riscv_air_id \<Rightarrow> u64) \<Rightarrow> (riscv_air_id \<rightharpoonup> u64) \<Rightarrow> u64 res" where
  "estimate_riscv_lde_size m cs =
     rbind (cost_of cs Air_Byte) (\<lambda>cb.
     rbind (cost_of cs Air_Program) (\<lambda>cp.
     rbind (add_cells m cs lde_airs (BYTE_NUM_ROWS * cb + MAX_PROGRAM_SIZE * cp)) (\<lambda>cells.
     Inr (cells * push_bit 1 4))))"

fun pad_factor :: "riscv_air_id \<Rightarrow> u64" where
  "pad_factor Air_Cpu = 1" | "pad_factor Air_AddSub = 5" | "pad_factor Air_Mul = 4" | "pad_factor Air_Bitwise = 3"
| "pad_factor Air_ShiftLeft = 1" | "pad_factor Air_ShiftRight = 1" | "pad_factor Air_DivRem = 4"
| "pad_factor Air_Lt = 2" | "pad_factor Air_MemoryLocal = 64" | "pad_factor Air_Branch = 8" | "pad_factor Air_Jump = 2"
| "pad_factor Air_Auipc = 3" | "pad_factor Air_MemoryInstrs = 8" | "pad_factor Air_SyscallInstrs = 1"
| "pad_factor Air_SyscallCore = 2" | "pad_factor Air_Global = 64"
| "pad_factor _ = 0"

definition pad_rv32im_event_counts :: "(riscv_air_id \<Rightarrow> u64) \<Rightarrow> u64 \<Rightarrow> (riscv_air_id \<Rightarrow> u64)" where
  "pad_rv32im_event_counts m cycles = (\<lambda>air. m air + pad_factor air * cycles)"

section \<open>Shapes\<close>

definition core_airs :: "riscv_air_id list" where
  "core_airs = [Air_Cpu, Air_SyscallCore, Air_DivRem, Air_AddSub, Air_Bitwise, Air_Mul, Air_ShiftRight, Air_ShiftLeft,
     Air_Lt, Air_MemoryInstrs, Air_Auipc, Air_Branch, Air_Jump, Air_SyscallInstrs, Air_MemoryLocal, Air_Global]"

definition distance :: "u64 \<Rightarrow> u64 \<Rightarrow> u64" where
  "distance threshold count = (if count \<noteq> 0 then threshold - count else - 1)"

text \<open>The inner loop: \<open>None\<close> if the shape is too small, else the smallest distance.\<close>

fun l_infinity :: "(riscv_air_id \<Rightarrow> u32) \<Rightarrow> (riscv_air_id \<Rightarrow> u64) \<Rightarrow> riscv_air_id list \<Rightarrow> u64 \<Rightarrow> u64 option" where
  "l_infinity shape m [] acc = Some acc"
| "l_infinity shape m (air # airs) acc =
     (if air = Air_Cpu then l_infinity shape m airs acc
      else
        let threshold = push_bit (unat (shape air) mod 64) 1; count = m air in
        if count > threshold then None
        else l_infinity shape m airs (if distance threshold count < acc then distance threshold count else acc))"

definition shape_fits :: "executor \<Rightarrow> (riscv_air_id \<Rightarrow> u32) \<Rightarrow> bool" where
  "shape_fits s shape =
     (if clk (state s) > push_bit 2 (wrapping_shl 1 (shape Air_Cpu)) then False
      else case l_infinity shape (event_counts s) core_airs (- 1) of
        None \<Rightarrow> False
      | Some l \<Rightarrow> l \<ge> 32 * shape_check_frequency s)"

text \<open>The check every \<open>shape_check_frequency\<close> cycles; the remainder by 0 panics.\<close>

definition check_shape :: "executor \<Rightarrow> (bool \<times> executor) res" where
  "check_shape s =
     (if shape_check_frequency s = 0 then Inl Panic
      else if global_clk (state s) mod shape_check_frequency s \<noteq> 0 then Inr (True, s)
      else
        let s = estimate_riscv_event_counts (ucast (drop_bit 2 (clk (state s)))) (local_mem (local_counts s))
                  (syscalls_sent (local_counts s)) (lc_event_counts (local_counts s)) s in
        if lde_size_check s then
          rbind (estimate_riscv_lde_size (pad_rv32im_event_counts (event_counts s) (shape_check_frequency s)) (costs s))
            (\<lambda>padded. Inr (\<not> padded > lde_size_threshold s, s))
        else (case maximal_shapes s of
            None \<Rightarrow> Inr (True, s)
          | Some shapes \<Rightarrow>
              let found = (\<exists>shape\<in>set shapes. shape_fits s shape) in
              Inr (found, if found then s else upd_record (\<lambda>r. r\<lparr>counts := Some (event_counts s)\<rparr>) s)))"

section \<open>Records\<close>

definition bump_record :: "executor \<Rightarrow> executor" where
  "bump_record s =
     (let s = s\<lparr>local_counts := local_counts_default\<rparr>;
          s = (if executor_mode s = Trace
               then upd_record (\<lambda>r. r\<lparr>cpu_local_memory_access := cpu_local_memory_access r @ map snd (local_memory_access s)\<rparr>)
                      (s\<lparr>local_memory_access := []\<rparr>)
               else s);
          removed = exec_record s
      in s\<lparr>exec_record := (record_new (program s))\<lparr>public_values := public_values removed\<rparr>,
           records := records s @ [removed]\<rparr>)"

section \<open>One cycle\<close>

definition next_shard :: "executor \<Rightarrow> executor" where
  "next_shard s = bump_record (upd_state (\<lambda>st. st\<lparr>current_shard := current_shard st + 1, clk := 0\<rparr>) s)"

definition is_done :: "executor \<Rightarrow> bool" where
  "is_done s \<longleftrightarrow> pc (state s) = 0
     \<or> pc (state s) - pc_base (program s) \<ge> of_nat (length (instructions (program s)) * 4)"

definition check_limits :: "executor \<Rightarrow> (bool \<times> executor) res" where
  "check_limits s =
     (case max_cycles s of
        Some m \<Rightarrow> if global_clk (state s) \<ge> m then Inl (Err (ExceededCycleLimit m)) else
          if is_done s \<and> unconstrained s then Inl (Err EndInUnconstrained) else Inr (is_done s, s)
      | None \<Rightarrow> if is_done s \<and> unconstrained s then Inl (Err EndInUnconstrained) else Inr (is_done s, s))"

definition shard_boundary :: "executor \<Rightarrow> executor res" where
  "shard_boundary s = (if unconstrained s then Inr s else
     (let cpu_exit = (max_syscall_cycles s + clk (state s) \<ge> shard_size s) in
      rbind (check_shape s) (\<lambda>(shape_match_found, s).
      Inr (if cpu_exit \<or> \<not> shape_match_found then next_shard s else s))))"

definition execute_cycle :: "env \<Rightarrow> executor \<Rightarrow> (bool \<times> executor) res" where
  "execute_cycle env s =
     rbind (fetch (program s) (pc (state s))) (\<lambda>i.
     rbind (execute_instruction env i s) (\<lambda>s.
     let s = upd_state (\<lambda>st. st\<lparr>global_clk := global_clk st + 1\<rparr>) s in
     rbind (shard_boundary s) check_limits))"

section \<open>Global memory events\<close>

text \<open>The addresses of the page table in the order of its iterator (ascending); in range and
  aligned by construction.\<close>

definition page_keys :: "'v page_map \<Rightarrow> u32 list" where
  "page_keys t = filter (\<lambda>a. t a \<noteq> None) (map (\<lambda>k. of_nat (4 * k)) [0..<30721 * 16384])"

definition init_event :: "executor \<Rightarrow> (u32 \<rightharpoonup> u32) \<Rightarrow> u32 \<Rightarrow> memory_init_final_event list" where
  "init_event s um addr = (if addr \<in> fst ` set (memory_image (er_program (exec_record s))) then []
     else [mif_initialize addr (case um addr of Some v \<Rightarrow> v | None \<Rightarrow> 0) True])"

definition addr_0_final :: "memory_record option \<Rightarrow> memory_record" where
  "addr_0_final r = (case r of Some rec \<Rightarrow> rec | None \<Rightarrow> \<lparr>mem_shard = 0, mem_timestamp = 1, mem_value = 0\<rparr>)"

definition touched_registers :: "executor \<Rightarrow> u32 list" where
  "touched_registers s = filter (\<lambda>a. regs s a \<noteq> None) (map of_nat [1..<32])"

definition global_memory_events :: "executor \<Rightarrow> executor" where
  "global_memory_events s =
     (let r0 = regs s 0;
          rs = touched_registers s;
          ps = page_keys (ptab s);
          fin = mif_finalize_from_record 0 (addr_0_final r0)
            # map (\<lambda>a. mif_finalize_from_record a (the (regs s a))) rs
            @ map (\<lambda>a. mif_finalize_from_record a (the (ptab s a))) ps;
          ini = mif_initialize 0 0 (r0 \<noteq> None)
            # concat (map (init_event s (registers (uninitialized_memory (state s)))) rs)
            @ concat (map (init_event s (page_table (uninitialized_memory (state s)))) ps)
      in upd_record (\<lambda>r. r\<lparr>global_memory_finalize_events := global_memory_finalize_events r @ fin,
                           global_memory_initialize_events := global_memory_initialize_events r @ ini\<rparr>)
           (s\<lparr>report := (report s)\<lparr>touched_memory_addresses := of_nat (length rs + length ps)\<rparr>\<rparr>))"

text \<open>\<open>postprocess\<close>: printing the buffers and the warnings is left out.\<close>

definition exec_postprocess :: "executor \<Rightarrow> executor" where
  "exec_postprocess s =
     (if emit_global_memory_events s \<and> (executor_mode s = Trace \<or> executor_mode s = Checkpoint)
      then global_memory_events s else s)"

section \<open>A batch of shards\<close>

fun load_image :: "(u32 \<times> u32) list \<Rightarrow> memory_record memory \<Rightarrow> memory_record memory res" where
  "load_image [] m = Inr m"
| "load_image ((addr, v) # rest) m =
     rbind (mem_insert m addr \<lparr>mem_shard = 0, mem_timestamp = 0, mem_value = v\<rparr>) (load_image rest)"

definition initialize :: "executor \<Rightarrow> executor res" where
  "initialize s = rbind (load_image (memory_image (program s)) (memory (state s))) (\<lambda>m.
     Inr (upd_state (\<lambda>st. st\<lparr>clk := 0, memory := m\<rparr>) s))"

partial_function (option) execute_loop :: "env \<Rightarrow> u32 \<Rightarrow> u32 \<Rightarrow> executor \<Rightarrow> (bool \<times> executor) res option" where
  "execute_loop env shard num s = (case execute_cycle env s of
       Inl e \<Rightarrow> Some (Inl e)
     | Inr (finished, s') \<Rightarrow>
         if finished then Some (Inr (True, s'))
         else if shard_batch_size s' > 0 \<and> shard \<noteq> current_shard (state s') then
           (if num + 1 = shard_batch_size s' then Some (Inr (False, s'))
            else execute_loop env (current_shard (state s')) (num + 1) s')
         else execute_loop env shard num s')"

text \<open>The last loop of \<open>execute\<close>: the public values of every record.\<close>

definition chain_values :: "public_values \<Rightarrow> u32 \<Rightarrow> u32 \<Rightarrow> u32 \<Rightarrow> execution_record \<Rightarrow> public_values" where
  "chain_values pv shard last_next_pc last_exit_code r =
     (let pv = pv\<lparr>pv_execution_shard := shard\<rparr> in
      case cpu_events r of
        [] \<Rightarrow> pv\<lparr>pv_start_pc := last_next_pc, pv_next_pc := last_next_pc, pv_exit_code := last_exit_code\<rparr>
      | e # _ \<Rightarrow> pv\<lparr>pv_start_pc := cpu_pc e, pv_next_pc := cpu_next_pc (last (cpu_events r)),
                    pv_exit_code := cpu_exit_code (last (cpu_events r))\<rparr>)"

fun set_public_values :: "program \<Rightarrow> public_values \<Rightarrow> u32 \<Rightarrow> u32 \<Rightarrow> u32 \<Rightarrow> execution_record list \<Rightarrow> execution_record list" where
  "set_public_values p pv shard last_next_pc last_exit_code [] = []"
| "set_public_values p pv shard last_next_pc last_exit_code (r # rs) =
     (let v = chain_values pv shard last_next_pc last_exit_code r in
      r\<lparr>er_program := p, public_values := v\<rparr> #
      (if cpu_events r = [] then set_public_values p pv (shard + 1) last_next_pc last_exit_code rs
       else set_public_values p pv (shard + 1) (pv_next_pc v) (pv_exit_code v) rs))"

definition finish_batch :: "program \<Rightarrow> u32 \<Rightarrow> bool \<times> executor \<Rightarrow> bool \<times> executor" where
  "finish_batch p start_shard = (\<lambda>(finished, s).
     let pv = public_values (exec_record s);
         s = (if finished then bump_record (exec_postprocess s) else s);
         s = (if cpu_events (exec_record s) \<noteq> [] then bump_record s else s)
     in (finished, s\<lparr>records := set_public_values p pv start_shard 0 0 (records s)\<rparr>))"

definition execute :: "env \<Rightarrow> executor \<Rightarrow> (bool \<times> executor) res option" where
  "execute env s =
     (let p = program s; start_shard = current_shard (state s) in
      case (if global_clk (state s) = 0 then initialize s else Inr s) of
        Inl e \<Rightarrow> Some (Inl e)
      | Inr s \<Rightarrow> map_option (map_sum id (finish_batch p start_shard)) (execute_loop env (current_shard (state s)) 0 s))"

definition execute_record :: "env \<Rightarrow> bool \<Rightarrow> executor \<Rightarrow> ((execution_record list \<times> bool) \<times> executor) res option" where
  "execute_record env emit s =
     map_option (\<lambda>r. rbind r (\<lambda>(finished, s). Inr ((records s, finished), s\<lparr>records := []\<rparr>)))
       (execute env (s\<lparr>executor_mode := Trace, emit_global_memory_events := emit, print_report := True\<rparr>))"

end
