(* ===== verification/SP1_Frame.thy ===== *)
theory SP1_Frame
  imports SP1_Isa SP1_Run
begin

text \<open>
  Reasoning about everything the executor can do at once.  The locales \<open>operations\<close> and \<open>frame\<close> are the
  interface between the primitive accesses and updates of the executor and the code built
  from them: it fixes a relation \<open>Q\<close> between two executors and asks that each primitive keep
  it.  The instructions and the system calls are built from the primitives by sequencing, so
  they keep \<open>Q\<close> too; that is proved once, in the locale.

  With \<open>Q s t\<close> saying \<open>s = t\<close> and something of \<open>s\<close>, the locale gives invariants; with \<open>Q\<close>
  relating executors in different modes it gives the independence of the execution from the
  mode.
\<close>

section \<open>Related runs of a syscall\<close>

lemma res_rel_refl: "res_rel (=) x x"
  by (cases x) simp_all

definition same :: "('s \<Rightarrow> 't \<Rightarrow> bool) \<Rightarrow> 'a \<times> 's \<Rightarrow> 'a \<times> 't \<Rightarrow> bool" where
  "same Q = (\<lambda>(x, s) (y, t). x = y \<and> Q s t)"

lemma same_simps [simp]: "same Q (x, s) (y, t) \<longleftrightarrow> x = y \<and> Q s t"
  by (simp add: same_def)

definition related :: "(syscall_context \<Rightarrow> syscall_context \<Rightarrow> bool) \<Rightarrow> 'a sys \<Rightarrow> bool" where
  "related R f \<longleftrightarrow> (\<forall>c d. R c d \<longrightarrow> res_rel (same R) (f c) (f d))"

lemma relatedI: "(\<And>c d. R c d \<Longrightarrow> res_rel (same R) (f c) (f d)) \<Longrightarrow> related R f"
  by (simp add: related_def)

lemma relatedD: "related R f \<Longrightarrow> R c d \<Longrightarrow> res_rel (same R) (f c) (f d)"
  by (simp add: related_def)

lemma related_bind:
  assumes "related R f" "\<And>x. related R (g x)"
  shows "related R (sbind f g)"
proof (rule relatedI)
  fix c d assume "R c d"
  then show "res_rel (same R) (sbind f g c) (sbind f g d)"
    unfolding sbind_def using assms
    by (intro res_rel_bind [OF relatedD [OF assms(1)]]) (auto simp: same_def related_def)
qed

lemma related_ret: "related R (sret x)"
  by (simp add: related_def sret_def)

lemma related_panic: "related R spanic"
  by (simp add: related_def spanic_def)

lemma related_assert: "related R (sassert b)"
  by (simp add: sassert_def related_ret related_panic)

lemma related_lift: "related R (slift r)"
  by (cases r) (simp_all add: related_def slift_def)

lemma related_unwrap: "related R (unwrap x)"
  by (cases x) (simp_all add: unwrap_def related_ret related_panic)

lemma related_get: "(\<And>c d. R c d \<Longrightarrow> f c = f d) \<Longrightarrow> related R (sget f)"
  by (simp add: related_def sget_def)

lemma related_upd: "(\<And>c d. R c d \<Longrightarrow> R (f c) (f d)) \<Longrightarrow> related R (supd f)"
  by (simp add: related_def supd_def)

lemma related_for: "(\<And>i. related R (f i)) \<Longrightarrow> related R (sfor f is)"
  by (induction "is") (auto intro!: related_bind related_ret)

lemma related_fold: "(\<And>i s. related R (f i s)) \<Longrightarrow> related R (sfold f is s)"
  by (induction "is" arbitrary: s) (auto intro!: related_bind related_ret)

lemma related_prod: "(\<And>a b. related R (f a b)) \<Longrightarrow> related R (case p of (a, b) \<Rightarrow> f a b)"
  by (cases p) simp

lemma related_let: "related R (f x) \<Longrightarrow> related R (let y = x in f y)"
  by simp

lemma related_if: "(b \<Longrightarrow> related R f) \<Longrightarrow> (\<not> b \<Longrightarrow> related R g) \<Longrightarrow> related R (if b then f else g)"
  by simp

lemma related_list: "related R f \<Longrightarrow> (\<And>x xs. related R (g x xs)) \<Longrightarrow> related R (case l of [] \<Rightarrow> f | x # xs \<Rightarrow> g x xs)"
  by (cases l) simp_all

lemma related_option: "related R f \<Longrightarrow> (\<And>x. related R (g x)) \<Longrightarrow> related R (case l of None \<Rightarrow> f | Some x \<Rightarrow> g x)"
  by (cases l) simp_all

lemma sbind_ret: "sbind (sret x) f = f x"
  by (simp add: sbind_def sret_def)

lemma sbind_panic: "sbind spanic f = spanic"
  by (simp add: sbind_def spanic_def)

lemma sbind_if: "sbind (if b then f else g) h = (if b then sbind f h else sbind g h)"
  by simp

lemma should_send_codes:
  "should_send BN254_FP_ADD = 1" "should_send BLS12381_FP_ADD = 1"
  "should_send BN254_FP2_ADD = 1" "should_send BLS12381_FP2_ADD = 1"
  by (simp_all add: should_send_def to_le_bytes_def)

lemmas related_control = related_bind related_ret related_panic related_assert related_lift related_unwrap
  related_for related_fold related_prod related_let related_if related_list related_option

section \<open>The memory access of a load or store is recorded\<close>

lemma mr_cpu_acc: "mr_cpu a s = Inr (v, s') \<Longrightarrow> executor_mode s' = Trace \<Longrightarrow> acc_memory (memory_accesses s') \<noteq> None"
  by (auto simp: mr_cpu_def rbind_eq_Inr)

lemma mw_cpu_acc: "mw_cpu a v s = Inr s' \<Longrightarrow> executor_mode s' = Trace \<Longrightarrow> acc_memory (memory_accesses s') \<noteq> None"
  by (auto simp: mw_cpu_def rbind_eq_Inr)

lemma rw_cpu_mode: "executor_mode (rw_cpu r v s) = executor_mode s"
  using rw_cpu_spec [of r v s] by (simp add: reg_effect_def keeps_def)

lemma operation_acc:
  assumes "execute_operation env i s = Inr (x, s')" "touches_memory i" "executor_mode s' = Trace"
  shows "acc_memory (memory_accesses s') \<noteq> None"
proof (cases "is_memory_load_instruction i")
  case True
  with assms obtain a w t0 r v t where m: "mr_cpu a t0 = Inr (w, t)" and s': "s' = rw_cpu r v t"
    using load_classes(1) [OF True]
    by (auto simp: execute_operation_def Let_def with_defaults_def execute_load_def load_rr_def rbind_eq_Inr
        case_prod_unfold)
  show ?thesis using mr_cpu_acc [OF m] assms(3) by (simp add: s' rw_cpu_acc_memory rw_cpu_mode)
next
  case False
  then have st: "is_memory_store_instruction i" using assms(2) by (simp add: touches_memory_def)
  with False assms(1) obtain a v t where "mw_cpu a v t = Inr s'"
    using store_classes(1) [OF st]
    by (auto simp: execute_operation_def Let_def with_defaults_def execute_store_def rbind_eq_Inr split: prod.splits)
  then show ?thesis using assms(3) by (rule mw_cpu_acc)
qed

section \<open>The interface\<close>

text \<open>What of the executor the code reads besides the memory.\<close>

definition same_view :: "executor \<Rightarrow> executor \<Rightarrow> bool" where
  "same_view s t \<longleftrightarrow> pc (state s) = pc (state t) \<and> clk (state s) = clk (state t)
     \<and> current_shard (state s) = current_shard (state t) \<and> input_stream (state s) = input_stream (state t)
     \<and> proof_stream (state s) = proof_stream (state t) \<and> proof_stream_ptr (state s) = proof_stream_ptr (state t)
     \<and> unconstrained s = unconstrained t \<and> deferred_proof_verification s = deferred_proof_verification t
     \<and> (unconstrained s \<longrightarrow> fork_pc (unconstrained_state s) = fork_pc (unconstrained_state t))"

definition ctx_rel :: "(executor \<Rightarrow> executor \<Rightarrow> bool) \<Rightarrow> (local_map \<Rightarrow> local_map \<Rightarrow> bool)
    \<Rightarrow> syscall_context \<Rightarrow> syscall_context \<Rightarrow> bool" where
  "ctx_rel Q L c d \<longleftrightarrow> ctx_shard c = ctx_shard d \<and> ctx_clk c = ctx_clk d \<and> ctx_next_pc c = ctx_next_pc d
     \<and> ctx_exit_code c = ctx_exit_code d \<and> Q (rt c) (rt d) \<and> L (ctx_local c) (ctx_local d)"

text \<open>An access that returns a record, the local events and the executor.\<close>

definition access_rel :: "(executor \<Rightarrow> executor \<Rightarrow> bool) \<Rightarrow> (local_map \<Rightarrow> local_map \<Rightarrow> bool)
    \<Rightarrow> 'r \<times> local_map option \<times> executor \<Rightarrow> 'r \<times> local_map option \<times> executor \<Rightarrow> bool" where
  "access_rel Q L = (\<lambda>(r, lm, s) (r', lm', t). r = r' \<and> rel_option L lm lm' \<and> Q s t)"

text \<open>Updates of the executor that touch neither memory nor the bookkeeping around it.\<close>

inductive quiet :: "(executor \<Rightarrow> executor) \<Rightarrow> bool" where
  quiet_input: "quiet (upd_state (\<lambda>st. st\<lparr>input_stream := f (input_stream st)\<rparr>))"
| quiet_proof: "quiet (upd_state (\<lambda>st. st\<lparr>proof_stream_ptr := proof_stream_ptr st + 1\<rparr>))"
| quiet_public: "quiet (extend_public_values bs)"
| quiet_clk: "quiet (upd_state (\<lambda>st. st\<lparr>clk := clk st + k\<rparr>))"
| quiet_tracker: "quiet (handle_cycle_tracker_command cmd)"
| quiet_io: "quiet (\<lambda>s. snd (update_io_buf fd str s))"
| quiet_report: "quiet (report_syscall code)"
| quiet_count: "quiet (count_syscall code)"

text \<open>The end of \<open>execute_ecall\<close>, from the return of the syscall on.\<close>

definition ecall_end :: "syscall_code \<Rightarrow> u32 \<Rightarrow> u32 \<Rightarrow> u32 \<Rightarrow> u32 option \<times> syscall_context
    \<Rightarrow> ((u32 \<times> u32 \<times> u32 \<times> u32 \<times> u32 \<times> syscall_code \<times> u32) \<times> executor) res" where
  "ecall_end code sid b c = (\<lambda>(res, ctx).
     let a = (case res of Some val \<Rightarrow> val | None \<Rightarrow> sid) in
     if code = HALT \<and> ctx_exit_code ctx \<noteq> 0
     then Inl (Err (HaltWithNonZeroExitCode (ctx_exit_code ctx)))
     else
       let s = rt ctx;
           (b, c, s) = (if code = EXIT_UNCONSTRAINED
             then (let (b, s) = register_get X10 s; (c, s) = register_get X11 s in (b, c, s))
             else (b, c, s));
           s = rw_cpu X5 a s;
           clk0 = clk (state s);
           s = upd_state (\<lambda>st. st\<lparr>clk := clk st + num_extra_cycles code\<rparr>) s
       in Inr ((a, b, c, clk0, ctx_next_pc ctx, code, ctx_exit_code ctx), s))"

definition ecall_call :: "env \<Rightarrow> u32 \<Rightarrow> u32 \<Rightarrow> u32 \<Rightarrow> executor
    \<Rightarrow> ((u32 \<times> u32 \<times> u32 \<times> u32 \<times> u32 \<times> syscall_code \<times> u32) \<times> executor) res" where
  "ecall_call env sid b c s = rbind (of_option (from_u32 sid)) (\<lambda>code.
     let s = report_syscall code s in
     if unconstrained s \<and> code \<noteq> EXIT_UNCONSTRAINED \<and> code \<noteq> WRITE
     then Inl (Err (InvalidSyscallUsage (ucast sid)))
     else (case syscall_impl env code of
         None \<Rightarrow> Inl (Err (UnsupportedSyscall sid))
       | Some impl \<Rightarrow> rbind (impl b c (ctx_new (count_syscall code s))) (ecall_end code sid b c)))"

lemma execute_ecall_eq: "execute_ecall env s =
    (let (sid, s) = register_get X5 s; (c, s) = rr_cpu X11 C_pos s; (b, s) = rr_cpu X10 B_pos s in ecall_call env sid b c s)"
  unfolding execute_ecall_def ecall_call_def ecall_end_def Let_def by (simp add: case_prod_unfold)

text \<open>
  The syscalls that an instruction makes.  \<open>S\<close> below is the set of syscalls the relation is kept
  by: a relation that only makes sense inside an unconstrained block leaves out the two that
  open and close it.
\<close>

definition calls :: "instruction \<Rightarrow> executor \<Rightarrow> syscall_code \<Rightarrow> bool" where
  "calls i s code \<longleftrightarrow> is_ecall_instruction i \<and> from_u32 (fst (register_get X5 s)) = Some code"

lemma calls_begin [simp]: "calls i (begin_instruction j s) = calls i s"
  by (simp add: fun_eq_iff calls_def register_get_def begin_instruction_def count_instruction_def Let_def)

locale operations =
  fixes Q :: "executor \<Rightarrow> executor \<Rightarrow> bool"
    and L :: "local_map \<Rightarrow> local_map \<Rightarrow> bool"
    and S :: "syscall_code set"
  assumes L_nil: "L [] []"
    and view: "Q s t \<Longrightarrow> same_view s t"
    and rr_cpu: "Q s t \<Longrightarrow> same Q (rr_cpu r p s) (rr_cpu r p t)"
    and rw_cpu: "Q s t \<Longrightarrow> Q (rw_cpu r v s) (rw_cpu r v t)"
    and mr_cpu: "Q s t \<Longrightarrow> res_rel (same Q) (mr_cpu a s) (mr_cpu a t)"
    and mw_cpu: "Q s t \<Longrightarrow> res_rel Q (mw_cpu a v s) (mw_cpu a v t)"
    and mr: "Q s t \<Longrightarrow> L l l' \<Longrightarrow> res_rel (access_rel Q L) (mr a sh ts (Some l) s) (mr a sh ts (Some l') t)"
    and mw: "Q s t \<Longrightarrow> L l l' \<Longrightarrow> res_rel (access_rel Q L) (mw a v sh ts (Some l) s) (mw a v sh ts (Some l') t)"
    and rr_traced: "Q s t \<Longrightarrow> L l l' \<Longrightarrow> access_rel Q L (rr_traced r sh ts (Some l) s) (rr_traced r sh ts (Some l') t)"
    and register_get: "Q s t \<Longrightarrow> same Q (register_get r s) (register_get r t)"
    and word_get: "Q s t \<Longrightarrow> res_rel (same Q) (word_get a s) (word_get a t)"
    and quiet: "quiet f \<Longrightarrow> Q s t \<Longrightarrow> Q (f s) (f t)"
    and public: "Q s t \<Longrightarrow> res_rel Q (rbind (g (public_values (exec_record s)) :: public_values res) (\<lambda>pv. Inr (upd_record (\<lambda>r. r\<lparr>public_values := pv\<rparr>) s)))
        (rbind (g (public_values (exec_record t))) (\<lambda>pv. Inr (upd_record (\<lambda>r. r\<lparr>public_values := pv\<rparr>) t)))"
    and set_uninit: "Q s t \<Longrightarrow> \<not> unconstrained s \<Longrightarrow> res_rel Q (set_uninit a w s) (set_uninit a w t)"
    and enter_fork: "ENTER_UNCONSTRAINED \<in> S \<Longrightarrow> Q s t \<Longrightarrow> \<not> unconstrained s \<Longrightarrow> Q (enter_fork s) (enter_fork t)"
    and exit_fork: "EXIT_UNCONSTRAINED \<in> S \<Longrightarrow> Q s t \<Longrightarrow> unconstrained s \<Longrightarrow> Q (exit_fork s) (exit_fork t)"
    and drop_fork: "EXIT_UNCONSTRAINED \<in> S \<Longrightarrow> Q s t \<Longrightarrow> \<not> unconstrained s \<Longrightarrow> Q (s\<lparr>unconstrained_state := fork_default\<rparr>) (t\<lparr>unconstrained_state := fork_default\<rparr>)"
    and finish: "should_send key = 1 \<Longrightarrow> add \<in> {add_precompile_event, record_mut_add_precompile_event}
      \<Longrightarrow> related (ctx_rel Q L) (finish_precompile add key code k a b ev)"
begin

section \<open>The context's operations\<close>

abbreviation R :: "syscall_context \<Rightarrow> syscall_context \<Rightarrow> bool" where
  "R \<equiv> ctx_rel Q L"

lemma R_view: "R c d \<Longrightarrow> same_view (rt c) (rt d)"
  by (simp add: ctx_rel_def view)

lemma keep_local_rel: "R c d \<Longrightarrow> rel_option L lm lm' \<Longrightarrow> L (keep_local lm c) (keep_local lm' d)"
  by (cases lm; cases lm') (simp_all add: keep_local_def ctx_rel_def)

lemma R_access:
  assumes "R c d" "\<And>s t l l'. Q s t \<Longrightarrow> L l l' \<Longrightarrow> res_rel (access_rel Q L)
    (f (ctx_shard c) (ctx_clk c) (Some l) s) (f (ctx_shard c) (ctx_clk c) (Some l') t)"
  shows "res_rel (same R)
    (rbind (f (ctx_shard c) (ctx_clk c) (Some (ctx_local c)) (rt c)) (\<lambda>(r, lm, s). Inr (g r, c\<lparr>rt := s, ctx_local := keep_local lm c\<rparr>)))
    (rbind (f (ctx_shard d) (ctx_clk d) (Some (ctx_local d)) (rt d)) (\<lambda>(r, lm, s). Inr (g r, d\<lparr>rt := s, ctx_local := keep_local lm d\<rparr>)))"
proof -
  have e: "ctx_shard d = ctx_shard c" "ctx_clk d = ctx_clk c" "Q (rt c) (rt d)" "L (ctx_local c) (ctx_local d)"
    using assms(1) by (simp_all add: ctx_rel_def)
  show ?thesis unfolding e(1,2)
    by (rule res_rel_bind [OF assms(2) [OF e(3,4)]])
      (use assms(1) keep_local_rel [OF assms(1)] in \<open>auto simp: ctx_rel_def access_rel_def\<close>)
qed

lemma c_mr: "related R (c_mr a)"
  unfolding c_mr_def using R_access [of _ _ "mr a" "\<lambda>r. (r, rd_value r)"] mr by (auto intro!: relatedI)

lemma c_mw: "related R (c_mw a v)"
  unfolding c_mw_def using R_access [of _ _ "mw a v" "\<lambda>r. r"] mw by (auto intro!: relatedI)

lemma c_word: "related R (c_word a)"
  unfolding c_word_def
  by (intro relatedI res_rel_bind [OF word_get]) (auto simp: ctx_rel_def)

lemma byte_get: "Q s t \<Longrightarrow> res_rel (same Q) (byte_get a s) (byte_get a t)"
  unfolding byte_get_def by (rule res_rel_bind [OF word_get]) auto

lemma c_byte: "related R (c_byte a)"
  unfolding c_byte_def
  by (intro relatedI res_rel_bind [OF byte_get]) (auto simp: ctx_rel_def)

lemma c_register: "related R (c_register r)"
proof (rule relatedI)
  fix c d assume r: "R c d"
  then have "same Q (register_get r (rt c)) (register_get r (rt d))" by (simp add: ctx_rel_def register_get)
  with r show "res_rel (same R) (c_register r c) (c_register r d)"
    by (auto simp: c_register_def ctx_rel_def same_def split: prod.splits)
qed

lemma c_rr_traced: "related R (c_rr_traced r)"
proof (rule relatedI)
  fix c d assume r: "R c d"
  then have e: "ctx_shard d = ctx_shard c" "ctx_clk d = ctx_clk c" "Q (rt c) (rt d)" "L (ctx_local c) (ctx_local d)"
    by (simp_all add: ctx_rel_def)
  from r show "res_rel (same R) (c_rr_traced r c) (c_rr_traced r d)"
    using rr_traced [OF e(3,4), of r "ctx_shard c" "ctx_clk c"] keep_local_rel [OF r]
    by (auto simp: c_rr_traced_def ctx_rel_def access_rel_def e split: prod.splits)
qed

lemma ctx_updates:
  "related R tick" "related R (set_next_pc v)" "related R (set_exit_code v)"
  by (auto intro!: related_upd simp: tick_def set_next_pc_def set_exit_code_def ctx_rel_def)

lemma ctx_clock: "related R (sget ctx_clk)"
  by (rule related_get) (simp add: ctx_rel_def)

lemma ctx_views:
  "related R (sget (\<lambda>c. input_stream (state (rt c))))" "related R (sget (\<lambda>c. proof_stream (state (rt c))))"
  "related R (sget (\<lambda>c. proof_stream_ptr (state (rt c))))" "related R (sget (\<lambda>c. unconstrained (rt c)))"
  "related R (sget (\<lambda>c. deferred_proof_verification (rt c)))"
  by (auto intro!: related_get dest!: R_view simp: same_view_def)

lemma ctx_quiet: "quiet f \<Longrightarrow> related R (supd (\<lambda>c. c\<lparr>rt := f (rt c)\<rparr>))"
  by (rule related_upd) (simp add: ctx_rel_def quiet)

lemma slices: "related R (mr_slice a n)" "related R (mw_slice a vs)" "related R (slice_unsafe a n)"
  unfolding mr_slice_def mw_slice_def slice_unsafe_def
  by (intro related_control c_mr c_mw c_word)+

lemmas ctx_rules = related_control c_mr c_mw c_word c_byte c_register c_rr_traced ctx_updates ctx_clock ctx_views slices

section \<open>Precompiles\<close>

lemma sha_extend: "should_send code = 1 \<Longrightarrow> related R (sha_extend code a b)"
  unfolding sha_extend_def sha_extend_step_def by (intro ctx_rules finish) auto

lemma sha_compress: "should_send code = 1 \<Longrightarrow> related R (sha_compress code a b)"
  unfolding sha_compress_def sha_compress_step_def by (intro ctx_rules finish) auto

lemma keccak_permute: "should_send code = 1 \<Longrightarrow> related R (keccak_permute env code a b)"
  unfolding keccak_permute_def by (intro ctx_rules finish) auto

lemma uint256_mul: "should_send code = 1 \<Longrightarrow> related R (uint256_mul code a b)"
  unfolding uint256_mul_def by (intro ctx_rules finish) auto

lemma u256x2048_mul: "should_send code = 1 \<Longrightarrow> related R (u256x2048_mul code a b)"
  unfolding u256x2048_mul_def by (intro ctx_rules finish) auto

lemma ec_events: "related R (create_ec_add_event E a b)" "related R (create_ec_double_event E a)"
  unfolding create_ec_add_event_def create_ec_double_event_def by (intro ctx_rules)+

lemma decompress_fn: "related R (decompress_fn env E bs sign)"
  by (cases "curve_type E") (auto simp: decompress_fn_def bls12381_decompress_def intro!: ctx_rules)

lemma ec_decompress_event: "related R (create_ec_decompress_event env E a b)"
  unfolding create_ec_decompress_event_def by (intro ctx_rules decompress_fn)

lemma edwards: "should_send code = 1 \<Longrightarrow> related R (edwards_add E code a b)"
  "should_send code = 1 \<Longrightarrow> related R (edwards_decompress code a b)"
  unfolding edwards_add_def edwards_decompress_def by (intro ctx_rules finish ec_events; auto)+

lemma weierstrass:
  assumes "should_send code = 1"
  shows "related R (weierstrass_add E code a b)" "related R (weierstrass_double E code a b)"
    "related R (weierstrass_decompress env E code a b)"
proof -
  have f: "related R (case curve_type E of Secp256k1 \<Rightarrow> finish_precompile add_precompile_event code code k a b e1
      | Secp256r1 \<Rightarrow> finish_precompile record_mut_add_precompile_event code code k a b e2
      | Bn254 \<Rightarrow> finish_precompile add_precompile_event code code k a b e3
      | Ed25519 \<Rightarrow> spanic | Bls12381 \<Rightarrow> finish_precompile add_precompile_event code code k a b e4)" for k e1 e2 e3 e4
    by (cases "curve_type E") (simp_all add: finish [OF assms] related_panic)
  have g: "related R (case curve_type E of Secp256k1 \<Rightarrow> finish_precompile add_precompile_event code code k a b e1
      | Secp256r1 \<Rightarrow> finish_precompile record_mut_add_precompile_event code code k a b e2
      | Bn254 \<Rightarrow> spanic | Ed25519 \<Rightarrow> spanic
      | Bls12381 \<Rightarrow> finish_precompile record_mut_add_precompile_event code code k a b e4)" for k e1 e2 e4
    by (cases "curve_type E") (simp_all add: finish [OF assms] related_panic)
  show "related R (weierstrass_add E code a b)" unfolding weierstrass_add_def Let_def by (intro ctx_rules ec_events f)
  show "related R (weierstrass_double E code a b)" unfolding weierstrass_double_def Let_def by (intro ctx_rules ec_events f)
  show "related R (weierstrass_decompress env E code a b)"
    unfolding weierstrass_decompress_def Let_def by (intro ctx_rules ec_decompress_event g)
qed

lemma fp_key:
  "(\<And>key. should_send key = 1 \<Longrightarrow> related R (f key)) \<Longrightarrow> related R (sbind (fp_code_key E code) f)"
  "(\<And>key. should_send key = 1 \<Longrightarrow> related R (f key)) \<Longrightarrow> related R (sbind (fp2_code_key E code) f)"
  by (simp_all add: fp_code_key_def fp2_code_key_def should_send_codes sbind_if sbind_ret sbind_panic related_panic)

lemma field_ops:
  "related R (fp_op_syscall E fop code a b)" "related R (fp2_addsub E fop code a b)"
  "should_send code = 1 \<Longrightarrow> related R (fp2_mul E code a b)"
  unfolding fp_op_syscall_def fp2_addsub_def fp2_mul_def
  by (intro fp_key ctx_rules finish; simp)+

section \<open>System calls\<close>

lemma upd_public_values: "related R (upd_public_values f)"
proof (rule relatedI)
  fix c d assume r: "R c d"
  let ?u = "\<lambda>s. rbind (f (public_values (exec_record s))) (\<lambda>pv. Inr (upd_record (\<lambda>r. r\<lparr>public_values := pv\<rparr>) s))"
  have e: "upd_public_values f c = rbind (?u (rt c)) (\<lambda>s. Inr ((), c\<lparr>rt := s\<rparr>))" for c
    by (cases "f (public_values (exec_record (rt c)))") (simp_all add: upd_public_values_def)
  from r have "res_rel Q (?u (rt c)) (?u (rt d))" by (intro public) (simp add: ctx_rel_def)
  then show "res_rel (same R) (upd_public_values f c) (upd_public_values f d)"
    unfolding e by (rule res_rel_bind) (use r in \<open>auto simp: ctx_rel_def\<close>)
qed

lemma simple_calls: "related R (halt a b)" "related R (commit a b)" "related R (commit_deferred_proofs a b)"
    "related R (hint_len a b)" "related R (verify_sp1_proof env a b)"
  unfolding halt_def commit_def commit_deferred_proofs_def hint_len_def verify_sp1_proof_def
  by (intro ctx_rules upd_public_values ctx_quiet quiet.intros)+

text \<open>The words of a hint are written only outside an unconstrained block.\<close>

definition constrained :: "syscall_context \<Rightarrow> syscall_context \<Rightarrow> bool" where
  "constrained c d \<longleftrightarrow> R c d \<and> \<not> unconstrained (rt c)"

lemma set_uninit_unconstrained: "set_uninit a w s = Inr s' \<Longrightarrow> unconstrained s' = unconstrained s"
  by (auto simp: set_uninit_def rbind_eq_Inr split: option.splits)

lemma c_set_uninit: "related constrained (c_set_uninit a w)"
proof (rule relatedI)
  fix c d assume r: "constrained c d"
  then have "res_rel Q (set_uninit a w (rt c)) (set_uninit a w (rt d))"
    by (intro set_uninit) (simp_all add: constrained_def ctx_rel_def)
  then show "res_rel (same constrained) (c_set_uninit a w c) (c_set_uninit a w d)"
    unfolding c_set_uninit_def
    by (rule res_rel_bind) (use r in \<open>auto simp: constrained_def ctx_rel_def dest: set_uninit_unconstrained\<close>)
qed

lemma constrained_loop: "related constrained (sfor (\<lambda>i. sbind (slift (f i)) (\<lambda>w. c_set_uninit (g i) w)) is)"
  by (intro related_control c_set_uninit)

lemma assert_constrained:
  assumes "\<And>c d. constrained c d \<Longrightarrow> res_rel (same R) (f c) (f d)"
  shows "related R (sbind (sget (\<lambda>c. unconstrained (rt c))) (\<lambda>u. sbind (sassert (\<not> u)) (\<lambda>_. f)))"
  using assms R_view
  by (auto intro!: relatedI simp: sbind_def sget_def sassert_def sret_def spanic_def constrained_def same_view_def)

lemma constrained_related: "related constrained f \<Longrightarrow> constrained c d \<Longrightarrow> res_rel (same R) (f c) (f d)"
  by (drule (1) relatedD, erule res_rel_mono) (auto simp: same_def constrained_def)

lemma hint_read: "related R (hint_read a b)"
  unfolding hint_read_def
  by (intro ctx_rules assert_constrained ctx_quiet quiet.intros; rule constrained_related)
    (intro related_control constrained_loop)+

lemma enter_unconstrained: "ENTER_UNCONSTRAINED \<in> S \<Longrightarrow> related R (enter_unconstrained a b)"
  unfolding enter_unconstrained_def
  by (rule assert_constrained)
    (auto simp: sbind_def supd_def sret_def constrained_def ctx_rel_def enter_fork)

lemma exit_unconstrained: "EXIT_UNCONSTRAINED \<in> S \<Longrightarrow> related R (exit_unconstrained a b)"
proof -
  assume S: "EXIT_UNCONSTRAINED \<in> S"
  have "related R (supd (\<lambda>c. if unconstrained (rt c)
        then c\<lparr>rt := exit_fork (rt c), ctx_next_pc := fork_pc (unconstrained_state (rt c)) + 4\<rparr>
        else c\<lparr>rt := (rt c)\<lparr>unconstrained_state := fork_default\<rparr>\<rparr>))"
  proof (rule related_upd)
    fix c d assume r: "R c d"
    with R_view [OF r] show "R (if unconstrained (rt c)
        then c\<lparr>rt := exit_fork (rt c), ctx_next_pc := fork_pc (unconstrained_state (rt c)) + 4\<rparr>
        else c\<lparr>rt := (rt c)\<lparr>unconstrained_state := fork_default\<rparr>\<rparr>)
      (if unconstrained (rt d)
        then d\<lparr>rt := exit_fork (rt d), ctx_next_pc := fork_pc (unconstrained_state (rt d)) + 4\<rparr>
        else d\<lparr>rt := (rt d)\<lparr>unconstrained_state := fork_default\<rparr>\<rparr>)"
      by (auto simp: ctx_rel_def same_view_def exit_fork [OF S] drop_fork [OF S])
  qed
  then show ?thesis unfolding exit_unconstrained_def by (intro related_control)
qed

lemma push_front_quiet: "quiet (push_front v)"
proof -
  have "push_front v = upd_state (\<lambda>st. st\<lparr>input_stream := (\<lambda>is. v # is) (input_stream st)\<rparr>)"
    by (simp add: fun_eq_iff push_front_def)
  then show ?thesis using quiet_input [of "\<lambda>is. v # is"] by simp
qed

lemma push_results: "related R (s_rt (push_results res))"
proof -
  have "Q s t \<Longrightarrow> Q (fold push_front vs s) (fold push_front vs t)" for vs s t
    by (induction vs arbitrary: s t) (simp_all add: quiet [OF push_front_quiet])
  then show ?thesis unfolding s_rt_def push_results_def by (intro related_upd) (simp add: ctx_rel_def)
qed

lemma s_rt: "quiet f \<Longrightarrow> related R (s_rt f)"
  unfolding s_rt_def by (rule ctx_quiet)

lemma write_syscall: "related R (write_syscall env a b)"
proof -
  have b: "related R (case x of Some True \<Rightarrow> f | _ \<Rightarrow> g)" if "related R f" "related R g" for x and f g :: "unit sys"
    using that by (auto split: option.splits bool.splits)
  show ?thesis unfolding write_syscall_def write_fd_def write_deprecated_def
    by (intro b ctx_rules push_results s_rt push_front_quiet quiet.intros)
qed

lemma syscall:
  assumes "syscall_impl env code = Some impl" "code \<in> S"
  shows "related R (impl a b)"
  using assms
  by (cases code)
    (auto simp: should_send_def to_le_bytes_def intro!: simple_calls hint_read enter_unconstrained exit_unconstrained
      write_syscall sha_extend sha_compress keccak_permute uint256_mul u256x2048_mul edwards weierstrass field_ops)

section \<open>Instructions\<close>

lemma rr_pair: "Q s t \<Longrightarrow> \<exists>v s' t'. rr_cpu r p s = (v, s') \<and> rr_cpu r p t = (v, t') \<and> Q s' t'"
  using rr_cpu [of s t r p] by (auto simp: same_def split: prod.splits)

lemma view_pc: "Q s t \<Longrightarrow> pc (state s) = pc (state t)" "Q s t \<Longrightarrow> clk (state s) = clk (state t)"
  by (auto dest!: view simp: same_view_def)

lemma rr_pair2:
  assumes "Q s t"
  shows "\<exists>v w s1 t1 s2 t2. rr_cpu r p s = (v, s1) \<and> rr_cpu r p t = (v, t1)
    \<and> rr_cpu r' p' s1 = (w, s2) \<and> rr_cpu r' p' t1 = (w, t2) \<and> Q s2 t2"
proof -
  obtain v s1 t1 where 1: "rr_cpu r p s = (v, s1)" "rr_cpu r p t = (v, t1)" "Q s1 t1"
    using rr_pair [OF assms] by blast
  with rr_pair [OF 1(3), of r' p'] show ?thesis by blast
qed

lemma alu_rr: assumes "Q s t" shows "res_rel (same Q) (alu_rr i s) (alu_rr i t)"
proof -
  have "res_rel (same Q) (let (c, s) = rr_cpu rs2 C_pos s; (b, s) = rr_cpu rs1 B_pos s in Inr ((rd, b, c), s) :: _ res)
      (let (c, s) = rr_cpu rs2 C_pos t; (b, s) = rr_cpu rs1 B_pos s in Inr ((rd, b, c), s))" for rd :: register and rs1 rs2
    using rr_pair2 [OF assms, of rs2 C_pos rs1 B_pos] by auto
  moreover have "res_rel (same Q) (let (b, s) = rr_cpu rs1 B_pos s in Inr ((rd, b, imm), s) :: _ res)
      (let (b, s) = rr_cpu rs1 B_pos t in Inr ((rd, b, imm), s))" for rd :: register and rs1 and imm :: u32
    using rr_pair [OF assms, of rs1 B_pos] by auto
  ultimately show ?thesis using assms by (auto simp: alu_rr_def of_option_def split: option.split)
qed

lemma execute_alu: "Q s t \<Longrightarrow> res_rel (same Q) (execute_alu i s) (execute_alu i t)"
  unfolding execute_alu_def
  by (erule res_rel_bind [OF alu_rr]) (auto intro!: res_rel_bind [where R = "(=)"] simp: rw_cpu res_rel_refl)

lemma load_rr: assumes "Q s t" shows "res_rel (same Q) (load_rr i s) (load_rr i t)"
proof -
  have "res_rel (same Q) (let (b, s) = rr_cpu rs1 B_pos s; c = imm; addr = b + c in
     rbind (mr_cpu (align addr) s) (\<lambda>(v, s). Inr ((rd, b, c, addr, v), s)) :: _ res)
    (let (b, s) = rr_cpu rs1 B_pos t; c = imm; addr = b + c in
     rbind (mr_cpu (align addr) s) (\<lambda>(v, s). Inr ((rd, b, c, addr, v), s)))" for rd :: register and rs1 imm
    using rr_pair [OF assms, of rs1 B_pos] by (auto simp: Let_def intro!: res_rel_bind [OF mr_cpu])
  then show ?thesis by (auto simp: load_rr_def of_option_def split: option.split)
qed

lemma execute_load: "Q s t \<Longrightarrow> res_rel (same Q) (execute_load i s) (execute_load i t)"
  unfolding execute_load_def
  by (erule res_rel_bind [OF load_rr]) (auto intro!: res_rel_bind [where R = "(=)"] simp: rw_cpu res_rel_refl)

lemma store_rr: assumes "Q s t" shows "res_rel (same Q) (store_rr i s) (store_rr i t)"
proof -
  have "res_rel (same Q) (let c = imm; (b, s) = rr_cpu rs2 B_pos s; (a, s) = rr_cpu rs1 A_pos s; addr = b + c in
     rbind (word_get (align addr) s) (\<lambda>(v, s). Inr ((a, b, c, addr, v), s)) :: _ res)
    (let c = imm; (b, s) = rr_cpu rs2 B_pos t; (a, s) = rr_cpu rs1 A_pos s; addr = b + c in
     rbind (word_get (align addr) s) (\<lambda>(v, s). Inr ((a, b, c, addr, v), s)))" for rs1 rs2 imm
    using rr_pair2 [OF assms, of rs2 B_pos rs1 A_pos] by (auto simp: Let_def intro!: res_rel_bind [OF word_get])
  then show ?thesis by (auto simp: store_rr_def of_option_def split: option.split)
qed

lemma execute_store: "Q s t \<Longrightarrow> res_rel (same Q) (execute_store i s) (execute_store i t)"
  unfolding execute_store_def
  by (erule res_rel_bind [OF store_rr])
    (auto intro!: res_rel_bind [where R = "(=)", OF res_rel_refl] res_rel_bind [OF mw_cpu])

lemma execute_branch: assumes "Q s t" shows "res_rel (same Q) (execute_branch i n s) (execute_branch i n t)"
proof -
  have "res_rel (same Q) (let (b, s) = rr_cpu rs2 B_pos s; (a, s) = rr_cpu rs1 A_pos s in Inr ((a, b, imm), s) :: _ res)
    (let (b, s) = rr_cpu rs2 B_pos t; (a, s) = rr_cpu rs1 A_pos s in Inr ((a, b, imm), s))" for rs1 rs2 and imm :: u32
    using rr_pair2 [OF assms, of rs2 B_pos rs1 A_pos] by auto
  then have "res_rel (same Q) (branch_rr i s) (branch_rr i t)"
    by (auto simp: branch_rr_def of_option_def split: option.split)
  then show ?thesis unfolding execute_branch_def
    by (rule res_rel_bind) (auto intro!: res_rel_bind [where R = "(=)", OF res_rel_refl] simp: view_pc)
qed

lemma execute_jump: assumes "Q s t" shows "res_rel (same Q) (execute_jump i s) (execute_jump i t)"
proof -
  have "res_rel (same Q) (let (b, s) = rr_cpu rs1 B_pos s; a = pc (state s) + 4; s = rw_cpu rd a s in
         Inr ((a, b, imm, b + imm), s) :: _ res)
      (let (b, s) = rr_cpu rs1 B_pos t; a = pc (state s) + 4; s = rw_cpu rd a s in
         Inr ((a, b, imm, b + imm), s))" for rd rs1 imm
    using rr_pair [OF assms, of rs1 B_pos] by (auto simp: Let_def view_pc rw_cpu)
  moreover have "res_rel (same Q)
      (let a = pc (state s) + 4; s' = rw_cpu rd a s in Inr ((a, imm, 0 :: u32, pc (state s') + imm), s') :: _ res)
      (let a = pc (state t) + 4; s' = rw_cpu rd a t in Inr ((a, imm, 0, pc (state s') + imm), s'))" for rd imm
    using rw_cpu [OF assms, of rd] view_pc(1) [OF rw_cpu [OF assms, of rd]] by (auto simp: Let_def view_pc(1) [OF assms])
  ultimately show ?thesis
    by (auto simp: execute_jump_def of_option_def split: opcode.split option.split)
qed

lemma get_pair: "Q s t \<Longrightarrow> \<exists>v s' t'. register_get r s = (v, s') \<and> register_get r t = (v, t') \<and> Q s' t'"
  using register_get [of s t r] by (auto simp: same_def split: prod.splits)

lemma get_pair2:
  assumes "Q s t"
  shows "\<exists>v w s1 t1 s2 t2. register_get r s = (v, s1) \<and> register_get r t = (v, t1)
    \<and> register_get r' s1 = (w, s2) \<and> register_get r' t1 = (w, t2) \<and> Q s2 t2"
proof -
  obtain v s1 t1 where 1: "register_get r s = (v, s1)" "register_get r t = (v, t1)" "Q s1 t1"
    using get_pair [OF assms] by blast
  with get_pair [OF 1(3), of r'] show ?thesis by blast
qed

lemma return_register:
  assumes "Q s t"
  shows "clk (state (rw_cpu X5 a s)) = clk (state (rw_cpu X5 a t))"
    and "Q (upd_state (\<lambda>st. st\<lparr>clk := clk (state (rw_cpu X5 a t)) + k\<rparr>) (rw_cpu X5 a s))
      (upd_state (\<lambda>st. st\<lparr>clk := clk (state (rw_cpu X5 a t)) + k\<rparr>) (rw_cpu X5 a t))"
proof -
  show e: "clk (state (rw_cpu X5 a s)) = clk (state (rw_cpu X5 a t))" by (rule view_pc(2) [OF rw_cpu [OF assms]])
  show "Q (upd_state (\<lambda>st. st\<lparr>clk := clk (state (rw_cpu X5 a t)) + k\<rparr>) (rw_cpu X5 a s))
      (upd_state (\<lambda>st. st\<lparr>clk := clk (state (rw_cpu X5 a t)) + k\<rparr>) (rw_cpu X5 a t))"
    using quiet [OF quiet_clk [of k] rw_cpu [OF assms, of X5 a]] unfolding e .
qed

lemma ecall_end:
  assumes "same R x y"
  shows "res_rel (same Q) (ecall_end code sid b c x) (ecall_end code sid b c y)"
proof -
  obtain res p q where x: "x = (res, p)" "y = (res, q)" and r: "R p q" using assms by (cases x; cases y) auto
  from r have e: "ctx_exit_code p = ctx_exit_code q" "ctx_next_pc p = ctx_next_pc q" "Q (rt p) (rt q)"
    by (simp_all add: ctx_rel_def)
  show ?thesis
  proof (cases "code = EXIT_UNCONSTRAINED")
    case True
    obtain v w s1 t1 s2 t2 where g: "register_get X10 (rt p) = (v, s1)" "register_get X10 (rt q) = (v, t1)"
      "register_get X11 s1 = (w, s2)" "register_get X11 t1 = (w, t2)" "Q s2 t2" using get_pair2 [OF e(3)] by blast
    show ?thesis unfolding ecall_end_def x prod.case Let_def
      using return_register [OF g(5)] by (simp add: True g e)
  next
    case False
    show ?thesis unfolding ecall_end_def x prod.case Let_def
      using return_register [OF e(3)] by (simp add: False e)
  qed
qed

lemma ctx_new: "Q s t \<Longrightarrow> R (ctx_new s) (ctx_new t)"
  by (frule view) (simp add: ctx_new_def ctx_rel_def same_view_def L_nil)

lemma ecall_call:
  assumes "Q s t" "\<And>code. from_u32 sid = Some code \<Longrightarrow> code \<in> S"
  shows "res_rel (same Q) (ecall_call env sid b c s) (ecall_call env sid b c t)"
proof (cases "from_u32 sid")
  case None
  then show ?thesis by (simp add: ecall_call_def of_option_def)
next
  case (Some code)
  have q: "Q (report_syscall code s) (report_syscall code t)" by (rule quiet [OF quiet_report assms(1)])
  have u: "unconstrained (report_syscall code s) = unconstrained (report_syscall code t)"
    using view [OF q] by (simp add: same_view_def)
  have n: "R (ctx_new (count_syscall code (report_syscall code s))) (ctx_new (count_syscall code (report_syscall code t)))"
    by (rule ctx_new [OF quiet [OF quiet_count q]])
  show ?thesis
  proof (cases "syscall_impl env code")
    case None
    then show ?thesis by (simp add: ecall_call_def of_option_def Some Let_def u)
  next
    case i: (Some impl)
    have "res_rel (same Q) (rbind (impl b c (ctx_new (count_syscall code (report_syscall code s)))) (ecall_end code sid b c))
       (rbind (impl b c (ctx_new (count_syscall code (report_syscall code t)))) (ecall_end code sid b c))"
      by (rule res_rel_bind [OF relatedD [OF syscall [OF i assms(2) [OF Some]] n]]) (rule ecall_end)
    then show ?thesis by (simp add: ecall_call_def of_option_def Some i Let_def u)
  qed
qed

lemma execute_ecall:
  assumes "Q s t" "\<And>code. from_u32 (fst (register_get X5 s)) = Some code \<Longrightarrow> code \<in> S"
  shows "res_rel (same Q) (execute_ecall env s) (execute_ecall env t)"
proof -
  obtain v s1 t1 where g: "register_get X5 s = (v, s1)" "register_get X5 t = (v, t1)" "Q s1 t1"
    using get_pair [OF assms(1)] by blast
  with rr_pair2 [OF g(3), of X11 C_pos X10 B_pos] show ?thesis
    using assms(2) by (auto simp: execute_ecall_eq intro!: ecall_call)
qed

lemma with_defaults: "res_rel (same Q) x y \<Longrightarrow> res_rel (same Q) (with_defaults k n x) (with_defaults k n y)"
  unfolding with_defaults_def by (erule res_rel_bind) auto

lemma execute_operation:
  assumes "Q s t" "\<And>code. calls i s code \<Longrightarrow> code \<in> S"
  shows "res_rel (same Q) (execute_operation env i s) (execute_operation env i t)"
proof -
  have b: "res_rel (same Q) (rbind x (\<lambda>((a, b, c, n), s). Inr ((a, b, c, k, n, HALT, 0), s)))
      (rbind y (\<lambda>((a, b, c, n), s). Inr ((a, b, c, k, n, HALT, 0), s)))" if "res_rel (same Q) x y"
    for x y :: "((u32 \<times> u32 \<times> u32 \<times> u32) \<times> executor) res" and k :: u32
    using that by (rule res_rel_bind) auto
  show ?thesis unfolding execute_operation_def Let_def view_pc [OF assms(1)]
    using assms by (auto intro!: with_defaults b execute_alu execute_load execute_store execute_branch execute_jump
        execute_ecall rw_cpu simp: of_option_def calls_def split: option.split)
qed

end

text \<open>The whole instruction: its beginning and its end keep the relation as well.\<close>

locale frame = operations +
  assumes begin_instruction: "Q s t \<Longrightarrow> Q (begin_instruction i s) (begin_instruction i t)"
    and end_instruction: "Q s t \<Longrightarrow> emits i
      \<Longrightarrow> (touches_memory i \<Longrightarrow> executor_mode s = Trace \<Longrightarrow> acc_memory (memory_accesses s) \<noteq> None)
      \<Longrightarrow> (touches_memory i \<Longrightarrow> executor_mode t = Trace \<Longrightarrow> acc_memory (memory_accesses t) \<noteq> None)
      \<Longrightarrow> res_rel Q (end_instruction i (x, s)) (end_instruction i (x, t))"
begin

lemma execute_instruction:
  assumes "Q s t" "\<And>code. calls i s code \<Longrightarrow> code \<in> S"
  shows "res_rel Q (execute_instruction env i s) (execute_instruction env i t)"
  unfolding execute_instruction_eq
proof (rule res_rel_bind)
  show "res_rel (same Q) (execute_operation env i (begin_instruction i s)) (execute_operation env i (begin_instruction i t))"
    using assms by (auto intro: execute_operation begin_instruction)
next
  fix x y
  assume e: "execute_operation env i (begin_instruction i s) = Inr x" "execute_operation env i (begin_instruction i t) = Inr y"
    and s: "same Q x y"
  then obtain v s1 t1 where v: "x = (v, s1)" "y = (v, t1)" "Q s1 t1" by (cases x; cases y) auto
  have "emits i" using e(1) by (auto simp: emits_def execute_operation_def instr_class_defs)
  then show "res_rel Q (end_instruction i x) (end_instruction i y)"
    unfolding v using operation_acc [OF e(1) [unfolded v]] operation_acc [OF e(2) [unfolded v]]
    by (intro end_instruction [OF v(3)])
qed

end

end
