(* ===== verification/SP1_Steps.thy ===== *)
theory SP1_Steps
  imports SP1_Frame
begin

text \<open>
  The executor as a state machine: \<open>micro\<close> lists the primitive steps that an instruction or
  a system call is made of, as a relation on executors, and \<open>instruction_run\<close> says that every
  instruction is a finite run of them.  Invariants of the executor are then proved by rule
  induction, one case per primitive step.
\<close>

section \<open>Primitive steps\<close>

text \<open>What no part of an instruction changes.\<close>

definition fixed :: "executor \<Rightarrow> executor \<Rightarrow> bool" where
  "fixed s s' \<longleftrightarrow> program s' = program s \<and> max_cycles s' = max_cycles s \<and> shard_size s' = shard_size s
     \<and> shard_batch_size s' = shard_batch_size s \<and> max_syscall_cycles s' = max_syscall_cycles s
     \<and> records s' = records s \<and> maximal_shapes s' = maximal_shapes s \<and> costs s' = costs s
     \<and> shape_check_frequency s' = shape_check_frequency s \<and> lde_size_check s' = lde_size_check s
     \<and> lde_size_threshold s' = lde_size_threshold s
     \<and> syscalls_sent (local_counts s') = syscalls_sent (local_counts s)
     \<and> current_shard (state s') = current_shard (state s)
     \<and> emit_global_memory_events s' = emit_global_memory_events s"

lemma fixed_refl [simp]: "fixed s s"
  by (simp add: fixed_def)

lemma fixed_trans: "fixed s t \<Longrightarrow> fixed t u \<Longrightarrow> fixed s u"
  by (simp add: fixed_def)

text \<open>A step that touches neither the memory nor what is kept to restore it.\<close>

definition misc :: "executor \<Rightarrow> executor \<Rightarrow> bool" where
  "misc s s' \<longleftrightarrow> fixed s s' \<and> memory (state s') = memory (state s) \<and> executor_mode s' = executor_mode s
     \<and> unconstrained s' = unconstrained s \<and> memory_checkpoint s' = memory_checkpoint s
     \<and> global_clk (state s') = global_clk (state s)
     \<and> (unconstrained s \<longrightarrow> unconstrained_state s' = unconstrained_state s)"

inductive step :: "executor \<Rightarrow> executor \<Rightarrow> bool" where
  reg_step: "a < 32 \<Longrightarrow> (a = 0 \<Longrightarrow> upd 0 = 0) \<Longrightarrow> (checkpointing s \<Longrightarrow> chk)
    \<Longrightarrow> reg_access chk loc upd a sh ts lm s = (p, c, lm', s') \<Longrightarrow> step s s'"
| page_step: "valid_mem_addr a \<Longrightarrow> page_access upd a sh ts lm s = (p, c, lm', s') \<Longrightarrow> step s s'"
| peek_reg_step: "a < 32 \<Longrightarrow> step s (note_checkpoint_reg (checkpointing s) a s)"
| peek_page_step: "step s (note_checkpoint_page (checkpointing s) a s)"
| misc_step: "misc s s' \<Longrightarrow> step s s'"

text \<open>The primitive steps of an instruction, with those that open and close an unconstrained block.\<close>

inductive micro :: "executor \<Rightarrow> executor \<Rightarrow> bool" where
  inner_step: "step s s' \<Longrightarrow> micro s s'"
| enter_step: "\<not> unconstrained s \<Longrightarrow> micro s (enter_fork s)"
| exit_step: "unconstrained s \<Longrightarrow> micro s (exit_fork s)"

lemma misc_upd [simp]:
  "misc s (t\<lparr>memory_accesses := x1\<rparr>) = misc s t" "misc s (t\<lparr>exec_record := x2\<rparr>) = misc s t"
  "misc s (t\<lparr>report := x3\<rparr>) = misc s t" "misc s (t\<lparr>local_memory_access := x5\<rparr>) = misc s t"
  by (simp_all add: misc_def fixed_def)

lemma misc_refl [simp]: "misc s s"
  by (simp add: misc_def)

section \<open>The other operations as steps\<close>

lemma quiet_misc: "quiet f \<Longrightarrow> misc s (f s)"
proof (induction rule: quiet.induct)
  case (quiet_tracker cmd)
  then show ?case
    by (cases cmd) (auto simp: misc_def fixed_def start_cycle_tracker_def end_cycle_tracker_def split: option.splits)
qed (simp_all add: misc_def fixed_def extend_public_values_def update_io_buf_def Let_def report_syscall_def count_syscall_def)

lemma set_uninit_misc: "set_uninit a w s = Inr s' \<Longrightarrow> misc s s'"
  by (auto simp: set_uninit_def rbind_eq_Inr misc_def fixed_def split: option.splits)

lemma move_local_misc: "misc s (fold move_local as s)"
proof (induction "as" arbitrary: s)
  case (Cons a as)
  have "misc s (move_local a s)" by (simp add: move_local_def split: option.split)
  with Cons [of "move_local a s"] show ?case by (auto simp: misc_def fixed_def)
qed simp

lemma begin_misc: "misc s (begin_instruction i s)"
  by (simp add: begin_instruction_def count_instruction_def misc_def fixed_def)

lemma emit_events_only: "emit_events k n i code a b c z rec ec s = Inr s' \<Longrightarrow> only_record s s'"
proof -
  assume e: "emit_events k n i code a b c z rec ec s = Inr s'"
  then have "emits i" by (auto simp: emits_cases emit_events_def Let_def touches_memory_def split: if_splits)
  moreover have "acc_memory (memory_accesses s) \<noteq> None" if "touches_memory i"
    using that e by (auto simp: emit_events_def Let_def touches_memory_def emit_mem_instr_event_def emit_cpu_def
      of_option_def instr_class_defs split: if_splits option.splits)
  ultimately show ?thesis using emit_events_record [of i s k n code a b c z rec ec] e by auto
qed

lemma only_record_misc: "only_record s s' \<Longrightarrow> misc s s'"
  by (metis only_record_def misc_refl misc_upd(2))

lemma end_misc: "end_instruction i (x, s) = Inr s' \<Longrightarrow> misc s s'"
proof -
  assume e: "end_instruction i (x, s) = Inr s'"
  obtain a b c k n code ec where x: "x = (a, b, c, k, n, code, ec)" by (metis prod_cases7)
  obtain u where u: "(if executor_mode s = Trace
      then emit_events k n i code (if op_a i = 0 then 0 else a) b c (op_a i = 0) (memory_accesses s) ec s
      else Inr s) = Inr u" and s': "s' = upd_state (\<lambda>st. st\<lparr>pc := n, clk := clk st + 4\<rparr>) u"
    using e unfolding end_instruction_def x prod.case rbind_eq_Inr by blast
  have "misc s u" using u by (auto split: if_splits dest!: emit_events_only only_record_misc)
  then show ?thesis by (simp add: s' misc_def fixed_def)
qed

lemma finish_misc:
  assumes "finish_precompile add key code k a b ev c = Inr (x, c')"
    and "add \<in> {add_precompile_event, record_mut_add_precompile_event}"
  shows "misc (rt c) (rt c')"
proof -
  have add: "misc (rt c) (rt c')" if "add key se pe c = Inr (u, c')" for se pe u c c'
    using that assms(2)
    by (auto simp: add_precompile_event_def record_mut_add_precompile_event_def rbind_eq_Inr split: if_splits)
  obtain c1 l se pe u where p: "postprocess c = Inr (l, c1)" "add key se pe c1 = Inr (u, c')"
    using assms(1) by (auto simp: finish_precompile_def sbind_def sget_def sret_def rbind_eq_Inr)
  have "misc (rt c) (rt c1)"
    using p(1) move_local_misc by (auto simp: postprocess_def split: if_splits)
  with add [OF p(2)] show ?thesis by (auto simp: misc_def fixed_def)
qed

lemma res_rel_same: "(\<And>x. m = Inr x \<Longrightarrow> P x) \<Longrightarrow> (\<And>x. P x \<Longrightarrow> R x x) \<Longrightarrow> res_rel R m m"
  by (cases m) simp_all

section \<open>The accesses as steps\<close>

definition runs_of :: "(executor \<Rightarrow> executor \<Rightarrow> bool) \<Rightarrow> executor \<Rightarrow> executor \<Rightarrow> executor \<Rightarrow> bool" where
  "runs_of R s0 s t \<longleftrightarrow> s = t \<and> R\<^sup>*\<^sup>* s0 s"

text \<open>For a relation with at least the primitive steps: every access is a run of it.\<close>

locale steps_in =
  fixes R :: "executor \<Rightarrow> executor \<Rightarrow> bool"
  assumes step: "step s t \<Longrightarrow> R s t"
begin

abbreviation run :: "executor \<Rightarrow> executor \<Rightarrow> bool" where
  "run \<equiv> R\<^sup>*\<^sup>*"

lemma run_step: "run s t \<Longrightarrow> R t u \<Longrightarrow> run s u"
  by (rule rtranclp.rtrancl_into_rtrancl)

lemma run_misc: "run s t \<Longrightarrow> misc t u \<Longrightarrow> run s u"
  by (rule run_step [OF _ step [OF misc_step]])

lemma reg_access_run:
  assumes "reg_access chk loc upd a sh ts lm s = (p, c, lm', s')" "run s0 s" "a < 32" "a = 0 \<Longrightarrow> upd 0 = 0"
    "checkpointing s \<Longrightarrow> chk"
  shows "run s0 (s'\<lparr>memory_accesses := x\<rparr>)" "run s0 s'"
proof -
  show r: "run s0 s'" using assms(2) step [OF reg_step [OF assms(3,4,5,1)]] by (rule run_step)
  show "run s0 (s'\<lparr>memory_accesses := x\<rparr>)" by (rule run_misc [OF r]) simp
qed

lemma rr_traced_run: "run s0 s \<Longrightarrow> rr_traced r sh ts lm s = (rec, lm', s') \<Longrightarrow> run s0 s'"
  unfolding rr_traced_def Let_def by (auto split: prod.splits elim!: reg_access_run(2))

lemma rr_cpu_run: "run s0 s \<Longrightarrow> rr_cpu r p s = (v, s') \<Longrightarrow> run s0 s'"
  unfolding rr_cpu_def rr_traced_def rr_def Let_def
  by (auto split: prod.splits if_splits elim!: reg_access_run)

lemma rw_cpu_run:
  assumes "run s0 s"
  shows "run s0 (rw_cpu r v s)"
proof (cases "executor_mode s = Trace")
  case True
  obtain p c lm t where m: "reg_access (unconstrained s) (\<not> unconstrained s) (\<lambda>_. if r = X0 then 0 else v)
      (reg_u32 r) (current_shard (state s)) (timestamp_at A_pos s) None s = (p, c, lm, t)" by (metis prod_cases4)
  have e: "rw_cpu r v s = t\<lparr>memory_accesses := memory_accesses (rw_cpu r v s)\<rparr>"
    using True m by (simp add: rw_cpu_def rw_traced_def Let_def)
  show ?thesis
    by (subst e, rule reg_access_run(1) [OF m assms]) (use True in \<open>simp_all add: checkpointing_def\<close>)
next
  case False
  obtain p c lm t where m: "reg_access (checkpointing s) False (\<lambda>_. if r = X0 then 0 else v)
      (reg_u32 r) (current_shard (state s)) (timestamp_at A_pos s) None s = (p, c, lm, t)" by (metis prod_cases4)
  have "rw_cpu r v s = t" using False m by (auto simp: rw_cpu_def rw_def Let_def)
  moreover have "run s0 t" by (rule reg_access_run(2) [OF m assms]) simp_all
  ultimately show ?thesis by simp
qed

lemma page_access_run:
  assumes "page_access upd a sh ts lm s = (p, c, lm', s')" "run s0 s" "valid_mem_addr a"
  shows "run s0 s'"
  using assms(2) step [OF page_step [OF assms(3,1)]] by (rule run_step)

lemma mr_run: "mr a sh ts lm s = Inr (rec, lm', s') \<Longrightarrow> run s0 s \<Longrightarrow> run s0 s'"
  unfolding mr_def Let_def by (auto split: prod.splits if_splits elim!: page_access_run)

lemma mw_run: "mw a v sh ts lm s = Inr (rec, lm', s') \<Longrightarrow> run s0 s \<Longrightarrow> run s0 s'"
  unfolding mw_def Let_def by (auto split: prod.splits if_splits elim!: page_access_run)

lemma mr_cpu_run:
  assumes "mr_cpu a s = Inr (v, s')" "run s0 s"
  shows "run s0 s'"
proof -
  obtain rec lm t where m: "mr a (current_shard (state s)) (timestamp_at Memory_pos s) None s = Inr (rec, lm, t)"
    and e: "misc t s'" using assms(1) by (auto simp: mr_cpu_def rbind_eq_Inr)
  show ?thesis by (rule run_misc [OF mr_run [OF m assms(2)] e])
qed

lemma mw_cpu_run:
  assumes "mw_cpu a v s = Inr s'" "run s0 s"
  shows "run s0 s'"
proof -
  obtain rec lm t where m: "mw a v (current_shard (state s)) (timestamp_at Memory_pos s) None s = Inr (rec, lm, t)"
    and e: "misc t s'" using assms(1) by (auto simp: mw_cpu_def rbind_eq_Inr)
  show ?thesis by (rule run_misc [OF mw_run [OF m assms(2)] e])
qed

lemma register_get_run: "run s0 s \<Longrightarrow> register_get r s = (v, s') \<Longrightarrow> run s0 s'"
  by (auto simp: register_get_def Let_def intro: run_step [OF _ step [OF peek_reg_step]])

lemma word_get_run: "run s0 s \<Longrightarrow> word_get a s = Inr (v, s') \<Longrightarrow> run s0 s'"
  by (auto simp: word_get_def rbind_eq_Inr intro: run_step [OF _ step [OF peek_page_step]])

abbreviation runs :: "executor \<Rightarrow> executor \<Rightarrow> executor \<Rightarrow> bool" where
  "runs \<equiv> runs_of R"

lemma ctx_rel_runs: "ctx_rel (runs s0) (=) c d \<longleftrightarrow> c = d \<and> run s0 (rt c)"
  by (auto simp: ctx_rel_def runs_of_def)

lemma runs_res: "(\<And>x s'. m = Inr (x, s') \<Longrightarrow> run s0 s') \<Longrightarrow> res_rel (same (runs s0)) m m"
  by (rule res_rel_same) (auto simp: same_def runs_of_def)

end

section \<open>Every instruction is a run\<close>

text \<open>An instruction that does not open or close an unconstrained block stays in the relation.\<close>

sublocale steps_in < kept: frame "runs_of R s0" "(=)" "- {ENTER_UNCONSTRAINED, EXIT_UNCONSTRAINED}" for s0
proof (unfold_locales, goal_cases)
  case (13 s t g)
  then show ?case
    by (cases "g (public_values (exec_record s))") (auto simp: runs_of_def intro: run_misc)
next
  case (18 key add code k a b ev)
  show ?case
  proof (rule relatedI)
    fix c d assume "ctx_rel (runs s0) (=) c d"
    then have e: "c = d" "run s0 (rt d)" by (auto simp: ctx_rel_runs)
    show "res_rel (same (ctx_rel (runs s0) (=))) (finish_precompile add key code k a b ev c)
       (finish_precompile add key code k a b ev d)" unfolding e(1)
      by (rule res_rel_same [where P = "\<lambda>(x, c). run s0 (rt c)"])
        (auto simp: ctx_rel_runs intro: run_misc [OF e(2) finish_misc [OF _ 18(2)]])
  qed
next
  case (20 s t i x)
  from 20(1) have e: "s = t" "run s0 t" by (auto simp: runs_of_def)
  show ?case unfolding e(1)
    by (rule res_rel_same [where P = "run s0"]) (auto simp: runs_of_def intro: run_misc [OF e(2) end_misc])
next
  case (7 s t l l' a sh ts)
  then have e: "s = t" "run s0 t" "l = l'" by (auto simp: runs_of_def)
  show ?case unfolding e(1,3)
    by (rule res_rel_same [where P = "\<lambda>(x, l, c). run s0 c"])
      (auto simp: runs_of_def access_rel_def option.rel_refl intro: mr_run [OF _ e(2)])
next
  case (8 s t l l' a v sh ts)
  then have e: "s = t" "run s0 t" "l = l'" by (auto simp: runs_of_def)
  show ?case unfolding e(1,3)
    by (rule res_rel_same [where P = "\<lambda>(x, l, c). run s0 c"])
      (auto simp: runs_of_def access_rel_def option.rel_refl intro: mw_run [OF _ e(2)])
next
  case (9 s t l l' r sh ts)
  then show ?case
    by (auto simp: runs_of_def access_rel_def option.rel_refl split: prod.splits intro: rr_traced_run)
next
  case (6 s t a v)
  then have e: "s = t" "run s0 t" by (auto simp: runs_of_def)
  show ?case unfolding e(1)
    by (rule res_rel_same [where P = "run s0"]) (auto simp: runs_of_def intro: mw_cpu_run [OF _ e(2)])
next
  case (14 s t a w)
  then have e: "s = t" "run s0 t" by (auto simp: runs_of_def)
  show ?case unfolding e(1)
    by (rule res_rel_same [where P = "run s0"]) (auto simp: runs_of_def intro: run_misc [OF e(2) set_uninit_misc])
next
  case (5 s t a)
  then have e: "s = t" "run s0 t" by (auto simp: runs_of_def)
  show ?case unfolding e(1) by (rule runs_res) (rule mr_cpu_run [OF _ e(2)])
next
  case (11 s t a)
  then have e: "s = t" "run s0 t" by (auto simp: runs_of_def)
  show ?case unfolding e(1) by (rule runs_res) (rule word_get_run [OF e(2)])
qed (auto simp: runs_of_def same_view_def same_def split: prod.splits
    intro: rr_cpu_run rw_cpu_run register_get_run run_misc [OF _ quiet_misc] run_misc [OF _ begin_misc])

interpretation inner: steps_in step
  by unfold_locales

interpretation outer: steps_in micro
  by unfold_locales (rule inner_step)

interpretation steps: frame "runs_of micro s0" "(=)" UNIV for s0
proof (unfold_locales, goal_cases)
  case (15 s t)
  then show ?case by (auto simp: runs_of_def intro: outer.run_step enter_step)
next
  case (16 s t)
  then show ?case by (auto simp: runs_of_def intro: outer.run_step exit_step)
next
  case (17 s t)
  then have "misc t (t\<lparr>unconstrained_state := fork_default\<rparr>)" by (auto simp: misc_def fixed_def runs_of_def)
  with 17 show ?case by (auto simp: runs_of_def intro: outer.run_misc)
qed (rule outer.kept.L_nil outer.kept.view outer.kept.rr_cpu outer.kept.rw_cpu outer.kept.mr_cpu outer.kept.mw_cpu outer.kept.mr outer.kept.mw
  outer.kept.rr_traced outer.kept.register_get outer.kept.word_get outer.kept.public outer.kept.set_uninit outer.kept.finish
  outer.kept.begin_instruction outer.kept.end_instruction outer.kept.quiet; assumption)+

abbreviation run :: "executor \<Rightarrow> executor \<Rightarrow> bool" where
  "run \<equiv> micro\<^sup>*\<^sup>*"

lemma instruction_run: "execute_instruction env i s = Inr s' \<Longrightarrow> run s s'"
  using steps.execute_instruction [of s s s i env] by (simp add: runs_of_def)

lemma micro_fixed: "micro s t \<Longrightarrow> fixed s t"
proof (induction rule: micro.induct)
  case (inner_step s t)
  then show ?case
    by (induction rule: step.induct)
      (auto simp: reg_access_eq page_access_eq Let_def fixed_def note_checkpoint_reg_def note_checkpoint_page_def misc_def)
qed (simp_all add: fixed_def enter_fork_def exit_fork_def Let_def)

lemma instruction_fixed: "execute_instruction env i s = Inr s' \<Longrightarrow> fixed s s'"
proof -
  have "run s s' \<Longrightarrow> fixed s s'" by (induction rule: rtranclp_induct) (auto intro: fixed_trans micro_fixed)
  then show "execute_instruction env i s = Inr s' \<Longrightarrow> fixed s s'" by (blast dest: instruction_run)
qed

lemma instruction_inner:
  assumes "execute_instruction env i s = Inr s'" "\<not> calls i s ENTER_UNCONSTRAINED" "\<not> calls i s EXIT_UNCONSTRAINED"
  shows "step\<^sup>*\<^sup>* s s'"
proof -
  have "code \<notin> {ENTER_UNCONSTRAINED, EXIT_UNCONSTRAINED}" if "calls i s code" for code using that assms(2,3) by auto
  then show ?thesis using inner.kept.execute_instruction [of s s s i env] assms(1) by (simp add: runs_of_def)
qed

end
