(* ===== verification/SP1_Invariants.thy ===== *)
theory SP1_Invariants
  imports SP1_Steps SP1_Run
begin

text \<open>
  Invariants of the executor over any number of cycles, by rule induction over the primitive
  steps of \<open>SP1_Steps\<close>: register 0 stays 0, whatever the program does.
\<close>

section \<open>One cycle, taken apart\<close>

text \<open>What the end of a cycle (the shard boundary and the limits) leaves alone.\<close>

definition after_cycle :: "executor \<Rightarrow> executor \<Rightarrow> bool" where
  "after_cycle t s' \<longleftrightarrow> memory (state s') = memory (state t) \<and> pc (state s') = pc (state t)
     \<and> uninitialized_memory (state s') = uninitialized_memory (state t)
     \<and> global_clk (state s') = global_clk (state t) + 1 \<and> executor_mode s' = executor_mode t
     \<and> unconstrained s' = unconstrained t \<and> unconstrained_state s' = unconstrained_state t
     \<and> memory_checkpoint s' = memory_checkpoint t \<and> program s' = program t \<and> max_cycles s' = max_cycles t
     \<and> shard_batch_size s' = shard_batch_size t \<and> emit_global_memory_events s' = emit_global_memory_events t
     \<and> (current_shard (state s') = current_shard (state t) \<and> clk (state s') = clk (state t)
        \<or> \<not> unconstrained t \<and> current_shard (state s') = current_shard (state t) + 1 \<and> clk (state s') = 0)
     \<and> (\<forall>m. max_cycles t = Some m \<longrightarrow> global_clk (state s') < m)"

lemma check_shape_keeps:
  assumes "check_shape s = Inr (b, s')"
  shows "\<exists>ec cs. s' = s\<lparr>event_counts := ec, exec_record := (exec_record s)\<lparr>counts := cs\<rparr>\<rparr>"
proof (intro exI)
  show "s' = s\<lparr>event_counts := event_counts s', exec_record := (exec_record s)\<lparr>counts := counts (exec_record s')\<rparr>\<rparr>"
    using assms by (auto simp: check_shape_def estimate_riscv_event_counts_def Let_def rbind_eq_Inr
      split: if_splits option.splits)
qed

lemma shard_boundary_cases:
  assumes "shard_boundary w = Inr u"
  obtains (same) "unconstrained w" "u = w"
  | (check) ec cs where "\<not> unconstrained w" "u = w\<lparr>event_counts := ec, exec_record := (exec_record w)\<lparr>counts := cs\<rparr>\<rparr>"
  | (bump) ec cs where "\<not> unconstrained w" "u = next_shard (w\<lparr>event_counts := ec, exec_record := (exec_record w)\<lparr>counts := cs\<rparr>\<rparr>)"
proof (cases "unconstrained w")
  case True
  with assms show ?thesis by (intro same) (simp_all add: shard_boundary_def)
next
  case False
  then obtain b v where v: "check_shape w = Inr (b, v)" and u: "u = v \<or> u = next_shard v"
    using assms by (auto simp: shard_boundary_def Let_def rbind_eq_Inr)
  with check_shape_keeps [OF v] False check bump show ?thesis by blast
qed

lemma next_shard_sel:
  "memory (state (next_shard s)) = memory (state s)" "pc (state (next_shard s)) = pc (state s)"
  "uninitialized_memory (state (next_shard s)) = uninitialized_memory (state s)"
  "global_clk (state (next_shard s)) = global_clk (state s)" "executor_mode (next_shard s) = executor_mode s"
  "unconstrained (next_shard s) = unconstrained s" "unconstrained_state (next_shard s) = unconstrained_state s"
  "memory_checkpoint (next_shard s) = memory_checkpoint s" "program (next_shard s) = program s"
  "max_cycles (next_shard s) = max_cycles s" "shard_batch_size (next_shard s) = shard_batch_size s"
  "emit_global_memory_events (next_shard s) = emit_global_memory_events s"
  "current_shard (state (next_shard s)) = current_shard (state s) + 1" "clk (state (next_shard s)) = 0"
  by (simp_all add: next_shard_def bump_record_def Let_def)

lemma execute_cycle_cases:
  assumes "execute_cycle env s = Inr (d, s')"
  obtains i t where "(fetch (program s) (pc (state s)) :: instruction res) = Inr i" "execute_instruction env i s = Inr t"
    "after_cycle t s'"
proof -
  obtain i t u where e: "(fetch (program s) (pc (state s)) :: instruction res) = Inr i" "execute_instruction env i s = Inr t"
    and u: "shard_boundary (upd_state (\<lambda>st. st\<lparr>global_clk := global_clk st + 1\<rparr>) t) = Inr u"
    and l: "check_limits u = Inr (d, s')"
    using assms unfolding execute_cycle_def Let_def rbind_eq_Inr by blast
  have "s' = u" "\<forall>m. max_cycles u = Some m \<longrightarrow> global_clk (state u) < m"
    using l by (auto simp: check_limits_def split: option.splits if_splits)
  with u have "after_cycle t s'"
    by (elim shard_boundary_cases) (simp_all add: after_cycle_def next_shard_sel)
  with e show ?thesis by (rule that)
qed

text \<open>Any number of cycles.\<close>

definition cycle :: "env \<Rightarrow> executor \<Rightarrow> executor \<Rightarrow> bool" where
  "cycle env s s' \<longleftrightarrow> (\<exists>d. execute_cycle env s = Inr (d, s'))"

abbreviation cycles :: "env \<Rightarrow> executor \<Rightarrow> executor \<Rightarrow> bool" where
  "cycles env \<equiv> (cycle env)\<^sup>*\<^sup>*"

text \<open>An invariant of the primitive steps that the end of a cycle keeps is an invariant of the cycles.\<close>

locale invariant =
  fixes I :: "executor \<Rightarrow> bool"
  assumes micro: "micro s t \<Longrightarrow> I s \<Longrightarrow> I t"
    and after: "after_cycle s t \<Longrightarrow> I s \<Longrightarrow> I t"
begin

lemma instruction: "execute_instruction env i s = Inr s' \<Longrightarrow> I s \<Longrightarrow> I s'"
proof -
  have "run s s' \<Longrightarrow> I s \<Longrightarrow> I s'" by (induction rule: rtranclp_induct) (auto intro: micro)
  then show "execute_instruction env i s = Inr s' \<Longrightarrow> I s \<Longrightarrow> I s'" by (blast dest: instruction_run)
qed

lemma cycle: "cycle env s t \<Longrightarrow> I s \<Longrightarrow> I t"
  by (auto simp: cycle_def elim!: execute_cycle_cases intro: instruction after)

lemma cycles: "cycles env s t \<Longrightarrow> I s \<Longrightarrow> I t"
  by (induction rule: rtranclp_induct) (auto intro: cycle)

end

section \<open>A program to run\<close>

text \<open>
  For the witnesses: a program that opens an unconstrained block, writes \<open>t0\<close> in it and closes
  it, from a state in which \<open>t0\<close> holds the code of the first syscall.
\<close>

definition demo :: executor where
  "demo = upd_mem (\<lambda>m. m\<lparr>registers := [5 \<mapsto> \<lparr>mem_shard = 0, mem_timestamp = 0, mem_value = 3\<rparr>]\<rparr>)
     ((with_context 48 Map.empty \<lparr>instructions = [instr_new ECALL 5 10 11 False False, instr_new ADD 5 0 4 False True,
         instr_new ECALL 5 10 11 False False, instr_new JAL 0 0 0 True True],
       pc_start = 0x1000, pc_base = 0x1000, memory_image = []\<rparr> 2097152 1 (Some 9) True)\<lparr>executor_mode := Simple\<rparr>)"

definition demo_env :: env where
  "demo_env = \<lparr>keccakf = (\<lambda>x. x), k256_decompress = (\<lambda>_ _. None), p256_decompress = (\<lambda>_ _. None),
     deserialize_g1 = (\<lambda>_. None), hook_registry = (\<lambda>_. None), allow_deprecated_hooks = None,
     deprecated_hook = (\<lambda>_ _. None), subproof_verifier = None\<rparr>"

text \<open>Run \<open>n\<close> cycles, and note after each whether it ended in an unconstrained block.\<close>

fun demo_run :: "nat \<Rightarrow> executor \<Rightarrow> (bool list \<times> executor) res" where
  "demo_run 0 s = Inr ([], s)"
| "demo_run (Suc n) s = rbind (execute_cycle demo_env s) (\<lambda>(d, t). rbind (demo_run n t)
     (\<lambda>(bs, u). Inr (unconstrained t # bs, u)))"

lemma demo_run_Suc:
  assumes "demo_run (Suc n) s = Inr (b # bs, u)"
  obtains d t where "execute_cycle demo_env s = Inr (d, t)" "unconstrained t = b" "demo_run n t = Inr (bs, u)"
  using assms by (auto simp: rbind_eq_Inr)

section \<open>Register 0\<close>

definition zero_record :: "memory_record option \<Rightarrow> bool" where
  "zero_record r \<longleftrightarrow> (\<exists>rec. r = Some rec \<and> mem_value rec = 0)"

lemma keep_first_Some: "keep_first m a v b = Some r \<longleftrightarrow> m b = Some r \<or> b = a \<and> m b = None \<and> r = v"
  by (auto simp: keep_first_def split: option.splits)

lemma keep_first_None: "keep_first m a v b = None \<longleftrightarrow> m b = None \<and> b \<noteq> a"
  by (auto simp: keep_first_def split: option.splits)

definition x0_zero :: "executor \<Rightarrow> bool" where
  "x0_zero s \<longleftrightarrow> zero_record (regs s 0)
     \<and> (unconstrained s \<longrightarrow> (\<forall>r. memory_diff (unconstrained_state s) 0 = Some r \<longrightarrow> zero_record r))"

lemma x0_step: "step s t \<Longrightarrow> x0_zero s \<Longrightarrow> x0_zero t"
proof (induction rule: step.induct)
  case (reg_step a upd s chk loc sh ts lm p c lm' s')
  then show ?case
    by (auto simp: reg_access_eq Let_def x0_zero_def zero_record_def keep_first_Some accessed_def entry_record_def
      split: if_splits)
next
  case (page_step a upd sh ts lm s p c lm' s')
  then have "a \<noteq> 0" using valid_mem_addr_ge32 by fastforce
  with page_step show ?case
    by (auto simp: page_access_eq Let_def x0_zero_def keep_first_Some split: if_splits)
qed (auto simp: x0_zero_def misc_def note_checkpoint_reg_def note_checkpoint_page_def)

interpretation x0: invariant x0_zero
proof
  fix s t assume "micro s t" and "x0_zero s"
  then show "x0_zero t"
    by (induction rule: micro.induct)
      (auto simp: x0_step, auto simp: x0_zero_def enter_fork_def exit_fork_def restore_diff_def Let_def zero_record_def split: option.splits)
next
  fix s t assume "after_cycle s t" and "x0_zero s"
  then show "x0_zero t" by (simp add: x0_zero_def after_cycle_def)
qed

lemma rr_cpu_x0: "x0_zero s \<Longrightarrow> fst (rr_cpu X0 p s) = 0"
  using rr_cpu_spec(1) [of X0 p s] by (cases "rr_cpu X0 p s") (auto simp: x0_zero_def zero_record_def entry_record_def)

text \<open>
  (C13) Register 0 reads as 0 for ever once it is in the register file with value 0: no
  instruction, no syscall and no unconstrained block, left or not, gives it another value.
\<close>

theorem x0_stays_zero:
  assumes "x0_zero s" "cycles env s t"
  shows "fst (rr_cpu X0 p t) = 0 \<and> x0_zero t"
  using x0.cycles [OF assms(2,1)] rr_cpu_x0 by auto

text \<open>The first access puts it there, unless a hint was written to address 0.\<close>

lemma x0_first_access:
  assumes "regs s 0 = None" "registers (uninitialized_memory (state s)) 0 = None" "\<not> unconstrained s"
  shows "x0_zero (snd (rr_cpu X0 p s))"
  using rr_cpu_spec(2) [of X0 p s] assms
  by (cases "rr_cpu X0 p s")
    (auto simp: reg_effect_def keeps_def x0_zero_def zero_record_def entry_record_def initial_value_def)

theorem x0_stays_zero_witness:
  "\<exists>t. cycle demo_env (snd (rr_cpu X0 A_pos demo)) t \<and> fst (rr_cpu X0 B_pos t) = 0"
proof -
  let ?s = "snd (rr_cpu X0 A_pos demo)"
  have "map_sum id fst (demo_run (Suc 0) ?s) = Inr [True]" by code_simp
  then obtain u where "demo_run (Suc 0) ?s = Inr ([True], u)" by (cases "demo_run (Suc 0) ?s") auto
  then obtain d t where t: "execute_cycle demo_env ?s = Inr (d, t)" by (rule demo_run_Suc)
  then have c: "cycle demo_env ?s t" by (auto simp: cycle_def)
  have "x0_zero ?s" by (rule x0_first_access) (simp_all add: demo_def with_context_def state_new_def mem_empty_def)
  from x0_stays_zero [OF this r_into_rtranclp [of "cycle demo_env", OF c]] c show ?thesis by blast
qed

text \<open>
  (C29) The syscall \<open>HINT_READ\<close> accepts any aligned pointer, 0 included: before the first access
  to register 0 it makes that register read as the hinted word.
\<close>

theorem hint_read_sets_x0:
  assumes "input_stream (state (rt c)) = [b0, b1, b2, b3] # is" "\<not> unconstrained (rt c)" "regs (rt c) 0 = None"
    and "registers (uninitialized_memory (state (rt c))) 0 = None"
  shows "\<exists>c'. hint_read 0 4 c = Inr (None, c') \<and> fst (rr_cpu X0 p (rt c')) = from_le_bytes4 b0 b1 b2 b3"
proof -
  have s: "steps4 4 = [0]" by (simp add: steps4_def upt_rec)
  have "\<exists>c'. hint_read 0 4 c = Inr (None, c') \<and> regs (rt c') 0 = None
      \<and> registers (uninitialized_memory (state (rt c'))) 0 = Some (from_le_bytes4 b0 b1 b2 b3)"
    using assms
    by (auto simp: hint_read_def s sbind_def sget_def supd_def sassert_def sret_def slift_def word_aligned_def
      hint_word_def vec_get_def get_or_0_def c_set_uninit_def set_uninit_def mem_entry_or_insert_def mem_get_def
      mem_insert_def split: option.splits)
  then obtain c' where c': "hint_read 0 4 c = Inr (None, c')" "regs (rt c') 0 = None"
      "registers (uninitialized_memory (state (rt c'))) 0 = Some (from_le_bytes4 b0 b1 b2 b3)" by blast
  have "fst (rr_cpu X0 p (rt c')) = from_le_bytes4 b0 b1 b2 b3"
    using rr_cpu_spec(1) [of X0 p "rt c'"] c'(2,3)
    by (cases "rr_cpu X0 p (rt c')") (simp add: entry_record_def initial_value_def)
  with c'(1) show ?thesis by blast
qed

theorem hint_read_sets_x0_witness:
  "\<exists>c'. hint_read 0 4 (ctx_new (upd_state (\<lambda>st. st\<lparr>input_stream := [[7, 0, 0, 0]]\<rparr>) demo)) = Inr (None, c')
     \<and> fst (rr_cpu X0 A_pos (rt c')) = 7"
  using hint_read_sets_x0 [of "ctx_new (upd_state (\<lambda>st. st\<lparr>input_stream := [[7, 0, 0, 0]]\<rparr>) demo)" 7 0 0 0 "[]" A_pos]
  by (simp add: demo_def with_context_def state_new_def mem_empty_def ctx_new_def from_le_bytes4_def)

end
