(* ===== verification/SP1_Unconstrained.thy ===== *)
theory SP1_Unconstrained
  imports SP1_Invariants
begin

text \<open>
  Unconstrained blocks (\<open>syscalls/unconstrained.rs\<close>): what happens between the syscall that
  opens a block and the one that closes it leaves no trace in registers and memory.  The
  invariant is the memory that closing the block now would restore.
\<close>

section \<open>What closing the block would restore\<close>

definition base_memory :: "executor \<Rightarrow> memory_record memory" where
  "base_memory s = (if unconstrained s then restore_diff (memory_diff (unconstrained_state s)) (memory (state s))
     else memory (state s))"

text \<open>What the fork keeps besides the memory.\<close>

definition fork_frame :: "executor \<Rightarrow> fork_state" where
  "fork_frame s = (unconstrained_state s)\<lparr>memory_diff := Map.empty\<rparr>"

definition inside :: "executor \<Rightarrow> executor \<Rightarrow> bool" where
  "inside s t \<longleftrightarrow> unconstrained t \<and> base_memory t = base_memory s \<and> fork_frame t = fork_frame s
     \<and> global_clk (state t) = global_clk (state s) \<and> current_shard (state t) = current_shard (state s)
     \<and> fixed s t"

lemma restore_keep_reg:
  "a < 32 \<Longrightarrow> restore_diff (keep_first d a (registers m a)) (m\<lparr>registers := (registers m)(a \<mapsto> r)\<rparr>) = restore_diff d m"
  by (auto simp: restore_diff_def fun_eq_iff keep_first_def split: option.splits)

lemma restore_keep_page:
  "\<not> a < 32 \<Longrightarrow> restore_diff (keep_first d a (page_table m a)) (m\<lparr>page_table := (page_table m)(a \<mapsto> r)\<rparr>) = restore_diff d m"
  by (auto simp: restore_diff_def fun_eq_iff keep_first_def split: option.splits)

lemma step_inside: "step s t \<Longrightarrow> unconstrained s \<Longrightarrow> inside s t"
proof (induction rule: step.induct)
  case (reg_step a upd s chk loc sh ts lm p c lm' s')
  then show ?case
    by (auto simp: reg_access_eq Let_def inside_def base_memory_def fork_frame_def restore_keep_reg fixed_def)
next
  case (page_step a upd sh ts lm s p c lm' s')
  then show ?case using valid_mem_addr_ge32
    by (auto simp: page_access_eq Let_def inside_def base_memory_def fork_frame_def restore_keep_page fixed_def)
qed (auto simp: inside_def misc_def note_checkpoint_reg_def note_checkpoint_page_def base_memory_def fork_frame_def fixed_def)

lemma inside_trans: "inside s t \<Longrightarrow> inside t u \<Longrightarrow> inside s u"
  by (auto simp: inside_def intro: fixed_trans)

lemma steps_inside: "step\<^sup>*\<^sup>* s t \<Longrightarrow> unconstrained s \<Longrightarrow> inside s t"
  by (induction rule: rtranclp_induct)
    (auto intro: inside_trans step_inside simp: inside_def [of s s] dest: inside_def [THEN iffD1])

section \<open>The syscalls that open and close a block\<close>

definition ecall_args :: "executor \<Rightarrow> executor" where
  "ecall_args s = snd (rr_cpu X10 B_pos (snd (rr_cpu X11 C_pos (snd (register_get X5 s)))))"

lemma ecall_instruction:
  assumes "calls i s code"
  obtains sid b c where "from_u32 sid = Some code"
    "execute_instruction env i s = rbind (ecall_call env sid b c (ecall_args (begin_instruction i s))) (end_instruction i)"
proof -
  let ?s = "begin_instruction i s"
  obtain sid s1 where 1: "register_get X5 ?s = (sid, s1)" by fastforce
  obtain c s2 where 2: "rr_cpu X11 C_pos s1 = (c, s2)" by fastforce
  obtain b s3 where 3: "rr_cpu X10 B_pos s2 = (b, s3)" by fastforce
  have "calls i ?s code" using assms by simp
  then have i: "is_ecall_instruction i" and sid: "from_u32 sid = Some code" by (simp_all add: calls_def 1 del: calls_begin)
  from i have "execute_operation env i ?s = execute_ecall env ?s"
    by (auto simp: execute_operation_def instr_class_defs)
  also have "\<dots> = ecall_call env sid b c (ecall_args ?s)"
    by (simp add: execute_ecall_eq ecall_args_def 1 2 3)
  finally show ?thesis using that [OF sid] by (simp add: execute_instruction_eq)
qed

lemma ecall_args_steps: "step\<^sup>*\<^sup>* s (ecall_args s)"
proof -
  have 1: "step\<^sup>*\<^sup>* s (snd (register_get X5 s))"
    by (rule inner.register_get_run [OF _ surjective_pairing]) simp
  have 2: "step\<^sup>*\<^sup>* s (snd (rr_cpu X11 C_pos (snd (register_get X5 s))))"
    by (rule inner.rr_cpu_run [OF 1 surjective_pairing])
  show ?thesis unfolding ecall_args_def by (rule inner.rr_cpu_run [OF 2 surjective_pairing])
qed

text \<open>What an access of a register depends on, besides its arguments.\<close>

definition mem_eq :: "executor \<Rightarrow> executor \<Rightarrow> bool" where
  "mem_eq s t \<longleftrightarrow> memory (state s) = memory (state t) \<and> uninitialized_memory (state s) = uninitialized_memory (state t)
     \<and> current_shard (state s) = current_shard (state t) \<and> clk (state s) = clk (state t)"

lemma reg_effect_mem_eq: "reg_effect upd a ts s s' \<Longrightarrow> reg_effect upd a ts t t' \<Longrightarrow> mem_eq s t \<Longrightarrow> mem_eq s' t'"
  by (auto simp: reg_effect_def mem_eq_def keeps_state)

lemma rr_cpu_mem_eq: "mem_eq s t \<Longrightarrow> mem_eq (snd (rr_cpu r p s)) (snd (rr_cpu r p t))"
proof -
  assume e: "mem_eq s t"
  have r: "reg_effect (\<lambda>v. v) (reg_u32 r) (clk (state u) + position_u32 p) u (snd (rr_cpu r p u))" for u
    by (rule rr_cpu_spec(2) [OF surjective_pairing])
  from e have "clk (state t) = clk (state s)" by (simp add: mem_eq_def)
  then show ?thesis using reg_effect_mem_eq [OF r [of s] _ e] r [of t] by simp
qed

lemma rw_cpu_mem_eq: "mem_eq s t \<Longrightarrow> mem_eq (rw_cpu r v s) (rw_cpu r v t)"
proof -
  assume e: "mem_eq s t"
  then have "clk (state t) = clk (state s)" by (simp add: mem_eq_def)
  then show ?thesis using reg_effect_mem_eq [OF rw_cpu_spec [of r v s] _ e] rw_cpu_spec [of r v t] by simp
qed

lemma ecall_args_mem_eq:
  "mem_eq (ecall_args (begin_instruction i s)) (snd (rr_cpu X10 B_pos (snd (rr_cpu X11 C_pos s))))"
  unfolding ecall_args_def
  by (intro rr_cpu_mem_eq) (simp add: mem_eq_def register_get_def Let_def note_checkpoint_reg_def)

lemma keeps_args: "keeps s (ecall_args s)"
proof -
  have 1: "keeps s (snd (register_get X5 s))" by (rule register_get_spec(2) [OF surjective_pairing])
  have r: "keeps t (snd (rr_cpu r p t))" for t r p
    using rr_cpu_spec(2) [of r p t] by (cases "rr_cpu r p t") (simp add: reg_effect_def)
  show ?thesis unfolding ecall_args_def by (rule keeps_trans [OF keeps_trans [OF 1 r] r])
qed

text \<open>The end of an instruction, and the return of a syscall, in the fields that matter here.\<close>

lemma end_instruction_fields:
  assumes "end_instruction i ((a, b, c, k, n, code, ec), u) = Inr s'"
  shows "pc (state s') = n" "clk (state s') = clk (state u) + 4" "memory (state s') = memory (state u)"
    "global_clk (state s') = global_clk (state u)" "current_shard (state s') = current_shard (state u)"
    "executor_mode s' = executor_mode u" "unconstrained s' = unconstrained u"
    "unconstrained_state s' = unconstrained_state u" "uninitialized_memory (state s') = uninitialized_memory (state u)"
proof -
  obtain v where v: "(if executor_mode u = Trace
      then emit_events k n i code (if op_a i = 0 then 0 else a) b c (op_a i = 0) (memory_accesses u) ec u
      else Inr u) = Inr v" and s': "s' = upd_state (\<lambda>st. st\<lparr>pc := n, clk := clk st + 4\<rparr>) v"
    using assms unfolding end_instruction_def prod.case rbind_eq_Inr by blast
  have "only_record u v" using v by (auto split: if_splits dest!: emit_events_only simp: only_record_def)
  then obtain er where "v = u\<lparr>exec_record := er\<rparr>" unfolding only_record_def by blast
  then show "pc (state s') = n" "clk (state s') = clk (state u) + 4" "memory (state s') = memory (state u)"
    "global_clk (state s') = global_clk (state u)" "current_shard (state s') = current_shard (state u)"
    "executor_mode s' = executor_mode u" "unconstrained s' = unconstrained u"
    "unconstrained_state s' = unconstrained_state u" "uninitialized_memory (state s') = uninitialized_memory (state u)"
    by (simp_all add: s')
qed

definition counted :: "syscall_code \<Rightarrow> executor \<Rightarrow> executor" where
  "counted code s = count_syscall code (report_syscall code s)"

lemma counted_sel [simp]:
  "memory (state (counted code s)) = memory (state s)" "pc (state (counted code s)) = pc (state s)"
  "clk (state (counted code s)) = clk (state s)" "global_clk (state (counted code s)) = global_clk (state s)"
  "current_shard (state (counted code s)) = current_shard (state s)"
  "uninitialized_memory (state (counted code s)) = uninitialized_memory (state s)"
  "memory_accesses (counted code s) = memory_accesses s" "exec_record (counted code s) = exec_record s"
  "executor_mode (counted code s) = executor_mode s" "unconstrained (counted code s) = unconstrained s"
  "unconstrained_state (counted code s) = unconstrained_state s"
  by (simp_all add: counted_def count_syscall_def report_syscall_def)

lemma report_sel [simp]: "unconstrained (report_syscall code s) = unconstrained s"
  by (simp add: report_syscall_def)

lemma ecall_call_enter:
  assumes "from_u32 sid = Some ENTER_UNCONSTRAINED" "ecall_call env sid b c s = Inr x"
  shows "\<not> unconstrained s" "\<exists>k v. x = ((1, b, c, v, pc (state s) + 4, ENTER_UNCONSTRAINED, 0),
    upd_state (\<lambda>st. st\<lparr>clk := clk st + k\<rparr>) (rw_cpu X5 1 (enter_fork (counted ENTER_UNCONSTRAINED s)))) \<and> k = 0"
  using assms
  by (auto simp: ecall_call_def of_option_def Let_def enter_unconstrained_def sbind_def sget_def sassert_def sret_def
    spanic_def supd_def ctx_new_def ecall_end_def num_extra_cycles_def counted_def [symmetric] split: if_splits)

lemma rw_cpu_keeps: "keeps s (rw_cpu r v s)"
  using rw_cpu_spec [of r v s] by (simp add: reg_effect_def)

lemma rw_cpu_inside: "unconstrained s \<Longrightarrow> inside s (rw_cpu r v s)"
  by (rule steps_inside [OF inner.rw_cpu_run]) simp_all

lemma restore_empty [simp]: "restore_diff Map.empty m = m"
  by (rule memory.equality) (simp_all add: restore_diff_def fun_eq_iff)

lemma enter_fork_sel:
  "unconstrained (enter_fork s)" "base_memory (enter_fork s) = memory (state s)" "state (enter_fork s) = state s"
  "fork_frame (enter_fork s) = \<lparr>fork_global_clk = global_clk (state s), fork_clk = clk (state s), fork_pc = pc (state s),
     memory_diff = Map.empty, op_record = memory_accesses s, fork_record = exec_record s, fork_executor_mode = executor_mode s\<rparr>"
  by (simp_all add: enter_fork_def base_memory_def fork_frame_def)

lemma begin_sel [simp]: "exec_record (begin_instruction i s) = exec_record s" "executor_mode (begin_instruction i s) = executor_mode s"
    "unconstrained (begin_instruction i s) = unconstrained s"
  by (simp_all add: begin_instruction_def count_instruction_def)

lemma open_block:
  assumes "calls i s ENTER_UNCONSTRAINED" "execute_instruction env i s = Inr s'"
  shows "\<not> unconstrained s" "unconstrained s'" "pc (state s') = pc (state s) + 4" "global_clk (state s') = global_clk (state s)"
    "current_shard (state s') = current_shard (state s)"
    "base_memory s' = memory (state (snd (rr_cpu X10 B_pos (snd (rr_cpu X11 C_pos s)))))"
    "fork_frame s' = \<lparr>fork_global_clk = global_clk (state s), fork_clk = clk (state s), fork_pc = pc (state s),
       memory_diff = Map.empty, op_record = memory_accesses (ecall_args (begin_instruction i s)),
       fork_record = exec_record s, fork_executor_mode = executor_mode s\<rparr>"
proof -
  let ?w = "ecall_args (begin_instruction i s)" and ?c = "counted ENTER_UNCONSTRAINED"
  obtain sid b c where sid: "from_u32 sid = Some ENTER_UNCONSTRAINED"
    and e: "execute_instruction env i s = rbind (ecall_call env sid b c ?w) (end_instruction i)"
    by (rule ecall_instruction [OF assms(1)])
  obtain x where x: "ecall_call env sid b c ?w = Inr x" "end_instruction i x = Inr s'"
    using assms(2) by (auto simp: e rbind_eq_Inr)
  note k = keeps_state [OF keeps_args [of "begin_instruction i s"]]
  note b = begin_misc [of s i, unfolded misc_def fixed_def]
  show "\<not> unconstrained s" using ecall_call_enter(1) [OF sid x(1)] k(7) b by simp
  obtain v where v: "x = ((1, b, c, v, pc (state ?w) + 4, ENTER_UNCONSTRAINED, 0),
      upd_state (\<lambda>st. st\<lparr>clk := clk st + 0\<rparr>) (rw_cpu X5 1 (enter_fork (?c ?w))))"
    using ecall_call_enter(2) [OF sid x(1)] by blast
  note f = end_instruction_fields [OF x(2) [unfolded v]]
  have u: "inside (enter_fork (?c ?w)) (rw_cpu X5 1 (enter_fork (?c ?w)))"
    by (rule rw_cpu_inside) (simp add: enter_fork_sel)
  then show un: "unconstrained s'" by (simp add: f inside_def)
  show "pc (state s') = pc (state s) + 4" by (simp add: f k)
  show "global_clk (state s') = global_clk (state s)" "current_shard (state s') = current_shard (state s)"
    using u by (simp_all add: f k inside_def enter_fork_sel)
  have "base_memory s' = base_memory (rw_cpu X5 1 (enter_fork (?c ?w)))"
    using un by (simp add: f base_memory_def)
  also have "\<dots> = memory (state ?w)" using u by (simp add: inside_def enter_fork_sel)
  finally show "base_memory s' = memory (state (snd (rr_cpu X10 B_pos (snd (rr_cpu X11 C_pos s)))))"
    using ecall_args_mem_eq [of i s] by (simp add: mem_eq_def)
  have "fork_frame s' = fork_frame (rw_cpu X5 1 (enter_fork (?c ?w)))" by (simp add: f fork_frame_def)
  also have "\<dots> = fork_frame (enter_fork (?c ?w))" using u by (simp add: inside_def)
  finally show "fork_frame s' = \<lparr>fork_global_clk = global_clk (state s), fork_clk = clk (state s), fork_pc = pc (state s),
       memory_diff = Map.empty, op_record = memory_accesses ?w, fork_record = exec_record s, fork_executor_mode = executor_mode s\<rparr>"
    by (simp add: enter_fork_sel k)
qed

lemma ecall_call_exit:
  assumes "from_u32 sid = Some EXIT_UNCONSTRAINED" "unconstrained s" "ecall_call env sid b c s = Inr x"
  shows "\<exists>b' c' v. x = ((0, b', c', v, fork_pc (unconstrained_state s) + 4, EXIT_UNCONSTRAINED, 0),
    upd_state (\<lambda>st. st\<lparr>clk := clk st + 0\<rparr>) (rw_cpu X5 0 (snd (register_get X11 (snd (register_get X10
      (exit_fork (counted EXIT_UNCONSTRAINED s))))))))"
  using assms
  by (auto simp: ecall_call_def of_option_def Let_def exit_unconstrained_def sbind_def sret_def supd_def ctx_new_def
    ecall_end_def num_extra_cycles_def counted_def [symmetric] split: prod.splits)

lemma register_get_state [simp]: "state (snd (register_get r s)) = state s"
    "executor_mode (snd (register_get r s)) = executor_mode s" "unconstrained (snd (register_get r s)) = unconstrained s"
  by (simp_all add: register_get_def Let_def note_checkpoint_reg_def)

lemma rw_cpu_memory: "memory (state (rw_cpu r v s)) = (memory (state s))\<lparr>registers := (regs s)(reg_u32 r \<mapsto>
    \<lparr>mem_shard = current_shard (state s), mem_timestamp = clk (state s) + 3, mem_value = (if r = X0 then 0 else v)\<rparr>)\<rparr>"
  using rw_cpu_spec [of r v s] by (simp add: reg_effect_def accessed_def)

lemma exit_fork_sel:
  "memory (state (exit_fork s)) = restore_diff (memory_diff (unconstrained_state s)) (memory (state s))"
  "clk (state (exit_fork s)) = fork_clk (unconstrained_state s)" "pc (state (exit_fork s)) = fork_pc (unconstrained_state s)"
  "global_clk (state (exit_fork s)) = fork_global_clk (unconstrained_state s)" "\<not> unconstrained (exit_fork s)"
  "executor_mode (exit_fork s) = fork_executor_mode (unconstrained_state s)"
  "current_shard (state (exit_fork s)) = current_shard (state s)"
  by (simp_all add: exit_fork_def Let_def)

lemma fork_frame_sel:
  "fork_clk (fork_frame s) = fork_clk (unconstrained_state s)" "fork_pc (fork_frame s) = fork_pc (unconstrained_state s)"
  "fork_global_clk (fork_frame s) = fork_global_clk (unconstrained_state s)"
  "fork_executor_mode (fork_frame s) = fork_executor_mode (unconstrained_state s)"
  by (simp_all add: fork_frame_def)

lemma close_block:
  assumes "calls i s EXIT_UNCONSTRAINED" "unconstrained s" "execute_instruction env i s = Inr s'"
  shows "\<not> unconstrained s'" "pc (state s') = fork_pc (fork_frame s) + 4" "clk (state s') = fork_clk (fork_frame s) + 4"
    "global_clk (state s') = fork_global_clk (fork_frame s)" "executor_mode s' = fork_executor_mode (fork_frame s)"
    "current_shard (state s') = current_shard (state s)"
    "memory (state s') = (base_memory s)\<lparr>registers := (registers (base_memory s))(5 \<mapsto>
       \<lparr>mem_shard = current_shard (state s), mem_timestamp = fork_clk (fork_frame s) + 3, mem_value = 0\<rparr>)\<rparr>"
proof -
  let ?w = "ecall_args (begin_instruction i s)" and ?c = "counted EXIT_UNCONSTRAINED"
  have "step\<^sup>*\<^sup>* s ?w"
    using converse_rtranclp_into_rtranclp [OF misc_step [OF begin_misc] ecall_args_steps] .
  then have w: "inside s ?w" using assms(2) by (rule steps_inside)
  obtain sid b c where sid: "from_u32 sid = Some EXIT_UNCONSTRAINED"
    and e: "execute_instruction env i s = rbind (ecall_call env sid b c ?w) (end_instruction i)"
    by (rule ecall_instruction [OF assms(1)])
  obtain x where x: "ecall_call env sid b c ?w = Inr x" "end_instruction i x = Inr s'"
    using assms(3) by (auto simp: e rbind_eq_Inr)
  obtain b' c' v where v: "x = ((0, b', c', v, fork_pc (unconstrained_state ?w) + 4, EXIT_UNCONSTRAINED, 0),
    upd_state (\<lambda>st. st\<lparr>clk := clk st + 0\<rparr>) (rw_cpu X5 0 (snd (register_get X11 (snd (register_get X10 (exit_fork (?c ?w))))))))"
    using ecall_call_exit [OF sid _ x(1)] w by (auto simp: inside_def)
  note f = end_instruction_fields [OF x(2) [unfolded v]] and k = keeps_state [OF rw_cpu_keeps]
  have ff: "fork_frame ?w = fork_frame s" "base_memory ?w = base_memory s" "unconstrained ?w"
      "current_shard (state ?w) = current_shard (state s)" using w by (simp_all add: inside_def)
  note ff' = arg_cong [OF ff(1), of fork_clk, unfolded fork_frame_sel] arg_cong [OF ff(1), of fork_pc, unfolded fork_frame_sel]
    arg_cong [OF ff(1), of fork_global_clk, unfolded fork_frame_sel] arg_cong [OF ff(1), of fork_executor_mode, unfolded fork_frame_sel]
  show "\<not> unconstrained s'" "pc (state s') = fork_pc (fork_frame s) + 4" "clk (state s') = fork_clk (fork_frame s) + 4"
    "global_clk (state s') = fork_global_clk (fork_frame s)" "executor_mode s' = fork_executor_mode (fork_frame s)"
    "current_shard (state s') = current_shard (state s)"
    by (simp_all add: f k exit_fork_sel fork_frame_sel ff' ff(4))
  have "memory (state (exit_fork (?c ?w))) = base_memory s"
    using ff(2,3) by (simp add: exit_fork_sel base_memory_def)
  then show "memory (state s') = (base_memory s)\<lparr>registers := (registers (base_memory s))(5 \<mapsto>
       \<lparr>mem_shard = current_shard (state s), mem_timestamp = fork_clk (fork_frame s) + 3, mem_value = 0\<rparr>)\<rparr>"
    by (simp add: f rw_cpu_memory exit_fork_sel(2,7) fork_frame_sel ff' ff(4))
qed

section \<open>A block\<close>

lemma instruction_stays_inside:
  assumes "unconstrained s" "execute_instruction env i s = Inr t" "unconstrained t"
  shows "inside s t"
proof -
  have "\<not> calls i s ENTER_UNCONSTRAINED" using open_block(1) [OF _ assms(2)] assms(1) by blast
  moreover have "\<not> calls i s EXIT_UNCONSTRAINED" using close_block(1) [OF _ assms(1,2)] assms(3) by blast
  ultimately show ?thesis using assms(1,2) by (blast intro: steps_inside instruction_inner)
qed

lemma instruction_leaves:
  assumes "unconstrained s" "execute_instruction env i s = Inr t" "\<not> unconstrained t"
  shows "calls i s EXIT_UNCONSTRAINED"
proof (rule ccontr)
  assume "\<not> calls i s EXIT_UNCONSTRAINED"
  moreover have "\<not> calls i s ENTER_UNCONSTRAINED" using open_block(1) [OF _ assms(2)] assms(1) by blast
  ultimately have "inside s t" using assms(1,2) by (blast intro: steps_inside instruction_inner)
  with assms(3) show False by (simp add: inside_def)
qed

text \<open>A cycle inside the block.\<close>

definition inner_cycle :: "env \<Rightarrow> executor \<Rightarrow> executor \<Rightarrow> bool" where
  "inner_cycle env s t \<longleftrightarrow> unconstrained s \<and> cycle env s t \<and> unconstrained t"

definition same_block :: "executor \<Rightarrow> executor \<Rightarrow> bool" where
  "same_block s t \<longleftrightarrow> unconstrained t \<and> base_memory t = base_memory s \<and> fork_frame t = fork_frame s
     \<and> current_shard (state t) = current_shard (state s)"

lemma after_same_block: "after_cycle s t \<Longrightarrow> unconstrained s \<Longrightarrow> same_block s t"
  by (auto simp: after_cycle_def same_block_def base_memory_def fork_frame_def)

lemma inner_cycle_same_block: "inner_cycle env s t \<Longrightarrow> same_block s t"
proof -
  assume "inner_cycle env s t"
  then obtain d where u: "unconstrained s" "unconstrained t" and c: "execute_cycle env s = Inr (d, t)"
    by (auto simp: inner_cycle_def cycle_def)
  from c show ?thesis
  proof (rule execute_cycle_cases)
    fix i u assume i: "execute_instruction env i s = Inr u" and a: "after_cycle u t"
    have "unconstrained u" using a u by (simp add: after_cycle_def)
    with i u(1) have "inside s u" by (intro instruction_stays_inside)
    with after_same_block [OF a] show ?thesis by (auto simp: same_block_def inside_def)
  qed
qed

lemma block_same: "(inner_cycle env)\<^sup>*\<^sup>* s t \<Longrightarrow> unconstrained s \<Longrightarrow> same_block s t"
  by (induction rule: rtranclp_induct) (auto dest!: inner_cycle_same_block simp: same_block_def)

text \<open>
  (C7) An unconstrained block is transparent.  From the ECALL that opens it to the one that
  closes it, whatever runs in between, registers and memory end as if one syscall had
  returned 0 there: the two arguments are read, \<open>t0\<close> is set to 0, and nothing else changes.
  The program counter is after the ECALL that opened the block, the whole block counts as one
  cycle, and the mode is what it was.
\<close>

theorem unconstrained_block_transparent:
  assumes "(fetch (program s) (pc (state s)) :: instruction res) = Inr i" "calls i s ENTER_UNCONSTRAINED"
    and "execute_cycle env s = Inr (d, s1)" "(inner_cycle env)\<^sup>*\<^sup>* s1 s2"
    and "execute_cycle env s2 = Inr (d', s3)" "\<not> unconstrained s3"
  shows "memory (state s3) = memory (state (rw_cpu X5 0 (snd (rr_cpu X10 B_pos (snd (rr_cpu X11 C_pos s))))))
    \<and> pc (state s3) = pc (state s) + 4 \<and> global_clk (state s3) = global_clk (state s) + 1
    \<and> executor_mode s3 = executor_mode s
    \<and> (current_shard (state s3) = current_shard (state s) \<and> clk (state s3) = clk (state s) + 4
       \<or> current_shard (state s3) = current_shard (state s) + 1 \<and> clk (state s3) = 0)"
proof -
  obtain t1 where t1: "execute_instruction env i s = Inr t1" "after_cycle t1 s1"
    using assms(1,3) by (auto elim!: execute_cycle_cases)
  note o = open_block [OF assms(2) t1(1)]
  have b2: "same_block t1 s2"
    using after_same_block [OF t1(2) o(2)] block_same [OF assms(4)] by (auto simp: same_block_def)
  obtain j t3 where t3: "execute_instruction env j s2 = Inr t3" "after_cycle t3 s3"
    using assms(5) by (auto elim!: execute_cycle_cases)
  have u: "unconstrained s2" "\<not> unconstrained t3" using b2 t3(2) assms(6) by (auto simp: same_block_def after_cycle_def)
  note c = close_block [OF instruction_leaves [OF u(1) t3(1) u(2)] u(1) t3(1)]
  have e: "current_shard (state (snd (rr_cpu r p w))) = current_shard (state w)" "clk (state (snd (rr_cpu r p w))) = clk (state w)"
    for r p w using rr_cpu_spec(2) [of r p w] by (cases "rr_cpu r p w"; auto simp: reg_effect_def keeps_state)+
  show ?thesis
    using t3(2) b2 by (auto simp: after_cycle_def same_block_def c o rw_cpu_memory e)
qed

theorem unconstrained_block_transparent_witness:
  "\<exists>d s1 s2 d' s3. execute_cycle demo_env demo = Inr (d, s1) \<and> inner_cycle demo_env s1 s2
    \<and> execute_cycle demo_env s2 = Inr (d', s3) \<and> \<not> unconstrained s3 \<and> pc (state s3) = 0x1004
    \<and> memory (state s3) = memory (state (rw_cpu X5 0 (snd (rr_cpu X10 B_pos (snd (rr_cpu X11 C_pos demo))))))"
proof -
  have "map_sum id fst (demo_run (Suc (Suc (Suc 0))) demo) = Inr [True, True, False]" by code_simp
  then obtain u where "demo_run (Suc (Suc (Suc 0))) demo = Inr ([True, True, False], u)"
    by (cases "demo_run (Suc (Suc (Suc 0))) demo") auto
  then obtain d s1 where 1: "execute_cycle demo_env demo = Inr (d, s1)" "unconstrained s1 = True"
    and r1: "demo_run (Suc (Suc 0)) s1 = Inr ([True, False], u)" by (rule demo_run_Suc)
  from r1 obtain d2 s2 where 2: "execute_cycle demo_env s1 = Inr (d2, s2)" "unconstrained s2 = True"
    and r2: "demo_run (Suc 0) s2 = Inr ([False], u)" by (rule demo_run_Suc)
  from r2 obtain d3 s3 where 3: "execute_cycle demo_env s2 = Inr (d3, s3)" "unconstrained s3 = False" by (rule demo_run_Suc)
  have i: "inner_cycle demo_env s1 s2" using 1 2 by (auto simp: inner_cycle_def cycle_def)
  have p: "program demo = program demo" "pc (state demo) = 0x1000"
    by (simp_all add: demo_def with_context_def state_new_def)
  let ?i = "instr_new ECALL 5 10 11 False False"
  have f: "(fetch (program demo) (pc (state demo)) :: instruction res) = Inr ?i"
    by (simp add: fetch_def vec_get_def demo_def with_context_def state_new_def)
  have c: "calls ?i demo ENTER_UNCONSTRAINED"
    by (simp add: calls_def is_ecall_instruction_def instr_new_def register_get_def demo_def with_context_def from_u32_def)
  show ?thesis
    using unconstrained_block_transparent [OF f c 1(1) r_into_rtranclp [of "inner_cycle demo_env", OF i] 3(1)] 1 3 i p(2) by auto
qed

end
