(* ===== verification/SP1_Termination.thy ===== *)
theory SP1_Termination
  imports SP1_Unconstrained
begin

text \<open>
  With a cycle limit, \<open>execute\<close> returns: the loop ends, by an error at the latest when the clock
  reaches the limit.  An unconstrained block resets the clock when it is closed, so the
  measure is lexicographic: the clock outside the block first, then the clock inside.
\<close>

section \<open>The clocks\<close>

text \<open>The clock outside the unconstrained block.\<close>

definition base_clk :: "executor \<Rightarrow> u64" where
  "base_clk s = (if unconstrained s then fork_global_clk (unconstrained_state s) else global_clk (state s))"

lemma step_clk: "step s t \<Longrightarrow> base_clk t = base_clk s \<and> global_clk (state t) = global_clk (state s)
    \<and> unconstrained t = unconstrained s \<and> max_cycles t = max_cycles s"
  by (induction rule: step.induct)
    (auto simp: reg_access_eq page_access_eq Let_def base_clk_def note_checkpoint_reg_def note_checkpoint_page_def
      misc_def fixed_def)

lemma run_clk: "run s t \<Longrightarrow> base_clk t = base_clk s \<and> max_cycles t = max_cycles s"
proof (induction rule: rtranclp_induct)
  case (step t u)
  from step(2) have "base_clk u = base_clk t \<and> max_cycles u = max_cycles t"
    by (induction rule: micro.induct) (auto simp: step_clk, auto simp: base_clk_def enter_fork_def exit_fork_def Let_def)
  with step(3) show ?case by simp
qed simp

text \<open>Outside a block the two clocks agree, also while an instruction opens one.\<close>

lemma run_clk_same: "run s t \<Longrightarrow> \<not> unconstrained s \<Longrightarrow> global_clk (state t) = base_clk t"
proof (induction rule: rtranclp_induct)
  case (step t u)
  from step(2) have "global_clk (state t) = base_clk t \<Longrightarrow> global_clk (state u) = base_clk u"
    by (induction rule: micro.induct) (auto simp: step_clk, auto simp: base_clk_def enter_fork_def exit_fork_def Let_def)
  with step show ?case by simp
qed (simp add: base_clk_def)

lemma cycle_clk:
  assumes "execute_cycle env s = Inr (d, s')" "max_cycles s = Some m"
  shows "max_cycles s' = Some m" "global_clk (state s') < m"
    "if unconstrained s' then base_clk s' = base_clk s \<and> global_clk (state s') = global_clk (state s) + 1
     else base_clk s' = base_clk s + 1 \<and> global_clk (state s') = base_clk s'"
proof -
  obtain i t where i: "execute_instruction env i s = Inr t" and a: "after_cycle t s'"
    using assms(1) by (rule execute_cycle_cases)
  note r = instruction_run [OF i]
  show "max_cycles s' = Some m" "global_clk (state s') < m"
    using run_clk [OF r] a assms(2) by (auto simp: after_cycle_def)
  have "global_clk (state t) = global_clk (state s)" if "unconstrained t"
  proof (cases "unconstrained s")
    case True
    then show ?thesis using instruction_stays_inside [OF True i that] by (simp add: inside_def)
  next
    case False
    then show ?thesis using run_clk_same [OF r False] run_clk [OF r] by (simp add: base_clk_def)
  qed
  then show "if unconstrained s' then base_clk s' = base_clk s \<and> global_clk (state s') = global_clk (state s) + 1
     else base_clk s' = base_clk s + 1 \<and> global_clk (state s') = base_clk s'"
    using a run_clk [OF r] by (auto simp: after_cycle_def base_clk_def)
qed

section \<open>The loop ends\<close>

definition left :: "u64 \<Rightarrow> executor \<Rightarrow> nat \<times> nat" where
  "left m s = (unat m - unat (base_clk s), unat m - unat (global_clk (state s)))"

lemma unat_inc: "(x :: u64) < m \<Longrightarrow> unat (x + 1) = unat x + 1"
proof -
  assume "x < m"
  moreover have "unat m < 2 ^ LENGTH(64)" by (rule unsigned_less)
  ultimately show ?thesis by (simp add: word_less_nat_alt unat_word_ariths)
qed

lemma cycle_left:
  assumes "execute_cycle env s = Inr (d, s')" "max_cycles s = Some m" "base_clk s < m" "global_clk (state s) < m"
  shows "(left m s', left m s) \<in> less_than <*lex*> less_than" "base_clk s' < m"
  using cycle_clk [OF assms(1,2)] assms(3,4) unat_inc [OF assms(3)] unat_inc [OF assms(4)]
  by (auto simp: left_def word_less_nat_alt split: if_splits)

lemma execute_loop_returns:
  assumes "max_cycles s = Some m" "base_clk s < m" "global_clk (state s) < m"
  shows "\<exists>r. execute_loop env shard num s = Some r"
  using assms
proof (induction "left m s" arbitrary: shard num s rule: wf_induct_rule [OF wf_lex_prod [OF wf_less_than wf_less_than]])
  case (1 s)
  show ?case
  proof (cases "execute_cycle env s")
    case (Inl e)
    then show ?thesis by (simp add: execute_loop.simps [of env shard num s])
  next
    case (Inr x)
    obtain d s' where x: "x = (d, s')" by fastforce
    note c = Inr [unfolded x]
    have "\<exists>r. execute_loop env shard num s' = Some r" for shard num
      using 1(1) [OF cycle_left(1) [OF c 1(2,3,4)] cycle_clk(1) [OF c 1(2)] cycle_left(2) [OF c 1(2,3,4)]
        cycle_clk(2) [OF c 1(2)]] .
    then show ?thesis by (simp add: execute_loop.simps [of env shard num s] Inr x)
  qed
qed

lemma execute_returns:
  assumes "max_cycles s = Some m" "global_clk (state s) < m" "\<not> unconstrained s"
  shows "\<exists>r. execute env s = Some r"
proof (cases "if global_clk (state s) = 0 then initialize s else Inr s")
  case (Inl e)
  then show ?thesis by (simp add: execute_def Let_def)
next
  case (Inr t)
  then have "max_cycles t = max_cycles s" "global_clk (state t) = global_clk (state s)" "unconstrained t = unconstrained s"
    by (auto simp: initialize_def rbind_eq_Inr split: if_splits)
  then have "\<exists>r. execute_loop env (current_shard (state t)) 0 t = Some r"
    using assms by (intro execute_loop_returns) (simp_all add: base_clk_def)
  then show ?thesis using Inr by (auto simp: execute_def Let_def)
qed

text \<open>
  (C11) With a cycle limit that is not reached yet, \<open>execute\<close> returns for every program, with a
  result or an error.
\<close>

theorem execute_terminates:
  assumes "max_cycles s = Some m" "global_clk (state s) < m" "\<not> unconstrained s"
  shows "\<exists>r. execute env s = Some r"
  using assms by (rule execute_returns)

text \<open>The program of the witness ends in an endless loop.\<close>

theorem execute_terminates_witness: "\<exists>r. execute demo_env demo = Some r"
  by (rule execute_terminates [of demo 9]) (simp_all add: demo_def with_context_def state_new_def)

end
