(* ===== verification/SP1_Drivers.thy ===== *)
theory SP1_Drivers
  imports SP1_Termination
begin

text \<open>
  The entry points of the executor around \<open>execute\<close>: \<open>execute_state\<close>, which runs a batch of
  shards and returns a checkpoint from before it, \<open>recover\<close>, which makes an executor from a
  checkpoint, and the loops \<open>run\<close>, \<open>run_fast\<close> and \<open>run_checkpoint\<close>.
\<close>

section \<open>Checkpoints\<close>

text \<open>
  The loop over \<open>memory_checkpoint\<close>, the registers first and then the pages.  \<open>insert\<close> and
  \<open>remove\<close> take any address below 32 for a register, so an entry of the page table there
  overrides the register's own.
\<close>

definition apply_checkpoint :: "'v option memory \<Rightarrow> 'v memory \<Rightarrow> 'v memory" where
  "apply_checkpoint mc m = m\<lparr>
     registers := (\<lambda>a. if a < 32 then (case page_table mc a of Some v \<Rightarrow> v
        | None \<Rightarrow> (case registers mc a of Some v \<Rightarrow> v | None \<Rightarrow> registers m a)) else registers m a),
     page_table := (\<lambda>a. if a < 32 then page_table m a
        else (case page_table mc a of Some v \<Rightarrow> v | None \<Rightarrow> page_table m a))\<rparr>"

text \<open>\<open>filter_map\<close> and \<open>collect\<close>: the entries that hold a record, into an empty memory.\<close>

definition collect_checkpoint :: "'v option memory \<Rightarrow> 'v memory" where
  "collect_checkpoint mc = \<lparr>
     registers = (\<lambda>a. if a < 32 then (case page_table mc a of Some (Some r) \<Rightarrow> Some r
        | _ \<Rightarrow> (case registers mc a of Some v \<Rightarrow> v | None \<Rightarrow> None)) else None),
     page_table = (\<lambda>a. if a < 32 then None else (case page_table mc a of Some v \<Rightarrow> v | None \<Rightarrow> None))\<rparr>"

definition has_mark :: "bool \<Rightarrow> bool memory \<Rightarrow> u32 \<Rightarrow> bool" where
  "has_mark b uc a \<longleftrightarrow> (if a < 32 then registers uc a = Some b \<or> page_table uc a = Some b else page_table uc a = Some b)"

text \<open>\<open>if !is_old \<dots> remove(addr)\<close>.\<close>

definition drop_new :: "bool memory \<Rightarrow> u32 memory \<Rightarrow> u32 memory" where
  "drop_new uc um = um\<lparr>
     registers := (\<lambda>a. if a < 32 \<and> has_mark False uc a then None else registers um a),
     page_table := (\<lambda>a. if \<not> a < 32 \<and> has_mark False uc a then None else page_table um a)\<rparr>"

text \<open>\<open>filter(has_value)\<close> and \<open>get(addr).unwrap()\<close>.\<close>

definition collect_old :: "bool memory \<Rightarrow> u32 memory \<Rightarrow> u32 memory res" where
  "collect_old uc um =
     (if (\<exists>a\<in>set (map of_nat [0..<32]). has_mark True uc a \<and> registers um a = None)
       \<or> (\<exists>a\<in>set (page_keys (page_table uc)). \<not> a < 32 \<and> has_mark True uc a \<and> page_table um a = None)
      then Inl Panic
      else Inr \<lparr>registers = (\<lambda>a. if a < 32 \<and> has_mark True uc a then registers um a else None),
                page_table = (\<lambda>a. if \<not> a < 32 \<and> has_mark True uc a then page_table um a else None)\<rparr>)"

definition checkpoint_start :: "bool \<Rightarrow> executor \<Rightarrow> executor" where
  "checkpoint_start emit s =
     s\<lparr>memory_checkpoint := mem_empty, executor_mode := Checkpoint, emit_global_memory_events := emit\<rparr>"

text \<open>From the end of \<open>execute\<close> on; \<open>cp\<close> is the state of before without its memory.\<close>

definition checkpoint_end :: "execution_state \<Rightarrow> bool \<times> executor \<Rightarrow> ((execution_state \<times> public_values \<times> bool) \<times> executor) res" where
  "checkpoint_end cp = (\<lambda>(finished, s).
     let mc = memory_checkpoint s; uc = uninitialized_memory_checkpoint s;
         s = s\<lparr>memory_checkpoint := mem_empty, uninitialized_memory_checkpoint := mem_empty\<rparr> in
     rbind (if finished \<and> \<not> emit_global_memory_events s
            then Inr (cp\<lparr>memory := apply_checkpoint mc (memory (state s)),
                         uninitialized_memory := drop_new uc (uninitialized_memory (state s))\<rparr>)
            else rbind (collect_old uc (uninitialized_memory (state s))) (\<lambda>um.
              Inr (cp\<lparr>memory := collect_checkpoint mc, uninitialized_memory := um\<rparr>))) (\<lambda>cp.
     if records s = [] then Inl Panic
     else
       let pv = (public_values (last (records s)))\<lparr>pv_start_pc := pc (state s), pv_next_pc := pc (state s)\<rparr> in
       Inr ((cp, pv, finished), if finished then s else s\<lparr>records := []\<rparr>)))"

definition execute_state :: "env \<Rightarrow> bool \<Rightarrow> executor \<Rightarrow> ((execution_state \<times> public_values \<times> bool) \<times> executor) res option" where
  "execute_state env emit s =
     map_option (\<lambda>r. rbind r (checkpoint_end ((state s)\<lparr>memory := mem_empty, uninitialized_memory := mem_empty\<rparr>)))
       (execute env (checkpoint_start emit s))"

text \<open>\<open>recover\<close>: a new executor with the default context, and the state.\<close>

definition recover :: "u32 \<Rightarrow> (riscv_air_id \<rightharpoonup> u64) \<Rightarrow> program \<Rightarrow> execution_state \<Rightarrow> u64 \<Rightarrow> u64 \<Rightarrow> executor" where
  "recover max_syscall_cycles0 costs0 prog st opts_shard_size opts_shard_batch_size =
     (with_context max_syscall_cycles0 costs0 prog opts_shard_size opts_shard_batch_size None False)\<lparr>state := st\<rparr>"

section \<open>Whole runs\<close>

partial_function (option) execute_all :: "env \<Rightarrow> executor \<Rightarrow> executor res option" where
  "execute_all env s = (case execute env s of
       None \<Rightarrow> None
     | Some (Inl e) \<Rightarrow> Some (Inl e)
     | Some (Inr (finished, t)) \<Rightarrow> if finished then Some (Inr t) else execute_all env t)"

definition run_fast :: "env \<Rightarrow> executor \<Rightarrow> executor res option" where
  "run_fast env s = execute_all env (s\<lparr>executor_mode := Simple, print_report := True\<rparr>)"

definition run_trace :: "env \<Rightarrow> executor \<Rightarrow> executor res option" where
  "run_trace env s = execute_all env (s\<lparr>executor_mode := Trace, print_report := True\<rparr>)"

partial_function (option) execute_state_all :: "env \<Rightarrow> bool \<Rightarrow> executor \<Rightarrow> executor res option" where
  "execute_state_all env emit s = (case execute_state env emit s of
       None \<Rightarrow> None
     | Some (Inl e) \<Rightarrow> Some (Inl e)
     | Some (Inr ((_, _, finished), t)) \<Rightarrow> if finished then Some (Inr t) else execute_state_all env emit t)"

definition run_checkpoint :: "env \<Rightarrow> bool \<Rightarrow> executor \<Rightarrow> executor res option" where
  "run_checkpoint env emit s = execute_state_all env emit (s\<lparr>executor_mode := Simple, print_report := True\<rparr>)"

section \<open>A batch as a sequence of cycles\<close>

lemma cycle_shard:
  assumes "execute_cycle env s = Inr (d, t)" "d \<or> current_shard (state t) \<noteq> current_shard (state s)"
  shows "\<not> unconstrained t"
proof
  assume u: "unconstrained t"
  from assms(1) have "\<not> d" using u by (auto simp: execute_cycle_def check_limits_def rbind_eq_Inr Let_def split: option.splits if_splits)
  moreover obtain i v where i: "execute_instruction env i s = Inr v" and a: "after_cycle v t"
    using assms(1) by (rule execute_cycle_cases)
  ultimately show False using a u assms(2) instruction_fixed [OF i] by (auto simp: after_cycle_def fixed_def)
qed

lemma cycle_new_record:
  assumes "execute_cycle env s = Inr (d, t)" "current_shard (state t) \<noteq> current_shard (state s)"
  shows "cpu_events (exec_record t) = []"
proof -
  obtain i v u where i: "execute_instruction env i s = Inr v"
    and u: "shard_boundary (upd_state (\<lambda>st. st\<lparr>global_clk := global_clk st + 1\<rparr>) v) = Inr u"
    and l: "check_limits u = Inr (d, t)"
    using assms(1) unfolding execute_cycle_def Let_def rbind_eq_Inr by blast
  have t: "t = u" using l by (auto simp: check_limits_def split: option.splits if_splits)
  have "current_shard (state v) = current_shard (state s)" using instruction_fixed [OF i] by (simp add: fixed_def)
  with u assms(2) show ?thesis unfolding t
    by (elim shard_boundary_cases) (simp_all add: next_shard_def bump_record_def Let_def record_new_def)
qed

lemma cycle_batch_size: "execute_cycle env s = Inr (d, t) \<Longrightarrow> shard_batch_size t = shard_batch_size s"
  by (auto elim!: execute_cycle_cases dest!: instruction_fixed simp: fixed_def after_cycle_def)

text \<open>The loop of \<open>execute\<close> runs at least one cycle and never stops inside an unconstrained block.\<close>

definition loop_ok :: "env \<Rightarrow> u32 \<Rightarrow> executor \<Rightarrow> (bool \<times> executor) res \<Rightarrow> bool" where
  "loop_ok env sh s y \<longleftrightarrow> (shard_batch_size s > 0 \<longrightarrow> sh = current_shard (state s)) \<longrightarrow>
     (\<forall>d t. y = Inr (d, t) \<longrightarrow> (cycle env)\<^sup>+\<^sup>+ s t \<and> \<not> unconstrained t \<and> (\<not> d \<longrightarrow> cpu_events (exec_record t) = []))"

lemma loop_okD: "loop_ok env sh s (Inr (d, t)) \<Longrightarrow> (shard_batch_size s > 0 \<Longrightarrow> sh = current_shard (state s))
    \<Longrightarrow> (cycle env)\<^sup>+\<^sup>+ s t \<and> \<not> unconstrained t \<and> (\<not> d \<longrightarrow> cpu_events (exec_record t) = [])"
  by (simp add: loop_ok_def)

lemma execute_loop_ok: "execute_loop env sh n s = Some y \<Longrightarrow> loop_ok env sh s y"
proof (induction env sh n s y rule: execute_loop.raw_induct [rotated, consumes 1, case_names loop])
  case (loop loop env sh n s y)
  note 1 = loop
  show ?case unfolding loop_ok_def
  proof (intro impI allI)
    fix d t assume sh: "shard_batch_size s > 0 \<longrightarrow> sh = current_shard (state s)" and y: "y = Inr (d, t)"
    obtain c u where c: "execute_cycle env s = Inr (c, u)"
      using 1(2) y by (auto split: sum.splits)
    note b = cycle_batch_size [OF c]
    have one: "(cycle env)\<^sup>+\<^sup>+ s u" using c by (auto simp: cycle_def)
    have more: "(cycle env)\<^sup>+\<^sup>+ s t \<and> \<not> unconstrained t \<and> (\<not> d \<longrightarrow> cpu_events (exec_record t) = [])"
      if "loop env sh' n' u = Some y" "shard_batch_size u > 0 \<Longrightarrow> sh' = current_shard (state u)" for sh' n'
      using loop_okD [OF 1(1) [OF that(1), unfolded y] that(2)] one by (auto intro: tranclp_trans)
    have e: "(if c then Some (Inr (True, u)) else if 0 < shard_batch_size u \<and> sh \<noteq> current_shard (state u)
        then if n + 1 = shard_batch_size u then Some (Inr (False, u)) else loop env (current_shard (state u)) (n + 1) u
        else loop env sh n u) = Some y" using 1(2) by (simp add: c)
    show "(cycle env)\<^sup>+\<^sup>+ s t \<and> \<not> unconstrained t \<and> (\<not> d \<longrightarrow> cpu_events (exec_record t) = [])"
    proof (cases "c \<or> 0 < shard_batch_size u \<and> sh \<noteq> current_shard (state u) \<and> n + 1 = shard_batch_size u")
      case True
      then have "u = t" "d = c" using e y by (auto split: if_splits)
      moreover have "c \<or> current_shard (state u) \<noteq> current_shard (state s)" using True sh b by auto
      ultimately show ?thesis using one cycle_shard [OF c] cycle_new_record [OF c] by auto
    next
      case False
      show ?thesis
      proof (cases "0 < shard_batch_size u \<and> sh \<noteq> current_shard (state u)")
        case True
        with False e have "loop env (current_shard (state u)) (n + 1) u = Some y" by simp
        then show ?thesis by (rule more) simp
      next
        case nf: False
        with False e have "loop env sh n u = Some y" by simp
        then show ?thesis by (rule more) (use nf in auto)
      qed
    qed
  qed
qed

lemma bump_sel [simp]:
  "state (bump_record s) = state s" "unconstrained (bump_record s) = unconstrained s"
  "max_cycles (bump_record s) = max_cycles s" "memory_checkpoint (bump_record s) = memory_checkpoint s"
  "unconstrained_state (bump_record s) = unconstrained_state s"
  "emit_global_memory_events (bump_record s) = emit_global_memory_events s"
  "executor_mode (bump_record s) = executor_mode s"
  by (simp_all add: bump_record_def Let_def)

lemma postprocess_sel [simp]:
  "state (exec_postprocess s) = state s" "unconstrained (exec_postprocess s) = unconstrained s"
  "max_cycles (exec_postprocess s) = max_cycles s" "memory_checkpoint (exec_postprocess s) = memory_checkpoint s"
  "unconstrained_state (exec_postprocess s) = unconstrained_state s"
  "emit_global_memory_events (exec_postprocess s) = emit_global_memory_events s"
  "executor_mode (exec_postprocess s) = executor_mode s"
  by (simp_all add: exec_postprocess_def global_memory_events_def Let_def)

lemma finish_batch_sel:
  assumes "finish_batch p n (d, s) = (d', t)"
  shows "d' = d" "state t = state s" "unconstrained t = unconstrained s" "max_cycles t = max_cycles s"
    "memory_checkpoint t = memory_checkpoint s" "unconstrained_state t = unconstrained_state s"
    "emit_global_memory_events t = emit_global_memory_events s" "executor_mode t = executor_mode s"
  using assms unfolding finish_batch_def Let_def prod.case by (auto split: if_splits)

lemma execute_cases:
  assumes "execute env s = Some (Inr (d, t))"
  obtains s0 u where "(if global_clk (state s) = 0 then initialize s else Inr s) = Inr s0" "(cycle env)\<^sup>+\<^sup>+ s0 u"
    "\<not> unconstrained u" "finish_batch (program s) (current_shard (state s)) (d, u) = (d, t)"
    "\<not> d \<Longrightarrow> cpu_events (exec_record u) = []"
proof -
  obtain s0 where s0: "(if global_clk (state s) = 0 then initialize s else Inr s) = Inr s0"
    using assms by (auto simp: execute_def Let_def split: sum.splits)
  then obtain c u where l: "execute_loop env (current_shard (state s0)) 0 s0 = Some (Inr (c, u))"
    and f: "finish_batch (program s) (current_shard (state s)) (c, u) = (d, t)"
    using assms by (cases "execute_loop env (current_shard (state s0)) 0 s0")
      (auto simp: execute_def Let_def map_sum_def split: sum.splits)
  have "c = d" using finish_batch_sel(1) [OF f] by simp
  moreover have "(cycle env)\<^sup>+\<^sup>+ s0 u \<and> \<not> unconstrained u \<and> (\<not> c \<longrightarrow> cpu_events (exec_record u) = [])"
    by (rule loop_okD [OF execute_loop_ok [OF l]]) simp
  ultimately show ?thesis using that s0 f by blast
qed

section \<open>Whole runs return\<close>

lemma cycles_left:
  assumes "(cycle env)\<^sup>+\<^sup>+ s t" "max_cycles s = Some m" "base_clk s < m" "global_clk (state s) < m"
  shows "(left m t, left m s) \<in> less_than <*lex*> less_than \<and> max_cycles t = Some m \<and> base_clk t < m \<and> global_clk (state t) < m"
proof -
  have one: "(left m v, left m u) \<in> less_than <*lex*> less_than \<and> max_cycles v = Some m \<and> base_clk v < m \<and> global_clk (state v) < m"
    if "cycle env u v" "max_cycles u = Some m" "base_clk u < m" "global_clk (state u) < m" for u v
    using that cycle_left [of env u _ v m] cycle_clk(1,2) [of env u _ v m] by (auto simp: cycle_def)
  have tr: "trans (less_than <*lex*> less_than :: ((nat \<times> nat) \<times> (nat \<times> nat)) set)" by (intro trans_lex_prod trans_less_than)
  show ?thesis using assms
  proof (induction rule: tranclp_induct)
    case (step u v)
    then have u: "(left m u, left m s) \<in> less_than <*lex*> less_than" "max_cycles u = Some m" "base_clk u < m"
      "global_clk (state u) < m" by simp_all
    from one [OF step(2) u(2-4)] u(1) show ?case by (blast intro: transD [OF tr])
  qed (rule one)
qed

lemma start_sel:
  assumes "(if global_clk (state s) = 0 then initialize s else Inr s) = Inr s0"
  shows "max_cycles s0 = max_cycles s" "global_clk (state s0) = global_clk (state s)" "unconstrained s0 = unconstrained s"
    "unconstrained_state s0 = unconstrained_state s" "executor_mode s0 = executor_mode s"
    "memory_checkpoint s0 = memory_checkpoint s" "emit_global_memory_events s0 = emit_global_memory_events s"
  using assms by (auto simp: initialize_def rbind_eq_Inr split: if_splits)

lemma execute_left:
  assumes "execute env s = Some (Inr (d, t))" "max_cycles s = Some m" "global_clk (state s) < m" "\<not> unconstrained s"
  shows "(left m t, left m s) \<in> less_than <*lex*> less_than" "max_cycles t = Some m" "global_clk (state t) < m" "\<not> unconstrained t"
proof -
  obtain s0 u where s0: "(if global_clk (state s) = 0 then initialize s else Inr s) = Inr s0" and c: "(cycle env)\<^sup>+\<^sup>+ s0 u"
    and u: "\<not> unconstrained u" and f: "finish_batch (program s) (current_shard (state s)) (d, u) = (d, t)"
    using assms(1) by (rule execute_cases)
  note e = start_sel [OF s0] finish_batch_sel(2-) [OF f]
  have "(left m u, left m s0) \<in> less_than <*lex*> less_than \<and> max_cycles u = Some m \<and> base_clk u < m \<and> global_clk (state u) < m"
    using assms(2-4) by (intro cycles_left [OF c]) (simp_all add: e base_clk_def)
  then show "(left m t, left m s) \<in> less_than <*lex*> less_than" "max_cycles t = Some m" "global_clk (state t) < m" "\<not> unconstrained t"
    using u assms(4) by (simp_all add: e left_def base_clk_def)
qed

lemma execute_all_returns:
  assumes "max_cycles s = Some m" "global_clk (state s) < m" "\<not> unconstrained s"
  shows "\<exists>r. execute_all env s = Some r"
  using assms
proof (induction "left m s" arbitrary: s rule: wf_induct_rule [OF wf_lex_prod [OF wf_less_than wf_less_than]])
  case (1 s)
  obtain r where r: "execute env s = Some r" using execute_returns [OF 1(2-4)] by blast
  show ?case
  proof (cases r)
    case (Inr x)
    obtain d t where x: "x = (d, t)" by fastforce
    note e = execute_left [OF r [unfolded Inr x] 1(2-4)]
    have "\<exists>r. execute_all env t = Some r" using e by (intro 1(1))
    then show ?thesis by (simp add: execute_all.simps [of env s] r Inr x)
  qed (simp add: execute_all.simps [of env s] r)
qed

text \<open>
  (C9) With a cycle limit, \<open>run\<close> and \<open>run_fast\<close> return for every program: the outer loop over
  the batches ends as well.
\<close>

theorem run_terminates:
  assumes "max_cycles s = Some m" "global_clk (state s) < m" "\<not> unconstrained s"
  shows "(\<exists>r. run_trace env s = Some r) \<and> (\<exists>r. run_fast env s = Some r)"
  unfolding run_trace_def run_fast_def using assms by (intro conjI execute_all_returns [of _ m]) simp_all

theorem run_terminates_witness: "\<exists>r. run_fast demo_env demo = Some r"
  using run_terminates [of demo 9 demo_env] by (simp add: demo_def with_context_def state_new_def)

end
