(* ===== verification/SP1_Checkpoint.thy ===== *)
theory SP1_Checkpoint
  imports SP1_Drivers
begin

text \<open>
  Checkpoints: \<open>memory_checkpoint\<close> keeps, for every address that a batch touches, what was there
  before, unconstrained blocks included; so \<open>execute_state\<close> returns the memory of before.
\<close>

section \<open>The invariant\<close>

definition kept :: "(u32 \<rightharpoonup> 'v option) \<Rightarrow> (u32 \<rightharpoonup> 'v) \<Rightarrow> (u32 \<rightharpoonup> 'v) \<Rightarrow> bool" where
  "kept mc m0 m \<longleftrightarrow> (\<forall>a v. mc a = Some v \<longrightarrow> m0 a = v) \<and> (\<forall>a. mc a = None \<longrightarrow> m a = m0 a)"

lemma kept_access: "kept mc m0 m \<Longrightarrow> kept (keep_first mc a (m a)) m0 (m(a \<mapsto> r))"
  unfolding kept_def keep_first_Some keep_first_None by auto

lemma kept_peek: "kept mc m0 m \<Longrightarrow> kept (keep_first mc a (m a)) m0 m"
  unfolding kept_def keep_first_Some keep_first_None by auto

lemma kept_change: "kept mc m0 m \<Longrightarrow> (\<And>a. mc a = None \<Longrightarrow> m' a = m a) \<Longrightarrow> kept mc m0 m'"
  unfolding kept_def by simp

text \<open>What the block would restore is in the checkpoint.\<close>

definition covered :: "(u32 \<rightharpoonup> 'v option) \<Rightarrow> 'v option memory \<Rightarrow> bool" where
  "covered d mc \<longleftrightarrow> (\<forall>a. d a \<noteq> None \<longrightarrow> (if a < 32 then registers mc a \<noteq> None else page_table mc a \<noteq> None))"

lemma covered_simps [simp]:
  "covered Map.empty mc"
  "covered d mc \<Longrightarrow> covered d (mc\<lparr>registers := keep_first (registers mc) a r\<rparr>)"
  "covered d mc \<Longrightarrow> covered d (mc\<lparr>page_table := keep_first (page_table mc) a r\<rparr>)"
  "covered d mc \<Longrightarrow> a < 32 \<Longrightarrow> covered (keep_first d a r) (mc\<lparr>registers := keep_first (registers mc) a r'\<rparr>)"
  "covered d mc \<Longrightarrow> \<not> a < 32 \<Longrightarrow> covered (keep_first d a r) (mc\<lparr>page_table := keep_first (page_table mc) a r'\<rparr>)"
  by (simp_all add: covered_def keep_first_None)

definition checkpointed :: "memory_record memory \<Rightarrow> executor \<Rightarrow> bool" where
  "checkpointed m0 s \<longleftrightarrow> kept (registers (memory_checkpoint s)) (registers m0) (regs s)
     \<and> kept (page_table (memory_checkpoint s)) (page_table m0) (ptab s)
     \<and> (\<forall>a. \<not> a < 32 \<longrightarrow> registers (memory_checkpoint s) a = None)
     \<and> (if unconstrained s then fork_executor_mode (unconstrained_state s) = Checkpoint
          \<and> covered (memory_diff (unconstrained_state s)) (memory_checkpoint s)
        else executor_mode s = Checkpoint)"

lemma checkpointing_always: "checkpointed m0 s \<Longrightarrow> checkpointing s"
  by (simp add: checkpointed_def checkpointing_def split: if_splits)

lemma checkpointed_step: "step s t \<Longrightarrow> checkpointed m0 s \<Longrightarrow> checkpointed m0 t"
proof (induction rule: step.induct)
  case (reg_step a upd s chk loc sh ts lm p c lm' s')
  then have chk by (blast dest: checkpointing_always)
  with reg_step show ?case
    by (auto simp: reg_access_eq Let_def checkpointed_def kept_access keep_first_None split: if_splits)
next
  case (page_step a upd sh ts lm s p c lm' s')
  then have "checkpointing s" by (blast dest: checkpointing_always)
  with page_step valid_mem_addr_ge32 show ?case
    by (auto simp: page_access_eq Let_def checkpointed_def kept_access keep_first_None split: if_splits)
next
  case (peek_reg_step a s)
  then show ?case
    by (auto simp: note_checkpoint_reg_def checkpointed_def kept_peek keep_first_None split: if_splits)
next
  case (peek_page_step s a)
  then show ?case
    by (auto simp: note_checkpoint_page_def checkpointed_def kept_peek keep_first_None split: if_splits)
qed (simp add: checkpointed_def misc_def)

interpretation checkpoint: invariant "checkpointed m0" for m0
proof
  fix s t assume "micro s t" and "checkpointed m0 s"
  then show "checkpointed m0 t"
  proof (induction rule: micro.induct)
    case (exit_step s)
    then show ?case
      by (auto simp: checkpointed_def exit_fork_def restore_diff_def Let_def covered_def elim!: kept_change split: option.split)
  qed (auto simp: checkpointed_step, simp add: checkpointed_def enter_fork_def)
next
  fix s t assume "after_cycle s t" and "checkpointed m0 s"
  then show "checkpointed m0 t" by (simp add: checkpointed_def after_cycle_def)
qed

section \<open>A batch\<close>

text \<open>The memory at the start of a batch; the first batch loads the image of the program.\<close>

definition start_memory :: "executor \<Rightarrow> memory_record memory res" where
  "start_memory s = (if global_clk (state s) = 0 then load_image (memory_image (program s)) (memory (state s))
     else Inr (memory (state s)))"

lemma kept_empty [simp]: "kept Map.empty m m"
  by (simp add: kept_def)

interpretation emitting: invariant "\<lambda>s. emit_global_memory_events s = e" for e
  by unfold_locales (auto dest!: micro_fixed simp: fixed_def after_cycle_def)

lemma batch_checkpointed:
  assumes "execute env (checkpoint_start emit s) = Some (Inr (d, t))" "\<not> unconstrained s" "start_memory s = Inr m0"
  shows "checkpointed m0 t" "emit_global_memory_events t = emit"
proof -
  let ?s = "checkpoint_start emit s"
  obtain s0 u where s0: "(if global_clk (state ?s) = 0 then initialize ?s else Inr ?s) = Inr s0" and c: "(cycle env)\<^sup>+\<^sup>+ s0 u"
    and f: "finish_batch (program ?s) (current_shard (state ?s)) (d, u) = (d, t)"
    using assms(1) by (rule execute_cases)
  note e = start_sel [OF s0] finish_batch_sel(2-) [OF f]
  have "memory (state s0) = m0"
    using s0 assms(3) by (auto simp: start_memory_def checkpoint_start_def initialize_def rbind_eq_Inr split: if_splits)
  then have "checkpointed m0 s0"
    using assms(2) by (simp add: checkpointed_def e checkpoint_start_def mem_empty_def)
  then have "checkpointed m0 u" using c by (blast intro: checkpoint.cycles dest: tranclp_into_rtranclp)
  then show "checkpointed m0 t" by (simp add: checkpointed_def e)
  have "emit_global_memory_events u = emit"
    by (rule emitting.cycles [OF tranclp_into_rtranclp [OF c]]) (simp add: e checkpoint_start_def)
  then show "emit_global_memory_events t = emit" by (simp add: e)
qed

text \<open>
  (C8) The checkpoint that \<open>execute_state\<close> returns is the memory from before the batch: all of
  it after the last batch when the memory events are left to whoever replays the checkpoint,
  and otherwise its part that the batch touched, while what the batch did not touch is as
  before.  The hypothesis on \<open>memory_checkpoint\<close> says that no word below address 32 was peeked
  at (\<open>checkpoint_loses_register\<close> shows what happens if one was).
\<close>

theorem execute_state_checkpoint:
  assumes "execute_state env emit s = Some (Inr ((cp, pv, d), s'))" "\<not> unconstrained s" "start_memory s = Inr m0"
    and "execute env (checkpoint_start emit s) = Some (Inr (d, t))"
    and "\<forall>a<32. page_table (memory_checkpoint t) a = None"
  shows "if d \<and> \<not> emit then memory cp = m0
    else (\<forall>a. registers (memory cp) a = (if registers (memory_checkpoint t) a = None then None else registers m0 a)
            \<and> (registers (memory_checkpoint t) a = None \<longrightarrow> regs t a = registers m0 a))
       \<and> (\<forall>a. page_table (memory cp) a = (if page_table (memory_checkpoint t) a = None then None else page_table m0 a)
            \<and> (page_table (memory_checkpoint t) a = None \<longrightarrow> ptab t a = page_table m0 a))"
proof -
  note k = batch_checkpointed [OF assms(4,2,3)]
  have r: "kept (registers (memory_checkpoint t)) (registers m0) (regs t)"
      "kept (page_table (memory_checkpoint t)) (page_table m0) (ptab t)"
      "\<And>a. \<not> a < 32 \<Longrightarrow> registers (memory_checkpoint t) a = None" using k(1) by (simp_all add: checkpointed_def)
  have cp: "memory cp = (if d \<and> \<not> emit then apply_checkpoint (memory_checkpoint t) (memory (state t))
      else collect_checkpoint (memory_checkpoint t))"
    using assms(1,4) k(2) by (auto simp: execute_state_def checkpoint_end_def Let_def rbind_eq_Inr split: if_splits)
  show ?thesis
  proof (cases "d \<and> \<not> emit")
    case True
    have "apply_checkpoint (memory_checkpoint t) (memory (state t)) = m0"
      using r assms(5)
      by (intro memory.equality) (auto simp: apply_checkpoint_def kept_def fun_eq_iff split: option.split)
    with True cp show ?thesis by simp
  next
    case False
    then show ?thesis using cp r assms(5) by (auto simp: collect_checkpoint_def kept_def split: option.splits)
  qed
qed

text \<open>A program of one jump out of its code: one batch, which writes register 0.\<close>

definition tiny :: executor where
  "tiny = with_context 48 Map.empty \<lparr>instructions = [instr_new JAL 0 8 0 True True], pc_start = 0x1000,
     pc_base = 0x1000, memory_image = [(0x2000, 7)]\<rparr> 2097152 1 None True"

lemma tiny_cycle:
  "\<exists>s u. initialize (checkpoint_start False tiny) = Inr s \<and> execute_cycle demo_env s = Inr (True, u)
     \<and> page_table (memory_checkpoint u) = Map.empty"
proof -
  obtain s where s: "initialize (checkpoint_start False tiny) = Inr s"
    "program s = program tiny" "pc (state s) = 0x1000" "executor_mode s = Checkpoint" "\<not> unconstrained s" "max_cycles s = None"
    "memory_checkpoint s = mem_empty" "clk (state s) = 0" "shard_size s = 8388608" "max_syscall_cycles s = 48"
    "shape_check_frequency s = 16" "global_clk (state s) = 0"
    by (simp add: initialize_def checkpoint_start_def tiny_def with_context_def state_new_def mem_insert_def pt_insert_def in_range_def)
  have f: "(fetch (program s) (pc (state s)) :: instruction res) = Inr (instr_new JAL 0 8 0 True True)"
    by (simp add: fetch_def vec_get_def s tiny_def with_context_def)
  let ?i = "instr_new JAL 0 8 0 True True" and ?b = "begin_instruction (instr_new JAL 0 8 0 True True) s"
  let ?w = "rw_cpu X0 0x1004 ?b" and ?u = "upd_state (\<lambda>st. st\<lparr>pc := 0x1008, clk := 4\<rparr>) (rw_cpu X0 0x1004 ?b)"
  have b: "executor_mode ?b = Checkpoint" "\<not> unconstrained ?b" "memory_checkpoint ?b = mem_empty"
    using s begin_misc [of s ?i] by (simp_all add: misc_def)
  have w: "keeps ?b ?w" by (rule rw_cpu_keeps)
  have o: "execute_operation demo_env ?i ?b = Inr ((0x1004, 8, 0, 0, 0x1008, HALT, 0), ?w)"
    using keeps_state [OF w] by (simp add: execute_operation_def instr_class_defs instr_new_def execute_jump_def j_type_def from_u8_def
      of_option_def s Let_def)
  have i: "execute_instruction demo_env ?i s = Inr ?u"
    using keeps_state [OF w] b s by (simp add: execute_instruction_eq o end_instruction_def)
  have k: "fixed s ?u" "max_cycles ?u = None" "shard_size ?u = 8388608" "max_syscall_cycles ?u = 48" "shape_check_frequency ?u = 16"
    "program ?u = program tiny" using instruction_fixed [OF i] s by (simp_all add: fixed_def)
  have g: "\<not> unconstrained ?u" "global_clk (state ?u) = 0" using keeps_state [OF w] b s by simp_all
  have "shard_boundary (upd_state (\<lambda>st. st\<lparr>global_clk := global_clk st + 1\<rparr>) ?u)
      = Inr (upd_state (\<lambda>st. st\<lparr>global_clk := global_clk st + 1\<rparr>) ?u)"
    using k g by (simp add: shard_boundary_def check_shape_def)
  then have "execute_cycle demo_env s = Inr (True, upd_state (\<lambda>st. st\<lparr>global_clk := global_clk st + 1\<rparr>) ?u)"
    using k g by (simp add: execute_cycle_def f i check_limits_def is_done_def tiny_def with_context_def)
  moreover have "page_table (memory_checkpoint ?w) = Map.empty"
    using b by (simp add: rw_cpu_def rw_def reg_access_eq Let_def mem_empty_def)
  ultimately have "\<exists>u. execute_cycle demo_env s = Inr (True, u) \<and> page_table (memory_checkpoint u) = Map.empty" by simp
  with s(1) show ?thesis by blast
qed

lemma finish_batch_records: "finish_batch p n (True, s) = (d, t) \<Longrightarrow> records t \<noteq> []"
proof -
  have "set_public_values p pv k a b rs \<noteq> []" if "rs \<noteq> []" for pv k a b and rs :: "execution_record list"
    using that by (cases rs) (simp_all add: Let_def)
  then show "finish_batch p n (True, s) = (d, t) \<Longrightarrow> records t \<noteq> []"
    by (auto simp: finish_batch_def Let_def bump_record_def)
qed

lemma one_cycle_batch:
  assumes "global_clk (state s) = 0" "initialize (checkpoint_start False s) = Inr s0" "execute_cycle env s0 = Inr (True, u)"
  shows "\<exists>t. execute env (checkpoint_start False s) = Some (Inr (True, t)) \<and> records t \<noteq> [] \<and> memory_checkpoint t = memory_checkpoint u"
proof -
  let ?s = "checkpoint_start False s"
  have g: "global_clk (state ?s) = 0" using assms(1) by (simp add: checkpoint_start_def)
  obtain d t where f: "finish_batch (program ?s) (current_shard (state ?s)) (True, u) = (d, t)" by fastforce
  have "execute env ?s = Some (Inr (d, t))"
    by (simp add: execute_def Let_def g assms(2,3) execute_loop.simps f)
  then show ?thesis using finish_batch_sel(1,5) [OF f] finish_batch_records [OF f] by auto
qed

text \<open>Such a batch is executed and leaves a checkpoint.\<close>

lemma one_cycle_checkpoint:
  assumes "execute env (checkpoint_start False s) = Some (Inr (True, t))" "records t \<noteq> []" "\<not> unconstrained s" "start_memory s = Inr m0"
  obtains cp pv s' where "execute_state env False s = Some (Inr ((cp, pv, True), s'))"
  using assms batch_checkpointed(2) [OF assms(1,3,4)] by (simp add: execute_state_def checkpoint_end_def Let_def)

lemma tiny_execute:
  "\<exists>t. execute demo_env (checkpoint_start False tiny) = Some (Inr (True, t)) \<and> records t \<noteq> []
     \<and> page_table (memory_checkpoint t) = Map.empty"
proof -
  obtain s u where u: "initialize (checkpoint_start False tiny) = Inr s" "execute_cycle demo_env s = Inr (True, u)"
    "page_table (memory_checkpoint u) = Map.empty" using tiny_cycle by blast
  have "global_clk (state tiny) = 0" by (simp add: tiny_def with_context_def state_new_def)
  from one_cycle_batch [OF this u(1,2)] u(3) show ?thesis by auto
qed

theorem execute_state_checkpoint_witness:
  "\<exists>cp pv s' m0. execute_state demo_env False tiny = Some (Inr ((cp, pv, True), s')) \<and> start_memory tiny = Inr m0 \<and> memory cp = m0"
proof -
  have un: "\<not> unconstrained tiny" by (simp add: tiny_def with_context_def)
  obtain t where t: "execute demo_env (checkpoint_start False tiny) = Some (Inr (True, t))" "records t \<noteq> []" "page_table (memory_checkpoint t) = Map.empty"
    using tiny_execute by blast
  obtain m0 where m0: "start_memory tiny = Inr m0"
    by (simp add: start_memory_def tiny_def with_context_def state_new_def mem_insert_def pt_insert_def in_range_def)
  obtain cp pv s' where e: "execute_state demo_env False tiny = Some (Inr ((cp, pv, True), s'))" using one_cycle_checkpoint [OF t(1,2) un m0] .
  have "\<forall>a<32. page_table (memory_checkpoint t) a = None" by (simp add: t(3))
  with execute_state_checkpoint [OF e un m0 t(1)] have "memory cp = m0" by simp
  with e m0 show ?thesis by blast
qed

text \<open>
  (C30) A peek at a word below address 32 during the last batch (a \<open>WRITE\<close> or \<open>VERIFY_SP1_PROOF\<close> with such
  a pointer), when the memory events are left to whoever replays the checkpoint: in the memory of the
  checkpoint that \<open>execute_state\<close> returns, the register of that number is not the register of before
  the batch but the word of before the batch at that address, so it is lost if there was no such word.
\<close>

theorem checkpoint_loses_register:
  assumes "execute_state env False s = Some (Inr ((cp, pv, True), s'))" "\<not> unconstrained s" "start_memory s = Inr m0"
    and "execute env (checkpoint_start False s) = Some (Inr (True, t))" "a < 32" "page_table (memory_checkpoint t) a \<noteq> None"
  shows "registers (memory cp) a = page_table m0 a"
proof -
  note k = batch_checkpointed [OF assms(4,2,3)]
  have "memory cp = apply_checkpoint (memory_checkpoint t) (memory (state t))"
    using assms(1,4) k(2) by (auto simp: execute_state_def checkpoint_end_def Let_def rbind_eq_Inr split: if_splits)
  moreover have "kept (page_table (memory_checkpoint t)) (page_table m0) (ptab t)" using k(1) by (simp add: checkpointed_def)
  ultimately show ?thesis using assms(5,6) by (auto simp: apply_checkpoint_def kept_def)
qed

text \<open>
  A program of one system call, a \<open>WRITE\<close> of one byte at address 4 to the hint file, from a state in
  which register 4 holds 9.
\<close>

definition peeker :: executor where
  "peeker = upd_mem (\<lambda>m. m\<lparr>registers := map_of (map (\<lambda>(a, v). (a, \<lparr>mem_shard = 0, mem_timestamp = 0, mem_value = v\<rparr>))
       [(4, 9), (5, 2), (10, 14), (11, 4), (12, 1)])\<rparr>)
     (with_context 48 Map.empty \<lparr>instructions = [instr_new ECALL 5 10 11 False False], pc_start = 0x1000,
       pc_base = 0x1000, memory_image = []\<rparr> 2097152 1 None True)"

lemma rr_cpu_checkpoint:
  assumes "rr_cpu r p s = (v, t)" "executor_mode s = Checkpoint"
  shows "page_table (memory_checkpoint t) = page_table (memory_checkpoint s)" "ptab t = ptab s"
  using assms by (auto simp: rr_cpu_def rr_def reg_access_eq Let_def)

lemma rr_cpu_register:
  assumes "rr_cpu r p s = (v, t)" "regs s (reg_u32 r) = Some rec"
  shows "v = mem_value rec" "\<exists>rec'. regs t = (regs s)(reg_u32 r \<mapsto> rec')"
  using rr_cpu_spec [OF assms(1)] assms(2) by (auto simp: entry_record_def reg_effect_def)

lemma write_peek:
  assumes "regs (rt c) 12 = Some rec" "mem_value rec = 1" "ptab (rt c) 4 = None" "checkpointing (rt c)"
  shows "\<exists>c'. write_syscall demo_env 14 4 c = Inr (None, c') \<and> ctx_exit_code c' = ctx_exit_code c \<and> ctx_next_pc c' = ctx_next_pc c
    \<and> rt c' = push_front [0] (note_checkpoint_page True 4 (note_checkpoint_reg True 12 (rt c)))"
  using assms
  by (simp add: write_syscall_def sbind_def c_register_def register_get_def Let_def c_byte_def byte_get_def word_get_def pt_get_def
    in_range_def align_def sret_def write_fd_def FD_HINT_def LOWEST_ALLOWED_FD_def FD_PUBLIC_VALUES_def s_rt_def supd_def
    note_checkpoint_reg_def note_checkpoint_page_def checkpointing_def)

lemma peeker_ecall:
  assumes b: "executor_mode b = Checkpoint" "\<not> unconstrained b" "regs b = regs peeker" "ptab b = Map.empty"
  shows "\<exists>u. execute_ecall demo_env b = Inr ((2, 14, 4, clk (state b), pc (state b) + 4, WRITE, 0), u)
    \<and> page_table (memory_checkpoint u) 4 \<noteq> None \<and> executor_mode u = Checkpoint \<and> \<not> unconstrained u
    \<and> global_clk (state u) = global_clk (state b) \<and> clk (state u) = clk (state b)"
proof -
  let ?rec = "\<lambda>v. \<lparr>mem_shard = 0, mem_timestamp = 0, mem_value = v\<rparr> :: memory_record"
  have r: "regs b 5 = Some (?rec 2)" "regs b 10 = Some (?rec 14)" "regs b 11 = Some (?rec 4)" "regs b 12 = Some (?rec 1)"
    unfolding b(3) by (simp_all add: peeker_def with_context_def state_new_def)
  define s1 where "s1 = note_checkpoint_reg (checkpointing b) 5 b"
  have s1: "register_get X5 b = (2, s1)" "executor_mode s1 = Checkpoint" "\<not> unconstrained s1" "state s1 = state b"
    using r b by (simp_all add: register_get_def s1_def note_checkpoint_reg_def)
  obtain c s2 where s2: "rr_cpu X11 C_pos s1 = (c, s2)" by fastforce
  note k2 = keeps_state [OF rr_cpu_spec(2) [OF s2, unfolded reg_effect_def, THEN conjunct1]]
  have c: "c = 4" "regs s2 10 = Some (?rec 14)" "regs s2 12 = Some (?rec 1)" "ptab s2 = Map.empty"
    using rr_cpu_register [OF s2, of "?rec 4"] rr_cpu_checkpoint [OF s2] s1 r b(4) by auto
  obtain d s3 where s3: "rr_cpu X10 B_pos s2 = (d, s3)" by fastforce
  note k3 = keeps_state [OF rr_cpu_spec(2) [OF s3, unfolded reg_effect_def, THEN conjunct1]]
  have d: "d = 14" "regs s3 12 = Some (?rec 1)" "ptab s3 = Map.empty"
    using rr_cpu_register [OF s3, of "?rec 14"] rr_cpu_checkpoint [OF s3] s1 k2 c by auto
  define s4 where "s4 = count_syscall WRITE (report_syscall WRITE s3)"
  have s4: "executor_mode s4 = Checkpoint" "\<not> unconstrained s4" "regs s4 12 = Some (?rec 1)" "ptab s4 = Map.empty" "clk (state s4) = clk (state b)"
    "pc (state s4) = pc (state b)" "global_clk (state s4) = global_clk (state b)"
    using k2 k3 s1 d by (simp_all add: s4_def count_syscall_def report_syscall_def)
  obtain c' where c': "write_syscall demo_env 14 4 (ctx_new s4) = Inr (None, c')" "ctx_exit_code c' = 0" "ctx_next_pc c' = pc (state b) + 4"
    "rt c' = push_front [0] (note_checkpoint_page True 4 (note_checkpoint_reg True 12 s4))"
    using write_peek [of "ctx_new s4" "?rec 1"] s4 by (auto simp: ctx_new_def checkpointing_def)
  have w: "executor_mode (rt c') = Checkpoint" "\<not> unconstrained (rt c')" "page_table (memory_checkpoint (rt c')) 4 \<noteq> None" "clk (state (rt c')) = clk (state b)"
    "global_clk (state (rt c')) = global_clk (state b)"
    using s4 unfolding c'(4) by (simp_all add: push_front_def note_checkpoint_page_def note_checkpoint_reg_def keep_first_None)
  note k5 = keeps_state [OF rw_cpu_keeps [of "rt c'" X5 2]]
  have p: "page_table (memory_checkpoint (rw_cpu X5 2 (rt c'))) = page_table (memory_checkpoint (rt c'))"
    using w by (simp add: rw_cpu_def rw_def reg_access_eq Let_def)
  have u: "\<not> unconstrained (report_syscall WRITE s3)" using k2 k3 s1 by (simp add: report_syscall_def)
  have "execute_ecall demo_env b = Inr ((2, 14, 4, clk (state b), pc (state b) + 4, WRITE, 0),
      upd_state (\<lambda>st. st\<lparr>clk := clk st + num_extra_cycles WRITE\<rparr>) (rw_cpu X5 2 (rt c')))"
    using c' w k5 u by (simp add: execute_ecall_def Let_def s1(1) s2 s3 c(1) d(1) from_u32_def of_option_def s4_def [symmetric])
  then show ?thesis using w k5 p by (auto simp: num_extra_cycles_def)
qed

lemma peeker_cycle:
  "\<exists>s u. initialize (checkpoint_start False peeker) = Inr s \<and> execute_cycle demo_env s = Inr (True, u)
     \<and> page_table (memory_checkpoint u) 4 \<noteq> None"
proof -
  obtain s where s: "initialize (checkpoint_start False peeker) = Inr s"
    "program s = program peeker" "pc (state s) = 0x1000" "executor_mode s = Checkpoint" "\<not> unconstrained s" "max_cycles s = None"
    "regs s = regs peeker" "ptab s = Map.empty" "shard_size s = 8388608" "max_syscall_cycles s = 48" "clk (state s) = 0"
    "shape_check_frequency s = 16" "global_clk (state s) = 0"
    by (simp add: initialize_def checkpoint_start_def peeker_def with_context_def state_new_def mem_empty_def)
  let ?i = "instr_new ECALL 5 10 11 False False" and ?b = "begin_instruction (instr_new ECALL 5 10 11 False False) s"
  have f: "(fetch (program s) (pc (state s)) :: instruction res) = Inr ?i"
    by (simp add: fetch_def vec_get_def s peeker_def with_context_def)
  have b: "executor_mode ?b = Checkpoint" "\<not> unconstrained ?b" using s begin_misc [of s ?i] by (simp_all add: misc_def)
  obtain w where w: "execute_ecall demo_env ?b = Inr ((2, 14, 4, 0, 0x1004, WRITE, 0), w)" "page_table (memory_checkpoint w) 4 \<noteq> None"
    "executor_mode w = Checkpoint" "\<not> unconstrained w" "global_clk (state w) = 0" "clk (state w) = 0"
    using peeker_ecall [OF b] s by auto
  let ?u = "upd_state (\<lambda>st. st\<lparr>pc := 0x1004, clk := clk st + 4\<rparr>) w"
  have o: "execute_operation demo_env ?i ?b = Inr ((2, 14, 4, 0, 0x1004, WRITE, 0), w)"
    using w(1) by (simp add: execute_operation_def instr_class_defs instr_new_def Let_def)
  have i: "execute_instruction demo_env ?i s = Inr ?u" using w by (simp add: execute_instruction_eq o end_instruction_def)
  have k: "max_cycles ?u = None" "shard_size ?u = 8388608" "max_syscall_cycles ?u = 48" "shape_check_frequency ?u = 16"
    "program ?u = program peeker" using instruction_fixed [OF i] s by (simp_all add: fixed_def)
  have "shard_boundary (upd_state (\<lambda>st. st\<lparr>global_clk := global_clk st + 1\<rparr>) ?u)
      = Inr (upd_state (\<lambda>st. st\<lparr>global_clk := global_clk st + 1\<rparr>) ?u)"
    using k w by (simp add: shard_boundary_def check_shape_def)
  then have "execute_cycle demo_env s = Inr (True, upd_state (\<lambda>st. st\<lparr>global_clk := global_clk st + 1\<rparr>) ?u)"
    using k w by (simp add: execute_cycle_def f i check_limits_def is_done_def peeker_def with_context_def)
  moreover have "page_table (memory_checkpoint (upd_state (\<lambda>st. st\<lparr>global_clk := global_clk st + 1\<rparr>) ?u)) 4 \<noteq> None" using w(2) by simp
  ultimately show ?thesis using s(1) by blast
qed

theorem checkpoint_loses_register_witness:
  "\<exists>cp pv s' m0. execute_state demo_env False peeker = Some (Inr ((cp, pv, True), s')) \<and> start_memory peeker = Inr m0
     \<and> registers m0 4 = Some \<lparr>mem_shard = 0, mem_timestamp = 0, mem_value = 9\<rparr> \<and> registers (memory cp) 4 = None"
proof -
  have un: "\<not> unconstrained peeker" "global_clk (state peeker) = 0" by (simp_all add: peeker_def with_context_def state_new_def)
  obtain s u where u: "initialize (checkpoint_start False peeker) = Inr s" "execute_cycle demo_env s = Inr (True, u)"
    "page_table (memory_checkpoint u) 4 \<noteq> None" using peeker_cycle by blast
  obtain t where t: "execute demo_env (checkpoint_start False peeker) = Some (Inr (True, t))" "records t \<noteq> []" "page_table (memory_checkpoint t) 4 \<noteq> None"
    using one_cycle_batch [OF un(2) u(1,2)] u(3) by auto
  have m0: "start_memory peeker = Inr (memory (state peeker))" by (simp add: start_memory_def peeker_def with_context_def state_new_def)
  obtain cp pv s' where e: "execute_state demo_env False peeker = Some (Inr ((cp, pv, True), s'))" using one_cycle_checkpoint [OF t(1,2) un(1) m0] .
  have "registers (memory cp) 4 = ptab peeker 4" by (rule checkpoint_loses_register [OF e un(1) m0 t(1) _ t(3)]) simp
  then show ?thesis using e m0 by (auto simp: peeker_def with_context_def state_new_def mem_empty_def)
qed

end
