(* ===== verification/SP1_Modes.thy ===== *)
theory SP1_Modes
  imports SP1_Drivers
begin

text \<open>
  The mode does not matter: \<open>Simple\<close>, \<open>Checkpoint\<close> and \<open>Trace\<close> runs of a program go through the
  same states, up to what is recorded about them.  \<open>agree\<close> is the interface of \<open>SP1_Frame\<close>
  instantiated with equality of everything but the recordings.
\<close>

section \<open>What the modes agree on\<close>

definition fork_agree :: "fork_state \<Rightarrow> fork_state \<Rightarrow> bool" where
  "fork_agree f g \<longleftrightarrow> fork_global_clk f = fork_global_clk g \<and> fork_clk f = fork_clk g \<and> fork_pc f = fork_pc g
     \<and> memory_diff f = memory_diff g \<and> public_values (fork_record f) = public_values (fork_record g)"

definition agree :: "executor \<Rightarrow> executor \<Rightarrow> bool" where
  "agree s t \<longleftrightarrow> state s = state t \<and> program s = program t \<and> unconstrained s = unconstrained t
     \<and> uninitialized_memory_checkpoint s = uninitialized_memory_checkpoint t \<and> report s = report t
     \<and> print_report s = print_report t \<and> shard_size s = shard_size t \<and> shard_batch_size s = shard_batch_size t
     \<and> max_syscall_cycles s = max_syscall_cycles t \<and> max_cycles s = max_cycles t
     \<and> public_values (exec_record s) = public_values (exec_record t)
     \<and> cycle_tracker s = cycle_tracker t \<and> io_buf s = io_buf t \<and> local_counts s = local_counts t
     \<and> deferred_proof_verification s = deferred_proof_verification t
     \<and> maximal_shapes s = maximal_shapes t \<and> costs s = costs t \<and> shape_check_frequency s = shape_check_frequency t
     \<and> lde_size_check s = lde_size_check t \<and> lde_size_threshold s = lde_size_threshold t
     \<and> event_counts s = event_counts t
     \<and> (unconstrained s \<longrightarrow> fork_agree (unconstrained_state s) (unconstrained_state t))"

lemma agree_refl [simp]: "agree s s"
  by (simp add: agree_def fork_agree_def)

lemma agree_sym: "agree s t \<Longrightarrow> agree t s"
  by (simp add: agree_def fork_agree_def)

lemma agree_upd [simp]:
  "agree (s\<lparr>memory_accesses := x1\<rparr>) t = agree s t" "agree s (t\<lparr>memory_accesses := x1\<rparr>) = agree s t"
  "agree (s\<lparr>executor_mode := x2\<rparr>) t = agree s t" "agree s (t\<lparr>executor_mode := x2\<rparr>) = agree s t"
  "agree (s\<lparr>memory_checkpoint := x3\<rparr>) t = agree s t" "agree s (t\<lparr>memory_checkpoint := x3\<rparr>) = agree s t"
  "agree (s\<lparr>local_memory_access := x4\<rparr>) t = agree s t" "agree s (t\<lparr>local_memory_access := x4\<rparr>) = agree s t"
  by (simp_all add: agree_def)

text \<open>The results of two accesses: the records before and after, the local events, the executors.\<close>

definition access_agree :: "memory_record \<times> memory_record \<times> local_map option \<times> executor
    \<Rightarrow> memory_record \<times> memory_record \<times> local_map option \<times> executor \<Rightarrow> bool" where
  "access_agree = (\<lambda>(p, c, lm, s) (p', c', lm', t). p = p' \<and> c = c' \<and> rel_option (\<lambda>_ _. True) lm lm' \<and> agree s t)"

lemma reg_access_agree:
  assumes "agree s t" "rel_option (\<lambda>_ _. True) lm lm'"
  shows "access_agree (reg_access chk loc upd a sh ts lm s) (reg_access chk' loc' upd a sh ts lm' t)"
proof -
  have e: "state s = state t" "uninitialized_memory_checkpoint s = uninitialized_memory_checkpoint t" "local_counts s = local_counts t"
    "unconstrained s = unconstrained t" "unconstrained t \<Longrightarrow> memory_diff (unconstrained_state s) = memory_diff (unconstrained_state t)"
    using assms(1) by (simp_all add: agree_def fork_agree_def)
  show ?thesis
    using assms by (simp add: reg_access_eq Let_def access_agree_def option.rel_map e agree_def fork_agree_def)
qed

lemma page_access_agree:
  assumes "agree s t" "rel_option (\<lambda>_ _. True) lm lm'"
  shows "access_agree (page_access upd a sh ts lm s) (page_access upd a sh ts lm' t)"
proof -
  have e: "state s = state t" "uninitialized_memory_checkpoint s = uninitialized_memory_checkpoint t" "local_counts s = local_counts t"
    "unconstrained s = unconstrained t" "unconstrained t \<Longrightarrow> memory_diff (unconstrained_state s) = memory_diff (unconstrained_state t)"
    "(lm = None) = (lm' = None)"
    using assms by (auto simp: agree_def fork_agree_def)
  show ?thesis
    using assms by (simp add: page_access_eq Let_def access_agree_def option.rel_map e agree_def fork_agree_def)
qed

lemma agree_view: "agree s t \<Longrightarrow> same_view s t"
  by (simp add: agree_def fork_agree_def same_view_def)

lemma access_agreeD: "access_agree x y \<Longrightarrow> x = (p, c, lm, s) \<Longrightarrow> y = (p', c', lm', t)
    \<Longrightarrow> p = p' \<and> c = c' \<and> rel_option (\<lambda>_ _. True) lm lm' \<and> agree s t"
  by (simp add: access_agree_def)

lemma rr_cpu_access:
  obtains chk loc q c lm t x where
    "reg_access chk loc (\<lambda>v. v) (reg_u32 r) (current_shard (state s)) (timestamp_at p s) None s = (q, c, lm, t)"
    "rr_cpu r p s = (mem_value c, t\<lparr>memory_accesses := x\<rparr>)"
proof (cases "executor_mode s = Trace")
  case True
  then show ?thesis using that
    by (cases "reg_access (checkpointing s) (tracing s) (\<lambda>v. v) (reg_u32 r) (current_shard (state s)) (timestamp_at p s) None s")
      (simp add: rr_cpu_def rr_traced_def read_record_new_def)
next
  case False
  obtain q c lm t where m: "reg_access (checkpointing s) False (\<lambda>v. v) (reg_u32 r) (current_shard (state s)) (timestamp_at p s) None s
      = (q, c, lm, t)" by (metis prod_cases4)
  show ?thesis by (rule that [OF m, of "memory_accesses t"]) (use False m in \<open>simp add: rr_cpu_def rr_def\<close>)
qed

lemma rw_cpu_access:
  obtains chk loc q c lm t x where
    "reg_access chk loc (\<lambda>_. if r = X0 then 0 else v) (reg_u32 r) (current_shard (state s)) (timestamp_at A_pos s) None s = (q, c, lm, t)"
    "rw_cpu r v s = t\<lparr>memory_accesses := x\<rparr>"
proof (cases "executor_mode s = Trace")
  case True
  then show ?thesis using that
    by (cases "reg_access (unconstrained s) (\<not> unconstrained s) (\<lambda>_. if r = X0 then 0 else v) (reg_u32 r) (current_shard (state s))
        (timestamp_at A_pos s) None s") (simp add: rw_cpu_def rw_traced_def Let_def)
next
  case False
  obtain q c lm t where m: "reg_access (checkpointing s) False (\<lambda>_. if r = X0 then 0 else v) (reg_u32 r)
      (current_shard (state s)) (timestamp_at A_pos s) None s = (q, c, lm, t)" by (metis prod_cases4)
  show ?thesis by (rule that [OF m, of "memory_accesses t"]) (use False m in \<open>simp add: rw_cpu_def rw_def Let_def\<close>)
qed

lemma agree_clock:
  assumes "agree s t"
  shows "current_shard (state s) = current_shard (state t)" "timestamp_at p s = timestamp_at p t"
  using assms by (simp_all add: agree_def timestamp_at_def)

lemma rr_cpu_agree:
  assumes "agree s t"
  shows "same agree (rr_cpu r p s) (rr_cpu r p t)"
proof (rule rr_cpu_access [of r s p], rule rr_cpu_access [of r t p])
  fix chk loc q c lm u x chk' loc' q' c' lm' u' x'
  assume s: "reg_access chk loc (\<lambda>v. v) (reg_u32 r) (current_shard (state s)) (timestamp_at p s) None s = (q, c, lm, u)"
      "rr_cpu r p s = (mem_value c, u\<lparr>memory_accesses := x\<rparr>)"
    and t: "reg_access chk' loc' (\<lambda>v. v) (reg_u32 r) (current_shard (state t)) (timestamp_at p t) None t = (q', c', lm', u')"
      "rr_cpu r p t = (mem_value c', u'\<lparr>memory_accesses := x'\<rparr>)"
  show ?thesis
    using access_agreeD [OF reg_access_agree [OF assms] s(1) t(1) [folded agree_clock [OF assms]]] by (simp add: s(2) t(2))
qed

lemma rw_cpu_agree:
  assumes "agree s t"
  shows "agree (rw_cpu r v s) (rw_cpu r v t)"
proof (rule rw_cpu_access [of r v s], rule rw_cpu_access [of r v t])
  fix chk loc q c lm u x chk' loc' q' c' lm' u' x'
  assume s: "reg_access chk loc (\<lambda>_. if r = X0 then 0 else v) (reg_u32 r) (current_shard (state s)) (timestamp_at A_pos s) None s = (q, c, lm, u)"
      "rw_cpu r v s = u\<lparr>memory_accesses := x\<rparr>"
    and t: "reg_access chk' loc' (\<lambda>_. if r = X0 then 0 else v) (reg_u32 r) (current_shard (state t)) (timestamp_at A_pos t) None t = (q', c', lm', u')"
      "rw_cpu r v t = u'\<lparr>memory_accesses := x'\<rparr>"
  show ?thesis
    using access_agreeD [OF reg_access_agree [OF assms] s(1) t(1) [folded agree_clock [OF assms]]] by (simp add: s(2) t(2))
qed

abbreviation any :: "local_map \<Rightarrow> local_map \<Rightarrow> bool" where
  "any \<equiv> \<lambda>_ _. True"

lemma mr_agree:
  assumes "agree s t" "rel_option any lm lm'"
  shows "res_rel (access_rel agree any) (mr a sh ts lm s) (mr a sh ts lm' t)"
  using page_access_agree [OF assms, of "\<lambda>v. v" a sh ts]
  by (cases "page_access (\<lambda>v. v) a sh ts lm s"; cases "page_access (\<lambda>v. v) a sh ts lm' t")
    (simp add: mr_def access_rel_def access_agree_def)

lemma mw_agree:
  assumes "agree s t" "rel_option any lm lm'"
  shows "res_rel (access_rel agree any) (mw a v sh ts lm s) (mw a v sh ts lm' t)"
  using page_access_agree [OF assms, of "\<lambda>_. v" a sh ts]
  by (cases "page_access (\<lambda>_. v) a sh ts lm s"; cases "page_access (\<lambda>_. v) a sh ts lm' t")
    (simp add: mw_def access_rel_def access_agree_def)

lemma rr_traced_agree:
  assumes "agree s t" "rel_option any lm lm'"
  shows "access_rel agree any (rr_traced r sh ts lm s) (rr_traced r sh ts lm' t)"
  using reg_access_agree [OF assms, of "checkpointing s" "tracing s" "\<lambda>v. v" "reg_u32 r" sh ts "checkpointing t" "tracing t"]
  by (cases "reg_access (checkpointing s) (tracing s) (\<lambda>v. v) (reg_u32 r) sh ts lm s";
      cases "reg_access (checkpointing t) (tracing t) (\<lambda>v. v) (reg_u32 r) sh ts lm' t")
    (simp add: rr_traced_def access_rel_def access_agree_def)

lemma mr_cpu_agree:
  assumes "agree s t"
  shows "res_rel (same agree) (mr_cpu a s) (mr_cpu a t)"
  unfolding mr_cpu_def agree_clock [OF assms]
  by (rule res_rel_bind [OF mr_agree [OF assms]]) (auto simp: access_rel_def same_def)

lemma mw_cpu_agree:
  assumes "agree s t"
  shows "res_rel agree (mw_cpu a v s) (mw_cpu a v t)"
  unfolding mw_cpu_def agree_clock [OF assms]
  by (rule res_rel_bind [OF mw_agree [OF assms]]) (auto simp: access_rel_def)

section \<open>Recording does not change the public values\<close>

lemma push_public [simp]:
  "public_values (exec_record (push_add e s)) = public_values (exec_record s)"
  "public_values (exec_record (push_mul e s)) = public_values (exec_record s)"
  "public_values (exec_record (push_lt e s)) = public_values (exec_record s)"
  by (simp_all add: push_add_def push_mul_def push_lt_def)

lemma dependencies_public [simp]:
  "public_values (exec_record (emit_divrem_dependencies e s)) = public_values (exec_record s)"
  "public_values (exec_record (emit_memory_dependencies me r s)) = public_values (exec_record s)"
  "public_values (exec_record (emit_auipc_dependency ae s)) = public_values (exec_record s)"
  by (simp_all add: emit_divrem_dependencies_def emit_memory_dependencies_def emit_auipc_dependency_def Let_def split: prod.split)

lemma emit_events_public:
  assumes "emit_events k n i code a b c z rec ec s = Inr s'"
  shows "public_values (exec_record s') = public_values (exec_record s)"
proof -
  have t: "public_values (exec_record (emit_cpu k n a b c rec ec s)) = public_values (exec_record s)"
    by (simp add: emit_cpu_def)
  have al: "public_values (exec_record u) = public_values (exec_record t)" if "emit_alu_event opc a b c z t = Inr u" for opc t u
    using that by (auto simp: emit_alu_event_def Let_def split: if_splits)
  have me: "public_values (exec_record u) = public_values (exec_record t)" if "emit_mem_instr_event opc a b c z t = Inr u" for opc t u
    using that by (auto simp: emit_mem_instr_event_def Let_def rbind_eq_Inr)
  have br: "public_values (exec_record u) = public_values (exec_record t)" if "emit_branch_event opc a b c z n t = Inr u" for opc t u
    using that by (auto simp: emit_branch_event_def emit_branch_dependencies_def Let_def rbind_eq_Inr split: if_splits)
  have ju: "public_values (exec_record u) = public_values (exec_record t)" if "emit_jump_event opc a b c z n t = Inr u" for opc t u
    using that by (auto simp: emit_jump_event_def emit_jump_dependencies_def Let_def split: opcode.splits)
  show ?thesis
    using assms t unfolding emit_events_def Let_def
    by (auto split: if_splits dest!: al me br ju simp: emit_auipc_event_def emit_syscall_event_def Let_def)
qed

lemma agree_events:
  assumes "agree s t" "only_record s s'" "public_values (exec_record s') = public_values (exec_record s)"
  shows "agree s' t"
proof -
  obtain er where "s' = s\<lparr>exec_record := er\<rparr>" using assms(2) unfolding only_record_def by blast
  with assms(1,3) show ?thesis by (simp add: agree_def)
qed

lemma end_instruction_agree:
  assumes "agree s t" "emits i"
    and "touches_memory i \<Longrightarrow> executor_mode s = Trace \<Longrightarrow> acc_memory (memory_accesses s) \<noteq> None"
    and "touches_memory i \<Longrightarrow> executor_mode t = Trace \<Longrightarrow> acc_memory (memory_accesses t) \<noteq> None"
  shows "res_rel agree (end_instruction i (x, s)) (end_instruction i (x, t))"
proof -
  obtain a b c k n code ec where x: "x = (a, b, c, k, n, code, ec)" by (metis prod_cases7)
  have e: "\<exists>u. (if executor_mode w = Trace
      then emit_events k n i code (if op_a i = 0 then 0 else a) b c (op_a i = 0) (memory_accesses w) ec w
      else Inr w) = Inr u \<and> only_record w u \<and> public_values (exec_record u) = public_values (exec_record w)"
    if acc: "touches_memory i \<Longrightarrow> executor_mode w = Trace \<Longrightarrow> acc_memory (memory_accesses w) \<noteq> None" for w
  proof (cases "executor_mode w = Trace")
    case True
    obtain u where u: "emit_events k n i code (if op_a i = 0 then 0 else a) b c (op_a i = 0) (memory_accesses w) ec w = Inr u"
      "only_record w u" by (rule emit_events_record [OF assms(2) acc [OF _ True]])
    with emit_events_public [OF u(1)] True show ?thesis by auto
  qed (simp add: only_record_def)
  obtain u where u: "(if executor_mode s = Trace
      then emit_events k n i code (if op_a i = 0 then 0 else a) b c (op_a i = 0) (memory_accesses s) ec s
      else Inr s) = Inr u" "only_record s u" "public_values (exec_record u) = public_values (exec_record s)"
    using e [OF assms(3)] by blast
  obtain v where v: "(if executor_mode t = Trace
      then emit_events k n i code (if op_a i = 0 then 0 else a) b c (op_a i = 0) (memory_accesses t) ec t
      else Inr t) = Inr v" "only_record t v" "public_values (exec_record v) = public_values (exec_record t)"
    using e [OF assms(4)] by blast
  have "agree u v" using agree_events [OF agree_sym [OF agree_events [OF assms(1) u(2,3)]] v(2,3)] by (rule agree_sym)
  then show ?thesis unfolding end_instruction_def x prod.case u(1) v(1) by (simp add: agree_def)
qed

lemma move_local_agree: "agree s t \<Longrightarrow> agree (fold move_local as s) t"
proof (induction "as" arbitrary: s)
  case (Cons x xs)
  have "agree (move_local x s) t" using Cons(2) by (auto simp: move_local_def agree_def split: option.split)
  with Cons(1) show ?case by simp
qed simp

lemma agree_precompile [simp]: "agree (s\<lparr>exec_record := (exec_record s)\<lparr>precompile_events := x\<rparr>\<rparr>) t = agree s t"
  by (simp add: agree_def)

lemma finish_agree:
  assumes "should_send key = 1" "add \<in> {add_precompile_event, record_mut_add_precompile_event}"
  shows "related (ctx_rel agree any) (finish_precompile add key code k a b ev)"
proof (rule relatedI)
  fix c d assume r: "ctx_rel agree any c d"
  have e: "\<exists>c'. finish_precompile add key code k a b ev c = Inr (None, c') \<and> ctx_shard c' = ctx_shard c \<and> ctx_clk c' = ctx_clk c
      \<and> ctx_next_pc c' = ctx_next_pc c \<and> ctx_exit_code c' = ctx_exit_code c \<and> (\<forall>t. agree (rt c) t \<longrightarrow> agree (rt c') t)" for c
    using assms
    by (auto simp: finish_precompile_def sbind_def sget_def sret_def postprocess_def add_precompile_event_def
      record_mut_add_precompile_event_def record_add_precompile_event_def move_local_agree)
  from e [of c] e [of d] r show "res_rel (same (ctx_rel agree any)) (finish_precompile add key code k a b ev c)
       (finish_precompile add key code k a b ev d)"
    by (auto simp: ctx_rel_def) (metis agree_sym)
qed

section \<open>Instructions\<close>

lemma public_agree:
  assumes "agree s t"
  shows "res_rel agree (rbind (g (public_values (exec_record s)) :: public_values res) (\<lambda>pv. Inr (upd_record (\<lambda>r. r\<lparr>public_values := pv\<rparr>) s)))
    (rbind (g (public_values (exec_record t))) (\<lambda>pv. Inr (upd_record (\<lambda>r. r\<lparr>public_values := pv\<rparr>) t)))"
proof -
  have e: "public_values (exec_record s) = public_values (exec_record t)" using assms by (simp add: agree_def)
  show ?thesis unfolding e using assms by (cases "g (public_values (exec_record t))") (simp_all add: agree_def)
qed

lemma set_uninit_agree:
  assumes "agree s t"
  shows "res_rel agree (set_uninit a w s) (set_uninit a w t)"
proof -
  have e: "uninitialized_memory_checkpoint s = uninitialized_memory_checkpoint t" "state s = state t"
    using assms by (simp_all add: agree_def)
  show ?thesis unfolding set_uninit_def e
    by (rule res_rel_bind [OF res_rel_refl], simp, rule res_rel_bind [OF res_rel_refl], simp split: option.split)
      (intro allI impI res_rel_bind [OF res_rel_refl], use assms in \<open>simp add: agree_def\<close>)
qed

lemma quiet_agree: "quiet f \<Longrightarrow> agree s t \<Longrightarrow> agree (f s) (f t)"
proof (induction rule: quiet.induct)
  case (quiet_tracker cmd)
  then show ?case
    by (cases cmd) (simp_all add: agree_def start_cycle_tracker_def end_cycle_tracker_def split: option.split)
next
  case (quiet_io fd str)
  then have e: "io_buf s = io_buf t" by (simp add: agree_def)
  show ?case unfolding update_io_buf_def Let_def e using quiet_io by (auto simp: agree_def)
qed (simp_all add: agree_def extend_public_values_def report_syscall_def count_syscall_def)

lemma begin_agree: "agree s t \<Longrightarrow> agree (begin_instruction i s) (begin_instruction i t)"
  by (simp add: begin_instruction_def count_instruction_def agree_def)

lemma register_get_agree: "agree s t \<Longrightarrow> same agree (register_get r s) (register_get r t)"
  by (simp add: register_get_def Let_def note_checkpoint_reg_def) (simp add: agree_def)

lemma word_get_agree:
  assumes "agree s t"
  shows "res_rel (same agree) (word_get a s) (word_get a t)"
proof -
  have e: "state s = state t" using assms by (simp add: agree_def)
  show ?thesis unfolding word_get_def e
    by (rule res_rel_bind [OF res_rel_refl]) (use assms in \<open>simp add: note_checkpoint_page_def\<close>)
qed

interpretation modes: frame agree any UNIV
proof (unfold_locales, goal_cases)
  case (15 s t)
  then show ?case by (simp add: enter_fork_def agree_def fork_agree_def)
next
  case (16 s t)
  then show ?case by (simp add: exit_fork_def agree_def fork_agree_def Let_def)
next
  case (17 s t)
  then show ?case by (simp add: agree_def)
next
  case (7 s t l l' a sh ts)
  then show ?case by (intro mr_agree) simp_all
next
  case (8 s t l l' a v sh ts)
  then show ?case by (intro mw_agree) simp_all
next
  case (9 s t l l' r sh ts)
  then show ?case by (intro rr_traced_agree) simp_all
qed (simp_all add: agree_view rr_cpu_agree rw_cpu_agree mr_cpu_agree mw_cpu_agree register_get_agree word_get_agree
    quiet_agree public_agree set_uninit_agree finish_agree begin_agree end_instruction_agree)

lemma instruction_agree: "agree s t \<Longrightarrow> res_rel agree (execute_instruction env i s) (execute_instruction env i t)"
  by (rule modes.execute_instruction) simp_all

section \<open>Cycles and batches\<close>

lemma shape_fits_agree:
  assumes "agree s t"
  shows "shape_fits s = shape_fits t"
proof (rule ext)
  have e: "state s = state t" "event_counts s = event_counts t" "shape_check_frequency s = shape_check_frequency t"
    using assms by (simp_all add: agree_def)
  show "shape_fits s shape = shape_fits t shape" for shape unfolding shape_fits_def e ..
qed

lemma check_shape_agree:
  assumes "agree s t"
  shows "res_rel (same agree) (check_shape s) (check_shape t)"
proof -
  have e: "shape_check_frequency s = shape_check_frequency t" "state s = state t" "local_counts s = local_counts t"
    "event_counts s = event_counts t" using assms by (simp_all add: agree_def)
  have a: "agree (s\<lparr>event_counts := x\<rparr>) (t\<lparr>event_counts := x\<rparr>)" for x using assms by (simp add: agree_def)
  define c where "c = estimate_counts (ucast (drop_bit 2 (clk (state t)))) (local_mem (local_counts t))
    (syscalls_sent (local_counts t)) (lc_event_counts (local_counts t)) (event_counts t)"
  let ?u = "s\<lparr>event_counts := c\<rparr>" and ?v = "t\<lparr>event_counts := c\<rparr>"
  have f: "lde_size_check s = lde_size_check t" "costs s = costs t" "lde_size_threshold s = lde_size_threshold t"
    "maximal_shapes s = maximal_shapes t" using assms by (simp_all add: agree_def)
  have r: "agree (s\<lparr>event_counts := c, exec_record := (exec_record s)\<lparr>counts := x\<rparr>\<rparr>)
      (t\<lparr>event_counts := c, exec_record := (exec_record t)\<lparr>counts := x\<rparr>\<rparr>)" for x
    using assms by (simp add: agree_def)
  have p: "res_rel (same agree) (rbind (estimate_riscv_lde_size m cs) (\<lambda>x. Inr (x \<le> k, ?u)))
      (rbind (estimate_riscv_lde_size m cs) (\<lambda>x. Inr (x \<le> k, ?v)))" for m cs k
    by (rule res_rel_bind [OF res_rel_refl]) (simp add: a)
  show ?thesis
    unfolding check_shape_def estimate_riscv_event_counts_def Let_def e c_def [symmetric]
    by (simp add: e(1) f shape_fits_agree [OF a] assms not_less p a r split: option.split)
qed

lemma next_shard_agree: "agree s t \<Longrightarrow> agree (next_shard s) (next_shard t)"
  by (simp add: next_shard_def bump_record_def Let_def agree_def)

lemma shard_boundary_agree:
  assumes "agree s t"
  shows "res_rel agree (shard_boundary s) (shard_boundary t)"
proof -
  have e: "unconstrained s = unconstrained t" "max_syscall_cycles s = max_syscall_cycles t" "state s = state t" "shard_size s = shard_size t"
    using assms by (simp_all add: agree_def)
  have "res_rel agree (rbind (check_shape s) (\<lambda>(m, s). Inr (if x \<or> \<not> m then next_shard s else s)))
      (rbind (check_shape t) (\<lambda>(m, s). Inr (if x \<or> \<not> m then next_shard s else s)))" for x
    by (rule res_rel_bind [OF check_shape_agree [OF assms]]) (auto simp: next_shard_agree)
  then show ?thesis unfolding shard_boundary_def Let_def e using assms by simp
qed

lemma check_limits_agree:
  assumes "agree s t"
  shows "res_rel (same agree) (check_limits s) (check_limits t)"
proof -
  have "is_done s = is_done t" "unconstrained s = unconstrained t" "max_cycles s = max_cycles t" "state s = state t"
    using assms by (simp_all add: agree_def is_done_def)
  then show ?thesis using assms by (simp add: check_limits_def split: option.split)
qed

lemma execute_cycle_agree:
  assumes "agree s t"
  shows "res_rel (same agree) (execute_cycle env s) (execute_cycle env t)"
proof -
  have e: "program s = program t" "state s = state t" using assms by (simp_all add: agree_def)
  have tick: "agree (upd_state (\<lambda>st. st\<lparr>global_clk := global_clk st + 1\<rparr>) u) (upd_state (\<lambda>st. st\<lparr>global_clk := global_clk st + 1\<rparr>) v)"
    if "agree u v" for u v using that by (simp add: agree_def)
  show ?thesis unfolding execute_cycle_def Let_def e
  proof (rule res_rel_bind [OF res_rel_refl], clarify)
    fix i
    show "res_rel (same agree)
        (rbind (execute_instruction env i s) (\<lambda>s. rbind (shard_boundary (upd_state (\<lambda>st. st\<lparr>global_clk := global_clk st + 1\<rparr>) s)) check_limits))
        (rbind (execute_instruction env i t) (\<lambda>s. rbind (shard_boundary (upd_state (\<lambda>st. st\<lparr>global_clk := global_clk st + 1\<rparr>) s)) check_limits))"
      by (rule res_rel_bind [OF instruction_agree [OF assms]], rule res_rel_bind [OF shard_boundary_agree])
        (auto intro: tick check_limits_agree)
  qed
qed

lemma execute_loop_agree:
  "execute_loop env sh n s = Some y \<Longrightarrow> agree s t \<Longrightarrow> \<exists>y'. execute_loop env sh n t = Some y' \<and> res_rel (same agree) y y'"
proof (induction env sh n s y arbitrary: t rule: execute_loop.raw_induct [rotated, consumes 1, case_names loop])
  case (loop loop env sh n s y)
  note c = execute_cycle_agree [OF loop(3), of env]
  show ?case
  proof (cases "execute_cycle env s")
    case (Inl e)
    with c loop(2) show ?thesis by (auto simp: execute_loop.simps [of env sh n t] dest: res_rel_InlD)
  next
    case (Inr x)
    obtain d u where x: "x = (d, u)" by fastforce
    obtain v where v: "execute_cycle env t = Inr (d, v)" and a: "agree u v"
      using res_rel_InrD [OF c Inr] by (auto simp: x)
    have e: "shard_batch_size u = shard_batch_size v" "current_shard (state u) = current_shard (state v)"
      using a by (simp_all add: agree_def)
    show ?thesis
      using loop(2) a loop(1) [OF _ a, of env]
      by (auto simp: execute_loop.simps [of env sh n t] Inr x v e split: if_splits)
  qed
qed

text \<open>The end of a run: the states are equal; \<open>touched_memory_addresses\<close> is only reported where
  the memory events are emitted.\<close>

definition end_agree :: "executor \<Rightarrow> executor \<Rightarrow> bool" where
  "end_agree s t \<longleftrightarrow> state s = state t \<and> public_values (exec_record s) = public_values (exec_record t)
     \<and> io_buf s = io_buf t \<and> rep_cycle_tracker (report s) = rep_cycle_tracker (report t)
     \<and> opcode_counts (report s) = opcode_counts (report t) \<and> rep_syscall_counts (report s) = rep_syscall_counts (report t)"

definition batch_agree :: "bool \<times> executor \<Rightarrow> bool \<times> executor \<Rightarrow> bool" where
  "batch_agree = (\<lambda>(d, s) (d', t). d = d' \<and> (if d then end_agree s t else agree s t))"

lemma end_agree_upd [simp]:
  "end_agree (bump_record s) t = end_agree s t" "end_agree s (bump_record t) = end_agree s t"
  "end_agree (exec_postprocess s) t = end_agree s t" "end_agree s (exec_postprocess t) = end_agree s t"
  "end_agree (s\<lparr>records := x\<rparr>) t = end_agree s t" "end_agree s (t\<lparr>records := x\<rparr>) = end_agree s t"
  by (simp_all add: end_agree_def bump_record_def exec_postprocess_def global_memory_events_def Let_def)

lemma finish_batch_agree:
  assumes "agree s t" "\<not> d \<Longrightarrow> cpu_events (exec_record s) = []" "\<not> d \<Longrightarrow> cpu_events (exec_record t) = []"
  shows "batch_agree (finish_batch p n (d, s)) (finish_batch p n (d, t))"
proof (cases d)
  case True
  have "end_agree s t" using assms(1) by (simp add: agree_def end_agree_def)
  with True show ?thesis by (simp add: batch_agree_def finish_batch_def Let_def)
next
  case False
  with assms show ?thesis by (simp add: batch_agree_def finish_batch_def Let_def agree_def)
qed

lemma initialize_agree:
  assumes "agree s t"
  shows "res_rel agree (initialize s) (initialize t)"
proof -
  have e: "program s = program t" "state s = state t" using assms by (simp_all add: agree_def)
  show ?thesis unfolding initialize_def e by (rule res_rel_bind [OF res_rel_refl]) (use assms in \<open>simp add: agree_def\<close>)
qed

lemma execute_agree:
  assumes "agree s t" "execute env s = Some y"
  shows "\<exists>y'. execute env t = Some y' \<and> res_rel batch_agree y y'"
proof -
  have e: "program s = program t" "state s = state t" using assms by (simp_all add: agree_def)
  have i: "res_rel agree (if global_clk (state s) = 0 then initialize s else Inr s) (if global_clk (state t) = 0 then initialize t else Inr t)"
    using initialize_agree [OF assms(1)] assms(1) by (simp add: e)
  show ?thesis
  proof (cases "if global_clk (state s) = 0 then initialize s else Inr s")
    case (Inl x)
    then show ?thesis using res_rel_InlD [OF i Inl] assms(2) by (auto simp: execute_def Let_def)
  next
    case s0: (Inr s0)
    then obtain t0 where t0: "(if global_clk (state t) = 0 then initialize t else Inr t) = Inr t0" and a: "agree s0 t0"
      using res_rel_InrD [OF i s0] by blast
    obtain z where z: "execute_loop env (current_shard (state s0)) 0 s0 = Some z"
      and y: "y = map_sum id (finish_batch (program s) (current_shard (state s))) z"
      using assms(2) s0 by (auto simp: execute_def Let_def)
    obtain z' where z': "execute_loop env (current_shard (state t0)) 0 t0 = Some z'" and r: "res_rel (same agree) z z'"
      using execute_loop_agree [OF z a] a by (auto simp: agree_def)
    have "res_rel batch_agree y (map_sum id (finish_batch (program t) (current_shard (state t))) z')"
    proof (cases z)
      case (Inl x)
      then show ?thesis using res_rel_InlD [OF r] y by simp
    next
      case (Inr x)
      obtain d u where x: "x = (d, u)" by fastforce
      obtain v where v: "z' = Inr (d, v)" and uv: "agree u v" using res_rel_InrD [OF r Inr] by (auto simp: x)
      have "\<not> d \<Longrightarrow> cpu_events (exec_record u) = []" "\<not> d \<Longrightarrow> cpu_events (exec_record v) = []"
        using loop_okD [OF execute_loop_ok [OF z [unfolded Inr x]]] loop_okD [OF execute_loop_ok [OF z' [unfolded v]]] by simp_all
      then show ?thesis using finish_batch_agree [OF uv] by (simp add: y Inr x v e)
    qed
    with z' t0 show ?thesis by (simp add: execute_def Let_def)
  qed
qed

lemma execute_all_agree:
  "execute_all env s = Some y \<Longrightarrow> agree s t \<Longrightarrow> \<exists>y'. execute_all env t = Some y' \<and> res_rel end_agree y y'"
proof (induction env s y arbitrary: t rule: execute_all.raw_induct [rotated, consumes 1, case_names loop])
  case (loop loop env s y)
  obtain z where z: "execute env s = Some z" using loop(2) by (auto split: option.splits)
  obtain z' where z': "execute env t = Some z'" and r: "res_rel batch_agree z z'"
    using execute_agree [OF loop(3) z] by blast
  show ?case
  proof (cases z)
    case (Inl e)
    with r loop(2) show ?thesis by (auto simp: execute_all.simps [of env t] z z' dest: res_rel_InlD)
  next
    case (Inr x)
    obtain d u where x: "x = (d, u)" by fastforce
    obtain v where v: "z' = Inr (d, v)" and a: "if d then end_agree u v else agree u v"
      using res_rel_InrD [OF r Inr] by (auto simp: x batch_agree_def)
    show ?thesis
      using loop(2) a loop(1) [of env u y v] by (auto simp: execute_all.simps [of env t] z z' Inr x v split: if_splits)
  qed
qed

lemma rel_option_sym:
  assumes "\<And>y. x = Some y \<Longrightarrow> \<exists>y'. x' = Some y' \<and> R y y'" "\<And>y. x' = Some y \<Longrightarrow> \<exists>y'. x = Some y'"
  shows "rel_option R x x'"
  using assms by (cases x; cases x') auto

lemma rel_executions:
  assumes "\<And>s t y. agree s t \<Longrightarrow> f s = Some y \<Longrightarrow> \<exists>y'. f t = Some y' \<and> R y y'" "agree s t"
  shows "rel_option R (f s) (f t)"
  by (rule rel_option_sym) (use assms(1) [OF assms(2)] assms(1) [OF agree_sym [OF assms(2)]] in blast)+

text \<open>
  (C12) A batch of shards does the same in every mode: \<open>execute\<close> returns in one mode iff it
  returns in another, with the same error or with the same answer whether the program has
  ended, the same state (registers, memory, clocks, streams) and the same public values.
\<close>

theorem execute_modes_agree:
  "rel_option (res_rel (\<lambda>(d, t) (d', u). d = d' \<and> state t = state u \<and> public_values (exec_record t) = public_values (exec_record u)))
     (execute env (s\<lparr>executor_mode := m\<rparr>)) (execute env (s\<lparr>executor_mode := m'\<rparr>))"
proof -
  have "rel_option (res_rel batch_agree) (execute env (s\<lparr>executor_mode := m\<rparr>)) (execute env (s\<lparr>executor_mode := m'\<rparr>))"
    by (rule rel_executions [OF execute_agree]) simp_all
  then show ?thesis
    by (rule option.rel_mono_strong, elim res_rel_mono) (auto simp: batch_agree_def end_agree_def agree_def split: if_splits)
qed

text \<open>
  (C6) \<open>run_fast\<close> and \<open>run\<close> agree: the fast run of a program ends iff the traced one does, with
  the same error or with the same registers, memory, clocks, output and public values, so an
  execution without a trace is a faithful preview of what will be proved.
\<close>

theorem run_fast_agrees_with_run:
  "rel_option (res_rel (\<lambda>t u. state t = state u \<and> public_values (exec_record t) = public_values (exec_record u) \<and> io_buf t = io_buf u))
     (run_fast env s) (run_trace env s)"
proof -
  have "rel_option (res_rel end_agree) (run_fast env s) (run_trace env s)"
    unfolding run_fast_def run_trace_def by (rule rel_executions [OF execute_all_agree]) (simp_all add: agree_def fork_agree_def)
  then show ?thesis
    by (rule option.rel_mono_strong, elim res_rel_mono) (auto simp: end_agree_def)
qed

end
