(* ===== verification/SP1_Trace.thy ===== *)
theory SP1_Trace
  imports SP1_Modes SP1_Checkpoint
begin

text \<open>
  The trace: the CPU events of a traced run are one contiguous execution across the shards,
  unconstrained blocks left out, the public values of the shards chain accordingly, and the
  ALU events are valid.
\<close>

section \<open>What an operation leaves of the record\<close>

definition base_record :: "executor \<Rightarrow> execution_record" where
  "base_record s = (if unconstrained s then fork_record (unconstrained_state s) else exec_record s)"

definition base_pc :: "executor \<Rightarrow> u32" where
  "base_pc s = (if unconstrained s then fork_pc (unconstrained_state s) else pc (state s))"

definition base_mode :: "executor \<Rightarrow> executor_mode" where
  "base_mode s = (if unconstrained s then fork_executor_mode (unconstrained_state s) else executor_mode s)"

definition same_events :: "execution_record \<Rightarrow> execution_record \<Rightarrow> bool" where
  "same_events r r' \<longleftrightarrow> cpu_events r' = cpu_events r \<and> alu_tables r' = alu_tables r \<and> tables_sorted r' = tables_sorted r"

definition still :: "executor \<Rightarrow> executor \<Rightarrow> bool" where
  "still s0 s \<longleftrightarrow> same_events (base_record s0) (base_record s) \<and> base_pc s = base_pc s0 \<and> base_mode s = base_mode s0
     \<and> records s = records s0 \<and> (unconstrained s \<longrightarrow> executor_mode s = Simple)"

lemma same_events_refl [simp]: "same_events r r"
  by (simp add: same_events_def)

lemma same_events_upd [simp]:
  "same_events r (r'\<lparr>public_values := x1\<rparr>) = same_events r r'"
  "same_events r (r'\<lparr>precompile_events := x2\<rparr>) = same_events r r'"
  "same_events r (r'\<lparr>cpu_local_memory_access := x3\<rparr>) = same_events r r'"
  by (simp_all add: same_events_def alu_tables_def tables_sorted_def)

lemma keeps_still:
  assumes "keeps s t" "still s0 s"
  shows "still s0 t"
proof -
  have "fork_record (unconstrained_state t) = fork_record (unconstrained_state s)"
    "fork_pc (unconstrained_state t) = fork_pc (unconstrained_state s)"
    "fork_executor_mode (unconstrained_state t) = fork_executor_mode (unconstrained_state s)"
    using assms(1) unfolding keeps_def by (metis fork_state.select_convs(3,6,7) fork_state.surjective fork_state.update_convs(4))+
  then have "base_record t = base_record s" "base_pc t = base_pc s" "base_mode t = base_mode s"
    using keeps_state [OF assms(1)] by (simp_all add: base_record_def base_pc_def base_mode_def)
  with assms show ?thesis by (simp add: still_def keeps_def)
qed

definition stays :: "executor \<Rightarrow> executor \<Rightarrow> executor \<Rightarrow> bool" where
  "stays s0 s t \<longleftrightarrow> s = t \<and> still s0 s"

lemma stays_res: "(\<And>x s'. m = Inr (x, s') \<Longrightarrow> still s0 s') \<Longrightarrow> res_rel (same (stays s0)) m m"
  by (rule res_rel_same) (auto simp: same_def stays_def)

lemma still_cong:
  assumes "still s0 s" "unconstrained t = unconstrained s" "unconstrained_state t = unconstrained_state s"
    "same_events (exec_record s) (exec_record t)" "pc (state t) = pc (state s)" "executor_mode t = executor_mode s" "records t = records s"
  shows "still s0 t"
proof -
  have "base_pc t = base_pc s" "base_mode t = base_mode s" "same_events (base_record s) (base_record t)"
    using assms by (simp_all add: base_record_def base_pc_def base_mode_def)
  with assms show ?thesis by (simp add: still_def same_events_def)
qed

lemma quiet_still:
  assumes "quiet f" "still s0 s"
  shows "still s0 (f s)"
  using assms(1)
proof cases
  case (quiet_tracker cmd)
  show ?thesis unfolding quiet_tracker
    by (cases cmd) (rule still_cong [OF assms(2)];
      auto simp: start_cycle_tracker_def end_cycle_tracker_def split: option.splits)+
qed (auto simp: extend_public_values_def update_io_buf_def Let_def report_syscall_def count_syscall_def
    intro: still_cong [OF assms(2)])

lemma set_uninit_still: "set_uninit a w s = Inr s' \<Longrightarrow> still s0 s \<Longrightarrow> still s0 s'"
  by (erule still_cong) (auto simp: set_uninit_def rbind_eq_Inr split: option.splits)

lemma move_local_still: "still s0 s \<Longrightarrow> still s0 (fold move_local as s)"
proof (induction "as" arbitrary: s)
  case (Cons a as)
  have "still s0 (move_local a s)"
    by (rule still_cong [OF Cons(2)]) (simp_all add: move_local_def split: option.split)
  with Cons(1) show ?case by simp
qed simp

lemma finish_still:
  assumes "finish_precompile add key code k a b ev c = Inr (x, c')" "still s0 (rt c)"
    and "add \<in> {add_precompile_event, record_mut_add_precompile_event}"
  shows "still s0 (rt c')"
proof -
  have add: "still s0 (rt c')" if "add key se pe c = Inr (u, c')" "still s0 (rt c)" for se pe u c c'
    by (rule still_cong [OF that(2)]) (use that(1) assms(3) in \<open>auto simp: add_precompile_event_def
      record_mut_add_precompile_event_def record_add_precompile_event_def rbind_eq_Inr split: if_splits\<close>)
  obtain c1 l se pe u where p: "postprocess c = Inr (l, c1)" "add key se pe c1 = Inr (u, c')"
    using assms(1) by (auto simp: finish_precompile_def sbind_def sget_def sret_def rbind_eq_Inr)
  have "still s0 (rt c1)"
    using p(1) move_local_still assms(2) by (auto simp: postprocess_def split: if_splits)
  with add [OF p(2)] show ?thesis .
qed

lemma rr_traced_keeps: "rr_traced r sh ts lm s = (rec, lm', s') \<Longrightarrow> keeps s s'"
  by (auto simp: rr_traced_def split: prod.splits dest: keeps_reg_access)

lemma rr_cpu_keeps: "rr_cpu r p s = (v, s') \<Longrightarrow> keeps s s'"
  using rr_cpu_spec(2) [of r p s v s'] by (simp add: reg_effect_def)

lemma stays_sameI:
  assumes "stays s0 s t" "\<And>t. keeps t (snd (f t))"
  shows "same (stays s0) (f s) (f t)"
proof -
  have e: "s = t" "still s0 t" using assms(1) by (auto simp: stays_def)
  show ?thesis unfolding e(1) using keeps_still [OF assms(2) e(2)] by (auto simp: stays_def same_def split: prod.split)
qed

lemma stays_accessI:
  assumes "stays s0 s t" "l = l'" "\<And>x m s'. f (Some l) t = Inr (x, m, s') \<Longrightarrow> keeps t s'"
  shows "res_rel (access_rel (stays s0) (=)) (f (Some l) s) (f (Some l') t)"
proof -
  have e: "s = t" "still s0 t" using assms(1) by (auto simp: stays_def)
  show ?thesis unfolding e(1) assms(2) [symmetric]
    by (rule res_rel_same [where P = "\<lambda>(x, m, s'). keeps t s'"])
      (auto simp: access_rel_def option.rel_refl stays_def intro: keeps_still [OF _ e(2)] assms(3))
qed

lemma stays_resI:
  assumes "stays s0 s t" "\<And>s'. m t = Inr s' \<Longrightarrow> still s0 t \<Longrightarrow> still s0 (g s')" "\<And>x y. still s0 (g x) \<Longrightarrow> x = y \<Longrightarrow> R x y"
  shows "res_rel R (m s) (m t)"
proof -
  have e: "s = t" "still s0 t" using assms(1) by (auto simp: stays_def)
  show ?thesis unfolding e(1) by (rule res_rel_same [where P = "\<lambda>x. still s0 (g x)"]) (auto intro: assms e)
qed

interpretation tracing: operations "stays s0" "(=)" UNIV for s0
proof (unfold_locales, goal_cases)
  case (2 s t)
  then show ?case by (auto simp: stays_def same_view_def)
next
  case (3 s t r p)
  then show ?case by (rule stays_sameI) (rule rr_cpu_keeps [OF surjective_pairing])
next
  case (4 s t r v)
  then show ?case by (auto simp: stays_def intro: keeps_still rw_cpu_keeps)
next
  case (5 s t a)
  then show ?case by (rule stays_resI [where g = snd])
    (auto simp: stays_def page_effect_def dest!: mr_cpu_spec(2) intro: keeps_still)
next
  case (6 s t a v)
  then show ?case by (rule stays_resI [where g = "\<lambda>s. s"])
    (auto simp: stays_def page_effect_def dest!: mw_cpu_spec intro: keeps_still)
next
  case (7 s t l l' a sh ts)
  then show ?case by (rule stays_accessI) (simp add: mr_spec(2) [unfolded page_effect_def])
next
  case (8 s t l l' a v sh ts)
  then show ?case by (rule stays_accessI) (simp add: mw_spec(1) [unfolded page_effect_def])
next
  case (9 s t l l' r sh ts)
  then show ?case
    by (cases "rr_traced r sh ts (Some l) s")
      (auto simp: stays_def access_rel_def option.rel_refl dest: rr_traced_keeps intro: keeps_still)
next
  case (10 s t r)
  then show ?case by (rule stays_sameI) (rule register_get_spec(2) [OF surjective_pairing])
next
  case (11 s t a)
  then show ?case by (rule stays_resI [where g = snd]) (auto simp: stays_def dest!: word_get_spec(3) intro: keeps_still)
next
  case (12 f s t)
  then show ?case by (auto simp: stays_def intro: quiet_still)
next
  case (13 s t g)
  then show ?case
    by (cases "g (public_values (exec_record s))") (auto simp: stays_def intro: still_cong)
next
  case (14 s t a w)
  then show ?case by (intro stays_resI [where g = "\<lambda>s. s"]) (auto simp: stays_def intro: set_uninit_still)
next
  case (15 s t)
  then show ?case by (auto simp: stays_def still_def base_record_def base_pc_def base_mode_def enter_fork_def)
next
  case (16 s t)
  then show ?case by (auto simp: stays_def still_def base_record_def base_pc_def base_mode_def exit_fork_def Let_def)
next
  case (17 s t)
  then show ?case by (auto simp: stays_def still_def base_record_def base_pc_def base_mode_def)
next
  case (18 key add code k a b ev)
  show ?case
  proof (rule relatedI)
    fix c d assume "ctx_rel (stays s0) (=) c d"
    then have e: "c = d" "still s0 (rt d)" by (auto simp: ctx_rel_def stays_def)
    show "res_rel (same (ctx_rel (stays s0) (=))) (finish_precompile add key code k a b ev c)
       (finish_precompile add key code k a b ev d)" unfolding e(1)
      by (rule res_rel_same [where P = "\<lambda>(x, c). still s0 (rt c)"])
        (auto simp: ctx_rel_def stays_def intro: finish_still [OF _ e(2) 18(2)])
  qed
qed simp

lemma operation_still:
  assumes "execute_operation env i s = Inr (x, u)" "unconstrained s \<longrightarrow> executor_mode s = Simple"
  shows "still s u"
proof -
  have "stays s s s" using assms(2) by (simp add: stays_def still_def)
  from tracing.execute_operation [OF this, of i env] assms(1) show ?thesis by (simp add: stays_def)
qed

section \<open>The events of an instruction\<close>

lemma push_cpu [simp]:
  "cpu_events (exec_record (push_add e s)) = cpu_events (exec_record s)"
  "cpu_events (exec_record (push_mul e s)) = cpu_events (exec_record s)"
  "cpu_events (exec_record (push_lt e s)) = cpu_events (exec_record s)"
  by (simp_all add: push_add_def push_mul_def push_lt_def)

lemma dependencies_cpu [simp]:
  "cpu_events (exec_record (emit_divrem_dependencies e s)) = cpu_events (exec_record s)"
  "cpu_events (exec_record (emit_memory_dependencies me r s)) = cpu_events (exec_record s)"
  "cpu_events (exec_record (emit_auipc_dependency ae s)) = cpu_events (exec_record s)"
  by (simp_all add: emit_divrem_dependencies_def emit_memory_dependencies_def emit_auipc_dependency_def Let_def split: prod.split)

lemma emit_events_cpu:
  assumes "emit_events k n i code a b c z rec ec s = Inr s'"
  shows "\<exists>e. cpu_events (exec_record s') = cpu_events (exec_record s) @ [e] \<and> cpu_pc e = pc (state s) \<and> cpu_next_pc e = n
    \<and> cpu_exit_code e = ec"
proof -
  have al: "cpu_events (exec_record u) = cpu_events (exec_record t)" if "emit_alu_event opc a b c z t = Inr u" for opc t u
    using that by (auto simp: emit_alu_event_def Let_def split: if_splits)
  have me: "cpu_events (exec_record u) = cpu_events (exec_record t)" if "emit_mem_instr_event opc a b c z t = Inr u" for opc t u
    using that by (auto simp: emit_mem_instr_event_def Let_def rbind_eq_Inr)
  have br: "cpu_events (exec_record u) = cpu_events (exec_record t)" if "emit_branch_event opc a b c z n t = Inr u" for opc t u
    using that by (auto simp: emit_branch_event_def emit_branch_dependencies_def Let_def rbind_eq_Inr split: if_splits)
  have ju: "cpu_events (exec_record u) = cpu_events (exec_record t)" if "emit_jump_event opc a b c z n t = Inr u" for opc t u
    using that by (auto simp: emit_jump_event_def emit_jump_dependencies_def Let_def split: opcode.splits)
  have "cpu_events (exec_record s') = cpu_events (exec_record (emit_cpu k n a b c rec ec s))"
    using assms unfolding emit_events_def Let_def
    by (auto split: if_splits dest!: al me br ju simp: emit_auipc_event_def emit_syscall_event_def Let_def)
  then show ?thesis by (simp add: emit_cpu_def)
qed

section \<open>The trace is one execution\<close>

fun pc_chain :: "u32 \<Rightarrow> cpu_event list \<Rightarrow> u32 \<Rightarrow> bool" where
  "pc_chain p [] q \<longleftrightarrow> p = q"
| "pc_chain p (e # es) q \<longleftrightarrow> cpu_pc e = p \<and> pc_chain (cpu_next_pc e) es q"

lemma pc_chain_append: "pc_chain p (es @ fs) q \<longleftrightarrow> (\<exists>r. pc_chain p es r \<and> pc_chain r fs q)"
  by (induction es arbitrary: p) auto

definition trace :: "executor \<Rightarrow> cpu_event list" where
  "trace s = concat (map cpu_events (records s)) @ cpu_events (base_record s)"

definition traced :: "u32 \<Rightarrow> executor \<Rightarrow> bool" where
  "traced p0 s \<longleftrightarrow> base_mode s = Trace \<and> (unconstrained s \<longrightarrow> executor_mode s = Simple)
     \<and> pc_chain p0 (trace s) (base_pc s) \<and> (\<forall>r\<in>set (records s). cpu_events r \<noteq> [])"

lemma begin_still: "unconstrained s \<longrightarrow> executor_mode s = Simple \<Longrightarrow> still s (begin_instruction i s)"
  by (rule still_cong [of s s]) (simp_all add: still_def begin_instruction_def count_instruction_def)

lemma still_trans: "still s t \<Longrightarrow> still t u \<Longrightarrow> still s u"
  by (simp add: still_def same_events_def)

lemma still_traced: "still s u \<Longrightarrow> traced p0 s \<Longrightarrow> traced p0 u"
  by (simp add: still_def traced_def trace_def same_events_def)

lemma instruction_traced:
  assumes "execute_instruction env i s = Inr s'" "traced p0 s"
  shows "traced p0 s'" "\<not> unconstrained s' \<Longrightarrow> cpu_events (exec_record s') \<noteq> []"
proof -
  have m: "unconstrained s \<longrightarrow> executor_mode s = Simple" using assms(2) by (simp add: traced_def)
  obtain x u where o: "execute_operation env i (begin_instruction i s) = Inr (x, u)" and e: "end_instruction i (x, u) = Inr s'"
    using assms(1) by (auto simp: execute_instruction_eq rbind_eq_Inr)
  have "still s u" using still_trans [OF begin_still [OF m] operation_still [OF o]] m by simp
  then have u: "traced p0 u" using assms(2) by (rule still_traced)
  obtain a b c k n code ec where x: "x = (a, b, c, k, n, code, ec)" by (metis prod_cases7)
  obtain v where v: "(if executor_mode u = Trace
      then emit_events k n i code (if op_a i = 0 then 0 else a) b c (op_a i = 0) (memory_accesses u) ec u
      else Inr u) = Inr v" and s': "s' = upd_state (\<lambda>st. st\<lparr>pc := n, clk := clk st + 4\<rparr>) v"
    using e unfolding end_instruction_def x prod.case rbind_eq_Inr by blast
  show "traced p0 s'" "\<not> unconstrained s' \<Longrightarrow> cpu_events (exec_record s') \<noteq> []"
  proof (atomize (full), cases "unconstrained u")
    case True
    then have "v = u" using u v by (simp add: traced_def)
    with True u show "traced p0 s' \<and> (\<not> unconstrained s' \<longrightarrow> cpu_events (exec_record s') \<noteq> [])"
      by (simp add: s' traced_def trace_def base_record_def base_pc_def base_mode_def)
  next
    case False
    then have t: "executor_mode u = Trace" using u by (simp add: traced_def base_mode_def)
    then have em: "emit_events k n i code (if op_a i = 0 then 0 else a) b c (op_a i = 0) (memory_accesses u) ec u = Inr v"
      using v by simp
    obtain er where er: "v = u\<lparr>exec_record := er\<rparr>" using emit_events_only [OF em] unfolding only_record_def by blast
    obtain ce where ce: "cpu_events er = cpu_events (exec_record u) @ [ce]" "cpu_pc ce = pc (state u)" "cpu_next_pc ce = n"
      using emit_events_cpu [OF em] by (auto simp: er)
    have "pc_chain p0 (trace u) (pc (state u))" using u False by (simp add: traced_def base_pc_def)
    then have "pc_chain p0 (trace u @ [ce]) n" by (auto simp: pc_chain_append ce)
    then show "traced p0 s' \<and> (\<not> unconstrained s' \<longrightarrow> cpu_events (exec_record s') \<noteq> [])"
      using False u t by (simp add: s' er traced_def trace_def base_record_def base_pc_def base_mode_def ce)
  qed
qed

lemma cycle_traced:
  assumes "execute_cycle env s = Inr (d, t)" "traced p0 s"
  shows "traced p0 t" "\<not> unconstrained t \<Longrightarrow> trace t \<noteq> []"
proof -
  obtain i v u where i: "execute_instruction env i s = Inr v"
    and u: "shard_boundary (upd_state (\<lambda>st. st\<lparr>global_clk := global_clk st + 1\<rparr>) v) = Inr u"
    and l: "check_limits u = Inr (d, t)"
    using assms(1) unfolding execute_cycle_def Let_def rbind_eq_Inr by blast
  have t: "t = u" using l by (auto simp: check_limits_def split: option.splits if_splits)
  let ?w = "upd_state (\<lambda>st. st\<lparr>global_clk := global_clk st + 1\<rparr>) v"
  have w: "traced p0 ?w" "\<not> unconstrained ?w \<Longrightarrow> cpu_events (exec_record ?w) \<noteq> []"
    using instruction_traced [OF i assms(2)]
    by (cases "unconstrained v"; simp add: traced_def trace_def base_record_def base_pc_def base_mode_def)+
  from u show "traced p0 t" "\<not> unconstrained t \<Longrightarrow> trace t \<noteq> []"
  proof (atomize (full), cases rule: shard_boundary_cases)
    case same
    then show "traced p0 t \<and> (\<not> unconstrained t \<longrightarrow> trace t \<noteq> [])" using w by (simp add: t)
  next
    case (check ec cs)
    then show "traced p0 t \<and> (\<not> unconstrained t \<longrightarrow> trace t \<noteq> [])"
      using w by (simp add: t traced_def trace_def base_record_def base_pc_def base_mode_def)
  next
    case (bump ec cs)
    then show "traced p0 t \<and> (\<not> unconstrained t \<longrightarrow> trace t \<noteq> [])"
      using w by (simp add: t traced_def trace_def base_record_def base_pc_def base_mode_def next_shard_def
        bump_record_def Let_def record_new_def)
  qed
qed

lemma cycles_traced:
  "(cycle env)\<^sup>+\<^sup>+ s t \<Longrightarrow> traced p0 s \<Longrightarrow> traced p0 t \<and> (\<not> unconstrained t \<longrightarrow> trace t \<noteq> [])"
  by (induction rule: tranclp_induct) (auto simp: cycle_def dest: cycle_traced)

section \<open>The public values chain\<close>

fun shard_chain :: "u32 \<Rightarrow> execution_record list \<Rightarrow> u32 \<Rightarrow> bool" where
  "shard_chain p [] q \<longleftrightarrow> p = q"
| "shard_chain p (r # rs) q \<longleftrightarrow> pv_start_pc (public_values r) = p \<and> shard_chain (pv_next_pc (public_values r)) rs q"

lemma pc_chain_ends: "pc_chain p es q \<Longrightarrow> es \<noteq> [] \<Longrightarrow> cpu_pc (hd es) = p \<and> cpu_next_pc (last es) = q"
  by (induction es arbitrary: p) (auto split: if_splits)

lemma set_public_values_chain:
  assumes "pc_chain p (concat (map cpu_events rs)) q" "lnp = p \<or> rs \<noteq> [] \<and> cpu_events (hd rs) \<noteq> []"
  shows "shard_chain p (set_public_values prog pv k lnp lec rs) q"
  using assms
proof (induction rs arbitrary: p k lnp lec)
  case (Cons r rs)
  obtain m where m: "pc_chain p (cpu_events r) m" "pc_chain m (concat (map cpu_events rs)) q"
    using Cons(2) by (auto simp: pc_chain_append)
  show ?case
  proof (cases "cpu_events r")
    case Nil
    then show ?thesis using Cons(1) [OF m(2), of lnp] Cons(3) m(1) by (auto simp: chain_values_def Let_def)
  next
    case (Cons e es)
    then show ?thesis using Cons.IH [OF m(2), of m] pc_chain_ends [OF m(1)] by (simp add: chain_values_def Let_def)
  qed
qed simp

lemma set_public_values_events: "map cpu_events (set_public_values prog pv k lnp lec rs) = map cpu_events rs"
  by (induction rs arbitrary: k lnp lec) (simp_all add: Let_def)

lemma set_public_values_shards:
  "map (\<lambda>r. pv_execution_shard (public_values r)) (set_public_values prog pv k lnp lec rs)
     = map (\<lambda>n. k + of_nat n) [0..<length rs]"
proof (induction rs arbitrary: k lnp lec)
  case (Cons r rs)
  have "map (\<lambda>n. k + of_nat n) [0..<Suc (length rs)] = k # map (\<lambda>n. (k + 1) + of_nat n) [0..<length rs]"
    by (simp only: upt_conv_Cons [OF zero_less_Suc] map_Suc_upt [symmetric]) (simp add: comp_def)
  moreover have "pv_execution_shard (chain_values pv k lnp lec r) = k" by (simp add: chain_values_def Let_def split: list.split)
  ultimately show ?case by (simp add: Let_def Cons del: upt_Suc)
qed simp

text \<open>
  (C10) The trace of a batch is one contiguous execution.  The CPU events of its shards, one
  shard after the other, start at the program counter of the batch, each starts where the
  one before went, and the last goes to the program counter at the end; an unconstrained
  block shows as the single ECALL that opened it.  Accordingly the public values chain:
  the first shard starts at the program counter of the batch, each shard starts where the
  one before ended, and the shards are numbered consecutively.
\<close>

theorem batch_trace_chains:
  assumes "execute env s = Some (Inr (d, t))" "executor_mode s = Trace" "\<not> unconstrained s"
    and "records s = []" "cpu_events (exec_record s) = []"
  shows "pc_chain (pc (state s)) (concat (map cpu_events (records t))) (pc (state t))
    \<and> shard_chain (pc (state s)) (records t) (pc (state t)) \<and> records t \<noteq> []
    \<and> map (\<lambda>r. pv_execution_shard (public_values r)) (records t)
       = map (\<lambda>n. current_shard (state s) + of_nat n) [0..<length (records t)]"
proof -
  obtain s0 u where s0: "(if global_clk (state s) = 0 then initialize s else Inr s) = Inr s0" and c: "(cycle env)\<^sup>+\<^sup>+ s0 u"
    and u: "\<not> unconstrained u" and f: "finish_batch (program s) (current_shard (state s)) (d, u) = (d, t)"
    and e: "\<not> d \<Longrightarrow> cpu_events (exec_record u) = []"
    by (rule execute_cases [OF assms(1)], rule that) blast+
  have "traced (pc (state s)) s"
    using assms(2-5) by (simp add: traced_def trace_def base_mode_def base_record_def base_pc_def)
  then have "traced (pc (state s)) s0"
    using s0 by (auto simp: initialize_def rbind_eq_Inr traced_def trace_def base_mode_def base_record_def base_pc_def
      split: if_splits)
  then have tu: "traced (pc (state s)) u" "trace u \<noteq> []" using cycles_traced [OF c] u by blast+
  obtain rs where rs: "records t = set_public_values (program s) (public_values (exec_record u)) (current_shard (state s)) 0 0 rs"
    "concat (map cpu_events rs) = trace u" "\<forall>r\<in>set (records u). cpu_events r \<noteq> []" "\<exists>r. rs = records u \<or> rs = records u @ [r]"
  proof (cases d)
    case True
    then show ?thesis
      using f u tu(1) by (intro that [of "records (bump_record (exec_postprocess u))"])
        (auto simp: finish_batch_def Let_def bump_record_def exec_postprocess_def global_memory_events_def record_new_def
          trace_def base_record_def traced_def)
  next
    case False
    then show ?thesis
      using f u tu(1) e by (intro that [of "records u"])
        (auto simp: finish_batch_def Let_def trace_def base_record_def traced_def)
  qed
  have ne: "rs \<noteq> [] \<and> cpu_events (hd rs) \<noteq> []"
  proof (cases "records u")
    case Nil
    then show ?thesis using rs(2,4) tu(2) by (auto split: list.split)
  next
    case (Cons r rs')
    then show ?thesis using rs(3,4) by auto
  qed
  have ch: "pc_chain (pc (state s)) (concat (map cpu_events rs)) (pc (state u))"
    using tu(1) u rs(2) by (simp add: traced_def base_pc_def)
  moreover have "length (records t) = length rs"
    using arg_cong [OF set_public_values_events [of "program s" "public_values (exec_record u)" "current_shard (state s)" 0 0 rs], of length]
    by (simp add: rs(1))
  ultimately show ?thesis
    using set_public_values_chain [OF ch, of 0] ne finish_batch_sel(2) [OF f]
    by (auto simp: rs(1) set_public_values_events set_public_values_shards)
qed

theorem batch_trace_chains_witness:
  "\<exists>t. execute demo_env tiny = Some (Inr (True, t)) \<and> records t \<noteq> []
     \<and> shard_chain 0x1000 (records t) (pc (state t))"
proof -
  obtain u where u: "execute demo_env (checkpoint_start False tiny) = Some (Inr (True, u))" using tiny_execute by blast
  have "agree (checkpoint_start False tiny) tiny" by (simp add: agree_def checkpoint_start_def fork_agree_def)
  from execute_agree [OF this u] obtain y where y: "execute demo_env tiny = Some y" "res_rel batch_agree (Inr (True, u)) y" by blast
  then obtain t where t: "execute demo_env tiny = Some (Inr (True, t))"
    by (cases y) (auto simp: batch_agree_def)
  have "executor_mode tiny = Trace" "\<not> unconstrained tiny" "records tiny = []" "cpu_events (exec_record tiny) = []"
    "pc (state tiny) = 0x1000"
    by (simp_all add: tiny_def with_context_def record_new_def state_new_def)
  with batch_trace_chains [OF t] t show ?thesis by auto
qed

end
