(* ===== verification/SP1_Field.thy ===== *)
theory SP1_Field
  imports SP1_Prelude
begin

text \<open>
  The field of the proof system.  The chips of \<open>crates/core/machine/src\<close> are generic in the
  field (\<open>F: PrimeField32\<close> of the \<open>p3_field\<close> crate), and so are their models here, which work
  over any type of class \<open>field\<close>.  The locale \<open>prime_field32\<close> states what the soundness of the
  constraints relies on: the field is the integers modulo the order of BabyBear.  It is
  interpreted on the type \<open>bb\<close>, which is built here.
\<close>

section \<open>The order is prime\<close>

definition ORDER :: nat where "ORDER = 2013265921"

definition P :: int where "P = 2013265921"

lemma P_pos [simp]: "0 < P" "1 < P" "P \<noteq> 0" by (simp_all add: P_def)

lemma int_ORDER [simp]: "int ORDER = P" by (simp add: ORDER_def P_def)

text \<open>An element of order \<open>2^27\<close>: its power \<open>2^26\<close> is \<open>-1\<close>.\<close>

definition root :: int where "root = 440564289"

fun squared :: "nat \<Rightarrow> int \<Rightarrow> int" where
  "squared 0 x = x"
| "squared (Suc n) x = squared n (x * x mod P)"

lemma squared_power: "squared n x mod P = x ^ 2 ^ n mod P"
proof (induction n arbitrary: x)
  case (Suc n)
  have "(x * x mod P) ^ 2 ^ n mod P = (x ^ 2) ^ 2 ^ n mod P" by (simp add: power_mod power2_eq_square)
  also have "\<dots> = x ^ 2 ^ Suc n mod P" by (simp flip: power_mult)
  finally show ?case by (simp add: Suc)
qed simp

lemma root_minus_one: "root ^ 2 ^ 26 mod P = P - 1"
proof -
  have "squared 26 root mod P = P - 1" unfolding root_def P_def by code_simp
  then show ?thesis by (simp only: squared_power)
qed

text \<open>Every divisor but 1 is at least \<open>2^27\<close>, since the powers of \<open>root\<close> differ modulo it.\<close>

lemma power_two_odd:
  fixes k :: nat
  assumes "0 < k"
  obtains e m where "k = 2 ^ e * m" "odd m"
  using assms
proof (induction k arbitrary: thesis rule: less_induct)
  case (less k)
  show ?case
  proof (cases "even k")
    case True
    then obtain j where j: "k = 2 * j" by (elim evenE)
    with less.prems(2) have "j < k" "0 < j" by simp_all
    then obtain e m where "j = 2 ^ e * m" "odd m" using less.IH by blast
    with j show ?thesis by (intro less.prems(1) [of "Suc e" m]) simp_all
  qed (auto intro: less.prems(1) [of 0 k])
qed

lemma root_power_not_one:
  assumes "d dvd P" "2 < d" "0 < k" "k < 2 ^ 27"
  shows "root ^ k mod d \<noteq> 1 mod d"
proof
  assume one: "root ^ k mod d = 1 mod d"
  obtain e m where k: "k = 2 ^ e * m" "odd m" using power_two_odd [OF assms(3)] by blast
  have "e \<le> 26"
  proof (rule ccontr)
    assume "\<not> e \<le> 26"
    then have "(2::nat) ^ 27 \<le> 2 ^ e" by (intro power_increasing) auto
    also have "\<dots> \<le> k" using k assms(3) by simp
    finally show False using assms(4) by simp
  qed
  have r: "root ^ 2 ^ 26 mod d = (- 1) mod d"
  proof -
    have "P dvd root ^ 2 ^ 26 - (P - 1)" using root_minus_one by (metis mod_eq_dvd_iff mod_mod_trivial)
    then have "d dvd root ^ 2 ^ 26 - (P - 1)" using assms(1) dvd_trans by blast
    then have "d dvd root ^ 2 ^ 26 - (- 1)" using assms(1) dvd_add [of d _ P] by (metis (no_types, opaque_lifting) add.commute diff_add_cancel diff_diff_eq2 minus_diff_eq uminus_add_conv_diff)
    then show ?thesis by (simp only: mod_eq_dvd_iff)
  qed
  have "root ^ (2 ^ 26 * m) = (root ^ k) ^ 2 ^ (26 - e)"
    using \<open>e \<le> 26\<close> by (simp add: k(1) ac_simps flip: power_mult power_add)
  then have "root ^ (2 ^ 26 * m) mod d = 1 mod d" using one by (metis power_mod power_one)
  moreover have "root ^ (2 ^ 26 * m) mod d = (- 1) mod d"
    using r k(2) by (metis power_mod power_mult power_minus_odd power_one)
  ultimately have "d dvd 1 - (- 1)" by (metis mod_eq_dvd_iff)
  then show False using assms(2) zdvd_imp_le [of d 2] by simp
qed

lemma root_coprime: "d dvd P \<Longrightarrow> coprime (root ^ n) d"
proof -
  assume d: "d dvd P"
  have "gcd root P = 1" unfolding root_def P_def by code_simp
  then have "coprime root P" by (simp add: coprime_iff_gcd_eq_1)
  then have "coprime root d" using d coprime_divisors [of root root d P] by simp
  then show ?thesis by (rule coprime_power_left_iff [THEN iffD2, OF disjI1])
qed

lemma divisor_bound:
  assumes "d dvd P" "1 < d"
  shows "2 ^ 27 \<le> d"
proof -
  have "d \<noteq> 2" using assms(1) by (auto simp: P_def)
  then have d: "2 < d" using assms(2) by simp
  let ?f = "\<lambda>i. root ^ i mod d"
  have "inj_on ?f {..<2 ^ 27}"
  proof (rule linorder_inj_onI)
    fix i j :: nat
    assume ij: "i < j" "i \<in> {..<2 ^ 27}" "j \<in> {..<2 ^ 27}"
    show "?f i \<noteq> ?f j"
    proof
      assume "?f i = ?f j"
      then have "d dvd root ^ j - root ^ i" by (metis mod_eq_dvd_iff)
      also have "root ^ j - root ^ i = root ^ i * (root ^ (j - i) - 1)"
        using ij(1) by (simp add: algebra_simps flip: power_add)
      finally have "d dvd root ^ (j - i) - 1"
        using root_coprime [OF assms(1), of i] by (metis coprime_commute coprime_dvd_mult_right_iff)
      moreover have "0 < j - i" "j - i < 2 ^ 27" using ij by auto
      ultimately show False using root_power_not_one [OF assms(1) d, of "j - i"] by (metis mod_eq_dvd_iff)
    qed
  qed auto
  moreover have "?f ` {..<2 ^ 27} \<subseteq> {0..<d}" using assms(2) by auto
  ultimately have "card {..<(2::nat) ^ 27} \<le> card {0..<d}" by (intro card_inj_on_le) auto
  then show ?thesis by simp
qed

lemma coprime_P: "\<not> P dvd x \<Longrightarrow> coprime x P"
proof (rule ccontr)
  assume x: "\<not> P dvd x" and n: "\<not> coprime x P"
  let ?d = "gcd x P"
  have d: "?d dvd P" "?d dvd x" by simp_all
  then obtain q where q: "P = ?d * q" by (elim dvdE)
  have "0 < ?d" by simp
  then have "?d > 1" using n coprime_iff_gcd_eq_1 [of x P] by linarith
  have "q > 0" using q P_pos(1) \<open>0 < ?d\<close> by (metis zero_less_mult_pos)
  moreover have "q \<noteq> 1" using q d(2) x by (metis mult.right_neutral)
  ultimately have "q > 1" by simp
  have "q dvd P" using q by (rule dvdI [of P q ?d, unfolded mult.commute [of q]])
  then have "2 ^ 27 \<le> ?d" "2 ^ 27 \<le> q"
    using divisor_bound [OF d(1) \<open>?d > 1\<close>] divisor_bound [of q] \<open>q > 1\<close> by simp_all
  then have "2 ^ 27 * 2 ^ 27 \<le> ?d * q" by (intro mult_mono) auto
  with q show False by (simp add: P_def)
qed

section \<open>The interface\<close>

locale prime_field32 =
  fixes as_canonical_u32 :: "'f::field \<Rightarrow> nat"
  assumes canonical_of_nat: "as_canonical_u32 (of_nat n) = n mod ORDER"
    and of_nat_canonical [simp]: "of_nat (as_canonical_u32 x) = x"
begin

lemma of_nat_eq_0: "of_nat n = (0::'f) \<longleftrightarrow> ORDER dvd n"
proof -
  have "of_nat n = (0::'f) \<Longrightarrow> n mod ORDER = 0"
    using canonical_of_nat [of n] canonical_of_nat [of 0] by simp
  moreover have "of_nat n = (0::'f)" if "n mod ORDER = 0"
    by (subst of_nat_canonical [of "of_nat n", symmetric]) (simp only: canonical_of_nat that, rule semiring_1_class.of_nat_0)
  ultimately show ?thesis unfolding dvd_eq_mod_eq_0 by (rule iffI)
qed

lemma of_int_eq_0: "of_int i = (0::'f) \<longleftrightarrow> P dvd i"
proof -
  have "of_int i = (0::'f) \<longleftrightarrow> of_nat (nat \<bar>i\<bar>) = (0::'f)" by (cases i rule: int_cases2) simp_all
  also have "\<dots> \<longleftrightarrow> int ORDER dvd \<bar>i\<bar>" by (simp only: of_nat_eq_0 flip: int_dvd_int_iff) simp
  finally show ?thesis by simp
qed

lemma of_int_eq: "of_int i = (of_int j :: 'f) \<longleftrightarrow> P dvd i - j"
  using of_int_eq_0 [of "i - j"] by simp

text \<open>Field equations between small integers are equations of integers.\<close>

lemma of_int_inject: "\<bar>i - j\<bar> < P \<Longrightarrow> of_int i = (of_int j :: 'f) \<longleftrightarrow> i = j"
  using zdvd_imp_le [of P "\<bar>i - j\<bar>"] by (auto simp: of_int_eq)

lemma of_nat_inject: "m < ORDER \<Longrightarrow> n < ORDER \<Longrightarrow> of_nat m = (of_nat n :: 'f) \<longleftrightarrow> m = n"
  using canonical_of_nat [of m] canonical_of_nat [of n] by (metis mod_less)

end

section \<open>BabyBear\<close>

typedef bb = "{0..<P}" morphisms rep_bb Abs_bb
  by (rule exI [of _ 0]) simp

setup_lifting type_definition_bb

instantiation bb :: comm_ring_1
begin

lift_definition zero_bb :: bb is 0 by simp
lift_definition one_bb :: bb is 1 by simp
lift_definition plus_bb :: "bb \<Rightarrow> bb \<Rightarrow> bb" is "\<lambda>x y. (x + y) mod P" by simp
lift_definition times_bb :: "bb \<Rightarrow> bb \<Rightarrow> bb" is "\<lambda>x y. x * y mod P" by simp
lift_definition minus_bb :: "bb \<Rightarrow> bb \<Rightarrow> bb" is "\<lambda>x y. (x - y) mod P" by simp
lift_definition uminus_bb :: "bb \<Rightarrow> bb" is "\<lambda>x. (- x) mod P" by simp

instance
  by standard (transfer; auto simp: mod_simps algebra_simps)+

end

lemma rep_bb_of_nat: "rep_bb (of_nat n) = int n mod P"
  by (induction n) (simp_all add: zero_bb.rep_eq plus_bb.rep_eq one_bb.rep_eq mod_simps ac_simps)

lemma of_nat_rep_bb: "of_nat (nat (rep_bb x)) = x"
  using rep_bb [of x] rep_bb_of_nat [of "nat (rep_bb x)"] by (simp only: flip: rep_bb_inject) simp

lemma bb_inverse_exists:
  assumes "(x::bb) \<noteq> 0"
  obtains y where "y * x = 1"
proof -
  have "\<not> P dvd rep_bb x"
    using assms rep_bb [of x] zdvd_not_zless [of "rep_bb x" P] by (auto simp: zero_bb.rep_eq simp flip: rep_bb_inject)
  from coprime_P [OF this] obtain u v where "u * rep_bb x + v * P = 1"
    using bezout_int [of "rep_bb x" P] by (auto simp: coprime_iff_gcd_eq_1)
  then have "u * rep_bb x mod P = 1" by (metis P_pos(2) mod_mult_self1 mod_pos_pos_trivial zero_le_one)
  then have "Abs_bb (u mod P) * x = 1"
    by (simp add: times_bb.rep_eq one_bb.rep_eq Abs_bb_inverse mod_simps flip: rep_bb_inject)
  then show ?thesis by (rule that)
qed

instantiation bb :: field
begin

definition inverse_bb :: "bb \<Rightarrow> bb" where
  "inverse_bb x = (if x = 0 then 0 else (SOME y. y * x = 1))"

definition divide_bb :: "bb \<Rightarrow> bb \<Rightarrow> bb" where
  "divide_bb x y = x * inverse y"

instance
proof
  fix x y :: bb
  show "inverse x * x = 1" if nz: "x \<noteq> 0"
  proof -
    obtain y where "y * x = 1" using bb_inverse_exists [OF nz] by blast
    then have "(SOME y. y * x = 1) * x = 1" by (rule someI)
    then show ?thesis using nz by (simp only: inverse_bb_def if_False)
  qed
qed (simp_all add: divide_bb_def inverse_bb_def)

end

interpretation bb: prime_field32 "\<lambda>x. nat (rep_bb x)"
proof
  show "nat (rep_bb (of_nat n)) = n mod ORDER" for n
    by (simp only: rep_bb_of_nat flip: int_ORDER zmod_int nat_int)
qed (rule of_nat_rep_bb)

end
