(* ===== verification/SP1_Air.thy ===== *)
theory SP1_Air
  imports SP1_Field SP1_Alu "HOL-Library.Multiset"
begin

text \<open>
  The language of the constraints.  A chip describes its table by \<open>eval\<close>, which asserts that
  polynomials of the cells of a row are zero and sends messages to and receives messages from other tables.
  Here \<open>eval\<close> is a function from a row to the list of these actions.  The builder is that of
  \<open>crates/stark/src/air/builder.rs\<close> with \<open>AirBuilder\<close> of the \<open>p3_air\<close> crate (as
  \<open>DebugConstraintBuilder\<close> of \<open>crates/stark/src/debug.rs\<close> implements it),
  \<open>crates/stark/src/word.rs\<close> and \<open>crates/core/machine/src/air\<close>; the balance of messages is
  the one that \<open>crates/stark/src/lookup/debug.rs\<close> checks.
\<close>

named_theorems air

section \<open>Messages and assertions\<close>

datatype interaction_kind = Memory_kind | Program_kind | Instruction_kind | Alu_kind | Byte_kind
  | Range_kind | Field_kind | Syscall_kind | Global_kind

datatype interaction_scope = Global_scope | Local_scope

datatype 'f air_interaction =
  AirInteraction (ai_values: "'f list") (ai_multiplicity: 'f) (ai_kind: interaction_kind)

datatype 'f action =
    Assert_zero 'f
  | Send "'f air_interaction" interaction_scope
  | Receive "'f air_interaction" interaction_scope

definition assert_zero :: "'f::field \<Rightarrow> 'f action list" where
  [air]: "assert_zero x = [Assert_zero x]"

definition assert_one :: "'f::field \<Rightarrow> 'f action list" where
  [air]: "assert_one x = [Assert_zero (x - 1)]"

definition assert_eq :: "'f::field \<Rightarrow> 'f \<Rightarrow> 'f action list" where
  [air]: "assert_eq x y = [Assert_zero (x - y)]"

definition assert_bool :: "'f::field \<Rightarrow> 'f action list" where
  [air]: "assert_bool x = [Assert_zero (x * (x - 1))]"

text \<open>\<open>FilteredAirBuilder\<close>: assertions are multiplied by the condition, messages are passed on.\<close>

fun filter_action :: "'f::field \<Rightarrow> 'f action \<Rightarrow> 'f action" where
  "filter_action c (Assert_zero x) = Assert_zero (c * x)"
| "filter_action c (Send m s) = Send m s"
| "filter_action c (Receive m s) = Receive m s"

definition air_when :: "'f::field \<Rightarrow> 'f action list \<Rightarrow> 'f action list" where
  "air_when c as = map (filter_action c) as"

definition when_not :: "'f::field \<Rightarrow> 'f action list \<Rightarrow> 'f action list" where
  "when_not c as = air_when (c - 1) as"

lemma when_simps [simp, air]:
  "air_when c [] = []"
  "air_when c (Assert_zero x # as) = Assert_zero (c * x) # air_when c as"
  "air_when c (Send m s # as) = Send m s # air_when c as"
  "air_when c (Receive m s # as) = Receive m s # air_when c as"
  "air_when c (as @ bs) = air_when c as @ air_when c bs"
  by (simp_all add: air_when_def)

definition assert_all_eq :: "'f::field list \<Rightarrow> 'f list \<Rightarrow> 'f action list" where
  "assert_all_eq xs ys = concat (map2 assert_eq xs ys)"

definition assert_all_zero :: "'f::field list \<Rightarrow> 'f action list" where
  "assert_all_zero xs = concat (map assert_zero xs)"

definition if_else :: "'f::field \<Rightarrow> 'f \<Rightarrow> 'f \<Rightarrow> 'f" where
  "if_else c a b = c * a + (1 - c) * b"

definition index_array :: "'f::field list \<Rightarrow> 'f list \<Rightarrow> 'f" where
  "index_array xs is = sum_list (map2 (\<lambda>x i. x * i) xs is)"

lemma if_else_simps [simp]: "if_else 1 a b = a" "if_else 0 a b = b"
  by (simp_all add: if_else_def)

section \<open>Words\<close>

text \<open>\<open>Word<T>\<close>: four limbs, the least significant first.\<close>

datatype 'a word4 = Word4 (limb0: 'a) (limb1: 'a) (limb2: 'a) (limb3: 'a)

primrec limbs :: "'a word4 \<Rightarrow> 'a list" where
  "limbs (Word4 a b c d) = [a, b, c, d]"

definition from_canonical_u8 :: "u8 \<Rightarrow> 'f::field" where
  "from_canonical_u8 b = of_nat (unat b)"

definition from_canonical_u32 :: "u32 \<Rightarrow> 'f::field" where
  "from_canonical_u32 w = of_nat (unat w)"

definition from_bool :: "bool \<Rightarrow> 'f::field" where
  "from_bool b = (if b then 1 else 0)"

lemma from_bool_simps [simp]: "from_bool True = 1" "from_bool False = 0"
  by (simp_all add: from_bool_def)

definition word_of_bytes :: "u8 word4 \<Rightarrow> 'f::field word4" where
  "word_of_bytes w = map_word4 from_canonical_u8 w"

definition le_bytes :: "u32 \<Rightarrow> u8 word4" where
  "le_bytes w = Word4 (ucast w) (ucast (drop_bit 8 w)) (ucast (drop_bit 16 w)) (ucast (drop_bit 24 w))"

definition word_from :: "u32 \<Rightarrow> 'f::field word4" where
  "word_from w = word_of_bytes (le_bytes w)"

definition reduce :: "'f::field word4 \<Rightarrow> 'f" where
  "reduce w = limb0 w + 2 ^ 8 * limb1 w + 2 ^ 16 * limb2 w + 2 ^ 24 * limb3 w"

definition extend_expr :: "'f::field \<Rightarrow> 'f word4" where
  "extend_expr x = Word4 (0 + x) 0 0 0"

definition word_zero :: "'f::field word4" where
  "word_zero = Word4 0 0 0 0"

definition assert_word_eq :: "'f::field word4 \<Rightarrow> 'f word4 \<Rightarrow> 'f action list" where
  "assert_word_eq a b = concat (map2 assert_eq (limbs a) (limbs b))"

definition assert_word_zero :: "'f::field word4 \<Rightarrow> 'f action list" where
  "assert_word_zero a = concat (map assert_zero (limbs a))"

definition select_word :: "'f::field \<Rightarrow> 'f word4 \<Rightarrow> 'f word4 \<Rightarrow> 'f word4" where
  "select_word c a b = Word4 (if_else c (limb0 a) (limb0 b)) (if_else c (limb1 a) (limb1 b))
     (if_else c (limb2 a) (limb2 b)) (if_else c (limb3 a) (limb3 b))"

section \<open>Byte lookups\<close>

datatype byte_opcode = B_AND | B_OR | B_XOR | B_SLL | U8Range | ShrCarry | LTU | MSB | U16Range

primrec byte_opcode_u8 :: "byte_opcode \<Rightarrow> u8" where
  "byte_opcode_u8 B_AND = 0" | "byte_opcode_u8 B_OR = 1" | "byte_opcode_u8 B_XOR = 2"
| "byte_opcode_u8 B_SLL = 3" | "byte_opcode_u8 U8Range = 4" | "byte_opcode_u8 ShrCarry = 5"
| "byte_opcode_u8 LTU = 6" | "byte_opcode_u8 MSB = 7" | "byte_opcode_u8 U16Range = 8"

definition byte_opcode_field :: "byte_opcode \<Rightarrow> 'f::field" where
  "byte_opcode_field opc = from_canonical_u8 (byte_opcode_u8 opc)"

definition opcode_field :: "opcode \<Rightarrow> 'f::field" where
  "opcode_field opc = from_canonical_u8 (opcode_u8 opc)"

definition send_byte_pair :: "'f::field \<Rightarrow> 'f \<Rightarrow> 'f \<Rightarrow> 'f \<Rightarrow> 'f \<Rightarrow> 'f \<Rightarrow> 'f action list" where
  [air]: "send_byte_pair opc a1 a2 b c m = [Send (AirInteraction [opc, a1, a2, b, c] m Byte_kind) Local_scope]"

definition send_byte :: "'f::field \<Rightarrow> 'f \<Rightarrow> 'f \<Rightarrow> 'f \<Rightarrow> 'f \<Rightarrow> 'f action list" where
  [air]: "send_byte opc a b c m = send_byte_pair opc a 0 b c m"

definition receive_byte_pair :: "'f::field \<Rightarrow> 'f \<Rightarrow> 'f \<Rightarrow> 'f \<Rightarrow> 'f \<Rightarrow> 'f \<Rightarrow> 'f action list" where
  [air]: "receive_byte_pair opc a1 a2 b c m = [Receive (AirInteraction [opc, a1, a2, b, c] m Byte_kind) Local_scope]"

definition receive_byte :: "'f::field \<Rightarrow> 'f \<Rightarrow> 'f \<Rightarrow> 'f \<Rightarrow> 'f \<Rightarrow> 'f action list" where
  [air]: "receive_byte opc a b c m = receive_byte_pair opc a 0 b c m"

fun slice_range_check_u8 :: "'f::field list \<Rightarrow> 'f \<Rightarrow> 'f action list" where
  "slice_range_check_u8 (x # y # xs) m =
     send_byte (byte_opcode_field U8Range) 0 x y m @ slice_range_check_u8 xs m"
| "slice_range_check_u8 [x] m = send_byte (byte_opcode_field U8Range) 0 x 0 m"
| "slice_range_check_u8 [] m = []"

definition slice_range_check_u16 :: "'f::field list \<Rightarrow> 'f \<Rightarrow> 'f action list" where
  "slice_range_check_u16 xs m = concat (map (\<lambda>x. send_byte (byte_opcode_field U16Range) x 0 0 m) xs)"

section \<open>Instructions\<close>

text \<open>The message between the CPU and the table that executes an instruction.\<close>

record 'f instruction_msg =
  im_shard :: 'f
  im_clk :: 'f
  im_pc :: 'f
  im_next_pc :: 'f
  im_num_extra_cycles :: 'f
  im_opcode :: 'f
  im_a :: "'f word4"
  im_b :: "'f word4"
  im_c :: "'f word4"
  im_op_a_0 :: 'f
  im_op_a_immutable :: 'f
  im_is_memory :: 'f
  im_is_syscall :: 'f
  im_is_halt :: 'f

definition instruction_values :: "'f instruction_msg \<Rightarrow> 'f list" where
  "instruction_values i = [im_shard i, im_clk i, im_pc i, im_next_pc i, im_num_extra_cycles i, im_opcode i]
     @ limbs (im_a i) @ limbs (im_b i) @ limbs (im_c i)
     @ [im_op_a_0 i, im_op_a_immutable i, im_is_memory i, im_is_syscall i, im_is_halt i]"

definition send_instruction :: "'f::field instruction_msg \<Rightarrow> 'f \<Rightarrow> 'f action list" where
  [air]: "send_instruction i m = [Send (AirInteraction (instruction_values i) m Instruction_kind) Local_scope]"

definition receive_instruction :: "'f::field instruction_msg \<Rightarrow> 'f \<Rightarrow> 'f action list" where
  [air]: "receive_instruction i m = [Receive (AirInteraction (instruction_values i) m Instruction_kind) Local_scope]"

lemma limbs_inject [simp]: "limbs v = limbs w \<longleftrightarrow> v = w"
  by (cases v; cases w) simp

lemma instruction_values_inject [simp]: "instruction_values i = instruction_values j \<longleftrightarrow> i = j"
  by (cases i; cases j; cases "im_a i"; cases "im_b i"; cases "im_c i"; cases "im_a j"; cases "im_b j"; cases "im_c j")
    (auto simp: instruction_values_def)

section \<open>Accepted rows\<close>

text \<open>
  A row is accepted when its assertions hold and every message it sends is answered: \<open>L\<close> says
  which messages are.
\<close>

primrec action_ok :: "(interaction_kind \<Rightarrow> 'f list \<Rightarrow> bool) \<Rightarrow> 'f::field action \<Rightarrow> bool" where
  "action_ok L (Assert_zero x) \<longleftrightarrow> x = 0"
| "action_ok L (Send m s) \<longleftrightarrow> (ai_multiplicity m \<noteq> 0 \<longrightarrow> L (ai_kind m) (ai_values m))"
| "action_ok L (Receive m s) \<longleftrightarrow> True"

definition accepts :: "(interaction_kind \<Rightarrow> 'f list \<Rightarrow> bool) \<Rightarrow> 'f::field action list \<Rightarrow> bool" where
  "accepts L as \<longleftrightarrow> list_all (action_ok L) as"

lemma accepts_simps [simp, air]:
  "accepts L []"
  "accepts L (Assert_zero x # as) \<longleftrightarrow> x = 0 \<and> accepts L as"
  "accepts L (Send (AirInteraction vs m k) s # as) \<longleftrightarrow> (m \<noteq> 0 \<longrightarrow> L k vs) \<and> accepts L as"
  "accepts L (Receive i s # as) \<longleftrightarrow> accepts L as"
  "accepts L (as @ bs) \<longleftrightarrow> accepts L as \<and> accepts L bs"
  by (simp_all add: accepts_def)

lemma accepts_when: "accepts L (air_when c as) \<Longrightarrow> c \<noteq> 0 \<Longrightarrow> accepts L as"
proof (induction as)
  case (Cons x as)
  then show ?case by (cases x) (auto simp: accepts_def air_when_def)
qed simp

lemma accepts_when_0: "accepts L as \<Longrightarrow> accepts L (air_when c as)"
proof (induction as)
  case (Cons x as)
  then show ?case by (cases x) (auto simp: accepts_def air_when_def)
qed simp

text \<open>The messages of a row that count, with their multiplicities.\<close>

fun sends :: "interaction_kind \<Rightarrow> 'f::field action list \<Rightarrow> ('f list \<times> 'f) list" where
  "sends k [] = []"
| "sends k (Send (AirInteraction vs m k') s # as) = (if k' = k \<and> m \<noteq> 0 then (vs, m) # sends k as else sends k as)"
| "sends k (_ # as) = sends k as"

fun receives :: "interaction_kind \<Rightarrow> 'f::field action list \<Rightarrow> ('f list \<times> 'f) list" where
  "receives k [] = []"
| "receives k (Receive (AirInteraction vs m k') s # as) = (if k' = k \<and> m \<noteq> 0 then (vs, m) # receives k as else receives k as)"
| "receives k (_ # as) = receives k as"

lemma sends_append [simp, air]: "sends k (as @ bs) = sends k as @ sends k bs"
  by (induction k as rule: sends.induct) auto

lemma sends_nonzero: "(vs, m) \<in> set (sends k as) \<Longrightarrow> m \<noteq> 0"
  by (induction k as rule: sends.induct) (auto split: if_splits)

lemma receives_append [simp, air]: "receives k (as @ bs) = receives k as @ receives k bs"
  by (induction k as rule: receives.induct) auto

text \<open>
  \<open>debug_interactions\<close>: the count of a message is what is sent of it less what is received.
\<close>

definition interaction_count :: "interaction_kind \<Rightarrow> 'f::field list \<Rightarrow> 'f action list \<Rightarrow> 'f" where
  "interaction_count k vs as = sum_list (map snd (filter (\<lambda>(v, m). v = vs) (sends k as)))
     - sum_list (map snd (filter (\<lambda>(v, m). v = vs) (receives k as)))"

end
