(* ===== verification/SP1_Bytes.thy ===== *)
theory SP1_Bytes
  imports SP1_Air
begin

text \<open>
  The byte table: the lookup events of \<open>crates/core/executor/src/events/byte.rs\<close> and the chip
  of \<open>crates/core/machine/src/bytes\<close>, which holds every pair of bytes with the results of the
  byte operations on it.
\<close>

section \<open>Lookup events\<close>

record byte_lookup_event =
  bl_opcode :: byte_opcode
  bl_a1 :: u16
  bl_a2 :: u8
  bl_b :: u8
  bl_c :: u8

definition byte_lookup_new :: "byte_opcode \<Rightarrow> u16 \<Rightarrow> u8 \<Rightarrow> u8 \<Rightarrow> u8 \<Rightarrow> byte_lookup_event" where
  "byte_lookup_new opc a1 a2 b c = \<lparr>bl_opcode = opc, bl_a1 = a1, bl_a2 = a2, bl_b = b, bl_c = c\<rparr>"

text \<open>The methods of \<open>ByteRecord\<close> that add several events, as the list of the events they add.\<close>

definition u8_range_check :: "u8 \<Rightarrow> u8 \<Rightarrow> byte_lookup_event" where
  "u8_range_check a b = byte_lookup_new U8Range 0 0 a b"

definition u16_range_check :: "u16 \<Rightarrow> byte_lookup_event" where
  "u16_range_check a = byte_lookup_new U16Range a 0 0 0"

fun u8_range_checks :: "u8 list \<Rightarrow> byte_lookup_event list" where
  "u8_range_checks (a # b # bytes) = u8_range_check a b # u8_range_checks bytes"
| "u8_range_checks [a] = [u8_range_check a 0]"
| "u8_range_checks [] = []"

definition u16_range_checks :: "u16 list \<Rightarrow> byte_lookup_event list" where
  "u16_range_checks ls = map u16_range_check ls"

definition lookup_or :: "u8 \<Rightarrow> u8 \<Rightarrow> byte_lookup_event" where
  "lookup_or b c = byte_lookup_new B_OR (ucast (b OR c)) 0 b c"

text \<open>\<open>HashMap<ByteLookupEvent, usize>\<close> as a record of the events.\<close>

type_synonym byte_lookups = "byte_lookup_event \<rightharpoonup> nat"

definition add_byte_lookup_event :: "byte_lookup_event \<Rightarrow> byte_lookups \<Rightarrow> byte_lookups" where
  "add_byte_lookup_event e blu = blu(e \<mapsto> (case blu e of Some n \<Rightarrow> n + 1 | None \<Rightarrow> 1))"

definition add_byte_lookup_events :: "byte_lookup_event list \<Rightarrow> byte_lookups \<Rightarrow> byte_lookups" where
  "add_byte_lookup_events es blu = fold add_byte_lookup_event es blu"

definition add_lookup_map :: "byte_lookups \<Rightarrow> byte_lookups \<Rightarrow> byte_lookups" where
  "add_lookup_map new blu = (\<lambda>e. case new e of None \<Rightarrow> blu e
     | Some n \<Rightarrow> Some ((case blu e of Some m \<Rightarrow> m | None \<Rightarrow> 0) + n))"

definition add_byte_lookup_events_from_maps :: "byte_lookups list \<Rightarrow> byte_lookups \<Rightarrow> byte_lookups" where
  "add_byte_lookup_events_from_maps news blu = fold add_lookup_map news blu"

fun byte_opcode_from :: "opcode \<Rightarrow> byte_opcode res" where
  "byte_opcode_from AND_op = Inr B_AND"
| "byte_opcode_from OR_op = Inr B_OR"
| "byte_opcode_from XOR_op = Inr B_XOR"
| "byte_opcode_from SLL = Inr B_SLL"
| "byte_opcode_from _ = Inl Panic"

section \<open>The table\<close>

definition shr_carry :: "u8 \<Rightarrow> u8 \<Rightarrow> u8 \<times> u8" where
  "shr_carry input rotation = (let c_mod = unat (rotation AND 7) in
     if c_mod \<noteq> 0 then (drop_bit c_mod input, drop_bit (8 - c_mod) (push_bit (8 - c_mod) input))
     else (input, 0))"

record 'f byte_preprocessed_cols =
  bp_b :: 'f
  bp_c :: 'f
  bp_and :: 'f
  bp_or :: 'f
  bp_xor :: 'f
  bp_sll :: 'f
  bp_shr :: 'f
  bp_shr_carry :: 'f
  bp_ltu :: 'f
  bp_msb :: 'f
  bp_value_u16 :: 'f

definition byte_trace_row :: "u8 \<Rightarrow> u8 \<Rightarrow> 'f::field byte_preprocessed_cols" where
  "byte_trace_row b c = \<lparr>bp_b = from_canonical_u8 b, bp_c = from_canonical_u8 c,
     bp_and = from_canonical_u8 (b AND c), bp_or = from_canonical_u8 (b OR c), bp_xor = from_canonical_u8 (b XOR c),
     bp_sll = from_canonical_u8 (push_bit (unat (c AND 7)) b),
     bp_shr = from_canonical_u8 (fst (shr_carry b c)), bp_shr_carry = from_canonical_u8 (snd (shr_carry b c)),
     bp_ltu = from_bool (b < c), bp_msb = from_bool (b AND 0x80 \<noteq> 0),
     bp_value_u16 = from_canonical_u32 (push_bit 8 (ucast b) + ucast c)\<rparr>"

definition byte_opcode_all :: "byte_opcode list" where
  "byte_opcode_all = [B_AND, B_OR, B_XOR, B_SLL, U8Range, ShrCarry, LTU, MSB, U16Range]"

primrec byte_receive :: "'f::field byte_preprocessed_cols \<Rightarrow> 'f \<Rightarrow> byte_opcode \<Rightarrow> 'f action list" where
  "byte_receive local m B_AND = receive_byte (byte_opcode_field B_AND) (bp_and local) (bp_b local) (bp_c local) m"
| "byte_receive local m B_OR = receive_byte (byte_opcode_field B_OR) (bp_or local) (bp_b local) (bp_c local) m"
| "byte_receive local m B_XOR = receive_byte (byte_opcode_field B_XOR) (bp_xor local) (bp_b local) (bp_c local) m"
| "byte_receive local m B_SLL = receive_byte (byte_opcode_field B_SLL) (bp_sll local) (bp_b local) (bp_c local) m"
| "byte_receive local m U8Range = receive_byte (byte_opcode_field U8Range) 0 (bp_b local) (bp_c local) m"
| "byte_receive local m ShrCarry =
     receive_byte_pair (byte_opcode_field ShrCarry) (bp_shr local) (bp_shr_carry local) (bp_b local) (bp_c local) m"
| "byte_receive local m LTU = receive_byte (byte_opcode_field LTU) (bp_ltu local) (bp_b local) (bp_c local) m"
| "byte_receive local m MSB = receive_byte (byte_opcode_field MSB) (bp_msb local) (bp_b local) 0 m"
| "byte_receive local m U16Range = receive_byte (byte_opcode_field U16Range) (bp_value_u16 local) 0 0 m"

text \<open>\<open>multiplicities\<close> is an array indexed by the position of the opcode in \<open>all()\<close>.\<close>

definition byte_eval :: "'f::field byte_preprocessed_cols \<Rightarrow> (byte_opcode \<Rightarrow> 'f) \<Rightarrow> 'f action list" where
  "byte_eval local multiplicities = concat (map (\<lambda>opc. byte_receive local (multiplicities opc) opc) byte_opcode_all)"

text \<open>\<open>generate_trace\<close>: the row of an event, and the multiplicity of each opcode at each row.\<close>

definition byte_event_row :: "byte_lookup_event \<Rightarrow> u8 \<times> u8" where
  "byte_event_row e = (if bl_opcode e \<noteq> U16Range then (bl_b e, bl_c e) else (ucast (drop_bit 8 (bl_a1 e)), ucast (bl_a1 e)))"

definition byte_multiplicity :: "byte_lookups \<Rightarrow> u8 \<times> u8 \<Rightarrow> byte_opcode \<Rightarrow> 'f::field" where
  "byte_multiplicity blu row opc = (\<Sum>e | e \<in> dom blu \<and> byte_event_row e = row \<and> bl_opcode e = opc. of_nat (the (blu e)))"

definition byte_generate_trace :: "byte_lookups \<Rightarrow> 'f::field action list" where
  "byte_generate_trace blu = concat (map (\<lambda>(b, c). byte_eval (byte_trace_row b c) (byte_multiplicity blu (b, c)))
     (List.product (map of_nat [0..<256]) (map of_nat [0..<256])))"

section \<open>What the table answers\<close>

text \<open>The values received for an opcode at a row.\<close>

definition byte_values :: "byte_opcode \<Rightarrow> u8 \<Rightarrow> u8 \<Rightarrow> 'f::field list" where
  "byte_values opc b c = (case byte_receive (byte_trace_row b c) 1 opc of Receive i s # _ \<Rightarrow> ai_values i)"

definition in_byte_table :: "'f::field list \<Rightarrow> bool" where
  "in_byte_table vs \<longleftrightarrow> (\<exists>opc b c. vs = byte_values opc b c)"

definition lookup_values :: "byte_lookup_event \<Rightarrow> 'f::field list" where
  "lookup_values e = [byte_opcode_field (bl_opcode e), of_nat (unat (bl_a1 e)), from_canonical_u8 (bl_a2 e),
     from_canonical_u8 (bl_b e), from_canonical_u8 (bl_c e)]"

lemma byte_values_simps [simp]:
  "byte_values B_AND b c = [byte_opcode_field B_AND, from_canonical_u8 (b AND c), 0, from_canonical_u8 b, from_canonical_u8 c]"
  "byte_values B_OR b c = [byte_opcode_field B_OR, from_canonical_u8 (b OR c), 0, from_canonical_u8 b, from_canonical_u8 c]"
  "byte_values B_XOR b c = [byte_opcode_field B_XOR, from_canonical_u8 (b XOR c), 0, from_canonical_u8 b, from_canonical_u8 c]"
  "byte_values B_SLL b c = [byte_opcode_field B_SLL, from_canonical_u8 (push_bit (unat (c AND 7)) b), 0, from_canonical_u8 b, from_canonical_u8 c]"
  "byte_values U8Range b c = [byte_opcode_field U8Range, 0, 0, from_canonical_u8 b, from_canonical_u8 c]"
  "byte_values ShrCarry b c = [byte_opcode_field ShrCarry, from_canonical_u8 (fst (shr_carry b c)),
     from_canonical_u8 (snd (shr_carry b c)), from_canonical_u8 b, from_canonical_u8 c]"
  "byte_values LTU b c = [byte_opcode_field LTU, from_bool (b < c), 0, from_canonical_u8 b, from_canonical_u8 c]"
  "byte_values MSB b c = [byte_opcode_field MSB, from_bool (b AND 0x80 \<noteq> 0), 0, from_canonical_u8 b, 0]"
  "byte_values U16Range b c = [byte_opcode_field U16Range, from_canonical_u32 (push_bit 8 (ucast b) + ucast c), 0, 0, 0]"
  by (simp_all add: byte_values_def receive_byte_def receive_byte_pair_def byte_trace_row_def)

lemma byte_receive_values:
  "byte_receive (byte_trace_row b c) m opc = [Receive (AirInteraction (byte_values opc b c) m Byte_kind) Local_scope]"
  by (cases opc) (simp_all add: receive_byte_def receive_byte_pair_def byte_trace_row_def)

text \<open>Small numbers in the field.\<close>

context prime_field32
begin

lemma from_canonical_u8_inject [simp]: "from_canonical_u8 b = (from_canonical_u8 c :: 'f) \<longleftrightarrow> b = c"
proof -
  have "unat b < ORDER" "unat c < ORDER"
    using unsigned_less [of b, where 'a = nat] unsigned_less [of c, where 'a = nat] by (simp_all add: ORDER_def)
  then have "(of_nat (unat b) :: 'f) = of_nat (unat c) \<longleftrightarrow> unat b = unat c" by (rule of_nat_inject)
  then show ?thesis unfolding from_canonical_u8_def by (simp only: word_unat_eq_iff)
qed

lemma byte_opcode_field_inject [simp]: "byte_opcode_field x = (byte_opcode_field y :: 'f) \<longleftrightarrow> x = y"
  by (cases x; cases y) (simp_all add: byte_opcode_field_def)

lemma from_bool_inject [simp]: "from_bool x = (from_bool y :: 'f) \<longleftrightarrow> x = y"
  by (simp add: from_bool_def)

lemma in_byte_table_iff:
  "in_byte_table ((byte_opcode_field opc :: 'f) # vs) \<longleftrightarrow> (\<exists>b c. vs = tl (byte_values opc b c))"
proof -
  have "byte_values x b c = (byte_opcode_field opc :: 'f) # vs \<longleftrightarrow> x = opc \<and> vs = tl (byte_values opc b c)" for x b c
    by (cases x) auto
  then show ?thesis unfolding in_byte_table_def by metis
qed

end

text \<open>A lookup answered by the table, as facts about its operands.\<close>

definition is_byte :: "'f::field \<Rightarrow> bool" where
  "is_byte x \<longleftrightarrow> (\<exists>b. x = from_canonical_u8 b)"

definition is_u16 :: "'f::field \<Rightarrow> bool" where
  "is_u16 x \<longleftrightarrow> (\<exists>n < 2 ^ 16. x = of_nat n)"

lemma is_byteI [simp, intro]: "is_byte (from_canonical_u8 b)" by (auto simp: is_byte_def)

context prime_field32
begin

lemma table_range [simp]:
  "in_byte_table [byte_opcode_field U8Range :: 'f, x, y, b, c] \<longleftrightarrow> x = 0 \<and> y = 0 \<and> is_byte b \<and> is_byte c"
  by (auto simp: in_byte_table_iff is_byte_def)

lemma u16_value: "(\<exists>b c. x = (from_canonical_u32 (push_bit 8 (ucast (b::u8)) + ucast (c::u8)) :: 'f)) \<longleftrightarrow> is_u16 x"
proof -
  have e: "unat (push_bit 8 (ucast b) + ucast c :: u32) = 256 * unat b + unat c" for b c :: u8
  proof -
    have "256 * unat b + unat c < 2 ^ 32" using unsigned_less [of b, where 'a = nat] unsigned_less [of c, where 'a = nat] by simp
    then show ?thesis
      by (simp add: unat_word_ariths push_bit_eq_mult unsigned_ucast_eq take_bit_eq_mod)
  qed
  show ?thesis
  proof
    assume "\<exists>b c. x = (from_canonical_u32 (push_bit 8 (ucast (b::u8)) + ucast (c::u8)) :: 'f)"
    then obtain b c :: u8 where "x = of_nat (256 * unat b + unat c)" by (auto simp: from_canonical_u32_def e)
    moreover have "256 * unat b + unat c < 2 ^ 16"
      using unsigned_less [of b, where 'a = nat] unsigned_less [of c, where 'a = nat] by simp
    ultimately show "is_u16 x" unfolding is_u16_def by blast
  next
    assume "is_u16 x"
    then obtain n where n: "n < 2 ^ 16" "x = of_nat n" by (auto simp: is_u16_def)
    have "256 * unat (of_nat (n div 256) :: u8) + unat (of_nat (n mod 256) :: u8) = n"
      using n(1) by (simp add: unsigned_of_nat take_bit_eq_mod)
    then show "\<exists>b c. x = (from_canonical_u32 (push_bit 8 (ucast (b::u8)) + ucast (c::u8)) :: 'f)"
      using n(2) by (metis e from_canonical_u32_def)
  qed
qed

lemma table_u16 [simp]:
  "in_byte_table [byte_opcode_field U16Range :: 'f, x, y, b, c] \<longleftrightarrow> is_u16 x \<and> y = 0 \<and> b = 0 \<and> c = 0"
  by (auto simp: in_byte_table_iff simp flip: u16_value)

lemma table_bitwise [simp]:
  "in_byte_table [byte_opcode_field B_AND :: 'f, x, y, b, c] \<longleftrightarrow>
     (\<exists>v w. b = from_canonical_u8 v \<and> c = from_canonical_u8 w \<and> x = from_canonical_u8 (v AND w) \<and> y = 0)"
  "in_byte_table [byte_opcode_field B_OR :: 'f, x, y, b, c] \<longleftrightarrow>
     (\<exists>v w. b = from_canonical_u8 v \<and> c = from_canonical_u8 w \<and> x = from_canonical_u8 (v OR w) \<and> y = 0)"
  "in_byte_table [byte_opcode_field B_XOR :: 'f, x, y, b, c] \<longleftrightarrow>
     (\<exists>v w. b = from_canonical_u8 v \<and> c = from_canonical_u8 w \<and> x = from_canonical_u8 (v XOR w) \<and> y = 0)"
  by (auto simp: in_byte_table_iff)

lemma table_shift [simp]:
  "in_byte_table [byte_opcode_field B_SLL :: 'f, x, y, b, c] \<longleftrightarrow>
     (\<exists>v w. b = from_canonical_u8 v \<and> c = from_canonical_u8 w \<and> x = from_canonical_u8 (push_bit (unat (w AND 7)) v) \<and> y = 0)"
  "in_byte_table [byte_opcode_field ShrCarry :: 'f, x, y, b, c] \<longleftrightarrow>
     (\<exists>v w. b = from_canonical_u8 v \<and> c = from_canonical_u8 w \<and> x = from_canonical_u8 (fst (shr_carry v w))
        \<and> y = from_canonical_u8 (snd (shr_carry v w)))"
  by (auto simp: in_byte_table_iff)

lemma table_compare [simp]:
  "in_byte_table [byte_opcode_field LTU :: 'f, x, y, b, c] \<longleftrightarrow>
     (\<exists>v w. b = from_canonical_u8 v \<and> c = from_canonical_u8 w \<and> x = from_bool (v < w) \<and> y = 0)"
  "in_byte_table [byte_opcode_field MSB :: 'f, x, y, b, c] \<longleftrightarrow>
     (\<exists>v. b = from_canonical_u8 v \<and> c = 0 \<and> x = from_bool (v AND 0x80 \<noteq> 0) \<and> y = 0)"
  by (auto simp: in_byte_table_iff)

end

section \<open>Records of lookup events\<close>

text \<open>The trait \<open>ByteRecord\<close>: a record counts the events that are added to it.\<close>

locale byte_record =
  fixes add :: "byte_lookup_event \<Rightarrow> 'r \<Rightarrow> 'r"
    and occurrences :: "'r \<Rightarrow> byte_lookup_event \<Rightarrow> nat"
  assumes occurrences_add: "occurrences (add e r) x = occurrences r x + (if x = e then 1 else 0)"
begin

lemma occurrences_fold: "occurrences (fold add es r) x = occurrences r x + count (mset es) x"
  by (induction es arbitrary: r) (auto simp: occurrences_add)

end

definition lookup_count :: "byte_lookups \<Rightarrow> byte_lookup_event \<Rightarrow> nat" where
  "lookup_count blu e = (case blu e of Some n \<Rightarrow> n | None \<Rightarrow> 0)"

interpretation lookup_list: byte_record "\<lambda>e es. es @ [e]" "\<lambda>es x. count (mset es) x"
  by unfold_locales simp

interpretation lookup_map: byte_record add_byte_lookup_event lookup_count
  by unfold_locales (simp add: add_byte_lookup_event_def lookup_count_def split: option.split)

lemma lookup_count_maps:
  "lookup_count (add_byte_lookup_events_from_maps news blu) e = lookup_count blu e + sum_list (map (\<lambda>m. lookup_count m e) news)"
proof (induction news arbitrary: blu)
  case (Cons m news)
  have "lookup_count (add_lookup_map m blu) e = lookup_count blu e + lookup_count m e"
    by (simp add: add_lookup_map_def lookup_count_def split: option.split)
  then show ?case using Cons [of "add_lookup_map m blu"] by (simp add: add_byte_lookup_events_from_maps_def)
qed (simp add: add_byte_lookup_events_from_maps_def)

section \<open>The table receives what was recorded\<close>

text \<open>A valid event: its results are those of its operation.\<close>

definition byte_event_ok :: "byte_lookup_event \<Rightarrow> bool" where
  "byte_event_ok e \<longleftrightarrow> (case bl_opcode e of
       B_AND \<Rightarrow> bl_a1 e = ucast (bl_b e AND bl_c e) \<and> bl_a2 e = 0
     | B_OR \<Rightarrow> bl_a1 e = ucast (bl_b e OR bl_c e) \<and> bl_a2 e = 0
     | B_XOR \<Rightarrow> bl_a1 e = ucast (bl_b e XOR bl_c e) \<and> bl_a2 e = 0
     | B_SLL \<Rightarrow> bl_a1 e = ucast (push_bit (unat (bl_c e AND 7)) (bl_b e)) \<and> bl_a2 e = 0
     | U8Range \<Rightarrow> bl_a1 e = 0 \<and> bl_a2 e = 0
     | ShrCarry \<Rightarrow> bl_a1 e = ucast (fst (shr_carry (bl_b e) (bl_c e))) \<and> bl_a2 e = snd (shr_carry (bl_b e) (bl_c e))
     | LTU \<Rightarrow> bl_a1 e = (if bl_b e < bl_c e then 1 else 0) \<and> bl_a2 e = 0
     | MSB \<Rightarrow> bl_a1 e = (if bl_b e AND 0x80 \<noteq> 0 then 1 else 0) \<and> bl_a2 e = 0 \<and> bl_c e = 0
     | U16Range \<Rightarrow> bl_a2 e = 0 \<and> bl_b e = 0 \<and> bl_c e = 0)"

lemma unat_u8_u16 [simp]: "unat (ucast (b :: u8) :: u16) = unat b"
  using unsigned_less [of b, where 'a = nat] by (simp add: unsigned_ucast_eq take_bit_eq_mod)

lemma u16_bytes: "unat (push_bit 8 (ucast (ucast (drop_bit 8 x) :: u8)) + ucast (ucast x :: u8) :: u32) = unat (x :: u16)"
proof -
  have "unat (ucast (drop_bit 8 x) :: u8) = unat x div 256" "unat (ucast x :: u8) = unat x mod 256"
    using unsigned_less [of x, where 'a = nat] by (simp_all add: unsigned_ucast_eq take_bit_eq_mod drop_bit_eq_div unat_div)
  then show ?thesis
    using unsigned_less [of x, where 'a = nat]
    by (simp add: unat_word_ariths push_bit_eq_mult unsigned_ucast_eq take_bit_eq_mod del: unsigned_drop_bit_eq)
      (simp add: mod_mod_cancel)
qed

lemma byte_event_ok_values:
  "byte_event_ok e \<Longrightarrow> lookup_values e = byte_values (bl_opcode e) (fst (byte_event_row e)) (snd (byte_event_row e))"
  by (cases "bl_opcode e")
    (auto simp: byte_event_ok_def lookup_values_def byte_event_row_def from_canonical_u8_def from_canonical_u32_def u16_bytes)

lemma u8_list: "distinct (map of_nat [0..<256] :: u8 list)" "set (map of_nat [0..<256] :: u8 list) = UNIV"
proof -
  show "distinct (map of_nat [0..<256] :: u8 list)"
    unfolding distinct_map by (auto intro!: inj_onI simp: word_unat_eq_iff unsigned_of_nat take_bit_eq_mod)
  have "b \<in> of_nat ` {0..<256}" for b :: u8
    using unsigned_less [of b, where 'a = nat] by (intro image_eqI [of _ _ "unat b"]) simp_all
  then show "set (map of_nat [0..<256] :: u8 list) = UNIV" by (auto simp del: of_nat_unat)
qed

lemma interaction_count_append [simp]:
  "interaction_count k vs (as @ bs) = interaction_count k vs as + interaction_count k vs bs"
  by (simp add: interaction_count_def)

lemma interaction_count_Nil [simp]: "interaction_count k vs [] = 0"
  by (simp add: interaction_count_def)

lemma interaction_count_concat:
  "interaction_count k vs (concat (map f xs)) = sum_list (map (\<lambda>x. interaction_count k vs (f x)) xs)"
  by (induction xs) simp_all

lemma byte_eval_count:
  "interaction_count Byte_kind vs (byte_eval (byte_trace_row b c) m)
     = - sum_list (map (\<lambda>opc. if byte_values opc b c = vs then m opc else 0) byte_opcode_all)"
proof -
  have "interaction_count Byte_kind vs (byte_receive (byte_trace_row b c) x opc) = - (if byte_values opc b c = vs then x else 0)"
    for x :: 'a and opc by (simp add: byte_receive_values interaction_count_def)
  then show ?thesis unfolding byte_eval_def by (simp only: interaction_count_concat) (simp add: uminus_sum_list_map comp_def)
qed

lemma byte_opcode_all: "distinct byte_opcode_all" "set byte_opcode_all = UNIV"
proof -
  show "distinct byte_opcode_all" by (simp add: byte_opcode_all_def)
  have "opc \<in> set byte_opcode_all" for opc by (cases opc) (simp_all add: byte_opcode_all_def)
  then show "set byte_opcode_all = UNIV" by blast
qed

instance byte_opcode :: finite
  by standard (simp flip: byte_opcode_all(2))

context prime_field32
begin

lemma lookup_values_inject: "(lookup_values d :: 'f list) = lookup_values e \<longleftrightarrow> d = e"
proof -
  have "unat (bl_a1 d) < ORDER" "unat (bl_a1 e) < ORDER"
    using unsigned_less [of "bl_a1 d", where 'a = nat] unsigned_less [of "bl_a1 e", where 'a = nat] by (simp_all add: ORDER_def)
  then have "(of_nat (unat (bl_a1 d)) :: 'f) = of_nat (unat (bl_a1 e)) \<longleftrightarrow> bl_a1 d = bl_a1 e"
    by (simp only: of_nat_inject word_unat_eq_iff)
  then show ?thesis unfolding lookup_values_def by (cases d; cases e) (auto simp del: of_nat_unat)
qed

lemma byte_generate_trace_count:
  assumes "finite (dom blu)" "\<And>e. e \<in> dom blu \<Longrightarrow> byte_event_ok e"
  shows "interaction_count Byte_kind (lookup_values e) (byte_generate_trace blu) = - (of_nat (lookup_count blu e) :: 'f)"
proof -
  let ?n = "\<lambda>e. of_nat (the (blu e)) :: 'f" and ?v = "\<lambda>d. byte_values (bl_opcode d) (fst (byte_event_row d)) (snd (byte_event_row d)) :: 'f list"
  let ?w = "lookup_values e :: 'f list" and ?k = "\<lambda>d. (byte_event_row d, bl_opcode d)"
  have "interaction_count Byte_kind ?w (byte_generate_trace blu)
      = - (\<Sum>r\<in>UNIV. \<Sum>opc\<in>UNIV. if byte_values opc (fst r) (snd r) = ?w then byte_multiplicity blu r opc else 0)"
    unfolding byte_generate_trace_def interaction_count_concat
    by (subst sum_list_distinct_conv_sum_set)
      (auto simp: distinct_product u8_list set_product case_prod_beta byte_eval_count sum_negf
        byte_opcode_all sum_list_distinct_conv_sum_set simp del: set_map)
  also have "(\<Sum>r\<in>UNIV. \<Sum>opc\<in>UNIV. if byte_values opc (fst r) (snd r) = ?w then byte_multiplicity blu r opc else 0)
      = (\<Sum>x\<in>UNIV. \<Sum>d | d \<in> dom blu \<and> ?k d = x. if ?v d = ?w then ?n d else 0)"
    unfolding sum.cartesian_product UNIV_Times_UNIV
    by (rule sum.cong) (auto simp: byte_multiplicity_def intro!: sum.neutral sum.cong)
  also have "\<dots> = (\<Sum>d\<in>dom blu. if ?v d = ?w then ?n d else 0)"
    using sum.group [OF assms(1) finite [of UNIV] subset_UNIV, of "\<lambda>d. if ?v d = ?w then ?n d else 0" ?k] by (simp only:)
  also have "\<dots> = (\<Sum>d\<in>dom blu. if d = e then ?n d else 0)"
    using assms(2) by (intro sum.cong) (auto simp: lookup_values_inject simp flip: byte_event_ok_values)
  also have "\<dots> = of_nat (lookup_count blu e)"
    using assms(1) by (auto simp: lookup_count_def sum.delta dom_def)
  finally show ?thesis .
qed

end

end
