(* ===== verification/SP1_Operations.thy ===== *)
theory SP1_Operations
  imports SP1_Bytes
begin

text \<open>
  The operations that the chips share, \<open>crates/core/machine/src/operations\<close>: for each its
  columns, \<open>populate\<close> (which fills the columns and returns the byte lookups it records) and
  \<open>eval\<close>.  For each operation two facts: the constraints determine the result
  (soundness), and the populated columns satisfy them, with exactly the recorded
  lookups sent (completeness).
\<close>

section \<open>Words as bytes\<close>

primrec bytes_u32 :: "u8 word4 \<Rightarrow> u32" where
  "bytes_u32 (Word4 a b c d) = of_nat (unat a + 256 * unat b + 65536 * unat c + 16777216 * unat d)"

lemma unat_u8_less: "unat (b :: u8) < 256"
  using unsigned_less [of b, where 'a = nat] by simp

lemma unat_bytes_u32:
  "unat (bytes_u32 (Word4 a b c d)) = unat a + 256 * unat b + 65536 * unat c + 16777216 * unat d"
  using unat_u8_less [of a] unat_u8_less [of b] unat_u8_less [of c] unat_u8_less [of d]
  by (simp add: unsigned_of_nat take_bit_eq_mod del: of_nat_add of_nat_mult)

lemma unat_le_byte: "unat (ucast (drop_bit k (w :: u32)) :: u8) = unat w div 2 ^ k mod 256"
  by (simp add: unsigned_ucast_eq take_bit_eq_mod unat_drop_bit_eq drop_bit_eq_div [where 'a = nat])

lemma bytes_sum:
  fixes n :: nat
  assumes "n < 4294967296"
  shows "n mod 256 + 256 * (n div 256 mod 256) + 65536 * (n div 65536 mod 256) + 16777216 * (n div 16777216 mod 256) = n"
proof -
  have d: "n div 65536 = n div 256 div 256" "n div 16777216 = n div 256 div 256 div 256" by (simp_all flip: div_mult2_eq)
  let ?q = "n div 256" let ?r = "?q div 256" let ?s = "?r div 256"
  have "?s = n div 16777216" by (simp only: d)
  also have "\<dots> < 256" using assms by (simp add: div_less_iff_less_mult)
  finally have "?s mod 256 = ?s" by (rule mod_less)
  moreover have "a + 256 * b + 65536 * c + 16777216 * e = a + 256 * (b + 256 * (c + 256 * e))" for a b c e :: nat by simp
  ultimately show ?thesis unfolding d by (simp only: mod_mult_div_eq)
qed

lemma byte_step: "(a::nat) < 256 \<Longrightarrow> (a + 256 * m) mod 256 = a" "a < 256 \<Longrightarrow> (a + 256 * m) div 256 = m"
  by simp_all

lemma bytes_digits:
  fixes a b c d :: nat
  assumes "a < 256" "b < 256" "c < 256" "d < 256"
  defines "n \<equiv> a + 256 * b + 65536 * c + 16777216 * d"
  shows "n mod 256 = a" "n div 256 mod 256 = b" "n div 65536 mod 256 = c" "n div 16777216 mod 256 = d"
proof -
  have n: "n = a + 256 * (b + 256 * (c + 256 * d))" by (simp add: n_def)
  have e: "n div 65536 = n div 256 div 256" "n div 16777216 = n div 256 div 256 div 256" by (simp_all flip: div_mult2_eq)
  show "n mod 256 = a" "n div 256 mod 256 = b" "n div 65536 mod 256 = c" "n div 16777216 mod 256 = d"
    unfolding e unfolding n by (simp_all only: byte_step assms(1-4) mod_less)
qed

lemma unat_le_bytes:
  "unat (ucast (w :: u32) :: u8) = unat w mod 256"
  "unat (ucast (drop_bit 8 w) :: u8) = unat w div 256 mod 256"
  "unat (ucast (drop_bit 16 w) :: u8) = unat w div 65536 mod 256"
  "unat (ucast (drop_bit 24 w) :: u8) = unat w div 16777216 mod 256"
  using unat_le_byte [of 0 w] unat_le_byte [of 8 w] unat_le_byte [of 16 w] unat_le_byte [of 24 w] by simp_all

lemma bytes_le_bytes [simp]: "bytes_u32 (le_bytes w) = w"
proof -
  have "unat (bytes_u32 (le_bytes w)) = unat w"
    unfolding le_bytes_def unat_bytes_u32 unat_le_bytes(2-4) unfolding unat_le_bytes(1) by (rule bytes_sum [OF unat_u32_less])
  then show ?thesis by (simp only: word_unat_eq_iff)
qed

lemma unat_word_split: "unat w = unat (limb0 (le_bytes w)) + 256 * unat (limb1 (le_bytes w))
    + 65536 * unat (limb2 (le_bytes w)) + 16777216 * unat (limb3 (le_bytes w))"
  using unat_bytes_u32 [of "limb0 (le_bytes w)" "limb1 (le_bytes w)" "limb2 (le_bytes w)" "limb3 (le_bytes w)"] by simp

lemma le_bytes_bytes [simp]: "le_bytes (bytes_u32 w) = w"
proof -
  obtain a b c d where w: "w = Word4 a b c d" by (cases w)
  let ?n = "unat a + 256 * unat b + 65536 * unat c + 16777216 * unat d"
  note d = bytes_digits [OF unat_u8_less [of a] unat_u8_less [of b] unat_u8_less [of c] unat_u8_less [of d]]
  show ?thesis unfolding w le_bytes_def word4.inject word_unat_eq_iff unat_le_bytes(2-4)
    unfolding unat_le_bytes(1) unat_bytes_u32 by (simp only: d simp_thms)
qed

lemma word_of_bytes_simps [simp]:
  "word_of_bytes (Word4 a b c d) = Word4 (from_canonical_u8 a) (from_canonical_u8 b) (from_canonical_u8 c) (from_canonical_u8 d)"
  by (simp add: word_of_bytes_def)

lemma word_from_bytes: "word_from (bytes_u32 w) = word_of_bytes w"
  by (simp add: word_from_def)

definition is_word :: "'f::field word4 \<Rightarrow> bool" where
  "is_word w \<longleftrightarrow> (\<exists>v. w = word_from v)"

lemma is_word_from [simp, intro]: "is_word (word_from v)" by (auto simp: is_word_def)

lemma is_word_limbs: "is_word (Word4 a b c d) \<longleftrightarrow> is_byte a \<and> is_byte b \<and> is_byte c \<and> is_byte d"
proof
  assume "is_byte a \<and> is_byte b \<and> is_byte c \<and> is_byte d"
  then obtain a' b' c' d' where "Word4 a b c d = word_of_bytes (Word4 a' b' c' d')" by (auto simp: is_byte_def)
  then show "is_word (Word4 a b c d)" unfolding is_word_def by (metis word_from_bytes)
qed (auto simp: is_word_def word_from_def le_bytes_def)

context prime_field32
begin

lemma word_from_inject [simp]: "word_from v = (word_from w :: 'f word4) \<longleftrightarrow> v = w"
proof
  assume "word_from v = (word_from w :: 'f word4)"
  then have "le_bytes v = le_bytes w"
    by (cases "le_bytes v"; cases "le_bytes w") (simp add: word_from_def)
  then show "v = w" by (metis bytes_le_bytes)
qed simp

end

text \<open>A table of lookups that answers no wrong byte lookup, and the one that answers all right ones.\<close>

definition bytes_sound :: "(interaction_kind \<Rightarrow> 'f::field list \<Rightarrow> bool) \<Rightarrow> bool" where
  "bytes_sound L \<longleftrightarrow> (\<forall>vs. L Byte_kind vs \<longrightarrow> in_byte_table vs)"

definition byte_lookups_only :: "interaction_kind \<Rightarrow> 'f::field list \<Rightarrow> bool" where
  "byte_lookups_only k vs \<longleftrightarrow> k = Byte_kind \<and> in_byte_table vs"

lemma bytes_soundD: "bytes_sound L \<Longrightarrow> L Byte_kind vs \<Longrightarrow> in_byte_table vs"
  by (simp add: bytes_sound_def)

text \<open>The messages that recorded lookups stand for.\<close>

definition requests :: "byte_lookup_event list \<Rightarrow> ('f::field list \<times> 'f) list" where
  "requests es = map (\<lambda>e. (lookup_values e, 1)) es"

lemma requests_simps [simp]:
  "requests [] = []" "requests (e # es) = (lookup_values e, 1) # requests es" "requests (es @ fs) = requests es @ requests fs"
  by (simp_all add: requests_def)

section \<open>Addition\<close>

record 'f add_operation =
  add_value :: "'f word4"
  add_carry0 :: 'f
  add_carry1 :: 'f
  add_carry2 :: 'f

definition add_populate :: "u32 \<Rightarrow> u32 \<Rightarrow> 'f::field add_operation \<times> byte_lookup_event list" where
  "add_populate a_u32 b_u32 =
     (let expected = a_u32 + b_u32;
          a = map unat (to_le_bytes a_u32); b = map unat (to_le_bytes b_u32);
          carry0 = (if a ! 0 + b ! 0 > 255 then 1 else 0);
          carry1 = (if a ! 1 + b ! 1 + carry0 > 255 then 1 else 0);
          carry2 = (if a ! 2 + b ! 2 + carry1 > 255 then 1 else 0) :: nat
      in (\<lparr>add_value = word_from expected, add_carry0 = of_nat carry0, add_carry1 = of_nat carry1, add_carry2 = of_nat carry2\<rparr>,
          u8_range_checks (to_le_bytes a_u32) @ u8_range_checks (to_le_bytes b_u32) @ u8_range_checks (to_le_bytes expected)))"

definition add_eval :: "'f::field word4 \<Rightarrow> 'f word4 \<Rightarrow> 'f add_operation \<Rightarrow> 'f \<Rightarrow> 'f action list" where
  "add_eval a b cols is_real =
     (let base = 256;
          overflow_0 = limb0 a + limb0 b - limb0 (add_value cols);
          overflow_1 = limb1 a + limb1 b - limb1 (add_value cols) + add_carry0 cols;
          overflow_2 = limb2 a + limb2 b - limb2 (add_value cols) + add_carry1 cols;
          overflow_3 = limb3 a + limb3 b - limb3 (add_value cols) + add_carry2 cols
      in air_when is_real (
           assert_zero (overflow_0 * (overflow_0 - base)) @
           assert_zero (overflow_1 * (overflow_1 - base)) @
           assert_zero (overflow_2 * (overflow_2 - base)) @
           assert_zero (overflow_3 * (overflow_3 - base)) @
           assert_zero (add_carry0 cols * (overflow_0 - base)) @
           assert_zero (add_carry1 cols * (overflow_1 - base)) @
           assert_zero (add_carry2 cols * (overflow_2 - base)) @
           assert_zero ((add_carry0 cols - 1) * overflow_0) @
           assert_zero ((add_carry1 cols - 1) * overflow_1) @
           assert_zero ((add_carry2 cols - 1) * overflow_2) @
           assert_bool (add_carry0 cols) @ assert_bool (add_carry1 cols) @ assert_bool (add_carry2 cols) @
           assert_bool is_real) @
         slice_range_check_u8 (limbs a) is_real @
         slice_range_check_u8 (limbs b) is_real @
         slice_range_check_u8 (limbs (add_value cols)) is_real)"

lemma add_carries:
  assumes "unat (limb0 a) + unat (limb0 b) + 0 = unat (limb0 v) + 256 * c0"
    "unat (limb1 a) + unat (limb1 b) + c0 = unat (limb1 v) + 256 * c1"
    "unat (limb2 a) + unat (limb2 b) + c1 = unat (limb2 v) + 256 * c2"
    "unat (limb3 a) + unat (limb3 b) + c2 = unat (limb3 v) + 256 * c3"
  shows "bytes_u32 a + bytes_u32 b = bytes_u32 v"
proof -
  have "unat (bytes_u32 a) + unat (bytes_u32 b) = unat (bytes_u32 v) + 2 ^ 32 * c3"
    using assms by (cases a; cases b; cases v) (simp add: unat_bytes_u32 del: bytes_u32.simps)
  then have "of_nat (unat (bytes_u32 a) + unat (bytes_u32 b)) = (of_nat (unat (bytes_u32 v) + 2 ^ 32 * c3) :: u32)" by (simp only:)
  moreover have "(4294967296 :: u32) = 0" by code_simp
  ultimately show ?thesis by simp
qed

text \<open>One limb: with the carries, the limbs add up as integers.\<close>

context prime_field32
begin

lemma of_int_u8: "from_canonical_u8 b = (of_int (int (unat b)) :: 'f)"
  by (simp add: from_canonical_u8_def)

lemma carry_step:
  fixes c c' :: nat
  assumes "from_canonical_u8 a + from_canonical_u8 b - from_canonical_u8 v + of_nat c = (256 * of_nat c' :: 'f)" "c \<le> 1" "c' \<le> 1"
  shows "unat a + unat b + c = unat v + 256 * c'"
proof -
  let ?x = "int (unat a) + int (unat b) + int c" and ?y = "int (unat v) + 256 * int c'"
  have "of_int ?x = (of_int ?y :: 'f)" using assms(1) by (simp add: from_canonical_u8_def algebra_simps)
  moreover have "\<bar>?x - ?y\<bar> < P"
    using unat_u8_less [of a] unat_u8_less [of b] unat_u8_less [of v] assms(2,3) unfolding P_def by linarith
  ultimately have "?x = ?y" by (simp only: of_int_inject)
  then show ?thesis by linarith
qed

lemma carry_flag:
  fixes c x :: 'f
  assumes "x * (x - 256) = 0" "c * (x - 256) = 0" "(c - 1) * x = 0" "c * (c - 1) = 0"
  obtains n :: nat where "n \<le> 1" "c = of_nat n" "x = 256 * of_nat n"
proof -
  have "c = 0 \<or> c = 1" using assms(4) by auto
  then show ?thesis using assms(2,3) that [of 0] that [of 1] by auto
qed

lemma range_check_u8:
  "accepts L (slice_range_check_u8 xs (m::'f)) \<Longrightarrow> bytes_sound L \<Longrightarrow> m \<noteq> 0 \<Longrightarrow> \<forall>x\<in>set xs. is_byte x"
  by (induction xs m rule: slice_range_check_u8.induct) (auto simp: air dest!: bytes_soundD)

lemma range_check_word:
  "accepts L (slice_range_check_u8 (limbs w) (m::'f)) \<Longrightarrow> bytes_sound L \<Longrightarrow> m \<noteq> 0 \<Longrightarrow> is_word w"
  by (cases w) (auto dest: range_check_u8 simp: is_word_limbs simp del: slice_range_check_u8.simps)

lemma bool_expr: "x * (x - 1) = (0::'f) \<longleftrightarrow> x = 0 \<or> x = 1" by auto

lemma add_eval_sound:
  fixes a b :: "'f word4"
  assumes acc: "accepts L (add_eval a b cols r)" and L: "bytes_sound L" and r: "r \<noteq> 0"
  shows "\<exists>x y. a = word_from x \<and> b = word_from y \<and> add_value cols = word_from (x + y) \<and> r = 1"
proof -
  have "is_word a" "is_word b" "is_word (add_value cols)" and "r = 1"
    using acc L r by (auto intro: range_check_word simp: add_eval_def Let_def assert_bool_def)
  then obtain x y z where w: "a = word_of_bytes x" "b = word_of_bytes y" "add_value cols = word_of_bytes z"
    unfolding is_word_def word_from_def by metis
  obtain x0 x1 x2 x3 y0 y1 y2 y3 z0 z1 z2 z3 where
    e: "x = Word4 x0 x1 x2 x3" "y = Word4 y0 y1 y2 y3" "z = Word4 z0 z1 z2 z3" by (metis word4.exhaust)
  let ?o0 = "from_canonical_u8 x0 + from_canonical_u8 y0 - from_canonical_u8 z0 :: 'f"
  let ?o1 = "from_canonical_u8 x1 + from_canonical_u8 y1 - from_canonical_u8 z1 + add_carry0 cols :: 'f"
  let ?o2 = "from_canonical_u8 x2 + from_canonical_u8 y2 - from_canonical_u8 z2 + add_carry1 cols :: 'f"
  let ?o3 = "from_canonical_u8 x3 + from_canonical_u8 y3 - from_canonical_u8 z3 + add_carry2 cols :: 'f"
  note acc' = accepts_when [OF acc [unfolded add_eval_def Let_def accepts_simps w e word_of_bytes_simps word4.sel, THEN conjunct1] r,
      unfolded air append.simps accepts_simps]
  obtain c0 where c0: "c0 \<le> 1" "add_carry0 cols = of_nat c0" "?o0 = 256 * of_nat c0"
    by (rule carry_flag [of ?o0 "add_carry0 cols"]) (use acc' in simp_all)
  obtain c1 where c1: "c1 \<le> 1" "add_carry1 cols = of_nat c1" "?o1 = 256 * of_nat c1"
    by (rule carry_flag [of ?o1 "add_carry1 cols"]) (use acc' in simp_all)
  obtain c2 where c2: "c2 \<le> 1" "add_carry2 cols = of_nat c2" "?o2 = 256 * of_nat c2"
    by (rule carry_flag [of ?o2 "add_carry2 cols"]) (use acc' in simp_all)
  have "?o3 * (?o3 - 256) = 0" using acc' by blast
  then have "?o3 = 256 * of_nat 0 \<or> ?o3 = 256 * of_nat 1" by auto
  then obtain c3 where c3: "c3 \<le> 1" "?o3 = 256 * of_nat c3" by (metis le_numeral_extra(4) zero_le_one)
  have "bytes_u32 x + bytes_u32 y = bytes_u32 z"
    unfolding e
    by (rule add_carries [of _ _ _ c0 c1 c2 c3]; unfold word4.sel; rule carry_step)
      (use c0 c1 c2 c3 in simp_all)
  then show ?thesis using w \<open>r = 1\<close> unfolding word_from_def by (metis le_bytes_bytes)
qed

lemma requests_range: "sends Byte_kind (slice_range_check_u8 (map from_canonical_u8 bs) (1::'f)) = requests (u8_range_checks bs)"
  by (induction bs rule: u8_range_checks.induct)
    (simp_all add: air u8_range_check_def byte_lookup_new_def lookup_values_def from_canonical_u8_def)

lemma accepts_range: "accepts byte_lookups_only (slice_range_check_u8 (map from_canonical_u8 bs) (m::'f))"
proof (induction bs rule: u8_range_checks.induct)
  case (2 a)
  have "is_byte (0::'f)" using is_byteI [of 0] by (simp add: from_canonical_u8_def)
  then show ?case by (simp add: air byte_lookups_only_def)
qed (simp_all add: air byte_lookups_only_def)

lemma limbs_word_from: "limbs (word_from w) = map from_canonical_u8 (to_le_bytes w)"
  by (simp add: word_from_def le_bytes_def to_le_bytes_def)

lemma range_word [simp]:
  "sends Byte_kind (slice_range_check_u8 (limbs (word_from w)) (1::'f)) = requests (u8_range_checks (to_le_bytes w))"
  "sends Byte_kind (slice_range_check_u8 (limbs (word_from w)) (0::'f)) = []"
  "accepts byte_lookups_only (slice_range_check_u8 (limbs (word_from w)) (m::'f))"
  by (simp_all add: limbs_word_from requests_range accepts_range) (simp add: to_le_bytes_def air)

end

lemma carry_limb:
  fixes a b :: u8 and c :: nat
  assumes "c \<le> 1"
  defines "c' \<equiv> (if unat a + unat b + c > 255 then 1 else 0 :: nat)"
  shows "unat a + unat b + c = unat (of_nat (unat a + unat b + c) :: u8) + 256 * c'" "c' \<le> 1"
proof -
  have m: "unat (of_nat (unat a + unat b + c) :: u8) = (unat a + unat b + c) mod 256"
    by (simp add: unsigned_of_nat take_bit_eq_mod del: of_nat_add of_nat_unat)
  have "unat a + unat b + c < 512" using unat_u8_less [of a] unat_u8_less [of b] assms(1) by linarith
  then have "n mod 256 + 256 * (if n > 255 then 1 else 0) = n" if "n = unat a + unat b + c" for n
    using that mod_if [of "n - 256" 256] by (auto simp: le_mod_geq)
  then show "unat a + unat b + c = unat (of_nat (unat a + unat b + c) :: u8) + 256 * c'" by (simp only: m c'_def)
qed (simp add: c'_def)

lemma add_populate_limbs:
  fixes x y :: u32
  defines "a \<equiv> le_bytes x" and "b \<equiv> le_bytes y" and "v \<equiv> le_bytes (x + y)"
  defines "c0 \<equiv> (if unat (limb0 a) + unat (limb0 b) + 0 > 255 then 1 else 0 :: nat)"
  defines "c1 \<equiv> (if unat (limb1 a) + unat (limb1 b) + c0 > 255 then 1 else 0 :: nat)"
  defines "c2 \<equiv> (if unat (limb2 a) + unat (limb2 b) + c1 > 255 then 1 else 0 :: nat)"
  defines "c3 \<equiv> (if unat (limb3 a) + unat (limb3 b) + c2 > 255 then 1 else 0 :: nat)"
  shows "unat (limb0 a) + unat (limb0 b) + 0 = unat (limb0 v) + 256 * c0"
    "unat (limb1 a) + unat (limb1 b) + c0 = unat (limb1 v) + 256 * c1"
    "unat (limb2 a) + unat (limb2 b) + c1 = unat (limb2 v) + 256 * c2"
    "unat (limb3 a) + unat (limb3 b) + c2 = unat (limb3 v) + 256 * c3"
proof -
  define w :: "u8 word4" where "w = Word4 (of_nat (unat (limb0 a) + unat (limb0 b) + 0)) (of_nat (unat (limb1 a) + unat (limb1 b) + c0))
    (of_nat (unat (limb2 a) + unat (limb2 b) + c1)) (of_nat (unat (limb3 a) + unat (limb3 b) + c2))"
  have c: "0 \<le> (1::nat)" "c0 \<le> 1" "c1 \<le> 1" "c2 \<le> 1" by (simp_all add: c0_def c1_def c2_def)
  have e: "unat (limb0 a) + unat (limb0 b) + 0 = unat (limb0 w) + 256 * c0"
    "unat (limb1 a) + unat (limb1 b) + c0 = unat (limb1 w) + 256 * c1"
    "unat (limb2 a) + unat (limb2 b) + c1 = unat (limb2 w) + 256 * c2"
    "unat (limb3 a) + unat (limb3 b) + c2 = unat (limb3 w) + 256 * c3"
    unfolding w_def word4.sel using carry_limb(1) [OF c(1)] carry_limb(1) [OF c(2)] carry_limb(1) [OF c(3)] carry_limb(1) [OF c(4)]
    unfolding c0_def c1_def c2_def c3_def by blast+
  have "v = w" unfolding v_def using add_carries [OF e] unfolding a_def b_def by (metis bytes_le_bytes le_bytes_bytes)
  then show "unat (limb0 a) + unat (limb0 b) + 0 = unat (limb0 v) + 256 * c0"
    "unat (limb1 a) + unat (limb1 b) + c0 = unat (limb1 v) + 256 * c1"
    "unat (limb2 a) + unat (limb2 b) + c1 = unat (limb2 v) + 256 * c2"
    "unat (limb3 a) + unat (limb3 b) + c2 = unat (limb3 v) + 256 * c3" using e by simp_all
qed

context prime_field32
begin

lemma carry_step_field:
  fixes c c' :: nat
  assumes "unat a + unat b + c = unat v + 256 * c'"
  shows "from_canonical_u8 a + from_canonical_u8 b - from_canonical_u8 v + of_nat c = (256 * of_nat c' :: 'f)"
proof -
  have "(of_nat (unat a + unat b + c) :: 'f) = of_nat (unat v + 256 * c')" by (simp only: assms)
  then show ?thesis by (simp add: from_canonical_u8_def algebra_simps)
qed

lemma add_populate_complete:
  fixes x y :: u32
  defines "cols \<equiv> fst (add_populate x y) :: 'f add_operation"
  shows "accepts byte_lookups_only (add_eval (word_from x) (word_from y) cols 1)"
    "sends Byte_kind (add_eval (word_from x) (word_from y) cols 1) = requests (snd (add_populate x y :: 'f add_operation \<times> _))"
proof -
  define c0 c1 c2 :: nat where c:
    "c0 = (if unat (limb0 (le_bytes x)) + unat (limb0 (le_bytes y)) + 0 > 255 then 1 else 0)"
    "c1 = (if unat (limb1 (le_bytes x)) + unat (limb1 (le_bytes y)) + c0 > 255 then 1 else 0)"
    "c2 = (if unat (limb2 (le_bytes x)) + unat (limb2 (le_bytes y)) + c1 > 255 then 1 else 0)"
  define c3 :: nat where c3: "c3 = (if unat (limb3 (le_bytes x)) + unat (limb3 (le_bytes y)) + c2 > 255 then 1 else 0)"
  note e = add_populate_limbs [of x y, folded c c3, THEN carry_step_field]
  have k: "cols = \<lparr>add_value = word_from (x + y), add_carry0 = of_nat c0, add_carry1 = of_nat c1, add_carry2 = of_nat c2\<rparr>"
    unfolding cols_def add_populate_def Let_def c by (simp add: to_le_bytes_def le_bytes_def)
  have s: "limb0 (word_from w) = from_canonical_u8 (limb0 (le_bytes w))" "limb1 (word_from w) = from_canonical_u8 (limb1 (le_bytes w))"
    "limb2 (word_from w) = from_canonical_u8 (limb2 (le_bytes w))" "limb3 (word_from w) = from_canonical_u8 (limb3 (le_bytes w))"
    for w by (simp_all add: word_from_def le_bytes_def)
  have b: "(of_nat c0 :: 'f) = 0 \<or> (of_nat c0 :: 'f) = 1" "(of_nat c1 :: 'f) = 0 \<or> (of_nat c1 :: 'f) = 1"
    "(of_nat c2 :: 'f) = 0 \<or> (of_nat c2 :: 'f) = 1" "(of_nat c3 :: 'f) = 0 \<or> (of_nat c3 :: 'f) = 1" by (simp_all add: c c3)
  show "accepts byte_lookups_only (add_eval (word_from x) (word_from y) cols 1)"
    unfolding add_eval_def Let_def k add_operation.simps s e [unfolded of_nat_0 add_0_right] e
    by (simp add: air e [simplified]) (use b in auto)
  show "sends Byte_kind (add_eval (word_from x) (word_from y) cols 1) = requests (snd (add_populate x y :: 'f add_operation \<times> _))"
    unfolding add_eval_def Let_def k add_operation.simps by (simp add: air add_populate_def Let_def)
qed

end

end
