(* ===== verification/SP1_Chip.thy ===== *)
theory SP1_Chip
  imports SP1_Operations SP1_Dependencies
begin

text \<open>
  What the ALU chips have in common: the padding of a trace to a power of two
  (\<open>crates/core/machine/src/utils/mod.rs\<close>), the generation of a trace and of the byte lookups
  from the events of a shard, and the contract of an ALU chip as a locale.
\<close>

section \<open>Traces\<close>

text \<open>\<open>usize::next_power_of_two\<close>.\<close>

function power_of_two_from :: "nat \<Rightarrow> nat \<Rightarrow> nat" where
  "power_of_two_from k n = (if k = 0 \<or> n \<le> k then k else power_of_two_from (2 * k) n)"
  by auto
termination by (relation "measure (\<lambda>(k, n). n - k)") auto

declare power_of_two_from.simps [simp del]

definition next_power_of_two :: "nat \<Rightarrow> nat option \<Rightarrow> nat res" where
  "next_power_of_two n fixed_power = (case fixed_power of
       Some p \<Rightarrow> if n > 2 ^ p then Inl Panic else Inr (2 ^ p)
     | None \<Rightarrow> Inr (max (power_of_two_from 1 n) 16))"

fun collect_rows :: "('e \<Rightarrow> 'r res) \<Rightarrow> 'e list \<Rightarrow> 'r list res" where
  "collect_rows f [] = Inr []"
| "collect_rows f (e # es) = rbind (f e) (\<lambda>r. rbind (collect_rows f es) (\<lambda>rs. Inr (r # rs)))"

text \<open>\<open>generate_trace\<close>: a row for every event, then rows of zeros.  The chunks over which
  the rows are computed in parallel do not matter.\<close>

definition generate_trace :: "('e \<Rightarrow> ('r \<times> byte_lookup_event list) res) \<Rightarrow> 'r \<Rightarrow> nat option \<Rightarrow> 'e list \<Rightarrow> 'r list res" where
  "generate_trace event_to_row zero size_log2 events =
     rbind (collect_rows event_to_row events) (\<lambda>rows.
     rbind (next_power_of_two (length events) size_log2) (\<lambda>n.
     Inr (map fst rows @ replicate (n - length events) zero)))"

text \<open>\<open>generate_dependencies\<close>: one map of lookups per chunk of the events, then their sum.\<close>

fun chunks :: "nat \<Rightarrow> 'a list \<Rightarrow> 'a list list" where
  "chunks n [] = []"
| "chunks n (x # xs) = take (max n 1) (x # xs) # chunks n (drop (max n 1) (x # xs))"

definition batch_lookups :: "('e \<Rightarrow> ('r \<times> byte_lookup_event list) res) \<Rightarrow> 'e list \<Rightarrow> byte_lookups res" where
  "batch_lookups event_to_row events = rbind (collect_rows event_to_row events) (\<lambda>rows.
     Inr (add_byte_lookup_events (concat (map snd rows)) Map.empty))"

definition batch_dependencies ::
    "('e \<Rightarrow> ('r \<times> byte_lookup_event list) res) \<Rightarrow> 'e list list \<Rightarrow> byte_lookups \<Rightarrow> byte_lookups res" where
  "batch_dependencies event_to_row batches output =
     rbind (collect_rows (batch_lookups event_to_row) batches) (\<lambda>blus.
     Inr (add_byte_lookup_events_from_maps blus output))"

definition generate_dependencies ::
    "nat \<Rightarrow> ('e \<Rightarrow> ('r \<times> byte_lookup_event list) res) \<Rightarrow> 'e list \<Rightarrow> byte_lookups \<Rightarrow> byte_lookups res" where
  "generate_dependencies num_cpus event_to_row events output =
     batch_dependencies event_to_row (chunks (max (length events div num_cpus) 1) events) output"

text \<open>
  The chips without \<open>generate_dependencies\<close> take the default, which generates a trace: it
  records a map of lookups for every chunk of the padded rows, of which those without events
  are empty.
\<close>

definition trace_dependencies ::
    "nat \<Rightarrow> ('e \<Rightarrow> ('r \<times> byte_lookup_event list) res) \<Rightarrow> nat option \<Rightarrow> 'e list \<Rightarrow> byte_lookups \<Rightarrow> byte_lookups res" where
  "trace_dependencies num_cpus event_to_row size_log2 events output =
     rbind (next_power_of_two (length events) size_log2) (\<lambda>_. generate_dependencies num_cpus event_to_row events output)"

text \<open>\<open>included\<close>: what the shape of the record says, if it has one, or whether there are events.\<close>

definition included :: "bool option \<Rightarrow> 'e list \<Rightarrow> bool" where
  "included in_shape events = (case in_shape of Some i \<Rightarrow> i | None \<Rightarrow> events \<noteq> [])"

lemma power_of_two_from_ge: "0 < k \<Longrightarrow> n \<le> power_of_two_from k n"
  by (induction k n rule: power_of_two_from.induct) (subst power_of_two_from.simps, simp)

lemma next_power_of_two_ge: "next_power_of_two n f = Inr m \<Longrightarrow> n \<le> m"
  using power_of_two_from_ge [of 1 n] by (auto simp: next_power_of_two_def split: option.splits if_splits)

lemma concat_chunks: "concat (chunks n xs) = xs"
  by (induction n xs rule: chunks.induct) simp_all

lemma collect_rows_append:
  "collect_rows f (xs @ ys) = rbind (collect_rows f xs) (\<lambda>as. rbind (collect_rows f ys) (\<lambda>bs. Inr (as @ bs)))"
  by (induction xs) (simp_all add: rbind_assoc)

lemma collect_rows_Inr: "collect_rows f xs = Inr ys \<longleftrightarrow> list_all2 (\<lambda>x y. f x = Inr y) xs ys"
  by (induction xs arbitrary: ys) (auto simp: res_simps list_all2_Cons1)

text \<open>The lookups of a trace are those of its rows, whatever the chunks.\<close>

lemma batch_lookups_Inr:
  "batch_lookups f es = Inr m \<longleftrightarrow>
     (\<exists>rows. collect_rows f es = Inr rows \<and> m = add_byte_lookup_events (concat (map snd rows)) Map.empty)"
  by (auto simp: batch_lookups_def res_simps)

lemma batch_dependencies_count:
  assumes "collect_rows f (concat batches) = Inr rows" "batch_dependencies f batches blu = Inr blu'"
  shows "lookup_count blu' e = lookup_count blu e + count (mset (concat (map snd rows))) e"
proof -
  have "sum_list (map (\<lambda>m. lookup_count m e) ms) = count (mset (concat (map snd rs))) e"
    if "collect_rows (batch_lookups f) cs = Inr ms" "collect_rows f (concat cs) = Inr rs" for cs ms rs
    using that
  proof (induction cs arbitrary: ms rs)
    case (Cons c cs)
    obtain r1 r2 m2 where r: "collect_rows f c = Inr r1" "collect_rows f (concat cs) = Inr r2" "rs = r1 @ r2"
      and m: "collect_rows (batch_lookups f) cs = Inr m2" "ms = add_byte_lookup_events (concat (map snd r1)) Map.empty # m2"
      using Cons.prems by (auto simp: collect_rows_append batch_lookups_Inr res_simps)
    have "lookup_count (add_byte_lookup_events (concat (map snd r1)) Map.empty) e = count (mset (concat (map snd r1))) e"
      unfolding add_byte_lookup_events_def by (subst lookup_map.occurrences_fold) (simp add: lookup_count_def)
    then show ?case using Cons.IH [OF m(1) r(2)] by (simp add: m(2) r(3))
  qed simp
  then show ?thesis
    using assms by (auto simp: batch_dependencies_def res_simps lookup_count_maps)
qed

text \<open>If every event has a row, the lookups are collected.\<close>

lemma collect_rows_total: "(\<And>x. x \<in> set xs \<Longrightarrow> \<exists>y. f x = Inr y) \<Longrightarrow> \<exists>ys. collect_rows f xs = Inr ys"
  by (induction xs) (fastforce simp: res_simps)+

lemma batch_dependencies_total:
  assumes "\<And>x. x \<in> set (concat batches) \<Longrightarrow> \<exists>y. f x = Inr y"
  shows "\<exists>blu'. batch_dependencies f batches blu = Inr blu'"
proof -
  have "\<exists>m. batch_lookups f b = Inr m" if "b \<in> set batches" for b
    using collect_rows_total [of b f] assms that by (fastforce simp: batch_lookups_def)
  then show ?thesis using collect_rows_total [of batches "batch_lookups f"] by (fastforce simp: batch_dependencies_def)
qed

section \<open>The contract of an ALU chip\<close>

text \<open>The message for an instruction that only computes and goes on to the next one.\<close>

definition alu_msg :: "'f::field \<Rightarrow> 'f \<Rightarrow> 'f word4 \<Rightarrow> 'f word4 \<Rightarrow> 'f word4 \<Rightarrow> 'f \<Rightarrow> 'f instruction_msg" where
  "alu_msg p opc a b c op_a_0 = \<lparr>im_shard = 0, im_clk = 0, im_pc = p, im_next_pc = p + 4,
     im_num_extra_cycles = 0, im_opcode = opc, im_a = a, im_b = b, im_c = c, im_op_a_0 = op_a_0,
     im_op_a_immutable = 0, im_is_memory = 0, im_is_syscall = 0, im_is_halt = 0\<rparr>"

lemma alu_msg_inject [simp]:
  "alu_msg p opc a b c z = alu_msg q opc' a' b' c' z' \<longleftrightarrow> p = q \<and> opc = opc' \<and> a = a' \<and> b = b' \<and> c = c' \<and> z = z'"
  by (auto simp: alu_msg_def)

definition event_msg :: "alu_event \<Rightarrow> 'f::field instruction_msg" where
  "event_msg e = alu_msg (from_canonical_u32 (alu_pc e)) (opcode_field (alu_opcode e)) (word_from (alu_a e))
     (word_from (alu_b e)) (word_from (alu_c e)) (from_bool (alu_op_a_0 e))"

text \<open>The message for an instruction that another chip requests.\<close>

definition unused_msg :: "'f::field \<Rightarrow> 'f word4 \<Rightarrow> 'f word4 \<Rightarrow> 'f word4 \<Rightarrow> 'f instruction_msg" where
  "unused_msg opc a b c = alu_msg (from_canonical_u32 UNUSED_PC) opc a b c 0"

lemma event_msg_dep: "event_msg (dep_event opc a b c) = (unused_msg (opcode_field opc) (word_from a) (word_from b) (word_from c))"
  by (simp add: event_msg_def unused_msg_def dep_event_def)

text \<open>
  A message a chip may answer: the result is right, provided that the operands are words and
  the destination is not register 0.  The table of ADD and SUB also checks that the operands
  are words.
\<close>

definition alu_answer :: "opcode \<Rightarrow> 'f::field list \<Rightarrow> bool" where
  "alu_answer opc vs \<longleftrightarrow> (\<exists>p a b c z. vs = instruction_values (alu_msg p (opcode_field opc) a b c z)
     \<and> (z = 0 \<and> (opc = ADD \<or> opc = SUB) \<longrightarrow> is_word b \<and> is_word c)
     \<and> (\<forall>x y. z = 0 \<and> b = word_from x \<and> c = word_from y \<longrightarrow> (\<exists>v. alu_value opc x y = Inr v \<and> a = word_from v)))"

text \<open>The lookups an ALU chip may rely on: bytes, and instructions of the opcodes \<open>D\<close>.\<close>

definition alu_lookups :: "opcode set \<Rightarrow> interaction_kind \<Rightarrow> 'f::field list \<Rightarrow> bool" where
  "alu_lookups D k vs \<longleftrightarrow> (k = Byte_kind \<longrightarrow> in_byte_table vs)
     \<and> (k = Instruction_kind \<longrightarrow> (\<exists>opc\<in>D. alu_answer opc vs))"

definition asserts :: "'f::field action list \<Rightarrow> bool" where
  "asserts as \<longleftrightarrow> accepts (\<lambda>_ _. True) as"

text \<open>Whether the destination flag of every message a row answers is boolean.\<close>

definition flags_ok :: "'f::field action list \<Rightarrow> bool" where
  "flags_ok as \<longleftrightarrow> (\<forall>p opc a b c z m. (instruction_values (alu_msg p opc a b c z), m) \<in> set (receives Instruction_kind as)
     \<longrightarrow> z = 0 \<or> z = 1)"

lemma accepts_mono: "accepts L as \<Longrightarrow> (\<And>k vs. L k vs \<Longrightarrow> M k vs) \<Longrightarrow> accepts M as"
  unfolding accepts_def list_all_iff
proof
  fix x
  assume *: "\<forall>x\<in>set as. action_ok L x" "\<And>k vs. L k vs \<Longrightarrow> M k vs" "x \<in> set as"
  then show "action_ok M x" by (cases x) auto
qed

text \<open>Loops of actions.\<close>

lemma accepts_concat [simp]: "accepts L (concat (map f xs)) \<longleftrightarrow> (\<forall>x\<in>set xs. accepts L (f x))"
  by (induction xs) simp_all

lemma sends_concat [simp]: "sends k (concat (map f xs)) = concat (map (\<lambda>x. sends k (f x)) xs)"
  by (induction xs) simp_all

lemma receives_concat [simp]: "receives k (concat (map f xs)) = concat (map (\<lambda>x. receives k (f x)) xs)"
  by (induction xs) simp_all

lemma accepts_iff: "accepts L as \<longleftrightarrow> asserts as \<and> (\<forall>k. \<forall>x\<in>set (sends k as). L k (fst x))"
proof (induction as)
  case (Cons a as)
  show ?case
  proof (cases a)
    case (Send i sc)
    then show ?thesis using Cons by (cases i) (auto simp: asserts_def)
  qed (use Cons in \<open>auto simp: asserts_def\<close>)
qed (simp add: asserts_def)

text \<open>A request: an instruction whose destination is not register 0.\<close>

definition alu_request :: "opcode \<Rightarrow> 'f::field list \<Rightarrow> bool" where
  "alu_request opc vs \<longleftrightarrow> (\<exists>p a b c. vs = instruction_values (alu_msg p (opcode_field opc) a b c 0))"

text \<open>The new ALU events of a record.\<close>

definition new_events :: "execution_record \<Rightarrow> execution_record \<Rightarrow> alu_event list" where
  "new_events r r' = drop (length (add_events r)) (add_events r') @ drop (length (mul_events r)) (mul_events r')
     @ drop (length (lt_events r)) (lt_events r')"

text \<open>
  For an instruction with destination register 0 the executor records the result 0, and the chips do
  not check the result; but the addition table records lookups for it that it does not send, and the
  comparison table panics unless the comparison is false, so completeness leaves these two cases out
  (\<open>SP1_Chip_Add_Sub\<close> and \<open>SP1_Chip_Lt\<close> show what happens in them).
\<close>

definition x0_ok :: "alu_event \<Rightarrow> bool" where
  "x0_ok e \<longleftrightarrow> (alu_op_a_0 e \<longrightarrow> alu_opcode e \<notin> {ADD, SUB}
     \<and> (alu_opcode e \<in> {SLT, SLTU} \<longrightarrow> alu_value (alu_opcode e) (alu_b e) (alu_c e) = Inr 0))"

text \<open>
  What a chip promises, for the rows that satisfy its constraints: its messages count once
  (\<open>received\<close>, \<open>sent\<close>), it receives no byte lookups, it requests only instructions of the opcodes
  \<open>used\<close>, its answers are right if its lookups are answered (\<open>sound\<close>), the row of an event of the
  executor (with \<open>x0_ok\<close>) is accepted, receives the message of the event (\<open>complete\<close>) and requests the instructions
  of the events that the executor emits for it (\<open>emitted\<close>), and padding is idle.
\<close>

locale alu_chip = prime_field32 as_canonical_u32 for as_canonical_u32 :: "'f::field \<Rightarrow> nat" +
  fixes eval :: "'r \<Rightarrow> 'f action list"
    and event_to_row :: "alu_event \<Rightarrow> ('r \<times> byte_lookup_event list) res"
    and padding :: 'r
    and opcodes :: "opcode set"
    and used :: "opcode set"
    and emits :: "alu_event \<Rightarrow> alu_event list"
  assumes no_bytes: "receives Byte_kind (eval r) = []"
    and requested: "asserts (eval r) \<Longrightarrow> (vs, m) \<in> set (sends Instruction_kind (eval r)) \<Longrightarrow> \<exists>opc\<in>used. alu_request opc vs"
    and idle: "accepts L (eval padding)"
    and idle_receives: "receives k (eval padding) = []"
    and received: "asserts (eval r) \<Longrightarrow> (vs, m) \<in> set (receives Instruction_kind (eval r)) \<Longrightarrow> m = 1"
    and sent: "asserts (eval r) \<Longrightarrow> flags_ok (eval r) \<Longrightarrow> k = Byte_kind \<or> k = Instruction_kind
      \<Longrightarrow> (vs, m) \<in> set (sends k (eval r)) \<Longrightarrow> m = 1"
    and sound: "accepts (alu_lookups used) (eval r) \<Longrightarrow> (vs, m) \<in> set (receives Instruction_kind (eval r))
      \<Longrightarrow> \<exists>opc\<in>opcodes. alu_answer opc vs"
    and complete: "alu_ok e \<Longrightarrow> x0_ok e \<Longrightarrow> alu_opcode e \<in> opcodes \<Longrightarrow>
      \<exists>r ls. event_to_row e = Inr (r, ls) \<and> accepts (alu_lookups used) (eval r)
        \<and> mset (sends Byte_kind (eval r)) = mset (requests ls)
        \<and> receives Instruction_kind (eval r) = [(instruction_values (event_msg e), 1)]"
    and emitted: "alu_ok e \<Longrightarrow> x0_ok e \<Longrightarrow> alu_opcode e \<in> opcodes \<Longrightarrow> event_to_row e = Inr (r, ls) \<Longrightarrow>
      mset (sends Instruction_kind (eval r)) = mset (map (\<lambda>d. (instruction_values (event_msg d), 1)) (emits e))"

text \<open>Small constants in the field.\<close>

context prime_field32
begin

lemma numeral_eq_iff_small: "m < ORDER \<Longrightarrow> n < ORDER \<Longrightarrow> of_nat m = (of_nat n :: 'f) \<longleftrightarrow> m = n"
  by (rule of_nat_inject)

lemma two_neq [simp]: "(2::'f) \<noteq> 0" "(2::'f) \<noteq> 1" "(1::'f) \<noteq> 2" "(3::'f) \<noteq> 0" "(3::'f) \<noteq> 1"
proof -
  note eqs = of_nat_inject [of 2 0] of_nat_inject [of 2 1] of_nat_inject [of 3 0] of_nat_inject [of 3 1]
  show "(2::'f) \<noteq> 0" "(2::'f) \<noteq> 1" "(1::'f) \<noteq> 2" "(3::'f) \<noteq> 0" "(3::'f) \<noteq> 1" using eqs by (auto simp: ORDER_def)
qed

lemma opcode_field_inject [simp]: "opcode_field x = (opcode_field y :: 'f) \<longleftrightarrow> x = y"
  unfolding opcode_field_def from_canonical_u8_inject by (cases x; cases y) simp_all

text \<open>Boolean selectors whose sum is boolean: at most one is set.\<close>

lemma two_selectors:
  assumes "x * (x - 1) = (0::'f)" "y * (y - 1) = 0" "(x + y) * (x + y - 1) = 0"
  shows "x = 0 \<and> y = 0 \<or> x = 1 \<and> y = 0 \<or> x = 0 \<and> y = 1"
proof -
  have "x = 0 \<or> x = 1" "y = 0 \<or> y = 1" using assms(1,2) by simp_all
  then show ?thesis using assms(3) by auto
qed

lemma three_selectors:
  assumes "x * (x - 1) = (0::'f)" "y * (y - 1) = 0" "z * (z - 1) = 0" "(x + y + z) * (x + y + z - 1) = 0"
  shows "x = 0 \<and> y = 0 \<and> z = 0 \<or> x = 1 \<and> y = 0 \<and> z = 0 \<or> x = 0 \<and> y = 1 \<and> z = 0 \<or> x = 0 \<and> y = 0 \<and> z = 1"
proof -
  have "x = 0 \<or> x = 1" "y = 0 \<or> y = 1" "z = 0 \<or> z = 1" using assms(1,2,3) by simp_all
  then show ?thesis using assms(4) by auto
qed

lemma bytes_sound_alu [simp]: "bytes_sound (alu_lookups D :: _ \<Rightarrow> 'f list \<Rightarrow> bool)"
  by (simp add: bytes_sound_def alu_lookups_def)

lemma alu_answerI:
  assumes "\<And>x y. z = (0::'f) \<Longrightarrow> b = word_from x \<Longrightarrow> c = word_from y \<Longrightarrow> \<exists>v. alu_value opc x y = Inr v \<and> a = word_from v"
    and "f = opcode_field opc" and "z = 0 \<Longrightarrow> opc = ADD \<or> opc = SUB \<Longrightarrow> is_word b \<and> is_word c"
  shows "alu_answer opc (instruction_values (alu_msg p f a b c z))"
  unfolding alu_answer_def using assms by blast

lemma alu_lookups_event:
  assumes "alu_ok e" "\<not> alu_op_a_0 e" "alu_opcode e \<in> D"
  shows "alu_lookups D Instruction_kind (instruction_values (event_msg e :: 'f instruction_msg))"
proof -
  have "alu_answer (alu_opcode e) (instruction_values (event_msg e :: 'f instruction_msg))"
    unfolding event_msg_def using assms(1,2) by (intro alu_answerI) (auto simp: alu_ok_def split: sum.splits)
  then show ?thesis using assms(3) by (auto simp: alu_lookups_def)
qed

lemma byte_lookups_alu: "accepts byte_lookups_only as \<Longrightarrow> accepts (alu_lookups D) (as :: 'f action list)"
  by (erule accepts_mono) (simp add: byte_lookups_only_def alu_lookups_def)

end

lemma range_sends: "(vs, m') \<in> set (sends k (slice_range_check_u8 xs m)) \<Longrightarrow> m' = m"
  by (induction xs m rule: slice_range_check_u8.induct) (auto simp: air split: if_splits)

lemma range_sends_instruction [simp]: "sends Instruction_kind (slice_range_check_u8 xs m) = []"
  by (induction xs m rule: slice_range_check_u8.induct) (auto simp: air)

lemma range_idle [simp]: "accepts L (slice_range_check_u8 xs 0)"
  by (induction xs "0::'a" rule: slice_range_check_u8.induct) (simp_all add: air)

lemma range_idle_u16 [simp]: "accepts L (slice_range_check_u16 xs 0)"
  by (induction xs) (simp_all add: air slice_range_check_u16_def)

lemma limbs_eq: "limbs w = [limb0 w, limb1 w, limb2 w, limb3 w]"
  by (cases w) simp

lemma to_le_bytes_limbs: "to_le_bytes w = limbs (le_bytes w)"
  by (simp add: to_le_bytes_def le_bytes_def)

lemma limb_word_from [simp]:
  "limb0 (word_from w) = from_canonical_u8 (limb0 (le_bytes w))" "limb1 (word_from w) = from_canonical_u8 (limb1 (le_bytes w))"
  "limb2 (word_from w) = from_canonical_u8 (limb2 (le_bytes w))" "limb3 (word_from w) = from_canonical_u8 (limb3 (le_bytes w))"
  by (simp_all add: word_from_def le_bytes_def)

lemma word4_eq: "a = b \<longleftrightarrow> limb0 a = limb0 b \<and> limb1 a = limb1 b \<and> limb2 a = limb2 b \<and> limb3 a = limb3 b"
  by (cases a; cases b) simp

lemma from_canonical_small [simp]: "from_canonical_u8 0 = 0" "from_canonical_u8 1 = 1"
  by (simp_all add: from_canonical_u8_def)

lemma lookup_values_u8 [simp]:
  "lookup_values \<lparr>bl_opcode = opc, bl_a1 = ucast (x :: u8), bl_a2 = y, bl_b = b, bl_c = c\<rparr>
     = [byte_opcode_field opc, from_canonical_u8 x, from_canonical_u8 y, from_canonical_u8 b, from_canonical_u8 c]"
  by (simp add: lookup_values_def from_canonical_u8_def)

end
