(* ===== verification/SP1_Lookup.thy ===== *)
theory SP1_Lookup
  imports SP1_Chip
begin

text \<open>
  The lookup argument between tables: the messages of a shard balance, as
  \<open>debug_interactions_with_all_chips\<close> of \<open>crates/stark/src/lookup/debug.rs\<close> checks.  For a machine
  of ALU tables, the byte table and a client, balance and the contracts of the tables give the
  correctness of every instruction the client sends.
\<close>

section \<open>Balanced messages\<close>

definition balanced :: "interaction_kind set \<Rightarrow> 'f::field action list \<Rightarrow> bool" where
  "balanced kinds as \<longleftrightarrow> (\<forall>k\<in>kinds. \<forall>vs. interaction_count k vs as = 0)"

context prime_field32
begin

lemma ones_sum:
  assumes "\<And>v m. (v, m) \<in> set xs \<Longrightarrow> m = (1::'f)" "length xs < ORDER" "(vs, m) \<in> set xs"
  shows "sum_list (map snd (filter (\<lambda>(v, m). v = vs) xs)) \<noteq> 0"
proof -
  let ?ys = "filter (\<lambda>(v, m). v = vs) xs"
  have "map snd ?ys = replicate (length ?ys) 1"
    by (rule map_replicate_const [THEN trans [rotated]]) (use assms(1) in auto)
  then have s: "sum_list (map snd ?ys) = of_nat (length ?ys)" by (simp only: sum_list_replicate mult_1_right)
  have "length ?ys \<noteq> 0" using assms(3) by (auto simp: filter_empty_conv)
  moreover have "length ?ys < ORDER" using assms(2) length_filter_le le_less_trans by blast
  ultimately show ?thesis unfolding s using of_nat_inject [of "length ?ys" 0] by (simp add: ORDER_def)
qed

text \<open>What is sent once or more is received, and conversely.\<close>

lemma count_sent:
  assumes "interaction_count k vs as = (0::'f)" "\<And>v m. (v, m) \<in> set (sends k as) \<Longrightarrow> m = 1"
    and "length (sends k as) < ORDER" "(vs, m) \<in> set (sends k as)"
  shows "\<exists>m. (vs, m) \<in> set (receives k as)"
proof (rule ccontr)
  assume "\<nexists>m. (vs, m) \<in> set (receives k as)"
  then have "filter (\<lambda>(v, m). v = vs) (receives k as) = []" by (auto simp: filter_empty_conv)
  then show False using assms(1) ones_sum [OF assms(2,3,4)] by (simp add: interaction_count_def)
qed

lemma count_received:
  assumes "interaction_count k vs as = (0::'f)" "\<And>v m. (v, m) \<in> set (receives k as) \<Longrightarrow> m = 1"
    and "length (receives k as) < ORDER" "(vs, m) \<in> set (receives k as)"
  shows "\<exists>m. (vs, m) \<in> set (sends k as)"
proof (rule ccontr)
  assume "\<nexists>m. (vs, m) \<in> set (sends k as)"
  then have "filter (\<lambda>(v, m). v = vs) (sends k as) = []" by (auto simp: filter_empty_conv)
  then show False using assms(1) ones_sum [OF assms(2,3,4)] by (simp add: interaction_count_def)
qed

end

section \<open>The lookups of a record\<close>

text \<open>
  \<open>ExecutionRecord::append\<close>, on the byte lookups, and \<open>StarkMachine::generate_dependencies\<close>: every
  chip adds its lookups to an empty record, which is appended.
\<close>

definition append_lookups :: "byte_lookups \<Rightarrow> byte_lookups \<Rightarrow> byte_lookups" where
  "append_lookups self other = (if self = Map.empty then other else add_byte_lookup_events_from_maps [other] self)"

fun chip_dependencies :: "(byte_lookups \<Rightarrow> byte_lookups res) list \<Rightarrow> byte_lookups \<Rightarrow> byte_lookups res" where
  "chip_dependencies [] blu = Inr blu"
| "chip_dependencies (chip # chips) blu = rbind (chip Map.empty) (\<lambda>output. chip_dependencies chips (append_lookups blu output))"

lemma lookup_count_append: "lookup_count (append_lookups blu blu') e = lookup_count blu e + lookup_count blu' e"
  by (simp add: append_lookups_def lookup_count_maps) (simp add: lookup_count_def)

text \<open>A record that holds just the lookups \<open>ls\<close>.\<close>

definition holds_lookups :: "byte_lookups \<Rightarrow> byte_lookup_event list \<Rightarrow> bool" where
  "holds_lookups blu ls \<longleftrightarrow> (\<forall>e. lookup_count blu e = count (mset ls) e) \<and> dom blu \<subseteq> set ls"

lemma dom_events: "dom (add_byte_lookup_events es blu) = dom blu \<union> set es"
proof -
  have "dom (fold add_byte_lookup_event es blu) = dom blu \<union> set es"
    by (induction es arbitrary: blu) (auto simp: add_byte_lookup_event_def)
  then show ?thesis by (simp add: add_byte_lookup_events_def)
qed

lemma dom_maps: "dom (add_byte_lookup_events_from_maps ms blu) = dom blu \<union> \<Union> (dom ` set ms)"
proof (induction ms arbitrary: blu)
  case (Cons m ms)
  have "dom (add_lookup_map m blu) = dom blu \<union> dom m" by (auto simp: add_lookup_map_def split: option.splits)
  then show ?case using Cons [of "add_lookup_map m blu"] by (auto simp: add_byte_lookup_events_from_maps_def)
qed (simp add: add_byte_lookup_events_from_maps_def)

lemma holds_append:
  assumes "holds_lookups blu ls" "holds_lookups blu' ls'"
  shows "holds_lookups (append_lookups blu blu') (ls @ ls')"
proof -
  have "dom (append_lookups blu blu') = dom blu \<union> dom blu'" by (simp add: append_lookups_def dom_maps)
  then show ?thesis using assms unfolding holds_lookups_def lookup_count_append by auto
qed

lemma holds_events: "holds_lookups blu ls \<Longrightarrow> holds_lookups (add_byte_lookup_events es blu) (ls @ es)"
  unfolding holds_lookups_def dom_events unfolding add_byte_lookup_events_def lookup_map.occurrences_fold by auto

lemma holds_Nil: "holds_lookups Map.empty []"
  by (simp add: holds_lookups_def lookup_count_def)

lemma holds_batch:
  assumes "collect_rows f (concat batches) = Inr rows" "batch_dependencies f batches Map.empty = Inr blu"
  shows "holds_lookups blu (concat (map snd rows))"
proof -
  have *: "\<Union> (dom ` set blus) = set (concat (map snd rows))"
    if "collect_rows (batch_lookups f) batches = Inr blus" "collect_rows f (concat batches) = Inr rows" for blus rows
    using that
  proof (induction batches arbitrary: blus rows)
    case (Cons b bs)
    obtain r1 r2 where r: "collect_rows f b = Inr r1" "collect_rows f (concat bs) = Inr r2" "rows = r1 @ r2"
      using Cons.prems(2) by (auto simp: collect_rows_append res_simps)
    obtain ms where m: "collect_rows (batch_lookups f) bs = Inr ms" "blus = add_byte_lookup_events (concat (map snd r1)) Map.empty # ms"
      using Cons.prems(1) r(1) by (auto simp: batch_lookups_Inr res_simps)
    show ?case using Cons.IH [OF m(1) r(2)] unfolding m(2) r(3) by (simp add: dom_events)
  qed simp
  obtain blus where "collect_rows (batch_lookups f) batches = Inr blus" "blu = add_byte_lookup_events_from_maps blus Map.empty"
    using assms(2) by (auto simp: batch_dependencies_def res_simps)
  then have "dom blu = set (concat (map snd rows))" using * [OF _ assms(1)] by (simp add: dom_maps)
  then show ?thesis using batch_dependencies_count [OF assms] by (simp add: holds_lookups_def) (simp add: lookup_count_def)
qed

text \<open>The dependencies of a chip record the lookups \<open>ls\<close>.\<close>

definition records :: "byte_lookups res \<Rightarrow> byte_lookup_event list \<Rightarrow> bool" where
  "records deps ls \<longleftrightarrow> (\<exists>blu. deps = Inr blu \<and> holds_lookups blu ls)"

lemma batch_records:
  assumes "concat batches = es" "collect_rows f es = Inr rs"
  shows "records (batch_dependencies f batches Map.empty) (concat (map snd rs))"
proof -
  have "\<exists>r. f e = Inr r" if "e \<in> set (concat batches)" for e
    using assms that unfolding collect_rows_Inr by (auto simp: list_all2_conv_all_nth in_set_conv_nth)
  then obtain blu where "batch_dependencies f batches Map.empty = Inr blu" using batch_dependencies_total [of batches f] by blast
  then show ?thesis using holds_batch assms by (auto simp: records_def)
qed

lemma generate_records: "collect_rows f es = Inr rs \<Longrightarrow> records (generate_dependencies n f es Map.empty) (concat (map snd rs))"
  unfolding generate_dependencies_def by (rule batch_records [OF concat_chunks])

lemma chip_dependencies_hold:
  assumes "list_all2 (\<lambda>chip ls. records (chip Map.empty) ls) chips lss" "holds_lookups blu ls"
  shows "\<exists>blu'. chip_dependencies chips blu = Inr blu' \<and> holds_lookups blu' (ls @ concat lss)"
  using assms
proof (induction arbitrary: blu ls rule: list_all2_induct)
  case (Cons chip chips l lss)
  then obtain b where b: "chip Map.empty = Inr b" "holds_lookups b l" unfolding records_def by blast
  then show ?case using Cons.IH [OF holds_append [OF Cons.prems b(2)]] by simp
qed simp

section \<open>Tables that keep their contract\<close>

text \<open>
  The contract of a chip that answers instructions, for all the rows of a table: \<open>right\<close> says which
  answers are right, and \<open>used\<close> are the opcodes that it requests.
\<close>

definition flags_bool :: "'f::field action list \<Rightarrow> bool" where
  "flags_bool as \<longleftrightarrow> (\<forall>i m. (instruction_values i, m) \<in> set (receives Instruction_kind as) \<longrightarrow> im_op_a_0 i = 0 \<or> im_op_a_0 i = 1)"

lemma alu_msg_sel [simp]: "im_opcode (alu_msg p opc a b c z) = opc" "im_op_a_0 (alu_msg p opc a b c z) = z"
  by (simp_all add: alu_msg_def)

lemma flags_bool_ok: "flags_bool as \<Longrightarrow> flags_ok as"
  unfolding flags_bool_def flags_ok_def by fastforce

definition lawful :: "('f list \<Rightarrow> bool) \<Rightarrow> opcode set \<Rightarrow> 'f::field action list \<Rightarrow> bool" where
  "lawful right used as \<longleftrightarrow> asserts as \<and> receives Byte_kind as = []
     \<and> (\<forall>(vs, m)\<in>set (receives Instruction_kind as). m = 1)
     \<and> (flags_bool as \<longrightarrow> (\<forall>k\<in>{Byte_kind, Instruction_kind}. \<forall>(vs, m)\<in>set (sends k as). m = 1))
     \<and> (\<forall>(vs, m)\<in>set (sends Instruction_kind as). \<exists>opc\<in>used. alu_request opc vs)
     \<and> (accepts (alu_lookups used) as \<longrightarrow> (\<forall>(vs, m)\<in>set (receives Instruction_kind as). right vs))"

lemma lawfulD:
  assumes "lawful right used as"
  shows "asserts as" "receives Byte_kind as = []"
    "(vs, m) \<in> set (receives Instruction_kind as) \<Longrightarrow> m = 1"
    "flags_bool as \<Longrightarrow> k = Byte_kind \<or> k = Instruction_kind \<Longrightarrow> (vs, m) \<in> set (sends k as) \<Longrightarrow> m = 1"
    "(vs, m) \<in> set (sends Instruction_kind as) \<Longrightarrow> \<exists>opc\<in>used. alu_request opc vs"
    "accepts (alu_lookups used) as \<Longrightarrow> (vs, m) \<in> set (receives Instruction_kind as) \<Longrightarrow> right vs"
  using assms unfolding lawful_def by blast+

lemma lawfulI:
  assumes "asserts as" "receives Byte_kind as = []"
    and "\<And>vs m. (vs, m) \<in> set (receives Instruction_kind as) \<Longrightarrow> m = 1"
    and "\<And>k vs m. flags_bool as \<Longrightarrow> k = Byte_kind \<or> k = Instruction_kind \<Longrightarrow> (vs, m) \<in> set (sends k as) \<Longrightarrow> m = 1"
    and "\<And>vs m. (vs, m) \<in> set (sends Instruction_kind as) \<Longrightarrow> \<exists>opc\<in>used. alu_request opc vs"
    and "\<And>vs m. accepts (alu_lookups used) as \<Longrightarrow> (vs, m) \<in> set (receives Instruction_kind as) \<Longrightarrow> right vs"
  shows "lawful right used as"
  unfolding lawful_def
proof (intro conjI impI ballI)
  show "case x of (vs, m) \<Rightarrow> m = 1" if "x \<in> set (receives Instruction_kind as)" for x
    using assms(3) that by (cases x) blast
  show "case x of (vs, m) \<Rightarrow> m = 1" if "flags_bool as" "k \<in> {Byte_kind, Instruction_kind}" "x \<in> set (sends k as)" for k x
    using assms(4) [of k] that by (cases x) blast
  show "case x of (vs, m) \<Rightarrow> \<exists>opc\<in>used. alu_request opc vs" if "x \<in> set (sends Instruction_kind as)" for x
    using assms(5) that by (cases x) blast
  show "case x of (vs, m) \<Rightarrow> right vs" if "accepts (alu_lookups used) as" "x \<in> set (receives Instruction_kind as)" for x
    using assms(6) that by (cases x) blast
qed (rule assms(1,2))+

lemma flags_bool_append: "flags_bool (as @ bs) \<longleftrightarrow> flags_bool as \<and> flags_bool bs"
  unfolding flags_bool_def receives_append set_append by blast

lemma lawful_append:
  assumes "lawful right used as" "lawful right used bs"
  shows "lawful right used (as @ bs)"
proof (rule lawfulI)
  note l = lawfulD [OF assms(1)] lawfulD [OF assms(2)]
  show "asserts (as @ bs)" "receives Byte_kind (as @ bs) = []"
    using l(1,2) l(7,8) by (simp_all add: asserts_def)
  show "m = 1" if "(vs, m) \<in> set (receives Instruction_kind (as @ bs))" for vs m
    using l(3,9) that by auto
  show "m = 1" if "flags_bool (as @ bs)" "k = Byte_kind \<or> k = Instruction_kind" "(vs, m) \<in> set (sends k (as @ bs))" for k vs m
    using l(4) [of k] l(10) [of k] that unfolding flags_bool_append sends_append set_append by blast
  show "\<exists>opc\<in>used. alu_request opc vs" if "(vs, m) \<in> set (sends Instruction_kind (as @ bs))" for vs m
    using l(5,11) that by auto
  show "right vs" if "accepts (alu_lookups used) (as @ bs)" "(vs, m) \<in> set (receives Instruction_kind (as @ bs))" for vs m
    using l(6) [of vs m] l(12) [of vs m] that by auto
qed

lemma lawful_mono: "lawful right used as \<Longrightarrow> (\<And>vs. right vs \<Longrightarrow> right' vs) \<Longrightarrow> lawful right' used as"
  unfolding lawful_def by blast

context prime_field32
begin

text \<open>A table that requests fewer opcodes.\<close>

lemma lawful_used:
  assumes "lawful right used (as :: 'f action list)" "used \<subseteq> used'"
  shows "lawful right used' as"
proof (rule lawfulI)
  note l = lawfulD [OF assms(1)]
  show "asserts as" "receives Byte_kind as = []" using l(1,2) .
  show "m = 1" if "(vs, m) \<in> set (receives Instruction_kind as)" for vs m using l(3) that .
  show "m = 1" if "flags_bool as" "k = Byte_kind \<or> k = Instruction_kind" "(vs, m) \<in> set (sends k as)" for k vs m using l(4) that .
  show "\<exists>opc\<in>used'. alu_request opc vs" if "(vs, m) \<in> set (sends Instruction_kind as)" for vs m using l(5) that assms(2) by blast
  show "right vs" if acc: "accepts (alu_lookups used') as" and "(vs, m) \<in> set (receives Instruction_kind as)" for vs m
  proof (rule l(6) [OF _ that(2)])
    have "\<exists>opc\<in>used. alu_answer opc vs" if snt: "(vs, m) \<in> set (sends Instruction_kind as)" for vs m
    proof -
      obtain opc p a b c where u: "opc \<in> used" "vs = instruction_values (alu_msg p (opcode_field opc) a b c 0)"
        using l(5) [OF snt] unfolding alu_request_def by blast
      obtain opc' where "alu_answer opc' vs" using acc snt unfolding accepts_iff by (fastforce simp: alu_lookups_def)
      moreover from this have "opc' = opc" unfolding u(2) alu_answer_def by auto
      ultimately show ?thesis using u(1) by blast
    qed
    then show "accepts (alu_lookups used) as" using acc unfolding accepts_iff alu_lookups_def by fastforce
  qed
qed

end

lemma flags_bool_row: "flags_bool (concat (map f rows)) \<Longrightarrow> r \<in> set rows \<Longrightarrow> flags_bool (f r)"
  unfolding flags_bool_def receives_concat set_concat set_map by blast

definition alu_right :: "opcode set \<Rightarrow> 'f::field list \<Rightarrow> bool" where
  "alu_right opcs vs \<longleftrightarrow> (\<exists>opc\<in>opcs. alu_answer opc vs)"

lemma alu_right_mono: "alu_right o1 vs \<Longrightarrow> o1 \<subseteq> o2 \<Longrightarrow> alu_right o2 vs"
  unfolding alu_right_def by blast

text \<open>The size of the table, when it is fixed, is enough for its events.\<close>

definition fits :: "nat option \<Rightarrow> 'e list \<Rightarrow> bool" where
  "fits size_log2 es \<longleftrightarrow> (case size_log2 of Some p \<Rightarrow> length es \<le> 2 ^ p | None \<Rightarrow> True)"

lemma fits_next: "fits size_log2 es \<Longrightarrow> \<exists>n. next_power_of_two (length es) size_log2 = Inr n"
  by (auto simp: fits_def next_power_of_two_def split: option.splits)

text \<open>
  An honest table: it is accepted, its byte lookups are those recorded in \<open>ls\<close>, it receives the
  instructions \<open>msgs\<close>, and it requests those of the ALU events \<open>es\<close>.
\<close>

abbreviation once :: "'f::field instruction_msg \<Rightarrow> 'f list \<times> 'f" where
  "once i \<equiv> (instruction_values i, 1)"

definition honest :: "opcode set \<Rightarrow> 'f::field instruction_msg list \<Rightarrow> alu_event list \<Rightarrow> byte_lookup_event list \<Rightarrow> 'f action list \<Rightarrow> bool" where
  "honest used msgs es ls as \<longleftrightarrow> accepts (alu_lookups used) as \<and> receives Byte_kind as = []
     \<and> mset (sends Byte_kind as) = mset (requests ls) \<and> mset (receives Instruction_kind as) = mset (map once msgs)
     \<and> mset (sends Instruction_kind as) = mset (map (\<lambda>e. once (event_msg e)) es)"

lemma honest_append:
  "honest used msgs es ls as \<Longrightarrow> honest used msgs' es' ls' as' \<Longrightarrow> honest used (msgs @ msgs') (es @ es') (ls @ ls') (as @ as')"
  by (simp add: honest_def)

lemma honest_Nil: "honest used [] [] [] []"
  by (simp add: honest_def)

text \<open>Only the chips that are part of the shard have a trace.\<close>

definition shard_trace :: "bool \<Rightarrow> 'r list res \<Rightarrow> 'r list res" where
  "shard_trace incl trace = (if incl then trace else Inr [])"

text \<open>Tables with events are part of the shard, and large enough.\<close>

definition table_fits :: "bool \<Rightarrow> nat option \<Rightarrow> 'e list \<Rightarrow> bool" where
  "table_fits incl size_log2 es \<longleftrightarrow> (if incl then fits size_log2 es else es = [])"

lemma table_fits_next: "table_fits incl size_log2 es \<Longrightarrow> \<exists>n. next_power_of_two (length es) size_log2 = Inr n"
  by (rule fits_next) (auto simp: table_fits_def fits_def split: if_splits option.splits)

text \<open>The dependencies that \<open>generate_trace\<close> records itself, in one map or in one for each chunk of the events.\<close>

lemma sequential_records:
  assumes "collect_rows f es = Inr rs" "table_fits incl size_log2 es"
  shows "records (rbind (collect_rows f es) (\<lambda>rows. rbind (next_power_of_two (length es) size_log2)
    (\<lambda>_. Inr (add_byte_lookup_events (concat (map snd rows)) Map.empty)))) (concat (map snd rs))"
  using holds_events [OF holds_Nil, of "concat (map snd rs)"] table_fits_next [OF assms(2)] assms(1) by (auto simp: records_def)

lemma trace_records:
  assumes "collect_rows f es = Inr rs" "table_fits incl size_log2 es"
  shows "records (trace_dependencies n f size_log2 es Map.empty) (concat (map snd rs))"
  using generate_records [OF assms(1), of n] table_fits_next [OF assms(2)] by (auto simp: trace_dependencies_def)

text \<open>A table is complete: its trace is honest, and its lookups are recorded.\<close>

definition complete_table ::
    "opcode set \<Rightarrow> 'f::field instruction_msg list \<Rightarrow> alu_event list \<Rightarrow> ('r \<Rightarrow> 'f action list) \<Rightarrow> 'r list res \<Rightarrow> byte_lookups res \<Rightarrow> 'r list \<Rightarrow> byte_lookup_event list \<Rightarrow> bool" where
  "complete_table used msgs es eval trace deps rows ls \<longleftrightarrow> trace = Inr rows \<and> honest used msgs es ls (concat (map eval rows)) \<and> records deps ls"

section \<open>Chips that answer instructions\<close>

text \<open>
  The contract of a chip for instructions, of which an ALU chip is one kind: \<open>right\<close> are the answers
  that are right, \<open>event_ok\<close> the events that the executor records for the chip, \<open>message\<close> the
  instruction of an event and \<open>emits\<close> the ALU events that the executor emits for it.
\<close>

locale instruction_chip = prime_field32 as_canonical_u32 for as_canonical_u32 :: "'f::field \<Rightarrow> nat" +
  fixes eval :: "'r \<Rightarrow> 'f action list"
    and event_to_row :: "'e \<Rightarrow> ('r \<times> byte_lookup_event list) res"
    and padding :: 'r
    and used :: "opcode set"
    and right :: "'f list \<Rightarrow> bool"
    and event_ok :: "'e \<Rightarrow> bool"
    and message :: "'e \<Rightarrow> 'f instruction_msg"
    and emits :: "'e \<Rightarrow> alu_event list"
  assumes chip_no_bytes: "receives Byte_kind (eval r) = []"
    and chip_requested: "asserts (eval r) \<Longrightarrow> (vs, m) \<in> set (sends Instruction_kind (eval r)) \<Longrightarrow> \<exists>opc\<in>used. alu_request opc vs"
    and chip_idle: "accepts L (eval padding)"
    and chip_idle_receives: "receives k (eval padding) = []"
    and chip_received: "asserts (eval r) \<Longrightarrow> (vs, m) \<in> set (receives Instruction_kind (eval r)) \<Longrightarrow> m = 1"
    and chip_sent: "asserts (eval r) \<Longrightarrow> flags_bool (eval r) \<Longrightarrow> k = Byte_kind \<or> k = Instruction_kind
      \<Longrightarrow> (vs, m) \<in> set (sends k (eval r)) \<Longrightarrow> m = 1"
    and chip_sound: "accepts (alu_lookups used) (eval r) \<Longrightarrow> (vs, m) \<in> set (receives Instruction_kind (eval r)) \<Longrightarrow> right vs"
    and chip_complete: "event_ok e \<Longrightarrow> \<exists>r ls. event_to_row e = Inr (r, ls) \<and> honest used [message e] (emits e) ls (eval r)"
begin

lemma rows_lawful:
  assumes "asserts (concat (map eval rows))"
  shows "lawful right used (concat (map eval rows))"
proof (rule lawfulI)
  have as: "asserts (eval r)" if "r \<in> set rows" for r using assms that by (simp add: asserts_def)
  show "receives Byte_kind (concat (map eval rows)) = []" by (simp add: chip_no_bytes)
  show "m = 1" if "(vs, m) \<in> set (receives Instruction_kind (concat (map eval rows)))" for vs m
    using that chip_received as by auto
  show "m = 1" if flags: "flags_bool (concat (map eval rows))" and k: "k = Byte_kind \<or> k = Instruction_kind"
    and m: "(vs, m) \<in> set (sends k (concat (map eval rows)))" for k vs m
  proof -
    obtain r where "r \<in> set rows" "(vs, m) \<in> set (sends k (eval r))" using m by auto
    then show ?thesis using chip_sent [OF as flags_bool_row [OF flags] k] by blast
  qed
  show "\<exists>opc\<in>used. alu_request opc vs" if "(vs, m) \<in> set (sends Instruction_kind (concat (map eval rows)))" for vs m
    using that by (auto intro: chip_requested [OF as])
  show "right vs"
    if "accepts (alu_lookups used) (concat (map eval rows))" "(vs, m) \<in> set (receives Instruction_kind (concat (map eval rows)))" for vs m
    using that by (auto intro: chip_sound)
qed (rule assms)

text \<open>The trace of valid events: the constraints hold and the messages are those of the events.\<close>

lemma idle_sends: "sends k (eval padding) = []"
  using chip_idle [of "\<lambda>_ _. False", unfolded accepts_iff] by (cases "sends k (eval padding)") (simp, metis list.set_intros(1))

lemma padding_honest: "honest used [] [] [] (concat (map eval (replicate n padding)))"
  unfolding honest_def accepts_concat sends_concat receives_concat using chip_idle idle_sends chip_idle_receives by simp

lemma rows_complete:
  assumes "list_all2 (\<lambda>e r. event_to_row e = Inr r) es rs" "\<And>e. e \<in> set es \<Longrightarrow> event_ok e"
  shows "honest used (map message es) (concat (map emits es)) (concat (map snd rs)) (concat (map eval (map fst rs)))"
  using assms
proof (induction rule: list_all2_induct)
  case (Cons e es r rs)
  then obtain r' ls where "event_to_row e = Inr (r', ls)" "honest used [message e] (emits e) ls (eval r')" using chip_complete [of e] by auto
  then show ?case using Cons honest_append [of used "[message e]" "emits e" "snd r" "eval (fst r)"] by fastforce
qed (simp add: honest_Nil)

lemma table_complete:
  assumes ev: "\<And>e. e \<in> set es \<Longrightarrow> event_ok e"
    and fits: "table_fits incl size_log2 es"
    and deps: "\<And>rs. collect_rows event_to_row es = Inr rs \<Longrightarrow> records deps (concat (map snd rs))"
  shows "\<exists>rows ls. complete_table used (map message es) (concat (map emits es)) eval
    (shard_trace incl (generate_trace event_to_row padding size_log2 es)) deps rows ls"
proof -
  have "\<exists>r. event_to_row e = Inr r" if "e \<in> set es" for e using chip_complete [of e] ev that by blast
  then obtain rs where rs: "collect_rows event_to_row es = Inr rs" using collect_rows_total [of es event_to_row] by blast
  then have h: "honest used (map message es) (concat (map emits es)) (concat (map snd rs)) (concat (map eval (map fst rs)))"
    by (intro rows_complete ev) (simp_all add: collect_rows_Inr)
  note deps = deps [OF rs]
  show ?thesis
  proof (cases incl)
    case True
    then obtain n where n: "next_power_of_two (length es) size_log2 = Inr n" using fits fits_next by (auto simp: table_fits_def)
    let ?rows = "map fst rs @ replicate (n - length es) padding"
    have "generate_trace event_to_row padding size_log2 es = Inr ?rows" by (simp add: generate_trace_def rs n)
    moreover have "honest used (map message es) (concat (map emits es)) (concat (map snd rs)) (concat (map eval ?rows))"
      using honest_append [OF h padding_honest] by simp
    ultimately show ?thesis using deps True by (auto simp: complete_table_def shard_trace_def)
  next
    case False
    then have "es = []" using fits by (simp add: table_fits_def)
    then show ?thesis using deps rs False
      by (intro exI [of _ "[]"]) (simp add: complete_table_def shard_trace_def honest_def)
  qed
qed

end

definition alu_event_ok :: "opcode set \<Rightarrow> alu_event \<Rightarrow> bool" where
  "alu_event_ok opcs e \<longleftrightarrow> alu_ok e \<and> x0_ok e \<and> alu_opcode e \<in> opcs"

sublocale alu_chip \<subseteq> table: instruction_chip as_canonical_u32 eval event_to_row padding used "alu_right opcodes" "alu_event_ok opcodes" event_msg emits
proof
  show "alu_right opcodes vs" if "accepts (alu_lookups used) (eval r)" "(vs, m) \<in> set (receives Instruction_kind (eval r))" for r vs m
    using sound [OF that] by (simp add: alu_right_def)
  show "\<exists>r ls. event_to_row e = Inr (r, ls) \<and> honest used [event_msg e] (emits e) ls (eval r)" if "alu_event_ok opcodes e" for e
  proof -
    have e: "alu_ok e" "x0_ok e" "alu_opcode e \<in> opcodes" using that by (simp_all add: alu_event_ok_def)
    obtain r ls where r: "event_to_row e = Inr (r, ls)" "accepts (alu_lookups used) (eval r)" "mset (sends Byte_kind (eval r)) = mset (requests ls)"
      "receives Instruction_kind (eval r) = [(instruction_values (event_msg e), 1)]" using complete [OF e] by blast
    then have "honest used [event_msg e] (emits e) ls (eval r)" using emitted [OF e r(1)] by (simp add: honest_def no_bytes)
    then show ?thesis using r(1) by blast
  qed
qed (fact no_bytes idle idle_receives | erule (1) requested | erule (1) received | (erule sent, erule flags_bool_ok, assumption+))+

section \<open>A machine of ALU tables\<close>

text \<open>
  A client of the ALU tables for the opcodes \<open>opcs\<close>: the other chips of the machine.  Its messages
  count once, it does not answer byte lookups nor these opcodes, and its flag of a destination
  register 0 is boolean.
\<close>

definition client_ok :: "opcode set \<Rightarrow> 'f::field action list \<Rightarrow> bool" where
  "client_ok opcs as \<longleftrightarrow> receives Byte_kind as = []
     \<and> (\<forall>k\<in>{Byte_kind, Instruction_kind}. \<forall>(vs, m)\<in>set (sends k as). m = 1)
     \<and> (\<forall>(vs, m)\<in>set (receives Instruction_kind as). m = 1)
     \<and> (\<forall>i m. (instruction_values i, m) \<in> set (receives Instruction_kind as) \<longrightarrow> im_opcode i \<notin> opcode_field ` opcs)
     \<and> (\<forall>i m. (instruction_values i, m) \<in> set (sends Instruction_kind as) \<longrightarrow> im_op_a_0 i = 0 \<or> im_op_a_0 i = 1)"

lemma client_okD:
  assumes "client_ok opcs as"
  shows "receives Byte_kind as = []"
    "k = Byte_kind \<or> k = Instruction_kind \<Longrightarrow> (vs, m) \<in> set (sends k as) \<Longrightarrow> m = 1"
    "(vs, m) \<in> set (receives Instruction_kind as) \<Longrightarrow> m = 1"
    "(instruction_values i, m) \<in> set (receives Instruction_kind as) \<Longrightarrow> im_opcode i \<notin> opcode_field ` opcs"
    "(instruction_values i, m) \<in> set (sends Instruction_kind as) \<Longrightarrow> im_op_a_0 i = 0 \<or> im_op_a_0 i = 1"
  using assms unfolding client_ok_def by blast+

text \<open>The byte table: it sends nothing and answers byte lookups only.\<close>

definition byte_table_ok :: "'f::field action list \<Rightarrow> bool" where
  "byte_table_ok as \<longleftrightarrow> (\<forall>k. sends k as = []) \<and> receives Instruction_kind as = []
     \<and> (\<forall>(vs, m)\<in>set (receives Byte_kind as). in_byte_table vs)"

lemma byte_table_ok_eval: "byte_table_ok (concat (map (\<lambda>((b, c), m). byte_eval (byte_trace_row b c) m) rows))"
proof -
  have "sends k (byte_eval (byte_trace_row b c) m) = []" "receives Instruction_kind (byte_eval (byte_trace_row b c) m) = []"
    for k b c and m :: "byte_opcode \<Rightarrow> 'a" by (simp_all add: byte_eval_def byte_receive_values byte_opcode_all_def)
  moreover have "in_byte_table vs" if "(vs, x) \<in> set (receives Byte_kind (byte_eval (byte_trace_row b c) m))" for vs x b c and m :: "byte_opcode \<Rightarrow> 'a"
    using that unfolding byte_eval_def receives_concat by (auto simp: byte_receive_values in_byte_table_def split: if_splits)
  ultimately show ?thesis
    unfolding byte_table_ok_def sends_concat receives_concat by (auto simp: case_prod_beta)
qed

text \<open>
  A machine: the ALU tables \<open>as\<close>, which request nothing, the tables \<open>bs\<close>, which request what \<open>as\<close>
  answer, the byte table and a client, with balanced messages, fewer than the order of the
  field.
\<close>

definition opcode_in :: "opcode set \<Rightarrow> 'f::field list \<Rightarrow> bool" where
  "opcode_in opcs vs \<longleftrightarrow> (\<exists>i. vs = instruction_values i \<and> im_opcode i \<in> opcode_field ` opcs)"

definition messages :: "'f::field action list \<Rightarrow> 'f action list \<Rightarrow> 'f action list \<Rightarrow> 'f action list \<Rightarrow> 'f action list" where
  "messages as bs ys cs = as @ bs @ ys @ cs"

definition alu_machine ::
    "opcode set \<Rightarrow> opcode set \<Rightarrow> ('f list \<Rightarrow> bool) \<Rightarrow> opcode set \<Rightarrow> 'f::field action list \<Rightarrow> 'f action list \<Rightarrow> 'f action list \<Rightarrow> 'f action list \<Rightarrow> bool" where
  "alu_machine o1 o2 right used as bs ys cs \<longleftrightarrow> lawful (alu_right o1) {} as \<and> lawful right used bs \<and> used \<subseteq> o1 \<and> o1 \<inter> o2 = {}
     \<and> (\<forall>(vs, m)\<in>set (receives Instruction_kind bs). opcode_in o2 vs) \<and> byte_table_ok ys \<and> client_ok (o1 \<union> o2) cs
     \<and> balanced {Byte_kind, Instruction_kind} (messages as bs ys cs)
     \<and> length (sends Byte_kind (messages as bs ys cs)) < ORDER \<and> length (sends Instruction_kind (messages as bs ys cs)) < ORDER
     \<and> length (receives Instruction_kind (messages as bs ys cs)) < ORDER"

lemma messages_sel [simp]:
  "sends k (messages as bs ys cs) = sends k as @ sends k bs @ sends k ys @ sends k cs"
  "receives k (messages as bs ys cs) = receives k as @ receives k bs @ receives k ys @ receives k cs"
  by (simp_all add: messages_def)

lemma alu_machineD:
  assumes "alu_machine o1 o2 right used as bs ys cs"
  shows "lawful (alu_right o1) {} as" "lawful right used bs" "used \<subseteq> o1" "o1 \<inter> o2 = {}"
    "(vs, m) \<in> set (receives Instruction_kind bs) \<Longrightarrow> opcode_in o2 vs" "client_ok (o1 \<union> o2) cs"
    "sends k ys = []" "receives Instruction_kind ys = []" "(vs, m) \<in> set (receives Byte_kind ys) \<Longrightarrow> in_byte_table vs"
    "k = Byte_kind \<or> k = Instruction_kind \<Longrightarrow> interaction_count k vs (messages as bs ys cs) = 0"
    "k = Byte_kind \<or> k = Instruction_kind \<Longrightarrow> length (sends k (messages as bs ys cs)) < ORDER"
    "length (receives Instruction_kind (messages as bs ys cs)) < ORDER"
    "sends Instruction_kind as = []"
proof -
  show l: "lawful (alu_right o1) {} as" and "lawful right used bs" "used \<subseteq> o1" "o1 \<inter> o2 = {}"
    "(vs, m) \<in> set (receives Instruction_kind bs) \<Longrightarrow> opcode_in o2 vs" "client_ok (o1 \<union> o2) cs"
    "sends k ys = []" "receives Instruction_kind ys = []" "(vs, m) \<in> set (receives Byte_kind ys) \<Longrightarrow> in_byte_table vs"
    "k = Byte_kind \<or> k = Instruction_kind \<Longrightarrow> interaction_count k vs (messages as bs ys cs) = 0"
    "k = Byte_kind \<or> k = Instruction_kind \<Longrightarrow> length (sends k (messages as bs ys cs)) < ORDER"
    "length (receives Instruction_kind (messages as bs ys cs)) < ORDER"
    using assms unfolding alu_machine_def byte_table_ok_def balanced_def by blast+
  show "sends Instruction_kind as = []" using lawfulD(5) [OF l] by (cases "sends Instruction_kind as") fastforce+
qed

context prime_field32
begin

lemma machine_flags:
  assumes m: "alu_machine o1 o2 right used as bs ys (cs :: 'f action list)"
    and rcv: "(instruction_values i, n) \<in> set (receives Instruction_kind (messages as bs ys cs))"
  shows "im_op_a_0 i = 0 \<or> im_op_a_0 i = 1"
proof -
  note d = alu_machineD [OF m]
  have "m = 1" if "(vs, m) \<in> set (receives Instruction_kind (messages as bs ys cs))" for vs m
    using that lawfulD(3) [OF d(1)] lawfulD(3) [OF d(2)] client_okD(3) [OF d(6)] d(8) by auto
  then obtain m' where "(instruction_values i, m') \<in> set (sends Instruction_kind (messages as bs ys cs))"
    using count_received [OF d(10) _ d(12) rcv] by blast
  then consider "(instruction_values i, m') \<in> set (sends Instruction_kind bs)" | "(instruction_values i, m') \<in> set (sends Instruction_kind cs)"
    unfolding messages_sel set_append d(7,13) by auto
  then show ?thesis
  proof cases
    case 1
    then show ?thesis using lawfulD(5) [OF d(2)] by (fastforce simp: alu_request_def)
  next
    case 2
    then show ?thesis using client_okD(5) [OF d(6)] by fastforce
  qed
qed

text \<open>Hence every message counts once, and what is sent is received.\<close>

lemma machine_sent:
  assumes m: "alu_machine o1 o2 right used as bs ys (cs :: 'f action list)" and k: "k = Byte_kind \<or> k = Instruction_kind"
    and snt: "(vs, n) \<in> set (sends k (messages as bs ys cs))"
  shows "\<exists>n. (vs, n) \<in> set (receives k (messages as bs ys cs))"
proof -
  note d = alu_machineD [OF m]
  have flags: "flags_bool as" "flags_bool bs"
    unfolding flags_bool_def by (intro allI impI, rule machine_flags [OF m], simp, blast)+
  have "n = 1" if "(vs, n) \<in> set (sends k (messages as bs ys cs))" for vs n
    using that lawfulD(4) [OF d(1) flags(1) k] lawfulD(4) [OF d(2) flags(2) k] client_okD(2) [OF d(6) k] d(7) by auto
  then show ?thesis using count_sent [OF d(10) _ d(11) snt] k by blast
qed

lemma machine_bytes:
  assumes m: "alu_machine o1 o2 right used as bs ys (cs :: 'f action list)"
    and "(vs, n) \<in> set (sends Byte_kind as) \<or> (vs, n) \<in> set (sends Byte_kind bs)"
  shows "in_byte_table vs"
proof -
  note d = alu_machineD [OF m]
  obtain m' where "(vs, m') \<in> set (receives Byte_kind (messages as bs ys cs))"
    using machine_sent [OF m, of Byte_kind vs n] assms(2) by auto
  then show ?thesis using lawfulD(2) [OF d(1)] lawfulD(2) [OF d(2)] client_okD(1) [OF d(6)] d(9) by auto
qed

lemma machine_received:
  assumes m: "alu_machine o1 o2 right used as bs ys (cs :: 'f action list)"
    and snt: "(instruction_values i, n) \<in> set (sends Instruction_kind (messages as bs ys cs))" and i: "im_opcode i \<in> opcode_field ` (o1 \<union> o2)"
  shows "(\<exists>m. (instruction_values i, m) \<in> set (receives Instruction_kind as)) \<or> (\<exists>m. (instruction_values i, m) \<in> set (receives Instruction_kind bs))"
proof -
  note d = alu_machineD [OF m]
  obtain m' where "(instruction_values i, m') \<in> set (receives Instruction_kind (messages as bs ys cs))"
    using machine_sent [OF m _ snt] by blast
  then show ?thesis using client_okD(4) [OF d(6)] i d(8) by auto
qed

lemma machine_accepts:
  assumes m: "alu_machine o1 o2 right used as bs ys (cs :: 'f action list)"
  shows "accepts (alu_lookups {}) as"
  unfolding accepts_iff using lawfulD(1) [OF alu_machineD(1) [OF m]] alu_machineD(13) [OF m]
  by (auto simp: alu_lookups_def intro: machine_bytes [OF m])

lemma machine_as:
  assumes m: "alu_machine o1 o2 right used as bs ys (cs :: 'f action list)" and rcv: "(vs, n) \<in> set (receives Instruction_kind as)"
  shows "\<exists>opc\<in>o1. alu_answer opc vs"
  using lawfulD(6) [OF alu_machineD(1) [OF m] machine_accepts [OF m] rcv] unfolding alu_right_def .

lemma machine_bs:
  assumes m: "alu_machine o1 o2 right used as bs ys (cs :: 'f action list)" and rcv: "(vs, n) \<in> set (receives Instruction_kind bs)"
  shows "right vs"
proof -
  note d = alu_machineD [OF m]
  have "\<exists>opc\<in>used. alu_answer opc vs" if sb: "(vs, m') \<in> set (sends Instruction_kind bs)" for vs m'
  proof -
    obtain opc p a b c where u: "opc \<in> used" and vs: "vs = instruction_values (alu_msg p (opcode_field opc) a b c 0)"
      using lawfulD(5) [OF d(2) sb] unfolding alu_request_def by blast
    have "(\<exists>m. (vs, m) \<in> set (receives Instruction_kind as)) \<or> (\<exists>m. (vs, m) \<in> set (receives Instruction_kind bs))"
      unfolding vs by (rule machine_received [OF m]) (use sb u d(3) vs in auto)
    moreover have "\<nexists>m. (vs, m) \<in> set (receives Instruction_kind bs)"
      using d(5) u d(3,4) unfolding vs by (fastforce simp: opcode_in_def)
    ultimately obtain opc' where "opc' \<in> o1" "alu_answer opc' vs" using machine_as [OF m] by blast
    moreover from this(2) have "opc' = opc" unfolding vs alu_answer_def by auto
    ultimately show ?thesis using u by blast
  qed
  then have "accepts (alu_lookups used) bs"
    unfolding accepts_iff using lawfulD(1) [OF d(2)] by (auto simp: alu_lookups_def intro: machine_bytes [OF m])
  then show ?thesis using lawfulD(6) [OF d(2)] rcv by blast
qed

lemma alu_right_opcode: "alu_right opcs (instruction_values i :: 'f list) \<Longrightarrow> im_opcode i = opcode_field opc \<Longrightarrow> alu_answer opc (instruction_values i)"
  by (auto simp: alu_right_def alu_answer_def)

text \<open>Every instruction that the client sends, with an opcode of the tables, is answered.\<close>

lemma machine_sound:
  assumes m: "alu_machine o1 o2 right used as bs ys (cs :: 'f action list)"
    and sent: "(instruction_values i, n) \<in> set (sends Instruction_kind cs)" and opc: "im_opcode i = opcode_field opc"
  shows "opc \<in> o1 \<Longrightarrow> alu_answer opc (instruction_values i)" "opc \<in> o2 \<Longrightarrow> right (instruction_values i)"
proof -
  have snt: "(instruction_values i, n) \<in> set (sends Instruction_kind (messages as bs ys cs))" using sent by simp
  have as: "opc \<in> o1 \<and> alu_answer opc (instruction_values i)" if rcv: "(instruction_values i, m') \<in> set (receives Instruction_kind as)" for m'
  proof -
    obtain opc' where "opc' \<in> o1" "alu_answer opc' (instruction_values i)" using machine_as [OF m rcv] by blast
    moreover from this(2) have "opc' = opc" using opc by (auto simp: alu_answer_def)
    ultimately show ?thesis by simp
  qed
  have bs: "opc \<in> o2 \<and> right (instruction_values i)" if rcv: "(instruction_values i, m') \<in> set (receives Instruction_kind bs)" for m'
    using alu_machineD(5) [OF m rcv] machine_bs [OF m rcv] opc by (auto simp: opcode_in_def)
  show "alu_answer opc (instruction_values i)" if "opc \<in> o1"
    using machine_received [OF m snt] as bs that opc alu_machineD(4) [OF m] by blast
  show "right (instruction_values i)" if "opc \<in> o2"
    using machine_received [OF m snt] as bs that opc alu_machineD(4) [OF m] by blast
qed

end

section \<open>The byte table of a record\<close>

text \<open>A lookup that the byte table answers is a valid event, and the table of a record balances its lookups.\<close>

context prime_field32
begin

lemma byte_values_event: "\<exists>d. byte_event_ok d \<and> (lookup_values d :: 'f list) = byte_values opc b c"
proof -
  let ?d = "\<lambda>a1 a2. \<lparr>bl_opcode = opc, bl_a1 = a1, bl_a2 = a2, bl_b = b, bl_c = c\<rparr>"
  let ?w = "push_bit 8 (ucast b) + ucast c :: u16"
  have less: "unat b < 256" "unat c < 256" using unsigned_less [of b, where 'a = nat] unsigned_less [of c, where 'a = nat] by simp_all
  then have w: "unat ?w = unat b * 256 + unat c" by (simp add: unat_word_ariths push_bit_eq_mult)
  have row: "(ucast (drop_bit 8 ?w) :: u8) = b" "(ucast ?w :: u8) = c"
    using less by (simp_all only: word_unat_eq_iff unsigned_ucast_eq take_bit_eq_mod [where 'a = nat] drop_bit_eq_div unat_div w) simp_all
  have simple: "\<exists>d. byte_event_ok d \<and> (lookup_values d :: 'f list) = byte_values opc b c"
    if "byte_event_ok d" "bl_opcode d = opc" "byte_event_row d = (b, c)" for d
    using byte_event_ok_values [OF that(1), where 'a = 'f] that by auto
  show ?thesis
  proof (cases opc)
    case MSB
    have "(byte_values MSB b c :: 'f list) = byte_values MSB b 0" by simp
    then show ?thesis
      using byte_event_ok_values [of "\<lparr>bl_opcode = MSB, bl_a1 = (if b AND 0x80 \<noteq> 0 then 1 else 0), bl_a2 = 0, bl_b = b, bl_c = 0\<rparr>", where 'a = 'f]
      unfolding MSB by (intro exI conjI) (auto simp: byte_event_ok_def byte_event_row_def)
  next
    case U16Range
    show ?thesis
      by (rule simple [of "\<lparr>bl_opcode = opc, bl_a1 = ?w, bl_a2 = 0, bl_b = 0, bl_c = 0\<rparr>"])
        (simp_all add: U16Range byte_event_ok_def byte_event_row_def row)
  next
    case LTU
    show ?thesis by (rule simple [of "?d (if b < c then 1 else 0) 0"]) (simp_all add: LTU byte_event_ok_def byte_event_row_def)
  next
    case B_AND
    show ?thesis by (rule simple [of "?d (ucast (b AND c)) 0"]) (simp_all add: B_AND byte_event_ok_def byte_event_row_def)
  next
    case B_OR
    show ?thesis by (rule simple [of "?d (ucast (b OR c)) 0"]) (simp_all add: B_OR byte_event_ok_def byte_event_row_def)
  next
    case B_XOR
    show ?thesis by (rule simple [of "?d (ucast (b XOR c)) 0"]) (simp_all add: B_XOR byte_event_ok_def byte_event_row_def)
  next
    case B_SLL
    show ?thesis by (rule simple [of "?d (ucast (push_bit (unat (c AND 7)) b)) 0"]) (simp_all add: B_SLL byte_event_ok_def byte_event_row_def)
  next
    case U8Range
    show ?thesis by (rule simple [of "?d 0 0"]) (simp_all add: U8Range byte_event_ok_def byte_event_row_def)
  next
    case ShrCarry
    show ?thesis
      by (rule simple [of "?d (ucast (fst (shr_carry b c))) (snd (shr_carry b c))"]) (simp_all add: ShrCarry byte_event_ok_def byte_event_row_def)
  qed
qed

lemma byte_event_ok_iff: "in_byte_table (lookup_values e :: 'f list) \<longleftrightarrow> byte_event_ok e"
proof
  assume "byte_event_ok e"
  then show "in_byte_table (lookup_values e :: 'f list)" unfolding in_byte_table_def using byte_event_ok_values by blast
next
  assume "in_byte_table (lookup_values e :: 'f list)"
  then obtain opc b c where "(lookup_values e :: 'f list) = byte_values opc b c" unfolding in_byte_table_def by blast
  then show "byte_event_ok e" using byte_values_event [of opc b c] lookup_values_inject by metis
qed

lemma byte_table_ok_trace: "byte_table_ok (byte_generate_trace blu :: 'f action list)"
  using byte_table_ok_eval [of "map (\<lambda>(b, c). ((b, c), byte_multiplicity blu (b, c))) (List.product (map of_nat [0..<256]) (map of_nat [0..<256]))"]
  unfolding byte_generate_trace_def by (simp add: comp_def case_prod_unfold)

lemma requests_count:
  assumes "mset (sends Byte_kind as) = mset (requests ls)" "receives Byte_kind as = []"
  shows "interaction_count Byte_kind (lookup_values e) as = (of_nat (count (mset ls) e) :: 'f)"
proof -
  have "sum_list (map snd (filter (\<lambda>(v, m). v = lookup_values e) (sends Byte_kind as)))
      = sum_mset (image_mset snd (filter_mset (\<lambda>(v, m). v = lookup_values e) (mset (requests ls))))"
    by (simp only: assms(1) [symmetric] mset_filter [symmetric] mset_map [symmetric] sum_mset_sum_list)
  also have "\<dots> = (of_nat (count (mset ls) e) :: 'f)"
    by (induction ls) (auto simp: lookup_values_inject)
  finally show ?thesis by (simp add: interaction_count_def assms(2))
qed

lemma lookups_balance:
  assumes ls: "holds_lookups blu ls" "\<And>e. e \<in> set ls \<Longrightarrow> byte_event_ok e"
    and as: "mset (sends Byte_kind as) = mset (requests ls)" "receives Byte_kind as = []"
  shows "interaction_count Byte_kind vs (as @ byte_generate_trace blu) = (0 :: 'f)"
proof (cases "\<exists>e. vs = lookup_values e")
  case True
  then obtain e where e: "vs = lookup_values e" by blast
  have "interaction_count Byte_kind vs as = of_nat (lookup_count blu e)"
    unfolding e requests_count [OF as] using ls(1) by (simp add: holds_lookups_def)
  moreover have "finite (dom blu)" "\<And>e. e \<in> dom blu \<Longrightarrow> byte_event_ok e"
    using ls by (auto simp: holds_lookups_def intro: finite_subset)
  ultimately show ?thesis using byte_generate_trace_count [of blu e] by (simp add: e)
next
  case False
  then have "\<not> in_byte_table vs" unfolding in_byte_table_def using byte_values_event by metis
  then have "(vs, m) \<notin> set (receives Byte_kind (byte_generate_trace blu :: 'f action list))" for m
    using byte_table_ok_trace [of blu] unfolding byte_table_ok_def by blast
  then have "filter (\<lambda>(v, m). v = vs) (receives Byte_kind (byte_generate_trace blu :: 'f action list)) = []" by (auto simp: filter_empty_conv)
  moreover have "(vs, m) \<notin> set (sends Byte_kind as)" for m
    using False as(1) [THEN mset_eq_setD] by (auto simp: requests_def)
  then have "filter (\<lambda>(v, m). v = vs) (sends Byte_kind as) = []" by (auto simp: filter_empty_conv)
  ultimately show ?thesis using byte_table_ok_trace [of blu] as(2) by (simp add: interaction_count_def byte_table_ok_def)
qed

lemma honest_lookups: "honest used msgs es ls (as :: 'f action list) \<Longrightarrow> e \<in> set ls \<Longrightarrow> byte_event_ok e"
proof -
  assume h: "honest used msgs es ls as" and e: "e \<in> set ls"
  then have "(lookup_values e :: 'f list, 1) \<in> set (sends Byte_kind as)"
    using mset_eq_setD [of "sends Byte_kind as" "requests ls"] by (auto simp: honest_def requests_def)
  then have "in_byte_table (lookup_values e :: 'f list)" using h by (fastforce simp: honest_def accepts_iff alu_lookups_def)
  then show ?thesis by (simp only: byte_event_ok_iff)
qed

end

lemma same_messages_balance: "mset (sends k as) = mset (receives k as) \<Longrightarrow> interaction_count k vs as = 0"
proof -
  assume e: "mset (sends k as) = mset (receives k as)"
  have "sum_list (map snd (filter P xs)) = sum_mset (image_mset snd (filter_mset P (mset xs)))" for P and xs :: "('a list \<times> 'a) list"
    by (simp only: mset_filter [symmetric] mset_map [symmetric] sum_mset_sum_list)
  then show "interaction_count k vs as = 0" unfolding interaction_count_def by (simp only: e) simp
qed

end
