(* ===== verification/SP1_Chip_Add_Sub.thy ===== *)
theory SP1_Chip_Add_Sub
  imports SP1_Lookup
begin

text \<open>
  The table of ADD and SUB, \<open>crates/core/machine/src/alu/add_sub/mod.rs\<close>.
\<close>

section \<open>The chip\<close>

record 'f add_sub_cols =
  as_pc :: 'f
  as_add_operation :: "'f add_operation"
  as_operand_1 :: "'f word4"
  as_operand_2 :: "'f word4"
  as_op_a_not_0 :: 'f
  as_is_add :: 'f
  as_is_sub :: 'f

definition add_sub_zero :: "'f::field add_sub_cols" where
  "add_sub_zero = \<lparr>as_pc = 0,
     as_add_operation = \<lparr>add_value = word_zero, add_carry0 = 0, add_carry1 = 0, add_carry2 = 0\<rparr>,
     as_operand_1 = word_zero, as_operand_2 = word_zero, as_op_a_not_0 = 0, as_is_add = 0, as_is_sub = 0\<rparr>"

definition add_sub_row :: "alu_event \<Rightarrow> ('f::field add_sub_cols \<times> byte_lookup_event list) res" where
  "add_sub_row event =
     (let is_add = (alu_opcode event = ADD);
          operand_1 = (if is_add then alu_b event else alu_a event);
          operand_2 = alu_c event;
          (add_operation, blu) = add_populate operand_1 operand_2
      in Inr (\<lparr>as_pc = from_canonical_u32 (alu_pc event), as_add_operation = add_operation,
           as_operand_1 = word_from operand_1, as_operand_2 = word_from operand_2,
           as_op_a_not_0 = from_bool (\<not> alu_op_a_0 event), as_is_add = from_bool is_add, as_is_sub = from_bool (\<not> is_add)\<rparr>, blu))"

definition add_sub_eval :: "'f::field add_sub_cols \<Rightarrow> 'f action list" where
  "add_sub_eval local =
     (let is_real = as_is_add local + as_is_sub local;
          opc = opcode_field ADD * as_is_add local + opcode_field SUB * as_is_sub local
      in assert_bool (as_is_add local) @ assert_bool (as_is_sub local) @ assert_bool is_real @
         add_eval (as_operand_1 local) (as_operand_2 local) (as_add_operation local) (as_op_a_not_0 local) @
         air_when (as_op_a_not_0 local) (assert_one is_real) @
         receive_instruction (alu_msg (as_pc local) opc (add_value (as_add_operation local)) (as_operand_1 local)
           (as_operand_2 local) (1 - as_op_a_not_0 local)) (as_is_add local) @
         receive_instruction (alu_msg (as_pc local) opc (as_operand_1 local) (add_value (as_add_operation local))
           (as_operand_2 local) (1 - as_op_a_not_0 local)) (as_is_sub local))"

definition add_sub_generate_trace :: "nat option \<Rightarrow> execution_record \<Rightarrow> 'f::field add_sub_cols list res" where
  "add_sub_generate_trace size_log2 input =
     generate_trace add_sub_row add_sub_zero size_log2 (add_events input @ sub_events input)"

definition add_sub_generate_dependencies :: "nat \<Rightarrow> execution_record \<Rightarrow> byte_lookups \<Rightarrow> byte_lookups res" where
  "add_sub_generate_dependencies num_cpus input output =
     (let chunk_size = max ((length (add_events input) + length (sub_events input)) div num_cpus) 1
      in batch_dependencies (add_sub_row :: _ \<Rightarrow> (bb add_sub_cols \<times> _) res)
        (chunks chunk_size (add_events input) @ chunks chunk_size (sub_events input)) output)"

definition add_sub_included :: "bool option \<Rightarrow> execution_record \<Rightarrow> bool" where
  "add_sub_included in_shape shard = included in_shape (add_events shard)"

section \<open>The contract\<close>

lemma add_eval_receives [simp]: "receives k (add_eval a b cols r) = []"
proof -
  have "receives k (slice_range_check_u8 xs m) = []" for xs and m :: 'a
    by (induction xs m rule: slice_range_check_u8.induct) (simp_all add: air)
  then show ?thesis by (simp add: add_eval_def Let_def air)
qed

lemma add_eval_sends: "(vs, m) \<in> set (sends k (add_eval a b cols r)) \<Longrightarrow> m = r"
  by (auto simp: add_eval_def Let_def air dest: range_sends split: if_splits)

context prime_field32
begin

lemma add_sub_selectors:
  assumes "accepts L (add_sub_eval (r :: 'f add_sub_cols))"
  shows "as_is_add r = 0 \<and> as_is_sub r = 0 \<or> as_is_add r = 1 \<and> as_is_sub r = 0 \<or> as_is_add r = 0 \<and> as_is_sub r = 1"
  using assms by (intro two_selectors) (simp_all add: add_sub_eval_def Let_def assert_bool_def)

lemma add_sub_received:
  assumes "asserts (add_sub_eval (r :: 'f add_sub_cols))" "(vs, m) \<in> set (receives Instruction_kind (add_sub_eval r))"
  shows "m = 1"
  using add_sub_selectors [OF assms(1) [unfolded asserts_def]] assms(2) by (auto simp: add_sub_eval_def Let_def air split: if_splits)

lemma add_eval_real: "accepts L (add_eval a b cols (r::'f)) \<Longrightarrow> r \<noteq> 0 \<Longrightarrow> r = 1"
  by (simp add: add_eval_def Let_def assert_bool_def)

lemma add_sub_parts:
  "accepts L (add_sub_eval (r :: 'f add_sub_cols)) \<Longrightarrow>
     accepts L (add_eval (as_operand_1 r) (as_operand_2 r) (as_add_operation r) (as_op_a_not_0 r))"
  by (simp add: add_sub_eval_def Let_def)

lemma add_sub_sent:
  assumes "asserts (add_sub_eval (r :: 'f add_sub_cols))" "(vs, m) \<in> set (sends k (add_sub_eval r))"
  shows "m = 1"
proof -
  have e: "sends k (add_sub_eval r) = sends k (add_eval (as_operand_1 r) (as_operand_2 r) (as_add_operation r) (as_op_a_not_0 r))"
    by (simp add: add_sub_eval_def Let_def air)
  have "m = as_op_a_not_0 r" using add_eval_sends assms(2) unfolding e by metis
  moreover have "m \<noteq> 0" using assms(2) sends_nonzero by metis
  ultimately show ?thesis
    using add_eval_real [OF add_sub_parts] assms(1) unfolding asserts_def by metis
qed

lemma add_sub_sound:
  assumes acc: "accepts (alu_lookups D) (add_sub_eval (r :: 'f add_sub_cols))"
    and recv: "(vs, m) \<in> set (receives Instruction_kind (add_sub_eval r))"
  shows "\<exists>opc\<in>{ADD, SUB}. alu_answer opc vs"
proof -
  let ?v = "add_value (as_add_operation r)" and ?p = "as_op_a_not_0 r"
  have add: "\<exists>x y. as_operand_1 r = word_from x \<and> as_operand_2 r = word_from y \<and> ?v = word_from (x + y)" if "1 - ?p = 0"
    using add_eval_sound [OF add_sub_parts [OF acc]] that by auto
  consider "as_is_add r = 1" "as_is_sub r = 0" | "as_is_add r = 0" "as_is_sub r = 1" | "as_is_add r = 0" "as_is_sub r = 0"
    using add_sub_selectors [OF acc] by blast
  then show ?thesis
  proof cases
    case 1
    then have "vs = instruction_values (alu_msg (as_pc r) (opcode_field ADD) ?v (as_operand_1 r) (as_operand_2 r) (1 - ?p))"
      using recv by (simp add: add_sub_eval_def Let_def air)
    then show ?thesis using add by (auto intro!: bexI [of _ ADD] alu_answerI)
  next
    case 2
    then have "vs = instruction_values (alu_msg (as_pc r) (opcode_field SUB) (as_operand_1 r) ?v (as_operand_2 r) (1 - ?p))"
      using recv by (simp add: add_sub_eval_def Let_def air)
    then show ?thesis using add by (auto intro!: bexI [of _ SUB] alu_answerI)
  next
    case 3
    then show ?thesis using recv by (simp add: add_sub_eval_def Let_def air)
  qed
qed

lemma add_sub_complete:
  assumes "alu_ok e" "x0_ok e" "alu_opcode e \<in> {ADD, SUB}"
  shows "\<exists>r ls. add_sub_row e = Inr (r :: 'f add_sub_cols, ls) \<and> accepts (alu_lookups D) (add_sub_eval r)
    \<and> mset (sends Byte_kind (add_sub_eval r)) = mset (requests ls)
    \<and> receives Instruction_kind (add_sub_eval r) = [(instruction_values (event_msg e), 1)]"
proof -
  have x0: "\<not> alu_op_a_0 e" using assms(2,3) by (auto simp: x0_ok_def)
  let ?x = "if alu_opcode e = ADD then alu_b e else alu_a e"
  obtain cols and ls where pop: "add_populate ?x (alu_c e) = (cols :: 'f add_operation, ls)" by fastforce
  note c = add_populate_complete [of ?x "alu_c e", unfolded pop fst_conv snd_conv]
  have v: "add_value cols = word_from (?x + alu_c e)" using pop by (auto simp: add_populate_def Let_def)
  have a: "alu_opcode e = ADD \<Longrightarrow> alu_b e + alu_c e = alu_a e" "alu_opcode e = SUB \<Longrightarrow> alu_a e + alu_c e = alu_b e"
    using assms(1) x0 by (auto simp: alu_ok_def)
  show ?thesis
    using assms(3) x0 a byte_lookups_alu [OF c(1), of D] c(2)
    by (auto simp: add_sub_row_def Let_def pop add_sub_eval_def air v event_msg_def)
qed

end

lemma add_sub_no_bytes: "receives Byte_kind (add_sub_eval r) = []"
  by (simp add: add_sub_eval_def Let_def air)

lemma add_sub_no_requests: "sends Instruction_kind (add_sub_eval r) = []"
  by (simp add: add_sub_eval_def add_eval_def Let_def air)

lemma add_sub_idle: "accepts L (add_sub_eval add_sub_zero)" "receives k (add_sub_eval add_sub_zero) = []"
  by (simp_all add: add_sub_zero_def add_sub_eval_def add_eval_def Let_def air word_zero_def)

interpretation add_sub: alu_chip "\<lambda>x. nat (rep_bb x)" "add_sub_eval :: bb add_sub_cols \<Rightarrow> _" add_sub_row add_sub_zero "{ADD, SUB}" "{}" "\<lambda>_. []"
  by unfold_locales
    (rule add_sub_no_bytes add_sub_idle |
     erule (1) bb.add_sub_received | erule (1) bb.add_sub_sent | erule (1) bb.add_sub_sound | erule (2) bb.add_sub_complete |
     simp add: add_sub_no_requests)+

section \<open>Destination register 0\<close>

lemma u8_range_checks_ok: "e \<in> set (u8_range_checks xs) \<Longrightarrow> byte_event_ok e"
proof -
  have "byte_event_ok (u8_range_check a b)" for a b by (simp add: u8_range_check_def byte_lookup_new_def byte_event_ok_def)
  then show "e \<in> set (u8_range_checks xs) \<Longrightarrow> byte_event_ok e" by (induction xs rule: u8_range_checks.induct) auto
qed

lemma add_sub_row_lookups:
  "\<exists>r ls. add_sub_row e = Inr (r :: bb add_sub_cols, ls) \<and> asserts (add_sub_eval r) \<and> length ls = 6 \<and> (\<forall>l\<in>set ls. byte_event_ok l)
    \<and> sends Byte_kind (add_sub_eval r) = (if alu_op_a_0 e then [] else requests ls)"
proof -
  let ?x = "if alu_opcode e = ADD then alu_b e else alu_a e"
  obtain cols and ls where pop: "add_populate ?x (alu_c e) = (cols :: bb add_operation, ls)" by fastforce
  note c = bb.add_populate_complete [of ?x "alu_c e", unfolded pop fst_conv snd_conv]
  have l: "ls = u8_range_checks (to_le_bytes ?x) @ u8_range_checks (to_le_bytes (alu_c e)) @ u8_range_checks (to_le_bytes (?x + alu_c e))"
    using pop by (auto simp: add_populate_def Let_def)
  have "length (u8_range_checks (to_le_bytes x)) = 2" for x by (simp add: to_le_bytes_limbs limbs_eq)
  then have "length ls = 6" "\<forall>l\<in>set ls. byte_event_ok l" using u8_range_checks_ok unfolding l by auto
  moreover have "asserts (add_eval (word_from ?x) (word_from (alu_c e)) cols 1)" using c(1) accepts_iff by blast
  moreover have "asserts (add_eval a b cols 0)" for a b and cols :: "bb add_operation"
    by (simp add: add_eval_def Let_def air asserts_def)
  moreover have "sends Byte_kind (add_eval a b cols 0) = []" for a b and cols :: "bb add_operation"
    using add_eval_sends sends_nonzero by (metis list.set_intros(1) neq_Nil_conv surj_pair)
  ultimately show ?thesis
    using c(2) by (auto simp: add_sub_row_def Let_def pop add_sub_eval_def air asserts_def from_bool_def)
qed

text \<open>The rows of the table: what is sent, and what is recorded and not sent.\<close>

lemma add_sub_rows_lookups:
  "\<exists>rs sent unsent. collect_rows add_sub_row es = Inr rs \<and> asserts (concat (map add_sub_eval (map fst rs :: bb add_sub_cols list)))
    \<and> mset (concat (map snd rs)) = mset (sent @ unsent) \<and> (\<forall>l\<in>set (sent @ unsent). byte_event_ok l)
    \<and> mset (sends Byte_kind (concat (map add_sub_eval (map fst rs)))) = mset (requests sent)
    \<and> length (sent @ unsent) = 6 * length es \<and> length unsent = 6 * length (filter alu_op_a_0 es)"
proof (induction es)
  case (Cons e es)
  obtain rs snt uns where i: "collect_rows add_sub_row es = Inr rs" "asserts (concat (map add_sub_eval (map fst rs :: bb add_sub_cols list)))"
    "mset (concat (map snd rs)) = mset (snt @ uns)" "\<forall>l\<in>set (snt @ uns). byte_event_ok l"
    "mset (sends Byte_kind (concat (map add_sub_eval (map fst rs)))) = mset (requests snt)"
    "length (snt @ uns) = 6 * length es" "length uns = 6 * length (filter alu_op_a_0 es)" using Cons by blast
  obtain r ls where r: "add_sub_row e = Inr (r :: bb add_sub_cols, ls)" "asserts (add_sub_eval r)" "length ls = 6" "\<forall>l\<in>set ls. byte_event_ok l"
    "sends Byte_kind (add_sub_eval r) = (if alu_op_a_0 e then [] else requests ls)" using add_sub_row_lookups by blast
  show ?case
    by (intro exI [of _ "(r, ls) # rs"] exI [of _ "if alu_op_a_0 e then snt else ls @ snt"] exI [of _ "if alu_op_a_0 e then ls @ uns else uns"])
      (use i r in \<open>auto simp: asserts_def\<close>)
qed (simp add: asserts_def)

text \<open>
  (C35) Additions and subtractions with destination register 0: \<open>event_to_row\<close> records the six range checks
  of its addition for every event, but \<open>eval\<close> sends them only if the destination is not register 0.
  So with such an event in the table (and fewer lookups than the order of the field), all constraints
  hold, the lookups that are sent were recorded, six of the recorded ones per event for register 0 are
  not sent, and the byte table of the record does not balance the table.
\<close>

theorem add_sub_x0_lookups_unsent:
  assumes "add_sub_generate_trace size_log2 r = Inr rows" "e \<in> set (add_events r @ sub_events r)" "alu_op_a_0 e"
    and "6 * length (add_events r @ sub_events r) < ORDER"
  shows "\<exists>blu sent unsent. add_sub_generate_dependencies num_cpus r Map.empty = Inr blu \<and> holds_lookups blu (sent @ unsent)
    \<and> asserts (concat (map add_sub_eval rows)) \<and> mset (sends Byte_kind (concat (map add_sub_eval rows))) = mset (requests sent)
    \<and> length unsent = 6 * length (filter alu_op_a_0 (add_events r @ sub_events r))
    \<and> \<not> balanced {Byte_kind} (concat (map add_sub_eval rows) @ byte_generate_trace blu :: bb action list)"
proof -
  let ?es = "add_events r @ sub_events r"
  obtain rs snt uns where rs: "collect_rows add_sub_row ?es = Inr rs" "asserts (concat (map add_sub_eval (map fst rs :: bb add_sub_cols list)))"
    "mset (concat (map snd rs)) = mset (snt @ uns)" "\<forall>l\<in>set (snt @ uns). byte_event_ok l"
    "mset (sends Byte_kind (concat (map add_sub_eval (map fst rs)))) = mset (requests snt)"
    "length (snt @ uns) = 6 * length ?es" "length uns = 6 * length (filter alu_op_a_0 ?es)" using add_sub_rows_lookups [of ?es] by blast
  obtain n where rows: "rows = map fst rs @ replicate n add_sub_zero"
    using assms(1) rs(1) by (auto simp: add_sub_generate_trace_def generate_trace_def rbind_eq_Inr)
  have z: "sends Byte_kind (concat (replicate n (add_sub_eval (add_sub_zero :: bb add_sub_cols)))) = []"
    "asserts (concat (replicate n (add_sub_eval (add_sub_zero :: bb add_sub_cols))))"
    by (induction n) (auto simp: asserts_def add_sub_idle add_sub.table.idle_sends)
  have snd: "mset (sends Byte_kind (concat (map add_sub_eval rows))) = mset (requests snt)" "asserts (concat (map add_sub_eval rows))"
    using rs(2,5) z by (simp_all add: rows asserts_def)
  have rcv: "receives Byte_kind (concat (map add_sub_eval rows)) = []"
    by (induction rows) (simp_all add: add_sub_no_bytes)
  have "records (add_sub_generate_dependencies num_cpus r Map.empty) (concat (map snd rs))"
    unfolding add_sub_generate_dependencies_def Let_def by (rule batch_records [OF _ rs(1)]) (simp add: concat_chunks)
  then obtain blu where blu: "add_sub_generate_dependencies num_cpus r Map.empty = Inr blu" "holds_lookups blu (snt @ uns)"
    using rs(3) mset_eq_setD [OF rs(3)] by (auto simp: records_def holds_lookups_def)
  have "uns \<noteq> []" using rs(7) assms(2,3) by (auto simp: filter_empty_conv)
  then obtain l where l: "l \<in> set uns" by (cases uns) auto
  have cnt: "count (mset uns) l \<noteq> 0" "count (mset uns) l < ORDER"
    using l count_le_size [of "mset uns" l] rs(6) assms(4) by (simp_all add: count_mset_0_iff)
  have "interaction_count Byte_kind (lookup_values l) (concat (map add_sub_eval rows)) = of_nat (count (mset snt) l)"
    using bb.requests_count [OF snd(1) rcv] .
  moreover have "interaction_count Byte_kind (lookup_values l) (byte_generate_trace blu) = - (of_nat (lookup_count blu l) :: bb)"
    by (rule bb.byte_generate_trace_count) (use blu(2) rs(4) in \<open>auto simp: holds_lookups_def intro: finite_subset\<close>)
  ultimately have "interaction_count Byte_kind (lookup_values l) (concat (map add_sub_eval rows) @ byte_generate_trace blu) = - (of_nat (count (mset uns) l) :: bb)"
    using blu(2) by (simp add: holds_lookups_def)
  moreover have "of_nat (count (mset uns) l) \<noteq> (0 :: bb)" using cnt bb.of_nat_inject [of "count (mset uns) l" 0] by (simp add: ORDER_def)
  ultimately have "\<not> balanced {Byte_kind} (concat (map add_sub_eval rows) @ byte_generate_trace blu)" unfolding balanced_def by (metis neg_equal_0_iff_equal singletonI)
  then show ?thesis using blu snd rs(7) by blast
qed

text \<open>The event of a NOP, which is valid.\<close>

definition demo_nop :: alu_event where
  "demo_nop = \<lparr>alu_pc = 0, alu_opcode = ADD, alu_a = 0, alu_b = 0, alu_c = 0, alu_op_a_0 = True\<rparr>"

theorem add_sub_x0_lookups_unsent_witness:
  "alu_ok demo_nop \<and> (\<exists>rows blu sent unsent. add_sub_generate_trace None ((record_new program_default)\<lparr>add_events := [demo_nop]\<rparr>) = Inr rows
    \<and> add_sub_generate_dependencies 4 ((record_new program_default)\<lparr>add_events := [demo_nop]\<rparr>) Map.empty = Inr blu \<and> holds_lookups blu (sent @ unsent)
    \<and> asserts (concat (map add_sub_eval rows)) \<and> mset (sends Byte_kind (concat (map add_sub_eval rows))) = mset (requests sent) \<and> length unsent = 6
    \<and> \<not> balanced {Byte_kind} (concat (map add_sub_eval rows) @ byte_generate_trace blu :: bb action list))"
proof -
  let ?r = "(record_new program_default)\<lparr>add_events := [demo_nop]\<rparr>"
  obtain rows :: "bb add_sub_cols list" where rows: "add_sub_generate_trace None ?r = Inr rows"
    using add_sub_rows_lookups [of "[demo_nop]"] by (auto simp: add_sub_generate_trace_def generate_trace_def next_power_of_two_def record_new_def)
  have e: "add_events ?r @ sub_events ?r = [demo_nop]" by (simp add: record_new_def)
  from add_sub_x0_lookups_unsent [OF rows, of demo_nop 4, unfolded e] rows show ?thesis
    by (simp add: demo_nop_def ORDER_def alu_ok_def)
qed

end
