(* ===== verification/SP1_Chip_Bitwise.thy ===== *)
theory SP1_Chip_Bitwise
  imports SP1_Lookup
begin

text \<open>
  The table of XOR, OR and AND, \<open>crates/core/machine/src/alu/bitwise/mod.rs\<close>.
\<close>

section \<open>The chip\<close>

record 'f bitwise_cols =
  bw_pc :: 'f
  bw_a :: "'f word4"
  bw_b :: "'f word4"
  bw_c :: "'f word4"
  bw_op_a_not_0 :: 'f
  bw_is_xor :: 'f
  bw_is_or :: 'f
  bw_is_and :: 'f

definition bitwise_zero :: "'f::field bitwise_cols" where
  "bitwise_zero = \<lparr>bw_pc = 0, bw_a = word_zero, bw_b = word_zero, bw_c = word_zero, bw_op_a_not_0 = 0,
     bw_is_xor = 0, bw_is_or = 0, bw_is_and = 0\<rparr>"

text \<open>The conversion of the opcode panics only when an event is made.\<close>

definition bitwise_row :: "alu_event \<Rightarrow> ('f::field bitwise_cols \<times> byte_lookup_event list) res" where
  "bitwise_row event =
     rbind (if alu_op_a_0 event then Inr [] else rbind (byte_opcode_from (alu_opcode event)) (\<lambda>opc.
        Inr (map (\<lambda>((b_a, b_b), b_c). \<lparr>bl_opcode = opc, bl_a1 = ucast b_a, bl_a2 = 0, bl_b = b_b, bl_c = b_c\<rparr>)
          (zip (zip (to_le_bytes (alu_a event)) (to_le_bytes (alu_b event))) (to_le_bytes (alu_c event)))))) (\<lambda>blu.
     Inr (\<lparr>bw_pc = from_canonical_u32 (alu_pc event), bw_a = word_from (alu_a event), bw_b = word_from (alu_b event),
        bw_c = word_from (alu_c event), bw_op_a_not_0 = from_bool (\<not> alu_op_a_0 event),
        bw_is_xor = from_bool (alu_opcode event = XOR_op), bw_is_or = from_bool (alu_opcode event = OR_op),
        bw_is_and = from_bool (alu_opcode event = AND_op)\<rparr>, blu))"

definition bitwise_eval :: "'f::field bitwise_cols \<Rightarrow> 'f action list" where
  "bitwise_eval local =
     (let opc = bw_is_xor local * byte_opcode_field B_XOR + bw_is_or local * byte_opcode_field B_OR
            + bw_is_and local * byte_opcode_field B_AND;
          mult = bw_is_xor local + bw_is_or local + bw_is_and local;
          cpu_opcode = bw_is_xor local * opcode_field XOR_op + bw_is_or local * opcode_field OR_op
            + bw_is_and local * opcode_field AND_op
      in concat (map (\<lambda>((a, b), c). send_byte opc a b c (bw_op_a_not_0 local))
           (zip (zip (limbs (bw_a local)) (limbs (bw_b local))) (limbs (bw_c local)))) @
         air_when (bw_op_a_not_0 local) (assert_one mult) @
         receive_instruction (alu_msg (bw_pc local) cpu_opcode (bw_a local) (bw_b local) (bw_c local)
           (1 - bw_op_a_not_0 local)) (bw_is_xor local + bw_is_or local + bw_is_and local) @
         assert_bool (bw_is_xor local) @ assert_bool (bw_is_or local) @ assert_bool (bw_is_and local) @
         assert_bool (bw_is_xor local + bw_is_or local + bw_is_and local))"

definition bitwise_generate_trace :: "nat option \<Rightarrow> execution_record \<Rightarrow> 'f::field bitwise_cols list res" where
  "bitwise_generate_trace size_log2 input = generate_trace bitwise_row bitwise_zero size_log2 (bitwise_events input)"

definition bitwise_generate_dependencies :: "nat \<Rightarrow> execution_record \<Rightarrow> byte_lookups \<Rightarrow> byte_lookups res" where
  "bitwise_generate_dependencies num_cpus input output =
     generate_dependencies num_cpus (bitwise_row :: _ \<Rightarrow> (bb bitwise_cols \<times> _) res) (bitwise_events input) output"

definition bitwise_included :: "bool option \<Rightarrow> execution_record \<Rightarrow> bool" where
  "bitwise_included in_shape shard = included in_shape (bitwise_events shard)"

section \<open>The contract\<close>

text \<open>The operations work byte by byte.\<close>

lemma le_bytes_bitwise:
  "le_bytes (x AND y) = Word4 (limb0 (le_bytes x) AND limb0 (le_bytes y)) (limb1 (le_bytes x) AND limb1 (le_bytes y))
     (limb2 (le_bytes x) AND limb2 (le_bytes y)) (limb3 (le_bytes x) AND limb3 (le_bytes y))"
  "le_bytes (x OR y) = Word4 (limb0 (le_bytes x) OR limb0 (le_bytes y)) (limb1 (le_bytes x) OR limb1 (le_bytes y))
     (limb2 (le_bytes x) OR limb2 (le_bytes y)) (limb3 (le_bytes x) OR limb3 (le_bytes y))"
  "le_bytes (x XOR y) = Word4 (limb0 (le_bytes x) XOR limb0 (le_bytes y)) (limb1 (le_bytes x) XOR limb1 (le_bytes y))
     (limb2 (le_bytes x) XOR limb2 (le_bytes y)) (limb3 (le_bytes x) XOR limb3 (le_bytes y))"
  by (simp_all add: le_bytes_def bit_eq_iff bit_simps)

context prime_field32
begin

lemma bitwise_selectors:
  fixes r :: "'f bitwise_cols"
  assumes "accepts L (bitwise_eval r)"
  shows "bw_is_xor r = 0 \<and> bw_is_or r = 0 \<and> bw_is_and r = 0 \<or> bw_is_xor r = 1 \<and> bw_is_or r = 0 \<and> bw_is_and r = 0
    \<or> bw_is_xor r = 0 \<and> bw_is_or r = 1 \<and> bw_is_and r = 0 \<or> bw_is_xor r = 0 \<and> bw_is_or r = 0 \<and> bw_is_and r = 1"
  using assms by (intro three_selectors) (simp_all add: bitwise_eval_def Let_def assert_bool_def)

lemma bitwise_receives:
  fixes r :: "'f bitwise_cols"
  shows "receives Instruction_kind (bitwise_eval r) = (if bw_is_xor r + bw_is_or r + bw_is_and r = 0 then [] else
    [(instruction_values (alu_msg (bw_pc r) (bw_is_xor r * opcode_field XOR_op + bw_is_or r * opcode_field OR_op
        + bw_is_and r * opcode_field AND_op) (bw_a r) (bw_b r) (bw_c r) (1 - bw_op_a_not_0 r)),
      bw_is_xor r + bw_is_or r + bw_is_and r)])"
  by (simp add: bitwise_eval_def Let_def air limbs_eq)

lemma bitwise_received:
  fixes r :: "'f bitwise_cols"
  assumes "asserts (bitwise_eval r)" "(vs, m) \<in> set (receives Instruction_kind (bitwise_eval r))"
  shows "m = 1"
  using bitwise_selectors [OF assms(1) [unfolded asserts_def]] assms(2) unfolding bitwise_receives by (auto split: if_splits)

lemma bitwise_sent:
  fixes r :: "'f bitwise_cols"
  assumes "asserts (bitwise_eval r)" "flags_ok (bitwise_eval r)" "(vs, m) \<in> set (sends k (bitwise_eval r))"
  shows "m = 1"
proof -
  have m: "m = bw_op_a_not_0 r" "m \<noteq> 0" using assms(3) sends_nonzero [OF assms(3)]
    by (auto simp: bitwise_eval_def Let_def air limbs_eq split: if_splits)
  then have "bw_is_xor r + bw_is_or r + bw_is_and r = 1"
    using assms(1) by (simp add: asserts_def bitwise_eval_def Let_def air limbs_eq)
  then have "1 - bw_op_a_not_0 r = 0 \<or> 1 - bw_op_a_not_0 r = 1"
    using assms(2) unfolding flags_ok_def bitwise_receives by (auto split: if_splits)
  then show ?thesis using m by auto
qed

lemma bitwise_sound:
  fixes r :: "'f bitwise_cols"
  assumes acc: "accepts (alu_lookups D) (bitwise_eval r)" and recv: "(vs, m) \<in> set (receives Instruction_kind (bitwise_eval r))"
  shows "\<exists>opc\<in>{XOR_op, OR_op, AND_op}. alu_answer opc vs"
proof -
  let ?opc = "bw_is_xor r * byte_opcode_field B_XOR + bw_is_or r * byte_opcode_field B_OR + bw_is_and r * byte_opcode_field B_AND"
  have look: "in_byte_table [?opc, limb0 (bw_a r), 0, limb0 (bw_b r), limb0 (bw_c r)] \<and> in_byte_table [?opc, limb1 (bw_a r), 0, limb1 (bw_b r), limb1 (bw_c r)]
      \<and> in_byte_table [?opc, limb2 (bw_a r), 0, limb2 (bw_b r), limb2 (bw_c r)] \<and> in_byte_table [?opc, limb3 (bw_a r), 0, limb3 (bw_b r), limb3 (bw_c r)]"
    if "1 - bw_op_a_not_0 r = 0"
    using acc that by (simp add: bitwise_eval_def Let_def air limbs_eq alu_lookups_def)
  consider "bw_is_xor r = 1" "bw_is_or r = 0" "bw_is_and r = 0" | "bw_is_xor r = 0" "bw_is_or r = 1" "bw_is_and r = 0"
    | "bw_is_xor r = 0" "bw_is_or r = 0" "bw_is_and r = 1"
    using bitwise_selectors [OF acc] recv unfolding bitwise_receives by (auto split: if_splits)
  then show ?thesis
  proof cases
    case 1
    then show ?thesis using recv look unfolding bitwise_receives
      by (auto intro!: bexI [of _ XOR_op] alu_answerI simp: word4_eq le_bytes_bitwise)
  next
    case 2
    then show ?thesis using recv look unfolding bitwise_receives
      by (auto intro!: bexI [of _ OR_op] alu_answerI simp: word4_eq le_bytes_bitwise)
  next
    case 3
    then show ?thesis using recv look unfolding bitwise_receives
      by (auto intro!: bexI [of _ AND_op] alu_answerI simp: word4_eq le_bytes_bitwise)
  qed
qed

lemma bitwise_complete:
  assumes "alu_ok e" "x0_ok e" "alu_opcode e \<in> {XOR_op, OR_op, AND_op}"
  shows "\<exists>r ls. bitwise_row e = Inr (r :: 'f bitwise_cols, ls) \<and> accepts (alu_lookups D) (bitwise_eval r)
    \<and> mset (sends Byte_kind (bitwise_eval r)) = mset (requests ls)
    \<and> receives Instruction_kind (bitwise_eval r) = [(instruction_values (event_msg e), 1)]"
proof (cases "alu_op_a_0 e")
  case True
  then show ?thesis using assms(3) by (auto simp: bitwise_row_def bitwise_eval_def Let_def air limbs_eq event_msg_def)
next
  case False
  consider "alu_opcode e = XOR_op" "alu_a e = alu_b e XOR alu_c e" | "alu_opcode e = OR_op" "alu_a e = alu_b e OR alu_c e"
    | "alu_opcode e = AND_op" "alu_a e = alu_b e AND alu_c e" using assms False by (auto simp: alu_ok_def)
  then show ?thesis
    by cases (use False in \<open>simp_all add: bitwise_row_def bitwise_eval_def Let_def air limbs_eq to_le_bytes_limbs alu_lookups_def
      le_bytes_bitwise event_msg_def\<close>)
qed

end

lemma bitwise_no_bytes: "receives Byte_kind (bitwise_eval r) = []"
  by (simp add: bitwise_eval_def Let_def air limbs_eq)

lemma bitwise_no_requests: "sends Instruction_kind (bitwise_eval r) = []"
  by (simp add: bitwise_eval_def Let_def air limbs_eq)

lemma bitwise_idle: "accepts L (bitwise_eval bitwise_zero)" "receives k (bitwise_eval bitwise_zero) = []"
  by (simp_all add: bitwise_zero_def bitwise_eval_def Let_def air word_zero_def)

interpretation bitwise: alu_chip "\<lambda>x. nat (rep_bb x)" "bitwise_eval :: bb bitwise_cols \<Rightarrow> _" bitwise_row bitwise_zero "{XOR_op, OR_op, AND_op}" "{}" "\<lambda>_. []"
  by unfold_locales
    (rule bitwise_no_bytes bitwise_idle |
     erule (1) bb.bitwise_received | erule (2) bb.bitwise_sent | erule (1) bb.bitwise_sound | erule (2) bb.bitwise_complete |
     simp add: bitwise_no_requests)+

end
