(* ===== verification/SP1_Chip_Lt.thy ===== *)
theory SP1_Chip_Lt
  imports SP1_Lookup
begin

text \<open>
  The table of SLT and SLTU, \<open>crates/core/machine/src/alu/lt/mod.rs\<close>.
\<close>

section \<open>The chip\<close>

text \<open>An array of four is a \<open>word4\<close>.\<close>

record 'f lt_cols =
  lt_pc :: 'f
  lt_is_slt :: 'f
  lt_is_sltu :: 'f
  lt_a :: 'f
  lt_b :: "'f word4"
  lt_c :: "'f word4"
  lt_op_a_not_0 :: 'f
  lt_byte_flags :: "'f word4"
  lt_b_masked :: 'f
  lt_c_masked :: 'f
  lt_not_eq_inv :: 'f
  lt_msb_b :: 'f
  lt_msb_c :: 'f
  lt_bit_b :: 'f
  lt_bit_c :: 'f
  lt_sltu :: 'f
  lt_is_comp_eq :: 'f
  lt_is_sign_eq :: 'f
  lt_comparison_byte_0 :: 'f
  lt_comparison_byte_1 :: 'f
  lt_byte_equality_check :: "'f word4"

definition lt_zero :: "'f::field lt_cols" where
  "lt_zero = \<lparr>lt_pc = 0, lt_is_slt = 0, lt_is_sltu = 0, lt_a = 0, lt_b = word_zero, lt_c = word_zero, lt_op_a_not_0 = 0,
     lt_byte_flags = word_zero, lt_b_masked = 0, lt_c_masked = 0, lt_not_eq_inv = 0, lt_msb_b = 0, lt_msb_c = 0,
     lt_bit_b = 0, lt_bit_c = 0, lt_sltu = 0, lt_is_comp_eq = 0, lt_is_sign_eq = 0,
     lt_comparison_byte_0 = 0, lt_comparison_byte_1 = 0, lt_byte_equality_check = word_zero\<rparr>"

text \<open>The comparison of arrays: lexicographic, from index 0.\<close>

fun array_less :: "u8 list \<Rightarrow> u8 list \<Rightarrow> bool" where
  "array_less (x # xs) (y # ys) \<longleftrightarrow> x < y \<or> x = y \<and> array_less xs ys"
| "array_less _ _ \<longleftrightarrow> False"

text \<open>The loop over the bytes, the most significant first: the first pair that differs, and the flags.\<close>

fun first_difference :: "(u8 \<times> u8) list \<Rightarrow> (u8 \<times> u8) option \<times> bool list" where
  "first_difference [] = (None, [])"
| "first_difference ((b, c) # rest) = (if c \<noteq> b then (Some (b, c), True # map (\<lambda>_. False) rest)
     else (case first_difference rest of (d, flags) \<Rightarrow> (d, False # flags)))"

definition word4_of_list :: "'a list \<Rightarrow> 'a word4" where
  "word4_of_list xs = Word4 (xs ! 0) (xs ! 1) (xs ! 2) (xs ! 3)"

definition lt_row :: "alu_event \<Rightarrow> ('f::field lt_cols \<times> byte_lookup_event list) res" where
  "lt_row event =
     (let a = to_le_bytes (alu_a event); b = to_le_bytes (alu_b event); c = to_le_bytes (alu_c event);
          masked_b = b ! 3 AND 0x7f; masked_c = c ! 3 AND 0x7f;
          slt = (alu_opcode event = SLT);
          b_comp = (if slt then b[3 := masked_b] else b);
          c_comp = (if slt then c[3 := masked_c] else c);
          (diff, flags) = first_difference (zip (rev b_comp) (rev c_comp));
          sltu = (case diff of None \<Rightarrow> array_less b_comp c_comp | Some (x, y) \<Rightarrow> x < y);
          cmp = (case diff of None \<Rightarrow> (0, 0) | Some d \<Rightarrow> d);
          msb_b = drop_bit 7 (b ! 3) AND 1; msb_c = drop_bit 7 (c ! 3) AND 1;
          is_sign_eq = (if slt then from_bool (drop_bit 7 (b ! 3) = drop_bit 7 (c ! 3)) else 1) :: 'f;
          is_slt = from_bool slt;
          bit_b = from_canonical_u8 msb_b * is_slt; bit_c = from_canonical_u8 msb_c * is_slt
      in if from_canonical_u8 (a ! 0) \<noteq> bit_b * (1 - bit_c) + is_sign_eq * from_bool sltu then Inl Panic
         else Inr (\<lparr>lt_pc = from_canonical_u32 (alu_pc event), lt_is_slt = is_slt,
              lt_is_sltu = from_bool (alu_opcode event = SLTU), lt_a = from_canonical_u8 (a ! 0),
              lt_b = word_from (alu_b event), lt_c = word_from (alu_c event), lt_op_a_not_0 = from_bool (\<not> alu_op_a_0 event),
              lt_byte_flags = word4_of_list (rev (map from_bool flags)),
              lt_b_masked = from_canonical_u8 masked_b, lt_c_masked = from_canonical_u8 masked_c,
              lt_not_eq_inv = (case diff of None \<Rightarrow> 0 | Some (x, y) \<Rightarrow> inverse (from_canonical_u8 x - from_canonical_u8 y)),
              lt_msb_b = from_canonical_u8 msb_b, lt_msb_c = from_canonical_u8 msb_c, lt_bit_b = bit_b, lt_bit_c = bit_c,
              lt_sltu = from_bool sltu, lt_is_comp_eq = from_bool (b_comp = c_comp), lt_is_sign_eq = is_sign_eq,
              lt_comparison_byte_0 = from_canonical_u8 (fst cmp), lt_comparison_byte_1 = from_canonical_u8 (snd cmp),
              lt_byte_equality_check = word_zero\<rparr>,
            [\<lparr>bl_opcode = B_AND, bl_a1 = ucast masked_b, bl_a2 = 0, bl_b = b ! 3, bl_c = 0x7f\<rparr>,
             \<lparr>bl_opcode = B_AND, bl_a1 = ucast masked_c, bl_a2 = 0, bl_b = c ! 3, bl_c = 0x7f\<rparr>,
             \<lparr>bl_opcode = LTU, bl_a1 = (if sltu then 1 else 0), bl_a2 = 0, bl_b = fst cmp, bl_c = snd cmp\<rparr>]))"

text \<open>The loop of \<open>eval\<close> over the bytes, the most significant first.\<close>

fun lt_scan :: "'f::field \<Rightarrow> ('f \<times> 'f \<times> 'f) list \<Rightarrow> 'f \<Rightarrow> 'f \<Rightarrow> 'f \<Rightarrow> 'f action list \<times> 'f \<times> 'f" where
  "lt_scan is_comp_eq [] visited b_cmp c_cmp = ([], b_cmp, c_cmp)"
| "lt_scan is_comp_eq ((b_byte, c_byte, flag) # rest) visited b_cmp c_cmp =
     (let visited = visited + flag;
          (as, result) = lt_scan is_comp_eq rest visited (b_cmp + b_byte * flag) (c_cmp + c_byte * flag)
      in (when_not visited (assert_eq b_byte c_byte) @ air_when is_comp_eq (assert_zero visited) @ as, result))"

definition lt_eval :: "'f::field lt_cols \<Rightarrow> 'f action list" where
  "lt_eval local =
     (let is_real = lt_is_slt local + lt_is_sltu local;
          b_comp3 = limb3 (lt_b local) * lt_is_sltu local + lt_b_masked local * lt_is_slt local;
          c_comp3 = limb3 (lt_c local) * lt_is_sltu local + lt_c_masked local * lt_is_slt local;
          inv_128 = inverse 128;
          flags = lt_byte_flags local;
          sum_flags = limb0 flags + limb1 flags + limb2 flags + limb3 flags;
          (scan, b_comparison_byte, c_comparison_byte) = lt_scan (lt_is_comp_eq local)
            [(b_comp3, c_comp3, limb3 flags), (limb2 (lt_b local), limb2 (lt_c local), limb2 flags),
             (limb1 (lt_b local), limb1 (lt_c local), limb1 flags), (limb0 (lt_b local), limb0 (lt_c local), limb0 flags)] 0 0 0
      in send_byte (byte_opcode_field B_AND) (lt_b_masked local) (limb3 (lt_b local)) (from_canonical_u8 0x7f) is_real @
         send_byte (byte_opcode_field B_AND) (lt_c_masked local) (limb3 (lt_c local)) (from_canonical_u8 0x7f) is_real @
         assert_eq (lt_bit_b local) (lt_msb_b local * lt_is_slt local) @
         assert_eq (lt_bit_c local) (lt_msb_c local * lt_is_slt local) @
         assert_eq (lt_msb_b local) ((limb3 (lt_b local) - lt_b_masked local) * inv_128) @
         assert_eq (lt_msb_c local) ((limb3 (lt_c local) - lt_c_masked local) * inv_128) @
         assert_bool (lt_is_sign_eq local) @
         air_when (lt_is_sign_eq local) (assert_eq (lt_bit_b local) (lt_bit_c local)) @
         air_when is_real (when_not (lt_is_sign_eq local) (assert_one (lt_bit_b local + lt_bit_c local))) @
         air_when (lt_op_a_not_0 local) (assert_eq (lt_a local)
           (lt_bit_b local * (1 - lt_bit_c local) + lt_is_sign_eq local * lt_sltu local)) @
         assert_bool (limb0 flags) @ assert_bool (limb1 flags) @ assert_bool (limb2 flags) @ assert_bool (limb3 flags) @
         assert_bool sum_flags @
         air_when is_real (assert_eq (1 - lt_is_comp_eq local) sum_flags) @
         assert_bool (lt_is_comp_eq local) @
         scan @
         assert_eq (lt_comparison_byte_0 local) b_comparison_byte @
         assert_eq (lt_comparison_byte_1 local) c_comparison_byte @
         when_not (lt_is_comp_eq local) (assert_eq
           (lt_not_eq_inv local * (lt_comparison_byte_0 local - lt_comparison_byte_1 local)) is_real) @
         send_byte (byte_opcode_field LTU) (lt_sltu local) (lt_comparison_byte_0 local) (lt_comparison_byte_1 local) is_real @
         assert_bool (lt_is_slt local) @ assert_bool (lt_is_sltu local) @ assert_bool (lt_is_slt local + lt_is_sltu local) @
         receive_instruction (alu_msg (lt_pc local) (lt_is_slt local * opcode_field SLT + lt_is_sltu local * opcode_field SLTU)
           (extend_expr (lt_a local)) (lt_b local) (lt_c local) (1 - lt_op_a_not_0 local)) is_real)"

definition lt_generate_trace :: "nat option \<Rightarrow> execution_record \<Rightarrow> 'f::field lt_cols list res" where
  "lt_generate_trace size_log2 input = generate_trace lt_row lt_zero size_log2 (lt_events input)"

definition lt_generate_dependencies :: "nat \<Rightarrow> execution_record \<Rightarrow> byte_lookups \<Rightarrow> byte_lookups res" where
  "lt_generate_dependencies num_cpus input output =
     generate_dependencies num_cpus (lt_row :: _ \<Rightarrow> (bb lt_cols \<times> _) res) (lt_events input) output"

definition lt_included :: "bool option \<Rightarrow> execution_record \<Rightarrow> bool" where
  "lt_included in_shape shard = included in_shape (lt_events shard)"

section \<open>Comparing bytes\<close>

lemma bytes_less_iff:
  fixes a0 b0 :: nat
  assumes "a0 < 256" "a1 < 256" "a2 < 256" "b0 < 256" "b1 < 256" "b2 < 256"
  shows "a0 + 256 * a1 + 65536 * a2 + 16777216 * a3 < b0 + 256 * b1 + 65536 * b2 + 16777216 * b3 \<longleftrightarrow>
    (if a3 \<noteq> b3 then a3 < b3 else if a2 \<noteq> b2 then a2 < b2 else if a1 \<noteq> b1 then a1 < b1 else a0 < b0)"
  using assms by (auto split: if_splits)

lemma bytes_u32_less_iff:
  "bytes_u32 (Word4 a0 a1 a2 a3) < bytes_u32 (Word4 b0 b1 b2 b3) \<longleftrightarrow>
    (if a3 \<noteq> b3 then a3 < b3 else if a2 \<noteq> b2 then a2 < b2 else if a1 \<noteq> b1 then a1 < b1 else a0 < b0)"
  unfolding word_less_nat_alt unat_bytes_u32 word_unat_eq_iff
  by (rule bytes_less_iff) (rule unat_u8_less)+

context prime_field32
begin

lemma from_canonical_u8_eq_small [simp]:
  "from_canonical_u8 b = (0::'f) \<longleftrightarrow> b = 0" "from_canonical_u8 b = (1::'f) \<longleftrightarrow> b = 1"
  using from_canonical_u8_inject [of b 0] from_canonical_u8_inject [of b 1] by simp_all

lemma numeral_eq_0: "numeral k = (0::'f) \<longleftrightarrow> 2013265921 dvd (numeral k :: nat)"
  using of_nat_eq_0 [of "numeral k"] by (simp add: ORDER_def)

lemma four_flags:
  assumes "x * (x - 1) = (0::'f)" "y * (y - 1) = 0" "z * (z - 1) = 0" "w * (w - 1) = 0"
    "(x + y + z + w) * (x + y + z + w - 1) = 0"
  shows "x = 0 \<and> y = 0 \<and> z = 0 \<and> w = 0 \<or> x = 1 \<and> y = 0 \<and> z = 0 \<and> w = 0 \<or> x = 0 \<and> y = 1 \<and> z = 0 \<and> w = 0
    \<or> x = 0 \<and> y = 0 \<and> z = 1 \<and> w = 0 \<or> x = 0 \<and> y = 0 \<and> z = 0 \<and> w = 1"
proof -
  have "x = 0 \<or> x = 1" "y = 0 \<or> y = 1" "z = 0 \<or> z = 1" "w = 0 \<or> w = 1" using assms by simp_all
  then show ?thesis using assms(5) by (elim disjE; simp add: numeral_eq_0)
qed

lemma lt_scan_compare:
  fixes e f0 f1 f2 f3 :: 'f and x0 x1 x2 x3 y0 y1 y2 y3 :: u8
  defines "scan \<equiv> lt_scan e [(from_canonical_u8 x3, from_canonical_u8 y3, f3), (from_canonical_u8 x2, from_canonical_u8 y2, f2),
    (from_canonical_u8 x1, from_canonical_u8 y1, f1), (from_canonical_u8 x0, from_canonical_u8 y0, f0)] 0 0 0"
  assumes flags: "f0 * (f0 - 1) = 0" "f1 * (f1 - 1) = 0" "f2 * (f2 - 1) = 0" "f3 * (f3 - 1) = 0"
      "(f0 + f1 + f2 + f3) * (f0 + f1 + f2 + f3 - 1) = 0" "1 - e = f0 + f1 + f2 + f3"
    and scan: "accepts L (fst scan)" "snd scan = (b, c)"
    and inv: "(e - 1) * (i * (b - c) - 1) = 0"
    and look: "in_byte_table [byte_opcode_field LTU, s, 0, b, c]"
  shows "s = from_bool (bytes_u32 (Word4 x0 x1 x2 x3) < bytes_u32 (Word4 y0 y1 y2 y3))"
proof -
  have e: "e = 1 - (f0 + f1 + f2 + f3)" using flags(6) by (simp add: algebra_simps)
  consider "f0 = 0" "f1 = 0" "f2 = 0" "f3 = 0" | "f0 = 1" "f1 = 0" "f2 = 0" "f3 = 0" | "f0 = 0" "f1 = 1" "f2 = 0" "f3 = 0"
    | "f0 = 0" "f1 = 0" "f2 = 1" "f3 = 0" | "f0 = 0" "f1 = 0" "f2 = 0" "f3 = 1"
    using four_flags [OF flags(1-5)] by blast
  then show ?thesis
    by cases (use scan inv look e in \<open>auto simp: scan_def when_not_def air bytes_u32_less_iff simp del: bytes_u32.simps\<close>)
qed

text \<open>The sign bit of a word, from the mask of its top byte.\<close>

lemma inverse_128: "x * inverse (128::'f) = y \<longleftrightarrow> x = 128 * y"
proof -
  have "(128::'f) \<noteq> 0" using of_nat_inject [of 128 0] by (auto simp: ORDER_def)
  then show ?thesis by (auto simp: field_simps)
qed

end

lemma mask_7f: "unat (x AND 0x7f :: u8) = unat x mod 128"
  using unsigned_and_eq [of x "0x7f", where 'a = nat] take_bit_eq_mask [of 7 "unat x"]
  by (simp add: take_bit_eq_mod mask_eq_exp_minus_1)

lemma top_byte: "unat (limb3 (le_bytes w)) = unat w div 16777216"
  unfolding le_bytes_def word4.sel unat_le_bytes(4)
  using unat_u32_less [of w] by (simp add: div_less_iff_less_mult)

lemma sint_u32: "sint (w :: u32) = int (unat w) - 4294967296 * int (unat (limb3 (le_bytes w)) div 128)"
proof -
  have d: "unat (limb3 (le_bytes w)) div 128 = unat w div 2147483648"
    unfolding top_byte by (simp flip: div_mult2_eq)
  have s: "sint w = (if unat w < 2147483648 then int (unat w) else int (unat w) - 4294967296)"
  proof (cases "unat w < 2147483648")
    case True
    then have "(int (unat w) + 2147483648) mod 4294967296 = int (unat w) + 2147483648" by (intro mod_pos_pos_trivial) linarith+
    then show ?thesis using True by (simp add: sint_uint signed_take_bit_eq_take_bit_shift take_bit_eq_mod)
  next
    case False
    have "(int (unat w) + 2147483648) mod 4294967296 = (int (unat w) - 2147483648) mod 4294967296"
      using mod_add_self2 [of "int (unat w) - 2147483648" 4294967296] by (simp add: algebra_simps)
    also have "\<dots> = int (unat w) - 2147483648" using False unat_u32_less [of w] by (intro mod_pos_pos_trivial) linarith+
    finally show ?thesis using False by (simp add: sint_uint signed_take_bit_eq_take_bit_shift take_bit_eq_mod)
  qed
  have "unat w div 2147483648 = (if unat w < 2147483648 then 0 else 1)"
    using unat_u32_less [of w] by (auto simp: div_nat_eqI)
  then show ?thesis unfolding d s by simp
qed

lemma masked_word: "unat (bytes_u32 (Word4 (limb0 (le_bytes w)) (limb1 (le_bytes w)) (limb2 (le_bytes w)) (limb3 (le_bytes w) AND 0x7f)))
    + 2147483648 * (unat (limb3 (le_bytes w)) div 128) = unat w"
  unfolding unat_bytes_u32 mask_7f
  using unat_word_split [of w] mult_div_mod_eq [of 128 "unat (limb3 (le_bytes w))"] by linarith

section \<open>The contract\<close>

lemma slt_by_sign:
  fixes x y :: u32
  defines "p \<equiv> unat (limb3 (le_bytes x)) div 128" and "q \<equiv> unat (limb3 (le_bytes y)) div 128"
  defines "m \<equiv> \<lambda>w. bytes_u32 (Word4 (limb0 (le_bytes w)) (limb1 (le_bytes w)) (limb2 (le_bytes w)) (limb3 (le_bytes w) AND 0x7f))"
  shows "slt_i32 x y \<longleftrightarrow> (p = 1 \<and> q = 0) \<or> (p = q \<and> m x < m y)" "p \<le> 1" "q \<le> 1"
proof -
  show *: "p \<le> 1" "q \<le> 1" using unat_u8_less [of "limb3 (le_bytes x)"] unat_u8_less [of "limb3 (le_bytes y)"]
    unfolding p_def q_def by linarith+
  have u: "unat x = unat (m x) + 2147483648 * p" "unat y = unat (m y) + 2147483648 * q"
    using masked_word [of x] masked_word [of y] unfolding m_def p_def q_def by simp_all
  have b: "unat (m x) < 2147483648" "unat (m y) < 2147483648"
    unfolding m_def unat_bytes_u32 mask_7f using unat_u8_less [of "limb0 (le_bytes x)"] unat_u8_less [of "limb1 (le_bytes x)"]
      unat_u8_less [of "limb2 (le_bytes x)"] unat_u8_less [of "limb0 (le_bytes y)"] unat_u8_less [of "limb1 (le_bytes y)"]
      unat_u8_less [of "limb2 (le_bytes y)"] mod_less_divisor [of 128 "unat (limb3 (le_bytes x))"]
      mod_less_divisor [of 128 "unat (limb3 (le_bytes y))"] by linarith+
  have s: "sint x = int (unat (m x)) - 2147483648 * int p" "sint y = int (unat (m y)) - 2147483648 * int q"
    unfolding sint_u32 p_def [symmetric] q_def [symmetric] u by (simp_all only: of_nat_add of_nat_mult of_nat_numeral)
  consider "p = 0" "q = 0" | "p = 0" "q = 1" | "p = 1" "q = 0" | "p = 1" "q = 1" using * by linarith
  then show "slt_i32 x y \<longleftrightarrow> (p = 1 \<and> q = 0) \<or> (p = q \<and> m x < m y)"
    unfolding slt_i32_def s word_less_nat_alt using b by cases (auto simp del: of_nat_unat)
qed

context prime_field32
begin

lemma sign_bit:
  "from_canonical_u8 x - from_canonical_u8 (x AND 0x7f) = 128 * (of_nat (unat x div 128) :: 'f)"
proof -
  have "unat x = unat (x AND 0x7f) + 128 * (unat x div 128)" by (simp add: mask_7f)
  then have "(of_nat (unat x) :: 'f) = of_nat (unat (x AND 0x7f) + 128 * (unat x div 128))" by simp
  then show ?thesis by (simp add: from_canonical_u8_def)
qed

lemma lt_selectors:
  fixes r :: "'f lt_cols"
  assumes "accepts L (lt_eval r)"
  shows "lt_is_slt r = 0 \<and> lt_is_sltu r = 0 \<or> lt_is_slt r = 1 \<and> lt_is_sltu r = 0 \<or> lt_is_slt r = 0 \<and> lt_is_sltu r = 1"
  using assms by (intro two_selectors) (simp_all add: lt_eval_def Let_def assert_bool_def split: prod.splits)

lemma lt_receives:
  fixes r :: "'f lt_cols"
  shows "receives Instruction_kind (lt_eval r) = (if lt_is_slt r + lt_is_sltu r = 0 then [] else
    [(instruction_values (alu_msg (lt_pc r) (lt_is_slt r * opcode_field SLT + lt_is_sltu r * opcode_field SLTU)
        (extend_expr (lt_a r)) (lt_b r) (lt_c r) (1 - lt_op_a_not_0 r)), lt_is_slt r + lt_is_sltu r)])"
  by (simp add: lt_eval_def Let_def air when_not_def)

lemma lt_sends:
  fixes r :: "'f lt_cols"
  assumes "(vs, m) \<in> set (sends k (lt_eval r))"
  shows "m = lt_is_slt r + lt_is_sltu r"
  using assms by (auto simp add: lt_eval_def Let_def air when_not_def split: if_splits)

lemma lt_received:
  fixes r :: "'f lt_cols"
  assumes "asserts (lt_eval r)" "(vs, m) \<in> set (receives Instruction_kind (lt_eval r))"
  shows "m = 1"
  using lt_selectors [OF assms(1) [unfolded asserts_def]] assms(2) unfolding lt_receives by (auto split: if_splits)

lemma lt_sent:
  fixes r :: "'f lt_cols"
  assumes "asserts (lt_eval r)" "(vs, m) \<in> set (sends k (lt_eval r))"
  shows "m = 1"
  using lt_selectors [OF assms(1) [unfolded asserts_def]] lt_sends [OF assms(2)] sends_nonzero [OF assms(2)] by auto

lemma lt_masks:
  fixes r :: "'f lt_cols"
  assumes acc: "accepts (alu_lookups D) (lt_eval r)" and real: "lt_is_slt r + lt_is_sltu r = 1"
    and w: "lt_b r = word_from x" "lt_c r = word_from y"
  shows "lt_b_masked r = from_canonical_u8 (limb3 (le_bytes x) AND 0x7f)" "lt_c_masked r = from_canonical_u8 (limb3 (le_bytes y) AND 0x7f)"
    "lt_bit_b r = of_nat (unat (limb3 (le_bytes x)) div 128) * lt_is_slt r"
    "lt_bit_c r = of_nat (unat (limb3 (le_bytes y)) div 128) * lt_is_slt r"
proof -
  have "in_byte_table [byte_opcode_field B_AND, lt_b_masked r, 0, limb3 (lt_b r), from_canonical_u8 0x7f]"
    and "in_byte_table [byte_opcode_field B_AND, lt_c_masked r, 0, limb3 (lt_c r), from_canonical_u8 0x7f]"
    and msb: "lt_bit_b r = lt_msb_b r * lt_is_slt r" "lt_bit_c r = lt_msb_c r * lt_is_slt r"
      "lt_msb_b r = (limb3 (lt_b r) - lt_b_masked r) * inverse 128" "lt_msb_c r = (limb3 (lt_c r) - lt_c_masked r) * inverse 128"
    using acc real by (simp_all add: lt_eval_def Let_def air alu_lookups_def split: prod.splits)
  then show m: "lt_b_masked r = from_canonical_u8 (limb3 (le_bytes x) AND 0x7f)" "lt_c_masked r = from_canonical_u8 (limb3 (le_bytes y) AND 0x7f)"
    using w by auto
  have "lt_msb_b r = of_nat (unat (limb3 (le_bytes x)) div 128)" "lt_msb_c r = of_nat (unat (limb3 (le_bytes y)) div 128)"
    unfolding msb w m limb_word_from sign_bit inverse_128 by (rule refl)+
  then show "lt_bit_b r = of_nat (unat (limb3 (le_bytes x)) div 128) * lt_is_slt r"
    "lt_bit_c r = of_nat (unat (limb3 (le_bytes y)) div 128) * lt_is_slt r" using msb(1,2) by simp_all
qed

lemma lt_compare:
  fixes r :: "'f lt_cols"
  assumes acc: "accepts (alu_lookups D) (lt_eval r)" and real: "lt_is_slt r + lt_is_sltu r = 1"
    and w: "lt_b r = word_from x" "lt_c r = word_from y"
    and t: "limb3 (lt_b r) * lt_is_sltu r + lt_b_masked r * lt_is_slt r = from_canonical_u8 x3"
      "limb3 (lt_c r) * lt_is_sltu r + lt_c_masked r * lt_is_slt r = from_canonical_u8 y3"
  shows "lt_sltu r = from_bool (bytes_u32 (Word4 (limb0 (le_bytes x)) (limb1 (le_bytes x)) (limb2 (le_bytes x)) x3)
    < bytes_u32 (Word4 (limb0 (le_bytes y)) (limb1 (le_bytes y)) (limb2 (le_bytes y)) y3))"
proof -
  let ?f = "lt_byte_flags r"
  let ?scan = "lt_scan (lt_is_comp_eq r) [(from_canonical_u8 x3, from_canonical_u8 y3, limb3 ?f),
    (limb2 (lt_b r), limb2 (lt_c r), limb2 ?f), (limb1 (lt_b r), limb1 (lt_c r), limb1 ?f), (limb0 (lt_b r), limb0 (lt_c r), limb0 ?f)] 0 0 0"
  have "accepts (alu_lookups D) (fst ?scan)" "snd ?scan = (lt_comparison_byte_0 r, lt_comparison_byte_1 r)"
    "in_byte_table [byte_opcode_field LTU, lt_sltu r, 0, lt_comparison_byte_0 r, lt_comparison_byte_1 r]"
    "(lt_is_comp_eq r - 1) * (lt_not_eq_inv r * (lt_comparison_byte_0 r - lt_comparison_byte_1 r) - 1) = 0"
    using acc [unfolded lt_eval_def t] real
    by (auto simp add: Let_def air when_not_def alu_lookups_def simp del: lt_scan.simps split: prod.splits)
  moreover have "limb0 ?f * (limb0 ?f - 1) = 0" "limb1 ?f * (limb1 ?f - 1) = 0" "limb2 ?f * (limb2 ?f - 1) = 0" "limb3 ?f * (limb3 ?f - 1) = 0"
    "(limb0 ?f + limb1 ?f + limb2 ?f + limb3 ?f) * (limb0 ?f + limb1 ?f + limb2 ?f + limb3 ?f - 1) = 0"
    "1 - lt_is_comp_eq r = limb0 ?f + limb1 ?f + limb2 ?f + limb3 ?f"
    using acc [unfolded lt_eval_def t] real by (simp_all add: Let_def air del: lt_scan.simps split: prod.splits)
  ultimately show ?thesis unfolding w limb_word_from by (intro lt_scan_compare)
qed

lemma lt_result:
  fixes r :: "'f lt_cols"
  assumes "accepts (alu_lookups D) (lt_eval r)" "lt_is_slt r + lt_is_sltu r = 1"
  shows "lt_is_sign_eq r = 0 \<or> lt_is_sign_eq r = 1" "lt_is_sign_eq r = 1 \<Longrightarrow> lt_bit_b r = lt_bit_c r"
    "lt_is_sign_eq r = 0 \<Longrightarrow> lt_bit_b r + lt_bit_c r = 1"
    "1 - lt_op_a_not_0 r = 0 \<Longrightarrow> lt_a r = lt_bit_b r * (1 - lt_bit_c r) + lt_is_sign_eq r * lt_sltu r"
proof -
  have "lt_is_sign_eq r * (lt_is_sign_eq r - 1) = 0" "lt_is_sign_eq r * (lt_bit_b r - lt_bit_c r) = 0"
    "(lt_is_sign_eq r - 1) * (lt_bit_b r + lt_bit_c r - 1) = 0"
    "lt_op_a_not_0 r * (lt_a r - (lt_bit_b r * (1 - lt_bit_c r) + lt_is_sign_eq r * lt_sltu r)) = 0"
    using assms unfolding lt_eval_def Let_def when_not_def
    by (simp_all only: air append.simps case_prod_beta simp_thms mult_1_left)
  then show "lt_is_sign_eq r = 0 \<or> lt_is_sign_eq r = 1" "lt_is_sign_eq r = 1 \<Longrightarrow> lt_bit_b r = lt_bit_c r"
    "lt_is_sign_eq r = 0 \<Longrightarrow> lt_bit_b r + lt_bit_c r = 1"
    "1 - lt_op_a_not_0 r = 0 \<Longrightarrow> lt_a r = lt_bit_b r * (1 - lt_bit_c r) + lt_is_sign_eq r * lt_sltu r"
    by auto
qed

lemma extend_from_bool: "extend_expr (from_bool p) = word_from (if p then 1 else 0)"
  by (simp add: extend_expr_def word4_eq) (simp add: le_bytes_def)

lemma lt_sound_slt:
  fixes r :: "'f lt_cols"
  assumes acc: "accepts (alu_lookups D) (lt_eval r)" and sel: "lt_is_slt r = 1" "lt_is_sltu r = 0" and "1 - lt_op_a_not_0 r = 0"
    and w: "lt_b r = word_from x" "lt_c r = word_from y"
  shows "extend_expr (lt_a r) = word_from (if slt_i32 x y then 1 else 0)"
proof -
  have real: "lt_is_slt r + lt_is_sltu r = 1" using sel by simp
  note m = lt_masks [OF acc real w] and f = lt_result [OF acc real]
  have s: "lt_sltu r = from_bool (bytes_u32 (Word4 (limb0 (le_bytes x)) (limb1 (le_bytes x)) (limb2 (le_bytes x)) (limb3 (le_bytes x) AND 0x7f))
    < bytes_u32 (Word4 (limb0 (le_bytes y)) (limb1 (le_bytes y)) (limb2 (le_bytes y)) (limb3 (le_bytes y) AND 0x7f)))"
    by (rule lt_compare [OF acc real w]) (simp_all add: sel m)
  let ?p = "unat (limb3 (le_bytes x)) div 128" and ?q = "unat (limb3 (le_bytes y)) div 128"
  have bits: "lt_bit_b r = of_nat ?p" "lt_bit_c r = of_nat ?q" using m(3,4) sel(1) by simp_all
  note c = slt_by_sign(1) [of x y] slt_by_sign(2) [of x] slt_by_sign(3) [of y]
  consider "?p = 0" "?q = 0" | "?p = 0" "?q = 1" | "?p = 1" "?q = 0" | "?p = 1" "?q = 1" using c(2,3) by linarith
  then have "lt_a r = from_bool (slt_i32 x y)"
    using f(4) [OF assms(4)] f(1-3) unfolding bits c(1) s by cases (auto simp del: bytes_u32.simps)
  then show ?thesis by (simp add: extend_from_bool)
qed

lemma lt_sound_sltu:
  fixes r :: "'f lt_cols"
  assumes acc: "accepts (alu_lookups D) (lt_eval r)" and sel: "lt_is_slt r = 0" "lt_is_sltu r = 1" and "1 - lt_op_a_not_0 r = 0"
    and w: "lt_b r = word_from x" "lt_c r = word_from y"
  shows "extend_expr (lt_a r) = word_from (if x < y then 1 else 0)"
proof -
  have real: "lt_is_slt r + lt_is_sltu r = 1" using sel by simp
  note m = lt_masks [OF acc real w] and f = lt_result [OF acc real]
  have "lt_sltu r = from_bool (bytes_u32 (Word4 (limb0 (le_bytes x)) (limb1 (le_bytes x)) (limb2 (le_bytes x)) (limb3 (le_bytes x)))
    < bytes_u32 (Word4 (limb0 (le_bytes y)) (limb1 (le_bytes y)) (limb2 (le_bytes y)) (limb3 (le_bytes y))))"
    by (rule lt_compare [OF acc real w]) (simp_all add: sel w)
  then have "lt_sltu r = from_bool (x < y)" by (simp del: bytes_u32.simps)
  then have "lt_a r = from_bool (x < y)" using f(4) [OF assms(4)] f(1-3) unfolding m(3,4) sel by auto
  then show ?thesis by (simp add: extend_from_bool)
qed

lemma lt_sound:
  fixes r :: "'f lt_cols"
  assumes acc: "accepts (alu_lookups D) (lt_eval r)" and recv: "(vs, m) \<in> set (receives Instruction_kind (lt_eval r))"
  shows "\<exists>opc\<in>{SLT, SLTU}. alu_answer opc vs"
proof -
  consider "lt_is_slt r = 1" "lt_is_sltu r = 0" | "lt_is_slt r = 0" "lt_is_sltu r = 1"
    using lt_selectors [OF acc] recv unfolding lt_receives by (auto split: if_splits)
  then show ?thesis
  proof cases
    case 1
    then have "vs = instruction_values (alu_msg (lt_pc r) (opcode_field SLT) (extend_expr (lt_a r)) (lt_b r) (lt_c r) (1 - lt_op_a_not_0 r))"
      using recv unfolding lt_receives by simp
    then show ?thesis using lt_sound_slt [OF acc 1] by (auto intro!: bexI [of _ SLT] alu_answerI)
  next
    case 2
    then have "vs = instruction_values (alu_msg (lt_pc r) (opcode_field SLTU) (extend_expr (lt_a r)) (lt_b r) (lt_c r) (1 - lt_op_a_not_0 r))"
      using recv unfolding lt_receives by simp
    then show ?thesis using lt_sound_sltu [OF acc 2] by (auto intro!: bexI [of _ SLTU] alu_answerI)
  qed
qed

lemma lookup_ltu [simp]:
  "lookup_values \<lparr>bl_opcode = opc, bl_a1 = (if p then 1 else 0), bl_a2 = y, bl_b = b, bl_c = c\<rparr>
     = [byte_opcode_field opc, from_bool p :: 'f, from_canonical_u8 y, from_canonical_u8 b, from_canonical_u8 c]"
  by (simp add: lookup_values_def)

end

lemma msb_bit: "unat (drop_bit 7 x AND 1 :: u8) = unat x div 128" "drop_bit 7 x = drop_bit 7 (y::u8) \<longleftrightarrow> unat x div 128 = unat y div 128"
proof -
  have d: "unat (drop_bit 7 x) = unat x div 128" for x :: u8 by (simp add: unat_drop_bit_eq drop_bit_eq_div [where 'a = nat])
  have "unat (drop_bit 7 x) < 2" unfolding d using unat_u8_less [of x] by linarith
  then have "unat (drop_bit 7 x AND 1) = unat (drop_bit 7 x)"
    by (simp add: and_one_eq unat_mod)
  then show "unat (drop_bit 7 x AND 1 :: u8) = unat x div 128" by (simp only: d)
  show "drop_bit 7 x = drop_bit 7 (y::u8) \<longleftrightarrow> unat x div 128 = unat y div 128" by (simp only: word_unat_eq_iff d)
qed

text \<open>What the loop of \<open>event_to_row\<close> finds.\<close>

lemma first_difference_less:
  fixes x0 x1 x2 x3 y0 y1 y2 y3 :: u8
  defines "d \<equiv> fst (first_difference (zip (rev [x0, x1, x2, x3]) (rev [y0, y1, y2, y3])))"
  shows "(case d of None \<Rightarrow> array_less [x0, x1, x2, x3] [y0, y1, y2, y3] | Some (x, y) \<Rightarrow> x < y)
    \<longleftrightarrow> bytes_u32 (Word4 x0 x1 x2 x3) < bytes_u32 (Word4 y0 y1 y2 y3)"
  unfolding bytes_u32_less_iff d_def by auto

context prime_field32
begin

text \<open>The assertions about the bytes hold for the columns that the loop fills.\<close>

lemma lt_scan_complete:
  fixes x0 x1 x2 x3 y0 y1 y2 y3 :: u8
  assumes fd: "first_difference (zip (rev [x0, x1, x2, x3]) (rev [y0, y1, y2, y3])) = (d, fs)"
  defines "f \<equiv> word4_of_list (rev (map from_bool fs)) :: 'f word4"
    and "e \<equiv> from_bool ([x0, x1, x2, x3] = [y0, y1, y2, y3]) :: 'f"
    and "cmp \<equiv> (case d of None \<Rightarrow> (0, 0) | Some d \<Rightarrow> d)"
  defines "scan \<equiv> lt_scan e [(from_canonical_u8 x3, from_canonical_u8 y3, limb3 f), (from_canonical_u8 x2, from_canonical_u8 y2, limb2 f),
    (from_canonical_u8 x1, from_canonical_u8 y1, limb1 f), (from_canonical_u8 x0, from_canonical_u8 y0, limb0 f)] 0 0 0"
  shows "accepts L (fst scan)" "snd scan = (from_canonical_u8 (fst cmp), from_canonical_u8 (snd cmp))"
    "limb0 f * (limb0 f - 1) = 0" "limb1 f * (limb1 f - 1) = 0" "limb2 f * (limb2 f - 1) = 0" "limb3 f * (limb3 f - 1) = 0"
    "1 - e = limb0 f + limb1 f + limb2 f + limb3 f"
    "(e - 1) * ((case d of None \<Rightarrow> 0 | Some (x, y) \<Rightarrow> inverse (from_canonical_u8 x - from_canonical_u8 y))
      * (from_canonical_u8 (fst cmp) - from_canonical_u8 (snd cmp)) - 1) = (0::'f)"
proof -
  consider "x3 \<noteq> y3" | "x3 = y3" "x2 \<noteq> y2" | "x3 = y3" "x2 = y2" "x1 \<noteq> y1" | "x3 = y3" "x2 = y2" "x1 = y1" "x0 \<noteq> y0"
    | "x3 = y3" "x2 = y2" "x1 = y1" "x0 = y0" by blast
  then have "accepts L (fst scan) \<and> snd scan = (from_canonical_u8 (fst cmp), from_canonical_u8 (snd cmp))
    \<and> limb0 f * (limb0 f - 1) = 0 \<and> limb1 f * (limb1 f - 1) = 0 \<and> limb2 f * (limb2 f - 1) = 0 \<and> limb3 f * (limb3 f - 1) = 0
    \<and> 1 - e = limb0 f + limb1 f + limb2 f + limb3 f
    \<and> (e - 1) * ((case d of None \<Rightarrow> 0 | Some (x, y) \<Rightarrow> inverse (from_canonical_u8 x - from_canonical_u8 y))
      * (from_canonical_u8 (fst cmp) - from_canonical_u8 (snd cmp)) - 1) = (0::'f)"
    by cases (use fd in \<open>auto simp: scan_def f_def e_def cmp_def word4_of_list_def air when_not_def\<close>)
  then show "accepts L (fst scan)" "snd scan = (from_canonical_u8 (fst cmp), from_canonical_u8 (snd cmp))"
    "limb0 f * (limb0 f - 1) = 0" "limb1 f * (limb1 f - 1) = 0" "limb2 f * (limb2 f - 1) = 0" "limb3 f * (limb3 f - 1) = 0"
    "1 - e = limb0 f + limb1 f + limb2 f + limb3 f"
    "(e - 1) * ((case d of None \<Rightarrow> 0 | Some (x, y) \<Rightarrow> inverse (from_canonical_u8 x - from_canonical_u8 y))
      * (from_canonical_u8 (fst cmp) - from_canonical_u8 (snd cmp)) - 1) = (0::'f)"
    by blast+
qed

lemma lt_answer:
  fixes x y :: u32
  defines "p \<equiv> unat (limb3 (le_bytes x)) div 128" and "q \<equiv> unat (limb3 (le_bytes y)) div 128"
  shows "(from_bool (slt_i32 x y) :: 'f) = of_nat p * (1 - of_nat q) + from_bool (p = q) * from_bool (
    bytes_u32 (Word4 (limb0 (le_bytes x)) (limb1 (le_bytes x)) (limb2 (le_bytes x)) (limb3 (le_bytes x) AND 0x7f))
    < bytes_u32 (Word4 (limb0 (le_bytes y)) (limb1 (le_bytes y)) (limb2 (le_bytes y)) (limb3 (le_bytes y) AND 0x7f)))"
proof -
  have "p \<le> 1" "q \<le> 1" unfolding p_def q_def by (rule slt_by_sign)+
  then consider "p = 0" "q = 0" | "p = 0" "q = 1" | "p = 1" "q = 0" | "p = 1" "q = 1" by linarith
  then show ?thesis unfolding slt_by_sign(1) p_def [symmetric] q_def [symmetric] by cases (simp_all del: bytes_u32.simps)
qed

lemma lt_complete:
  assumes ok: "alu_ok e" "x0_ok e" "alu_opcode e \<in> {SLT, SLTU}"
  shows "\<exists>r ls. lt_row e = Inr (r :: 'f lt_cols, ls) \<and> accepts (alu_lookups D) (lt_eval r)
    \<and> mset (sends Byte_kind (lt_eval r)) = mset (requests ls)
    \<and> receives Instruction_kind (lt_eval r) = [(instruction_values (event_msg e), 1)]"
proof -
  obtain x0 x1 x2 x3 y0 y1 y2 y3 where w: "le_bytes (alu_b e) = Word4 x0 x1 x2 x3" "le_bytes (alu_c e) = Word4 y0 y1 y2 y3"
    by (metis word4.exhaust)
  define R where "R = (if alu_opcode e = SLT then slt_i32 (alu_b e) (alu_c e) else alu_b e < alu_c e)"
  have a: "alu_a e = (if R then 1 else 0)" using ok by (cases "alu_op_a_0 e") (auto simp: alu_ok_def x0_ok_def R_def split: if_splits)
  define u where "u = (if alu_opcode e = SLT then x3 AND 0x7f else x3)"
  define v where "v = (if alu_opcode e = SLT then y3 AND 0x7f else y3)"
  obtain d fs where fd: "first_difference (zip (rev [x0, x1, x2, u]) (rev [y0, y1, y2, v])) = (d, fs)" by fastforce
  define cmp where "cmp = (case d of None \<Rightarrow> (0, 0) | Some d \<Rightarrow> d)"
  define lt where "lt = (bytes_u32 (Word4 x0 x1 x2 u) < bytes_u32 (Word4 y0 y1 y2 v))"
  note sc = lt_scan_complete [OF fd, folded cmp_def] and less = first_difference_less [of x0 x1 x2 u y0 y1 y2 v, unfolded fd fst_conv, folded lt_def]
  define p q where pq: "p = unat x3 div 128" "q = unat y3 div 128"
  define se :: 'f where "se = (if alu_opcode e = SLT then from_bool (p = q) else 1)"
  define sl :: 'f where "sl = from_bool (alu_opcode e = SLT)"
  have bits: "from_canonical_u8 (drop_bit 7 x3 AND 1) = (of_nat p :: 'f)" "from_canonical_u8 (drop_bit 7 y3 AND 1) = (of_nat q :: 'f)"
    "drop_bit 7 x3 = drop_bit 7 y3 \<longleftrightarrow> p = q" unfolding from_canonical_u8_def msb_bit pq by (rule refl)+
  have R: "from_bool R = of_nat p * sl * (1 - of_nat q * sl) + se * (from_bool lt :: 'f)"
  proof (cases "alu_opcode e = SLT")
    case True
    then show ?thesis using lt_answer [of "alu_b e" "alu_c e"] by (simp add: R_def sl_def se_def lt_def u_def v_def w pq del: bytes_u32.simps)
  next
    case False
    have "alu_b e < alu_c e \<longleftrightarrow> lt"
      using False w bytes_le_bytes [of "alu_b e"] bytes_le_bytes [of "alu_c e"] by (simp add: lt_def u_def v_def del: bytes_u32.simps bytes_le_bytes)
    then show ?thesis using False by (simp add: R_def sl_def se_def)
  qed
  have a0: "from_canonical_u8 (limb0 (le_bytes (alu_a e))) = (from_bool R :: 'f)" by (simp add: a le_bytes_def)
  define r :: "'f lt_cols" where "r = \<lparr>lt_pc = from_canonical_u32 (alu_pc e), lt_is_slt = sl,
    lt_is_sltu = from_bool (alu_opcode e = SLTU), lt_a = from_bool R,
    lt_b = word_from (alu_b e), lt_c = word_from (alu_c e), lt_op_a_not_0 = from_bool (\<not> alu_op_a_0 e),
    lt_byte_flags = word4_of_list (rev (map from_bool fs)),
    lt_b_masked = from_canonical_u8 (x3 AND 0x7f), lt_c_masked = from_canonical_u8 (y3 AND 0x7f),
    lt_not_eq_inv = (case d of None \<Rightarrow> 0 | Some (x, y) \<Rightarrow> inverse (from_canonical_u8 x - from_canonical_u8 y)),
    lt_msb_b = of_nat p, lt_msb_c = of_nat q, lt_bit_b = of_nat p * sl, lt_bit_c = of_nat q * sl,
    lt_sltu = from_bool lt, lt_is_comp_eq = from_bool ([x0, x1, x2, u] = [y0, y1, y2, v]), lt_is_sign_eq = se,
    lt_comparison_byte_0 = from_canonical_u8 (fst cmp), lt_comparison_byte_1 = from_canonical_u8 (snd cmp),
    lt_byte_equality_check = word_zero\<rparr>"
  define ls where "ls = [\<lparr>bl_opcode = B_AND, bl_a1 = ucast (x3 AND 0x7f), bl_a2 = 0, bl_b = x3, bl_c = 0x7f\<rparr>,
    \<lparr>bl_opcode = B_AND, bl_a1 = ucast (y3 AND 0x7f), bl_a2 = 0, bl_b = y3, bl_c = 0x7f\<rparr>,
    \<lparr>bl_opcode = LTU, bl_a1 = (if lt then 1 else 0), bl_a2 = 0, bl_b = fst cmp, bl_c = snd cmp\<rparr>]"
  have comp: "(if alu_opcode e = SLT then [x0, x1, x2, x3][3 := x3 AND 0x7f] else [x0, x1, x2, x3]) = [x0, x1, x2, u]"
    "(if alu_opcode e = SLT then [y0, y1, y2, y3][3 := y3 AND 0x7f] else [y0, y1, y2, y3]) = [y0, y1, y2, v]"
    by (simp_all add: u_def v_def)
  have nth: "to_le_bytes (alu_b e) = [x0, x1, x2, x3]" "to_le_bytes (alu_c e) = [y0, y1, y2, y3]" "[x0, x1, x2, x3] ! 3 = x3" "[y0, y1, y2, y3] ! 3 = y3"
    by (simp_all add: to_le_bytes_limbs w)
  have nth0: "to_le_bytes (alu_a e) ! 0 = limb0 (le_bytes (alu_a e))" by (simp add: to_le_bytes_limbs limbs_eq)
  have row: "lt_row e = Inr (r, ls)"
    unfolding lt_row_def nth Let_def comp fd case_prod_conv less bits nth0 a0
    unfolding sl_def [symmetric] cmp_def [symmetric] se_def [symmetric]
    by (simp add: R r_def ls_def)
  define f :: "'f word4" where "f = word4_of_list (rev (map from_bool fs))"
  define eq :: 'f where "eq = from_bool ([x0, x1, x2, u] = [y0, y1, y2, v])"
  note sc = sc [folded f_def eq_def]
  have top: "from_canonical_u8 x3 * from_bool (alu_opcode e = SLTU) + from_canonical_u8 (x3 AND 0x7f) * sl = (from_canonical_u8 u :: 'f)"
    "from_canonical_u8 y3 * from_bool (alu_opcode e = SLTU) + from_canonical_u8 (y3 AND 0x7f) * sl = (from_canonical_u8 v :: 'f)"
    and real: "sl + from_bool (alu_opcode e = SLTU) = 1" and sl: "sl = 0 \<or> sl = 1"
    using ok(3) by (auto simp: u_def v_def sl_def)
  have se: "se = 0 \<or> se = 1" "se = 1 \<longrightarrow> of_nat p * sl = (of_nat q * sl :: 'f)" "se = 0 \<longrightarrow> of_nat p * sl + of_nat q * sl = (1::'f)"
  proof -
    have "p \<le> 1" "q \<le> 1" using unat_u8_less [of x3] unat_u8_less [of y3] unfolding pq by linarith+
    then show "se = 0 \<or> se = 1" "se = 1 \<longrightarrow> of_nat p * sl = (of_nat q * sl :: 'f)" "se = 0 \<longrightarrow> of_nat p * sl + of_nat q * sl = (1::'f)"
      by (auto simp: se_def sl_def from_bool_def le_Suc_eq)
  qed
  have msb: "(from_canonical_u8 x3 - from_canonical_u8 (x3 AND 0x7f)) * inverse 128 = (of_nat p :: 'f)"
    "(from_canonical_u8 y3 - from_canonical_u8 (y3 AND 0x7f)) * inverse 128 = (of_nat q :: 'f)"
    unfolding inverse_128 sign_bit pq by (rule refl)+
  have "d = None \<Longrightarrow> \<not> array_less [x0, x1, x2, u] [y0, y1, y2, v]" using fd by (auto split: if_splits)
  then have eq: "eq = 0 \<or> eq = 1" and cmp: "lt \<longleftrightarrow> fst cmp < snd cmp"
    using less by (auto simp: eq_def from_bool_def cmp_def simp del: array_less.simps split: option.splits)
  have limbs: "limb0 (word_from (alu_b e)) = (from_canonical_u8 x0 :: 'f)" "limb1 (word_from (alu_b e)) = (from_canonical_u8 x1 :: 'f)"
    "limb2 (word_from (alu_b e)) = (from_canonical_u8 x2 :: 'f)" "limb3 (word_from (alu_b e)) = (from_canonical_u8 x3 :: 'f)"
    "limb0 (word_from (alu_c e)) = (from_canonical_u8 y0 :: 'f)" "limb1 (word_from (alu_c e)) = (from_canonical_u8 y1 :: 'f)"
    "limb2 (word_from (alu_c e)) = (from_canonical_u8 y2 :: 'f)" "limb3 (word_from (alu_c e)) = (from_canonical_u8 y3 :: 'f)"
    by (simp_all add: w)
  have rs: "lt_is_slt r = sl" "lt_is_sltu r = from_bool (alu_opcode e = SLTU)" "lt_a r = from_bool R" "lt_b r = word_from (alu_b e)"
    "lt_c r = word_from (alu_c e)" "lt_op_a_not_0 r = from_bool (\<not> alu_op_a_0 e)" "lt_byte_flags r = f" "lt_b_masked r = from_canonical_u8 (x3 AND 0x7f)"
    "lt_c_masked r = from_canonical_u8 (y3 AND 0x7f)" "lt_msb_b r = of_nat p" "lt_msb_c r = of_nat q" "lt_bit_b r = of_nat p * sl"
    "lt_bit_c r = of_nat q * sl" "lt_sltu r = from_bool lt" "lt_is_comp_eq r = eq" "lt_is_sign_eq r = se"
    "lt_comparison_byte_0 r = from_canonical_u8 (fst cmp)" "lt_comparison_byte_1 r = from_canonical_u8 (snd cmp)"
    "lt_not_eq_inv r = (case d of None \<Rightarrow> 0 | Some (x, y) \<Rightarrow> inverse (from_canonical_u8 x - from_canonical_u8 y))"
    by (simp_all add: r_def f_def eq_def)
  note ev = lt_eval_def [of r, unfolded Let_def rs limbs top real msb, unfolded case_prod_beta sc(2) fst_conv snd_conv]
  have sum: "limb0 f + limb1 f + limb2 f + limb3 f = 0 \<or> limb0 f + limb1 f + limb2 f + limb3 f = 1"
    using eq by (auto simp flip: sc(7))
  have su: "from_bool (alu_opcode e = SLTU) = (0::'f) \<or> from_bool (alu_opcode e = SLTU) = (1::'f)" by (simp add: from_bool_def)
  have acc: "accepts (alu_lookups D) (lt_eval r)"
    unfolding ev
    using sc(1) sc(3-7) sc(8) [unfolded case_prod_beta] se eq sl R cmp sum su
    by (simp add: air alu_lookups_def when_not_def del: lt_scan.simps) blast
  have sn: "sends Byte_kind (lt_eval r) = requests ls"
    unfolding ev by (simp add: air when_not_def ls_def Let_def)
  have rc: "receives Instruction_kind (lt_eval r) = [(instruction_values (event_msg e), 1)]"
    unfolding lt_receives rs real event_msg_def using ok(2,3)
    by (cases "alu_op_a_0 e") (auto simp: a sl_def extend_from_bool r_def)
  show ?thesis using row acc sn rc by auto
qed

end

lemma lt_no_bytes: "receives Byte_kind (lt_eval r) = []"
  by (simp add: lt_eval_def Let_def air when_not_def)

lemma lt_no_requests: "sends Instruction_kind (lt_eval r) = []"
  by (simp add: lt_eval_def Let_def air when_not_def)

lemma lt_idle: "accepts L (lt_eval lt_zero)" "receives k (lt_eval lt_zero) = []"
  by (simp_all add: lt_zero_def lt_eval_def Let_def air word_zero_def when_not_def)

interpretation lt: alu_chip "\<lambda>x. nat (rep_bb x)" "lt_eval :: bb lt_cols \<Rightarrow> _" lt_row lt_zero "{SLT, SLTU}" "{}" "\<lambda>_. []"
  by unfold_locales
    (rule lt_no_bytes lt_idle |
     erule (1) bb.lt_received | erule (1) bb.lt_sent | erule (1) bb.lt_sound | erule (2) bb.lt_complete |
     simp add: lt_no_requests)+

section \<open>Destination register 0\<close>

lemma collect_rows_panic:
  assumes "e \<in> set es" "f e = Inl Panic" "\<And>e err. e \<in> set es \<Longrightarrow> f e = Inl err \<Longrightarrow> err = Panic"
  shows "collect_rows f es = Inl Panic"
  using assms
proof (induction es)
  case (Cons x xs)
  show ?case
  proof (cases "f x")
    case (Inl err)
    then show ?thesis using Cons.prems(3) [of x err] by simp
  next
    case (Inr r)
    then have "e \<in> set xs" using Cons.prems(1,2) by auto
    then have "collect_rows f xs = Inl Panic" by (rule Cons.IH [OF _ Cons.prems(2)]) (use Cons.prems(3) in \<open>meson list.set_intros(2)\<close>)
    then show ?thesis using Inr by simp
  qed
qed simp

text \<open>The row of an event is determined up to the result, and the result is the expected one.\<close>

lemma lt_row_result:
  assumes "lt_row e = Inr (r :: bb lt_cols, ls)" "lt_row (e\<lparr>alu_a := x, alu_op_a_0 := z\<rparr>) = Inr (r' :: bb lt_cols, ls')"
  shows "to_le_bytes x ! 0 = to_le_bytes (alu_a e) ! 0"
proof -
  have *: "(if u \<noteq> v then Inl Panic else Inr y) = Inr z \<Longrightarrow> u = v" for u v :: bb and y z :: "bb lt_cols \<times> byte_lookup_event list"
    by (simp split: if_splits)
  have e: "alu_a (e\<lparr>alu_a := x, alu_op_a_0 := z\<rparr>) = x" "alu_b (e\<lparr>alu_a := x, alu_op_a_0 := z\<rparr>) = alu_b e"
    "alu_c (e\<lparr>alu_a := x, alu_op_a_0 := z\<rparr>) = alu_c e" "alu_opcode (e\<lparr>alu_a := x, alu_op_a_0 := z\<rparr>) = alu_opcode e" by simp_all
  note a = assms [unfolded lt_row_def Let_def case_prod_beta e, THEN *]
  have "from_canonical_u8 (to_le_bytes x ! 0) = (from_canonical_u8 (to_le_bytes (alu_a e) ! 0) :: bb)"
    by (rule trans [OF a(2) a(1) [symmetric]])
  then show ?thesis by (simp only: bb.from_canonical_u8_inject)
qed

lemma lt_row_error: "lt_row e = (Inl err :: (bb lt_cols \<times> _) res) \<Longrightarrow> err = Panic"
  by (simp add: lt_row_def Let_def case_prod_beta split: if_splits)

lemma lt_row_panics:
  assumes "alu_ok e" "alu_op_a_0 e" "alu_opcode e \<in> {SLT, SLTU}" "alu_value (alu_opcode e) (alu_b e) (alu_c e) = Inr 1"
  shows "lt_row e = (Inl Panic :: (bb lt_cols \<times> _) res)"
proof (rule ccontr)
  assume "lt_row e \<noteq> (Inl Panic :: (bb lt_cols \<times> _) res)"
  then obtain r ls where r: "lt_row e = Inr (r :: bb lt_cols, ls)" using lt_row_error by (cases "lt_row e :: (bb lt_cols \<times> _) res") auto
  have "alu_ok (e\<lparr>alu_a := 1, alu_op_a_0 := False\<rparr>)" using assms(4) by (simp add: alu_ok_def)
  then obtain r' ls' where "lt_row (e\<lparr>alu_a := 1, alu_op_a_0 := False\<rparr>) = Inr (r' :: bb lt_cols, ls')"
    using lt.complete [of "e\<lparr>alu_a := 1, alu_op_a_0 := False\<rparr>"] assms(3) by (auto simp: x0_ok_def)
  from lt_row_result [OF r this] assms(1,2,4) show False by (simp add: alu_ok_def to_le_bytes_limbs limbs_eq le_bytes_def)
qed

text \<open>
  (C36) A comparison with destination register 0 that is true: the executor records it with the result 0,
  and \<open>event_to_row\<close> asserts that the result is the one of the comparison; so neither the trace nor
  the lookups of a shard with such an event are generated, but the prover panics.
\<close>

theorem lt_x0_panics:
  assumes "e \<in> set (lt_events r)" "alu_ok e" "alu_op_a_0 e" "alu_opcode e \<in> {SLT, SLTU}"
    and "alu_value (alu_opcode e) (alu_b e) (alu_c e) = Inr 1"
  shows "lt_generate_trace size_log2 r = (Inl Panic :: bb lt_cols list res) \<and> lt_generate_dependencies num_cpus r output = Inl Panic"
proof -
  let ?f = "lt_row :: alu_event \<Rightarrow> (bb lt_cols \<times> _) res" and ?n = "max (length (lt_events r) div num_cpus) 1"
  note p = lt_row_panics [OF assms(2-5)]
  have "collect_rows ?f (lt_events r) = Inl Panic"
    by (rule collect_rows_panic [where f = ?f, OF assms(1) p]) (rule lt_row_error)
  moreover have "collect_rows (batch_lookups ?f) (chunks ?n (lt_events r)) = Inl Panic"
  proof -
    obtain b where b: "b \<in> set (chunks ?n (lt_events r))" "e \<in> set b"
      using assms(1) concat_chunks [of ?n "lt_events r"] by (metis UN_E set_concat)
    have err: "batch_lookups ?f b = Inl Panic \<or> (\<exists>ls. batch_lookups ?f b = Inr ls)" for b
    proof (cases "collect_rows ?f b")
      case (Inl x)
      have "collect_rows ?f b = Inl x \<Longrightarrow> x = Panic" for x
      proof (induction b)
        case (Cons a b)
        then show ?case using lt_row_error [of a] by (cases "?f a"; cases "collect_rows ?f b") auto
      qed simp
      then show ?thesis using Inl by (simp add: batch_lookups_def)
    qed (simp add: batch_lookups_def)
    have "batch_lookups ?f b = Inl Panic" using collect_rows_panic [where f = ?f, OF b(2) p lt_row_error] by (simp add: batch_lookups_def)
    then show ?thesis by (rule collect_rows_panic [where f = "batch_lookups ?f", OF b(1)]) (use err in \<open>metis Inl_inject Inl_Inr_False\<close>)
  qed
  ultimately show ?thesis
    by (simp add: lt_generate_trace_def generate_trace_def lt_generate_dependencies_def generate_dependencies_def batch_dependencies_def Let_def)
qed

text \<open>A comparison of 1 and 2, as the executor records it.\<close>

definition demo_lt_x0 :: alu_event where
  "demo_lt_x0 = \<lparr>alu_pc = 0, alu_opcode = SLTU, alu_a = 0, alu_b = 1, alu_c = 2, alu_op_a_0 = True\<rparr>"

theorem lt_x0_panics_witness:
  "alu_ok demo_lt_x0 \<and> lt_generate_trace None ((record_new program_default)\<lparr>lt_events := [demo_lt_x0]\<rparr>) = (Inl Panic :: bb lt_cols list res)
    \<and> lt_generate_dependencies 4 ((record_new program_default)\<lparr>lt_events := [demo_lt_x0]\<rparr>) Map.empty = Inl Panic"
  using lt_x0_panics [of demo_lt_x0 "(record_new program_default)\<lparr>lt_events := [demo_lt_x0]\<rparr>" None 4 Map.empty]
  by (simp add: demo_lt_x0_def alu_ok_def)

end
