(* ===== verification/SP1_Chip_Sll.thy ===== *)
theory SP1_Chip_Sll
  imports SP1_Lookup
begin

text \<open>
  The table of SLL, \<open>crates/core/machine/src/alu/sll/mod.rs\<close>: the shift is split into a shift by
  less than a byte, done by a multiplication with carries, and a shift by whole bytes.  An array
  \<open>[T; N]\<close> is a function from its indices.
\<close>

type_synonym 'a arr = "nat \<Rightarrow> 'a"

definition word_at :: "'a word4 \<Rightarrow> 'a arr" where
  "word_at w i = limbs w ! i"

definition arr_list :: "nat \<Rightarrow> 'a arr \<Rightarrow> 'a list" where
  "arr_list n f = map f [0..<n]"

section \<open>The chip\<close>

record 'f shift_left_cols =
  sl_pc :: 'f
  sl_a :: "'f word4"
  sl_b :: "'f word4"
  sl_c :: "'f word4"
  sl_op_a_not_0 :: 'f
  sl_c_least_sig_byte :: "'f arr"
  sl_shift_by_n_bits :: "'f arr"
  sl_bit_shift_multiplier :: 'f
  sl_bit_shift_result :: "'f arr"
  sl_bit_shift_result_carry :: "'f arr"
  sl_shift_by_n_bytes :: "'f arr"
  sl_is_real :: 'f

text \<open>The template of the padding rows.\<close>

definition shift_left_padding :: "'f::field shift_left_cols" where
  "shift_left_padding = \<lparr>sl_pc = 0, sl_a = word_zero, sl_b = word_zero, sl_c = word_zero, sl_op_a_not_0 = 0,
     sl_c_least_sig_byte = (\<lambda>_. 0), sl_shift_by_n_bits = (\<lambda>i. if i = 0 then 1 else 0), sl_bit_shift_multiplier = 1,
     sl_bit_shift_result = (\<lambda>_. 0), sl_bit_shift_result_carry = (\<lambda>_. 0),
     sl_shift_by_n_bytes = (\<lambda>i. if i = 0 then 1 else 0), sl_is_real = 0\<rparr>"

text \<open>The value \<open>v\<close> of the loop that multiplies with carries.\<close>

primrec shift_left_v :: "u8 word4 \<Rightarrow> nat \<Rightarrow> nat \<Rightarrow> nat" where
  "shift_left_v b m 0 = unat (word_at b 0) * m"
| "shift_left_v b m (Suc i) = unat (word_at b (Suc i)) * m + shift_left_v b m i div 256"

definition shift_left_row :: "alu_event \<Rightarrow> ('f::field shift_left_cols \<times> byte_lookup_event list) res" where
  "shift_left_row event =
     (let b = le_bytes (alu_b event);
          num_bits_to_shift = unat (alu_c event) mod 8;
          bit_shift_multiplier = 2 ^ num_bits_to_shift;
          bit_shift_result = (\<lambda>i. of_nat (shift_left_v b bit_shift_multiplier i mod 256)) :: u8 arr;
          bit_shift_result_carry = (\<lambda>i. of_nat (shift_left_v b bit_shift_multiplier i div 256)) :: u8 arr;
          num_bytes_to_shift = unat (alu_c event AND 31) div 8
      in Inr (\<lparr>sl_pc = from_canonical_u32 (alu_pc event), sl_a = word_from (alu_a event), sl_b = word_from (alu_b event),
           sl_c = word_from (alu_c event), sl_op_a_not_0 = from_bool (\<not> alu_op_a_0 event),
           sl_c_least_sig_byte = (\<lambda>i. from_canonical_u32 (drop_bit i (alu_c event) AND 1)),
           sl_shift_by_n_bits = (\<lambda>i. from_bool (num_bits_to_shift = i)), sl_bit_shift_multiplier = of_nat bit_shift_multiplier,
           sl_bit_shift_result = (\<lambda>i. from_canonical_u8 (bit_shift_result i)),
           sl_bit_shift_result_carry = (\<lambda>i. from_canonical_u8 (bit_shift_result_carry i)),
           sl_shift_by_n_bytes = (\<lambda>i. from_bool (num_bytes_to_shift = i)), sl_is_real = 1\<rparr>,
         u8_range_checks (arr_list 4 bit_shift_result) @ u8_range_checks (arr_list 4 bit_shift_result_carry)))"

definition shift_left_eval :: "'f::field shift_left_cols \<Rightarrow> 'f action list" where
  "shift_left_eval local =
     (let c_byte_sum = sum_list (map (\<lambda>i. 2 ^ i * sl_c_least_sig_byte local i) [0..<8]);
          num_bits_to_shift = sum_list (map (\<lambda>i. sl_c_least_sig_byte local i * 2 ^ i) [0..<3]);
          num_bytes_to_shift = sl_c_least_sig_byte local 3 + sl_c_least_sig_byte local 4 * 2
      in assert_eq c_byte_sum (limb0 (sl_c local)) @
         concat (map (\<lambda>i. air_when (sl_shift_by_n_bits local i) (assert_eq num_bits_to_shift (of_nat i))) [0..<8]) @
         concat (map (\<lambda>i. air_when (sl_shift_by_n_bits local i) (assert_eq (sl_bit_shift_multiplier local) (of_nat (2 ^ i)))) [0..<8]) @
         concat (map (\<lambda>i. assert_eq (sl_bit_shift_result local i)
           (word_at (sl_b local) i * sl_bit_shift_multiplier local - sl_bit_shift_result_carry local i * 256
              + (if i > 0 then sl_bit_shift_result_carry local (i - 1) else 0))) [0..<4]) @
         concat (map (\<lambda>i. air_when (sl_shift_by_n_bytes local i) (assert_eq num_bytes_to_shift (of_nat i))) [0..<4]) @
         concat (map (\<lambda>n. concat (map (\<lambda>i. air_when (sl_shift_by_n_bytes local n) (air_when (sl_op_a_not_0 local)
           (assert_eq (word_at (sl_a local) i) (if i < n then 0 else sl_bit_shift_result local (i - n))))) [0..<4])) [0..<4]) @
         concat (map (\<lambda>i. assert_bool (sl_c_least_sig_byte local i)) [0..<8]) @
         concat (map (\<lambda>i. assert_bool (sl_shift_by_n_bits local i)) [0..<8]) @
         assert_eq (sum_list (arr_list 8 (sl_shift_by_n_bits local))) 1 @
         slice_range_check_u8 (arr_list 4 (sl_bit_shift_result local)) (sl_is_real local) @
         slice_range_check_u8 (arr_list 4 (sl_bit_shift_result_carry local)) (sl_is_real local) @
         concat (map (\<lambda>i. assert_bool (sl_shift_by_n_bytes local i)) [0..<4]) @
         assert_eq (sum_list (arr_list 4 (sl_shift_by_n_bytes local))) 1 @
         assert_bool (sl_is_real local) @
         receive_instruction (alu_msg (sl_pc local) (opcode_field SLL) (sl_a local) (sl_b local) (sl_c local)
           (1 - sl_op_a_not_0 local)) (sl_is_real local) @
         air_when (sl_op_a_not_0 local) (assert_one (sl_is_real local)))"

definition shift_left_generate_trace :: "nat option \<Rightarrow> execution_record \<Rightarrow> 'f::field shift_left_cols list res" where
  "shift_left_generate_trace size_log2 input =
     generate_trace shift_left_row shift_left_padding size_log2 (shift_left_events input)"

definition shift_left_generate_dependencies :: "nat \<Rightarrow> execution_record \<Rightarrow> byte_lookups \<Rightarrow> byte_lookups res" where
  "shift_left_generate_dependencies num_cpus input output =
     generate_dependencies num_cpus (shift_left_row :: _ \<Rightarrow> (bb shift_left_cols \<times> _) res) (shift_left_events input) output"

definition shift_left_included :: "bool option \<Rightarrow> execution_record \<Rightarrow> bool" where
  "shift_left_included in_shape shard = included in_shape (shift_left_events shard)"

section \<open>Loops of actions\<close>

lemma concat_empty [simp]: "concat (map (\<lambda>x. []) xs) = []"
  by (induction xs) simp_all

lemma asserts_loop [simp]:
  "accepts L (map (\<lambda>i. Assert_zero (g i)) xs) \<longleftrightarrow> (\<forall>x\<in>set xs. g x = 0)"
  "sends k (map (\<lambda>i. Assert_zero (g i)) xs) = []" "receives k (map (\<lambda>i. Assert_zero (g i)) xs) = []"
  by (induction xs) simp_all

lemma range_receives [simp]: "receives k (slice_range_check_u8 xs m) = []"
  by (induction xs m rule: slice_range_check_u8.induct) (simp_all add: air)

section \<open>Bits and flags\<close>

lemma upt_small:
  "[0..<3] = [0, 1, 2]" "[0..<4] = [0, 1, 2, 3]" "[0..<8] = [0, 1, 2, 3, 4, 5, 6, 7]"
  by (simp_all add: upt_rec)

lemma digit: "(a::nat) < k \<Longrightarrow> (a + k * m) mod k = a" "a < k \<Longrightarrow> (a + k * m) div k = m"
  by simp_all

lemma byte_bits:
  fixes n :: "nat \<Rightarrow> nat"
  assumes "\<And>i. i < 8 \<Longrightarrow> n i \<le> 1" "m = sum_list (map (\<lambda>i. 2 ^ i * n i) [0..<8])"
  shows "m mod 8 = n 0 + 2 * n 1 + 4 * n 2" "m div 8 mod 4 = n 3 + 2 * n 4" "m < 256"
proof -
  have m: "m = (n 0 + 2 * n 1 + 4 * n 2) + 8 * ((n 3 + 2 * n 4) + 4 * (n 5 + 2 * n 6 + 4 * n 7))"
    unfolding assms(2) upt_small by simp
  note b = assms(1) [of 0] assms(1) [of 1] assms(1) [of 2] assms(1) [of 3] assms(1) [of 4] assms(1) [of 5] assms(1) [of 6] assms(1) [of 7]
  have "n 0 + 2 * n 1 + 4 * n 2 < 8" "n 3 + 2 * n 4 < 4" using b by simp_all
  then show "m mod 8 = n 0 + 2 * n 1 + 4 * n 2" "m div 8 mod 4 = n 3 + 2 * n 4" unfolding m by (simp_all only: digit)
  show "m < 256" unfolding m using b by simp
qed

context prime_field32
begin

lemma bool_nat: "x * (x - 1) = (0::'f) \<Longrightarrow> \<exists>n\<le>1. x = of_nat n"
  by (auto intro: exI [of _ 0] exI [of _ 1])

text \<open>Boolean flags that add up to one: exactly one is set.\<close>

lemma one_hot:
  fixes f :: "nat \<Rightarrow> 'f"
  assumes "\<And>i. i < N \<Longrightarrow> f i * (f i - 1) = 0" "sum_list (arr_list N f) = 1" "N < ORDER"
  obtains k where "k < N" "f k = 1" "\<And>j. j < N \<Longrightarrow> j \<noteq> k \<Longrightarrow> f j = 0"
proof -
  define n where "n i = (if f i = 0 then 0 else 1 :: nat)" for i
  have f: "f i = of_nat (n i)" if "i < N" for i using assms(1) [OF that] by (auto simp: n_def)
  have "(of_nat (sum n {..<N}) :: 'f) = sum f {..<N}" by (simp add: f)
  also have "\<dots> = of_nat 1" using assms(2) by (simp add: arr_list_def interv_sum_list_conv_sum_set_nat atLeast0LessThan)
  finally have "(of_nat (sum n {..<N}) :: 'f) = of_nat 1" .
  moreover have "sum n {..<N} \<le> sum (\<lambda>_. 1) {..<N}" by (rule sum_mono) (simp add: n_def)
  ultimately have "sum n {..<N} = 1" using assms(3) of_nat_inject [of "sum n {..<N}" 1] by (simp add: ORDER_def)
  then obtain k where k: "k < N" "n k = 1" "\<And>j. j < N \<Longrightarrow> j \<noteq> k \<Longrightarrow> n j = 0"
    using sum_eq_1_iff [of "{..<N}" n] by (metis finite_lessThan lessThan_iff)
  then show ?thesis using f by (intro that [of k]) simp_all
qed

text \<open>The bits of the least significant byte of the shift amount.\<close>

lemma shift_amount:
  fixes f :: "nat \<Rightarrow> 'f"
  assumes bits: "\<And>i. i < 8 \<Longrightarrow> f i * (f i - 1) = 0" and sum: "sum_list (map (\<lambda>i. 2 ^ i * f i) [0..<8]) = from_canonical_u8 y"
  shows "sum_list (map (\<lambda>i. f i * 2 ^ i) [0..<3]) = of_nat (unat y mod 8)" "f 3 + f 4 * 2 = of_nat (unat y div 8 mod 4)"
proof -
  define n where "n i = (if f i = 0 then 0 else 1 :: nat)" for i
  have f: "f i = of_nat (n i)" if "i < 8" for i using bits [OF that] by (auto simp: n_def)
  define m where "m = sum_list (map (\<lambda>i. 2 ^ i * n i) [0..<8])"
  note b = byte_bits [OF _ m_def]
  have n: "n i \<le> 1" for i by (simp add: n_def)
  have "(of_nat m :: 'f) = of_nat (unat y)"
    using sum unfolding from_canonical_u8_def m_def upt_small by (simp add: f)
  then have "m = unat y" using b(3) [OF n] unat_u8_less [of y] of_nat_inject [of m "unat y"] by (simp add: ORDER_def)
  then show "sum_list (map (\<lambda>i. f i * 2 ^ i) [0..<3]) = of_nat (unat y mod 8)" "f 3 + f 4 * 2 = of_nat (unat y div 8 mod 4)"
    using b(1,2) [OF n] unfolding upt_small by (simp_all add: f)
qed

text \<open>The multiplication with carries.\<close>

lemma mult_step:
  assumes "from_canonical_u8 v = from_canonical_u8 b * of_nat m - from_canonical_u8 c' * 256 + (from_canonical_u8 c :: 'f)" "m \<le> 128"
  shows "unat b * m + unat c = unat v + 256 * unat c'"
proof -
  let ?x = "int (unat b) * int m + int (unat c)" and ?y = "int (unat v) + 256 * int (unat c')"
  have "of_int ?x = (of_int ?y :: 'f)" using assms(1) by (simp add: from_canonical_u8_def algebra_simps)
  moreover have "\<bar>?x - ?y\<bar> < P"
  proof -
    have "unat b * m \<le> 255 * 128" using unat_u8_less [of b] assms(2) by (intro mult_mono) auto
    then have "int (unat b) * int m \<le> 255 * 128" by (simp only: of_nat_mult [symmetric])
    moreover have "0 \<le> int (unat b) * int m" by simp
    ultimately show ?thesis using unat_u8_less [of c] unat_u8_less [of v] unat_u8_less [of c'] unfolding P_def by linarith
  qed
  ultimately have "?x = ?y" by (simp only: of_int_inject)
  then have "int (unat b * m + unat c) = int (unat v + 256 * unat c')" by (simp only: of_nat_mult of_nat_add of_nat_numeral)
  then show ?thesis by (simp only: of_nat_eq_iff)
qed

end

lemma two_pow_32: "(4294967296 :: u32) = 0" by code_simp

lemma shift_left_bytes:
  fixes b :: "u8 word4" and v c :: "nat \<Rightarrow> u8"
  assumes "unat (limb0 b) * m = unat (v 0) + 256 * unat (c 0)" "unat (limb1 b) * m + unat (c 0) = unat (v 1) + 256 * unat (c 1)"
    "unat (limb2 b) * m + unat (c 1) = unat (v 2) + 256 * unat (c 2)" "unat (limb3 b) * m + unat (c 2) = unat (v 3) + 256 * unat (c 3)"
    and n: "n < 4" and a: "\<And>i. i < 4 \<Longrightarrow> word_at a i = (if i < n then 0 else v (i - n))" and m: "m = 2 ^ k"
  shows "bytes_u32 a = push_bit (8 * n + k) (bytes_u32 b)"
proof -
  let ?V = "unat (v 0) + 256 * unat (v 1) + 65536 * unat (v 2) + 16777216 * unat (v 3)"
  have "unat (bytes_u32 b) * m = ?V + 4294967296 * unat (c 3)"
    using assms(1-4) by (cases b) (simp add: unat_bytes_u32 distrib_right del: bytes_u32.simps)
  then have "of_nat (unat (bytes_u32 b) * m) = (of_nat (?V + 4294967296 * unat (c 3)) :: u32)" by (simp only:)
  then have V: "of_nat ?V = bytes_u32 b * (2 ^ k :: u32)" by (simp add: m two_pow_32)
  have e: "word_at a 0 = limb0 a" "word_at a 1 = limb1 a" "word_at a 2 = limb2 a" "word_at a 3 = limb3 a"
    by (simp_all add: word_at_def limbs_eq numeral_3_eq_3 numeral_2_eq_2)
  obtain z where "?V * 256 ^ n = unat (bytes_u32 a) + 4294967296 * z"
  proof -
    have "n = 0 \<or> n = 1 \<or> n = 2 \<or> n = 3" using n by linarith
    then show thesis
      using a [of 0] a [of 1] a [of 2] a [of 3] that [of 0] that [of "unat (v 3)"]
        that [of "unat (v 2) + 256 * unat (v 3)"] that [of "unat (v 1) + 256 * unat (v 2) + 65536 * unat (v 3)"]
      unfolding e by (cases a) (auto simp: unat_bytes_u32 simp del: bytes_u32.simps)
  qed
  then have "of_nat (?V * 256 ^ n) = (of_nat (unat (bytes_u32 a) + 4294967296 * z) :: u32)" by (simp only:)
  then have "of_nat ?V * 256 ^ n = bytes_u32 a" by (simp add: two_pow_32)
  then have "bytes_u32 a = bytes_u32 b * 2 ^ k * 256 ^ n" by (simp only: V)
  also have "(256 :: u32) ^ n = 2 ^ (8 * n)" by (simp add: power_mult)
  finally show ?thesis by (simp add: push_bit_eq_mult power_add ac_simps)
qed

lemma shift_split: "8 * (unat (limb0 (le_bytes y)) div 8 mod 4) + unat (limb0 (le_bytes y)) mod 8 = unat y mod 32"
proof -
  have "unat (limb0 (le_bytes y)) mod 32 = unat y mod 32" unfolding le_bytes_def word4.sel unat_le_bytes(1) by (simp add: mod_mod_cancel)
  then show ?thesis using mod_mult2_eq [of "unat (limb0 (le_bytes y))" 8 4] by simp
qed

lemma less_4_cases: "(i::nat) < 4 \<Longrightarrow> i = 0 \<or> i = 1 \<or> i = 2 \<or> i = 3"
  by linarith

lemma word_at_limbs: "word_at a 0 = limb0 a" "word_at a 1 = limb1 a" "word_at a (Suc 0) = limb1 a" "word_at a 2 = limb2 a" "word_at a 3 = limb3 a"
  by (simp_all add: word_at_def limbs_eq numeral_3_eq_3 numeral_2_eq_2)

context prime_field32
begin

lemma shift_left_receives:
  fixes r :: "'f shift_left_cols"
  shows "receives Instruction_kind (shift_left_eval r) = (if sl_is_real r = 0 then [] else
    [(instruction_values (alu_msg (sl_pc r) (opcode_field SLL) (sl_a r) (sl_b r) (sl_c r) (1 - sl_op_a_not_0 r)), sl_is_real r)])"
  by (simp add: shift_left_eval_def Let_def air)

lemma shift_left_sends:
  fixes r :: "'f shift_left_cols"
  shows "sends k (shift_left_eval r) = sends k (slice_range_check_u8 (arr_list 4 (sl_bit_shift_result r)) (sl_is_real r))
    @ sends k (slice_range_check_u8 (arr_list 4 (sl_bit_shift_result_carry r)) (sl_is_real r))"
  by (simp add: shift_left_eval_def Let_def air)

lemma shift_left_real: "accepts L (shift_left_eval (r :: 'f shift_left_cols)) \<Longrightarrow> sl_is_real r = 0 \<or> sl_is_real r = 1"
  by (simp add: shift_left_eval_def Let_def assert_bool_def)

lemma shift_left_received:
  fixes r :: "'f shift_left_cols"
  assumes "asserts (shift_left_eval r)" "(vs, m) \<in> set (receives Instruction_kind (shift_left_eval r))"
  shows "m = 1"
  using shift_left_real [OF assms(1) [unfolded asserts_def]] assms(2) unfolding shift_left_receives by (auto split: if_splits)

lemma shift_left_sent:
  fixes r :: "'f shift_left_cols"
  assumes "asserts (shift_left_eval r)" "(vs, m) \<in> set (sends k (shift_left_eval r))"
  shows "m = 1"
  using shift_left_real [OF assms(1) [unfolded asserts_def]] assms(2) sends_nonzero [OF assms(2)]
  unfolding shift_left_sends by (auto dest: range_sends)

lemma shift_left_facts:
  fixes r :: "'f shift_left_cols"
  assumes "accepts L (shift_left_eval r)"
  shows "sum_list (map (\<lambda>i. 2 ^ i * sl_c_least_sig_byte r i) [0..<8]) = limb0 (sl_c r)"
    "\<forall>i<8. sl_c_least_sig_byte r i * (sl_c_least_sig_byte r i - 1) = 0"
    "\<forall>i<8. sl_shift_by_n_bits r i * (sl_shift_by_n_bits r i - 1) = 0" "sum_list (arr_list 8 (sl_shift_by_n_bits r)) = 1"
    "\<forall>i<8. sl_shift_by_n_bits r i * (sum_list (map (\<lambda>i. sl_c_least_sig_byte r i * 2 ^ i) [0..<3]) - of_nat i) = 0"
    "\<forall>i<8. sl_shift_by_n_bits r i * (sl_bit_shift_multiplier r - of_nat (2 ^ i)) = 0"
    "\<forall>i<4. sl_shift_by_n_bytes r i * (sl_shift_by_n_bytes r i - 1) = 0" "sum_list (arr_list 4 (sl_shift_by_n_bytes r)) = 1"
    "\<forall>i<4. sl_shift_by_n_bytes r i * (sl_c_least_sig_byte r 3 + sl_c_least_sig_byte r 4 * 2 - of_nat i) = 0"
    "\<forall>i<4. sl_bit_shift_result r i = word_at (sl_b r) i * sl_bit_shift_multiplier r - sl_bit_shift_result_carry r i * 256
       + (if i > 0 then sl_bit_shift_result_carry r (i - 1) else 0)"
    "\<forall>n<4. \<forall>i<4. sl_shift_by_n_bytes r n * (sl_op_a_not_0 r * (word_at (sl_a r) i - (if i < n then 0 else sl_bit_shift_result r (i - n)))) = 0"
    "accepts L (slice_range_check_u8 (arr_list 4 (sl_bit_shift_result r)) (sl_is_real r))"
    "accepts L (slice_range_check_u8 (arr_list 4 (sl_bit_shift_result_carry r)) (sl_is_real r))"
  using assms unfolding shift_left_eval_def Let_def
  by (simp_all add: air atLeast0LessThan Ball_def del: mult_eq_0_iff)

lemma shift_left_amount:
  fixes r :: "'f shift_left_cols"
  assumes acc: "accepts L (shift_left_eval r)" and c: "sl_c r = word_from y"
  defines "k \<equiv> unat (limb0 (le_bytes y)) mod 8" and "n \<equiv> unat (limb0 (le_bytes y)) div 8 mod 4"
  shows "sl_bit_shift_multiplier r = of_nat (2 ^ k)" "sl_shift_by_n_bytes r n = 1"
proof -
  note f = shift_left_facts [OF acc]
  have "\<And>i. i < 8 \<Longrightarrow> sl_c_least_sig_byte r i * (sl_c_least_sig_byte r i - 1) = 0" using f(2) by blast
  note amount = shift_amount [OF this f(1) [unfolded c limb_word_from], folded k_def n_def]
  have kn: "k < 8" "n < 4" by (simp_all add: k_def n_def)
  obtain i where i: "i < 8" "sl_shift_by_n_bits r i = 1"
    by (rule one_hot [of 8 "sl_shift_by_n_bits r"]) (use f(3,4) in \<open>auto simp: ORDER_def\<close>)
  then have "(of_nat k :: 'f) = of_nat i" "sl_bit_shift_multiplier r = of_nat (2 ^ i)"
    using f(5,6) amount(1) by auto
  then show "sl_bit_shift_multiplier r = of_nat (2 ^ k)" using i kn of_nat_inject [of k i] by (simp add: ORDER_def)
  obtain j where j: "j < 4" "sl_shift_by_n_bytes r j = 1"
    by (rule one_hot [of 4 "sl_shift_by_n_bytes r"]) (use f(7,8) in \<open>auto simp: ORDER_def\<close>)
  then have "(of_nat n :: 'f) = of_nat j" using f(9) amount(2) by auto
  then show "sl_shift_by_n_bytes r n = 1" using j kn of_nat_inject [of n j] by (simp add: ORDER_def)
qed

lemma range_check_arr:
  assumes "accepts (alu_lookups D) (slice_range_check_u8 (arr_list N f) (1::'f))"
  shows "\<exists>v. \<forall>i<N. f i = from_canonical_u8 (v i)"
proof -
  have "\<forall>x\<in>set (arr_list N f). is_byte x" by (rule range_check_u8 [OF assms]) simp_all
  then have "\<forall>i<N. \<exists>b. f i = from_canonical_u8 b" by (auto simp: arr_list_def is_byte_def)
  then show ?thesis by metis
qed

lemma shift_left_result:
  fixes r :: "'f shift_left_cols"
  assumes acc: "accepts (alu_lookups D) (shift_left_eval r)" and real: "sl_is_real r = 1" and z: "1 - sl_op_a_not_0 r = 0"
    and w: "sl_b r = word_from x" "sl_c r = word_from y"
  shows "sl_a r = word_from (wrapping_shl x y)"
proof -
  note f = shift_left_facts [OF acc]
  define k where "k = unat (limb0 (le_bytes y)) mod 8"
  define n where "n = unat (limb0 (le_bytes y)) div 8 mod 4"
  note amount = shift_left_amount [OF acc w(2), folded k_def n_def]
  have kn: "k < 8" "n < 4" "8 * n + k = unat y mod 32" using shift_split [of y] by (simp_all add: k_def n_def)
  obtain v c where v: "\<forall>i<4. sl_bit_shift_result r i = from_canonical_u8 (v i)" and c: "\<forall>i<4. sl_bit_shift_result_carry r i = from_canonical_u8 (c i)"
    using range_check_arr f(12,13) unfolding real by metis
  have "(2::nat) ^ k \<le> 2 ^ 7" using kn(1) by (intro power_increasing) simp_all
  then have m: "(2::nat) ^ k \<le> 128" by simp
  have b: "word_at (sl_b r) i = from_canonical_u8 (word_at (le_bytes x) i)" if "i < 4" for i
    using that unfolding w word_at_def word_from_def by (cases "le_bytes x") (auto simp: less_Suc_eq numeral_eq_Suc)
  have step: "unat (word_at (le_bytes x) i) * 2 ^ k + unat (if i > 0 then c (i - 1) else 0) = unat (v i) + 256 * unat (c i)"
    if "i < 4" for i
  proof (rule mult_step [OF _ m])
    show "from_canonical_u8 (v i) = from_canonical_u8 (word_at (le_bytes x) i) * of_nat (2 ^ k) - from_canonical_u8 (c i) * 256
      + (from_canonical_u8 (if i > 0 then c (i - 1) else 0) :: 'f)"
      using that spec [OF f(10), of i] unfolding amount(1) by (auto simp: v c b)
  qed
  let ?a = "Word4 (if 0 < n then 0 else v (0 - n)) (if 1 < n then 0 else v (1 - n)) (if 2 < n then 0 else v (2 - n)) (if 3 < n then 0 else v (3 - n))"
  have "sl_a r = word_of_bytes ?a"
  proof -
    have *: "word_at (sl_a r) i = (if i < n then 0 else from_canonical_u8 (v (i - n)))" if "i < 4" for i
      using f(11) that kn(2) amount(2) z by (auto simp: v)
    show ?thesis using * [of 0] * [of 1] * [of 2] * [of 3] unfolding word_at_limbs by (simp add: word4_eq)
  qed
  moreover have "bytes_u32 ?a = push_bit (8 * n + k) (bytes_u32 (le_bytes x))"
    by (rule shift_left_bytes [of _ "2 ^ k" v c])
      (use step [of 0] step [of 1] step [of 2] step [of 3] kn(2) in \<open>auto simp: word_at_limbs dest!: less_4_cases\<close>)
  ultimately show ?thesis unfolding wrapping_shl_def kn(3) by (metis bytes_le_bytes word_from_bytes)
qed

lemma shift_left_sound:
  fixes r :: "'f shift_left_cols"
  assumes acc: "accepts (alu_lookups D) (shift_left_eval r)" and recv: "(vs, m) \<in> set (receives Instruction_kind (shift_left_eval r))"
  shows "\<exists>opc\<in>{SLL}. alu_answer opc vs"
proof -
  have real: "sl_is_real r = 1" using shift_left_real [OF acc] recv unfolding shift_left_receives by (auto split: if_splits)
  then show ?thesis
    using recv shift_left_result [OF acc real] unfolding shift_left_receives by (auto intro!: alu_answerI)
qed

end

section \<open>Completeness\<close>

lemma bit_sum: "sum_list (map (\<lambda>i. 2 ^ i * (n div 2 ^ i mod 2)) [0..<k]) = (n :: nat) mod 2 ^ k"
proof (induction k)
  case (Suc k)
  then show ?case using mod_mult2_eq [of n "2 ^ k" 2] by (simp add: mult.commute)
qed simp

lemma unat_bit: "unat (drop_bit i (c :: u32) AND 1) = unat c div 2 ^ i mod 2"
  by (simp add: and_one_eq unat_mod unat_drop_bit_eq drop_bit_eq_div [where 'a = nat])

lemma and_31: "unat (c AND 31 :: u32) div 8 = unat c div 8 mod 4"
proof -
  have "unat (c AND 31) = unat c mod 32"
    using unsigned_and_eq [of c 31, where 'a = nat] take_bit_eq_mask [of 5 "unat c"] by (simp add: take_bit_eq_mod mask_eq_exp_minus_1)
  then have "unat (c AND 31) div 8 = (unat c mod 8 + 8 * (unat c div 8 mod 4)) div 8"
    using mod_mult2_eq [of "unat c" 8 4] by simp
  also have "\<dots> = unat c div 8 mod 4" by (rule digit(2)) simp
  finally show ?thesis .
qed

lemma shift_left_v_bound: "m \<le> 128 \<Longrightarrow> shift_left_v b m i < 256 * 128"
proof (induction i)
  case (Suc i)
  have "unat (word_at b (Suc i)) * m \<le> 255 * 128" using unat_u8_less [of "word_at b (Suc i)"] Suc.prems by (intro mult_mono) auto
  moreover have "shift_left_v b m i div 256 < 128" using Suc by (simp add: div_less_iff_less_mult)
  ultimately show ?case by simp
next
  case 0
  have "unat (word_at b 0) * m \<le> 255 * 128" using unat_u8_less [of "word_at b 0"] 0 by (intro mult_mono) auto
  then show ?case by simp
qed

lemma shift_left_v_step:
  fixes b :: "u8 word4" and m :: nat
  assumes "m \<le> 128"
  defines "v \<equiv> \<lambda>i. of_nat (shift_left_v b m i mod 256) :: u8" and "c \<equiv> \<lambda>i. of_nat (shift_left_v b m i div 256) :: u8"
  shows "unat (word_at b i) * m + unat (if i > 0 then c (i - 1) else 0) = unat (v i) + 256 * unat (c i)"
proof -
  have c: "unat (c i) = shift_left_v b m i div 256" for i
  proof -
    have "shift_left_v b m i div 256 < 256" using shift_left_v_bound [OF assms(1), of b i] by (simp add: div_less_iff_less_mult)
    then show ?thesis unfolding c_def by (simp add: unsigned_of_nat take_bit_eq_mod)
  qed
  have v: "unat (v i) = shift_left_v b m i mod 256" for i unfolding v_def by (simp add: unsigned_of_nat take_bit_eq_mod)
  have "unat (word_at b i) * m + unat (if i > 0 then c (i - 1) else 0) = shift_left_v b m i" by (cases i) (simp_all add: c)
  then show ?thesis unfolding c v by simp
qed

context prime_field32
begin

lemma mult_step_field:
  assumes "unat b * m + unat c = unat v + 256 * unat c'"
  shows "from_canonical_u8 v = from_canonical_u8 b * of_nat m - from_canonical_u8 c' * 256 + (from_canonical_u8 c :: 'f)"
proof -
  have "(of_nat (unat b * m + unat c) :: 'f) = of_nat (unat v + 256 * unat c')" by (simp only: assms)
  then show ?thesis by (simp add: from_canonical_u8_def algebra_simps)
qed

lemma from_bool_eq [simp]: "from_bool p = (0::'f) \<longleftrightarrow> \<not> p" "from_bool p = (1::'f) \<longleftrightarrow> p"
  by (simp_all add: from_bool_def)

lemma from_canonical_bit: "from_canonical_u32 (drop_bit i c AND 1) = (of_nat (unat c div 2 ^ i mod 2) :: 'f)"
  by (simp only: from_canonical_u32_def unat_bit)

lemma one_hot_from_bool: "k < N \<Longrightarrow> sum_list (arr_list N (\<lambda>i. from_bool (k = i) :: 'f)) = 1"
  by (simp add: arr_list_def interv_sum_list_conv_sum_set_nat from_bool_def)

lemma shift_amount_complete:
  fixes c :: u32
  defines "f \<equiv> \<lambda>i. from_canonical_u32 (drop_bit i c AND 1) :: 'f"
  shows "sum_list (map (\<lambda>i. 2 ^ i * f i) [0..<8]) = from_canonical_u8 (limb0 (le_bytes c))"
    "sum_list (map (\<lambda>i. f i * 2 ^ i) [0..<3]) = of_nat (unat c mod 8)"
    "f 3 + f 4 * 2 = of_nat (unat (c AND 31) div 8)" "f i * (f i - 1) = 0"
proof -
  have f: "f i = of_nat (unat c div 2 ^ i mod 2)" for i unfolding f_def by (rule from_canonical_bit)
  have s: "sum_list (map (\<lambda>i. 2 ^ i * f i) [0..<k]) = of_nat (unat c mod 2 ^ k)" for k
    unfolding bit_sum [symmetric] f by (simp add: comp_def flip: sum_list_of_nat)
  show "sum_list (map (\<lambda>i. 2 ^ i * f i) [0..<8]) = from_canonical_u8 (limb0 (le_bytes c))"
    unfolding s from_canonical_u8_def le_bytes_def word4.sel unat_le_bytes(1) by simp
  show "sum_list (map (\<lambda>i. f i * 2 ^ i) [0..<3]) = of_nat (unat c mod 8)"
    using s [of 3] by (simp add: mult.commute)
  have "unat (c AND 31) div 8 = unat c div 8 mod 2 + unat c div 16 mod 2 * 2"
    using mod_mult2_eq [of "unat c div 8" 2 2] unfolding and_31 by (simp flip: div_mult2_eq)
  then show "f 3 + f 4 * 2 = of_nat (unat (c AND 31) div 8)" unfolding f by simp
  have "unat c div 2 ^ i mod 2 = 0 \<or> unat c div 2 ^ i mod 2 = 1" by linarith
  then show "f i * (f i - 1) = 0" unfolding f by auto
qed

lemma requests_range_arr:
  "sends Byte_kind (slice_range_check_u8 (arr_list N (\<lambda>i. from_canonical_u8 (v i))) (1::'f)) = requests (u8_range_checks (arr_list N v))"
  "accepts byte_lookups_only (slice_range_check_u8 (arr_list N (\<lambda>i. from_canonical_u8 (v i))) (m::'f))"
  using requests_range [of "arr_list N v"] accepts_range [of "arr_list N v" m] by (simp_all add: arr_list_def comp_def)

lemma word_at_from: "i < 4 \<Longrightarrow> word_at (word_from w) i = (from_canonical_u8 (word_at (le_bytes w) i) :: 'f)"
  by (auto dest!: less_4_cases simp: word_at_limbs)

lemma shift_left_complete:
  assumes ok: "alu_ok e" "x0_ok e" "alu_opcode e \<in> {SLL}"
  shows "\<exists>r ls. shift_left_row e = Inr (r :: 'f shift_left_cols, ls) \<and> accepts (alu_lookups D) (shift_left_eval r)
    \<and> mset (sends Byte_kind (shift_left_eval r)) = mset (requests ls)
    \<and> receives Instruction_kind (shift_left_eval r) = [(instruction_values (event_msg e), 1)]"
proof -
  define b c where "b = alu_b e" and "c = alu_c e"
  define k n where "k = unat c mod 8" and "n = unat (c AND 31) div 8"
  define v where "v i = (of_nat (shift_left_v (le_bytes b) (2 ^ k) i mod 256) :: u8)" for i
  define u where "u i = (of_nat (shift_left_v (le_bytes b) (2 ^ k) i div 256) :: u8)" for i
  obtain r ls where row: "shift_left_row e = Inr (r :: 'f shift_left_cols, ls)" by (simp add: shift_left_row_def Let_def)
  then have r: "r = \<lparr>sl_pc = from_canonical_u32 (alu_pc e), sl_a = word_from (alu_a e), sl_b = word_from b,
      sl_c = word_from c, sl_op_a_not_0 = from_bool (\<not> alu_op_a_0 e), sl_c_least_sig_byte = (\<lambda>i. from_canonical_u32 (drop_bit i c AND 1)),
      sl_shift_by_n_bits = (\<lambda>i. from_bool (k = i)), sl_bit_shift_multiplier = of_nat (2 ^ k),
      sl_bit_shift_result = (\<lambda>i. from_canonical_u8 (v i)), sl_bit_shift_result_carry = (\<lambda>i. from_canonical_u8 (u i)),
      sl_shift_by_n_bytes = (\<lambda>i. from_bool (n = i)), sl_is_real = 1\<rparr>"
    and ls: "ls = u8_range_checks (arr_list 4 v) @ u8_range_checks (arr_list 4 u)"
    unfolding shift_left_row_def Let_def b_def c_def k_def n_def v_def u_def by auto
  have "(2::nat) ^ k \<le> 2 ^ 7" by (intro power_increasing) (auto simp: k_def)
  then have m: "(2::nat) ^ k \<le> 128" by simp
  note step = shift_left_v_step [OF m, of "le_bytes b", folded v_def u_def]
  have kn: "k < 8" "n < 4" "8 * n + k = unat c mod 32"
    using mod_mult2_eq [of "unat c" 8 4] by (simp_all add: k_def n_def and_31)
  let ?a = "Word4 (if 0 < n then 0 else v (0 - n)) (if 1 < n then 0 else v (1 - n)) (if 2 < n then 0 else v (2 - n)) (if 3 < n then 0 else v (3 - n))"
  have "bytes_u32 ?a = push_bit (8 * n + k) (bytes_u32 (le_bytes b))"
    by (rule shift_left_bytes [of _ "2 ^ k" v u])
      (use step [of 0] step [of 1] step [of 2] step [of 3] kn(2) in \<open>auto simp: word_at_limbs dest!: less_4_cases\<close>)
  moreover have "\<not> alu_op_a_0 e \<Longrightarrow> alu_a e = push_bit (unat c mod 32) b" using ok by (simp add: alu_ok_def wrapping_shl_def b_def c_def)
  ultimately have "\<not> alu_op_a_0 e \<Longrightarrow> le_bytes (alu_a e) = ?a" unfolding kn(3) by (metis bytes_le_bytes le_bytes_bytes)
  then have a: "word_at (le_bytes (alu_a e)) i = (if i < n then 0 else v (i - n))" if "i < 4" "\<not> alu_op_a_0 e" for i
    using that by (auto dest!: less_4_cases simp: word_at_limbs)
  have res: "from_canonical_u8 (v i) = from_canonical_u8 (word_at (le_bytes b) i) * 2 ^ k - from_canonical_u8 (u i) * 256
      + (from_canonical_u8 (if i > 0 then u (i - 1) else 0) :: 'f)" for i
    using mult_step_field [OF step [of i]] by simp
  have acc: "accepts (alu_lookups D) (shift_left_eval r)"
    unfolding shift_left_eval_def Let_def r shift_left_cols.simps shift_amount_complete(1-3) limb_word_from
    using kn(1,2) byte_lookups_alu [OF requests_range_arr(2), of D] shift_amount_complete(4) [of _ c]
    by (cases "alu_op_a_0 e", simp_all add: air one_hot_from_bool k_def [symmetric] n_def [symmetric] word_at_from a)
      (auto simp: a intro: res [of 0, simplified] res [simplified, THEN trans])
  have "sends Byte_kind (shift_left_eval r) = requests ls" unfolding shift_left_sends ls by (simp add: r requests_range_arr)
  moreover have "receives Instruction_kind (shift_left_eval r) = [(instruction_values (event_msg e), 1)]"
    unfolding shift_left_receives using ok by (cases "alu_op_a_0 e") (simp_all add: r event_msg_def b_def c_def)
  ultimately show ?thesis using row acc by auto
qed

end

text \<open>A word of zeros.\<close>

lemma word_at_zero: "i < 4 \<Longrightarrow> word_at (Word4 0 0 0 0) i = 0"
  by (auto simp: word_at_def less_Suc_eq numeral_eq_Suc)

lemma shift_left_no_bytes: "receives Byte_kind (shift_left_eval r) = []"
  by (simp add: shift_left_eval_def Let_def air)

lemma shift_left_no_requests: "sends Instruction_kind (shift_left_eval r) = []"
  by (simp add: shift_left_eval_def Let_def air)

lemma shift_left_idle: "accepts L (shift_left_eval shift_left_padding)" "receives k (shift_left_eval shift_left_padding) = []"
  by (simp_all add: shift_left_padding_def shift_left_eval_def Let_def air word_zero_def word_at_zero arr_list_def upt_rec)

interpretation shift_left: alu_chip "\<lambda>x. nat (rep_bb x)" "shift_left_eval :: bb shift_left_cols \<Rightarrow> _" shift_left_row shift_left_padding "{SLL}" "{}" "\<lambda>_. []"
  by unfold_locales
    (rule shift_left_no_bytes shift_left_idle |
     erule (1) bb.shift_left_received | erule (1) bb.shift_left_sent | erule (1) bb.shift_left_sound | erule (2) bb.shift_left_complete |
     simp add: shift_left_no_requests)+

end
