(* ===== verification/SP1_Chip_Sr.thy ===== *)
theory SP1_Chip_Sr
  imports SP1_Chip_Sll
begin

text \<open>
  The table of SRL and SRA, \<open>crates/core/machine/src/alu/sr/mod.rs\<close>: the operand is extended to
  eight bytes, shifted by whole bytes, and then by less than a byte with \<open>ShrCarry\<close> lookups.
\<close>

section \<open>The chip\<close>

record 'f shift_right_cols =
  sr_pc :: 'f
  sr_a :: "'f word4"
  sr_b :: "'f word4"
  sr_c :: "'f word4"
  sr_op_a_not_0 :: 'f
  sr_shift_by_n_bits :: "'f arr"
  sr_shift_by_n_bytes :: "'f arr"
  sr_byte_shift_result :: "'f arr"
  sr_bit_shift_result :: "'f arr"
  sr_carry :: "'f arr"
  sr_shifted_byte :: "'f arr"
  sr_b_msb :: 'f
  sr_c_least_sig_byte :: "'f arr"
  sr_is_srl :: 'f
  sr_is_sra :: 'f
  sr_is_real :: 'f

definition shift_right_padding :: "'f::field shift_right_cols" where
  "shift_right_padding = \<lparr>sr_pc = 0, sr_a = word_zero, sr_b = word_zero, sr_c = word_zero, sr_op_a_not_0 = 0,
     sr_shift_by_n_bits = (\<lambda>i. if i = 0 then 1 else 0), sr_shift_by_n_bytes = (\<lambda>i. if i = 0 then 1 else 0),
     sr_byte_shift_result = (\<lambda>_. 0), sr_bit_shift_result = (\<lambda>_. 0), sr_carry = (\<lambda>_. 0), sr_shifted_byte = (\<lambda>_. 0),
     sr_b_msb = 0, sr_c_least_sig_byte = (\<lambda>_. 0), sr_is_srl = 0, sr_is_sra = 0, sr_is_real = 0\<rparr>"

definition nb_bytes_to_shift :: "u32 \<Rightarrow> nat" where
  "nb_bytes_to_shift shift_amount = unat (shift_amount mod 32) div 8"

definition nb_bits_to_shift :: "u32 \<Rightarrow> nat" where
  "nb_bits_to_shift shift_amount = unat (shift_amount mod 32) mod 8"

definition u64_byte :: "u64 \<Rightarrow> u8 arr" where
  "u64_byte w i = ucast (drop_bit (8 * i) w)"

text \<open>The lookup of the loop over \<open>byte_shift_result\<close>, and the byte it computes from the
  shifted byte and the carry of the next one.\<close>

definition shr_event :: "u8 \<Rightarrow> u8 \<Rightarrow> byte_lookup_event" where
  "shr_event b c = \<lparr>bl_opcode = ShrCarry, bl_a1 = ucast (fst (shr_carry b c)), bl_a2 = snd (shr_carry b c), bl_b = b, bl_c = c\<rparr>"

definition shift_right_row :: "alu_event \<Rightarrow> ('f::field shift_right_cols \<times> byte_lookup_event list) res" where
  "shift_right_row event =
     (let msb_byte = limb3 (le_bytes (alu_b event));
          num_bytes_to_shift = nb_bytes_to_shift (alu_c event);
          num_bits_to_shift = nb_bits_to_shift (alu_c event);
          sign_extended_b = u64_byte (if alu_opcode event = SRA then scast (alu_b event) else ucast (alu_b event));
          byte_shift_result = (\<lambda>i. if i + num_bytes_to_shift < 8 then sign_extended_b (i + num_bytes_to_shift) else 0);
          carry_multiplier = 2 ^ (8 - num_bits_to_shift);
          carry = (\<lambda>i. snd (shr_carry (byte_shift_result i) (of_nat num_bits_to_shift)));
          shifted_byte = (\<lambda>i. fst (shr_carry (byte_shift_result i) (of_nat num_bits_to_shift)));
          bit_shift_result = (\<lambda>i. of_nat ((unat (shifted_byte i) + (if i + 1 < 8 then unat (carry (i + 1)) else 0) * carry_multiplier) mod 256)) :: u8 arr
      in Inr (\<lparr>sr_pc = from_canonical_u32 (alu_pc event), sr_a = word_from (alu_a event), sr_b = word_from (alu_b event),
           sr_c = word_from (alu_c event), sr_op_a_not_0 = from_bool (\<not> alu_op_a_0 event),
           sr_shift_by_n_bits = (\<lambda>i. from_bool (num_bits_to_shift = i)), sr_shift_by_n_bytes = (\<lambda>i. from_bool (num_bytes_to_shift = i)),
           sr_byte_shift_result = (\<lambda>i. from_canonical_u8 (byte_shift_result i)),
           sr_bit_shift_result = (\<lambda>i. from_canonical_u8 (bit_shift_result i)),
           sr_carry = (\<lambda>i. from_canonical_u8 (carry i)), sr_shifted_byte = (\<lambda>i. from_canonical_u8 (shifted_byte i)),
           sr_b_msb = from_canonical_u32 (drop_bit 31 (alu_b event) AND 1),
           sr_c_least_sig_byte = (\<lambda>i. from_canonical_u32 (drop_bit i (alu_c event) AND 1)),
           sr_is_srl = from_bool (alu_opcode event = SRL), sr_is_sra = from_bool (alu_opcode event = SRA), sr_is_real = 1\<rparr>,
         [\<lparr>bl_opcode = MSB, bl_a1 = ucast (drop_bit 7 msb_byte AND 1), bl_a2 = 0, bl_b = msb_byte, bl_c = 0\<rparr>] @
         map (\<lambda>i. shr_event (byte_shift_result i) (of_nat num_bits_to_shift)) (rev [0..<8]) @
         u8_range_checks (arr_list 8 byte_shift_result) @ u8_range_checks (arr_list 8 bit_shift_result) @
         u8_range_checks (arr_list 8 carry) @ u8_range_checks (arr_list 8 shifted_byte)))"

definition shift_right_eval :: "'f::field shift_right_cols \<Rightarrow> 'f action list" where
  "shift_right_eval local =
     (let c_byte_sum = sum_list (map (\<lambda>i. 2 ^ i * sr_c_least_sig_byte local i) [0..<8]);
          num_bits_to_shift = sum_list (map (\<lambda>i. sr_c_least_sig_byte local i * 2 ^ i) [0..<3]);
          num_bytes_to_shift = sr_c_least_sig_byte local 3 + sr_c_least_sig_byte local 4 * 2;
          leading_byte = sr_is_sra local * sr_b_msb local * from_canonical_u8 0xff;
          sign_extended_b = (\<lambda>i. if i < 4 then word_at (sr_b local) i else leading_byte);
          carry_multiplier = sum_list (map (\<lambda>i. of_nat (2 ^ (8 - i)) * sr_shift_by_n_bits local i) [0..<8])
      in send_byte (byte_opcode_field MSB) (sr_b_msb local) (limb3 (sr_b local)) 0 (sr_is_real local) @
         assert_eq c_byte_sum (limb0 (sr_c local)) @
         concat (map (\<lambda>i. air_when (sr_shift_by_n_bits local i) (assert_eq num_bits_to_shift (of_nat i))) [0..<8]) @
         assert_eq (sum_list (arr_list 8 (sr_shift_by_n_bits local))) 1 @
         concat (map (\<lambda>i. air_when (sr_shift_by_n_bytes local i) (assert_eq num_bytes_to_shift (of_nat i))) [0..<4]) @
         assert_eq (sum_list (arr_list 4 (sr_shift_by_n_bytes local))) 1 @
         concat (map (\<lambda>n. concat (map (\<lambda>i. air_when (sr_shift_by_n_bytes local n)
           (assert_eq (sr_byte_shift_result local i) (sign_extended_b (i + n)))) [0..<8 - n])) [0..<4]) @
         concat (map (\<lambda>i. send_byte_pair (byte_opcode_field ShrCarry) (sr_shifted_byte local i) (sr_carry local i)
           (sr_byte_shift_result local i) num_bits_to_shift (sr_is_real local)) (rev [0..<8])) @
         concat (map (\<lambda>i. assert_eq (sr_shifted_byte local i + (if i + 1 < 8 then sr_carry local (i + 1) * carry_multiplier else 0))
           (sr_bit_shift_result local i)) (rev [0..<8])) @
         concat (map (\<lambda>i. air_when (sr_op_a_not_0 local) (assert_eq (word_at (sr_a local) i) (sr_bit_shift_result local i))) [0..<4]) @
         concat (map assert_bool [sr_is_srl local, sr_is_sra local, sr_is_real local, sr_b_msb local]) @
         concat (map (\<lambda>i. assert_bool (sr_shift_by_n_bytes local i)) [0..<4]) @
         concat (map (\<lambda>i. assert_bool (sr_shift_by_n_bits local i)) [0..<8]) @
         concat (map (\<lambda>i. assert_bool (sr_c_least_sig_byte local i)) [0..<8]) @
         slice_range_check_u8 (arr_list 8 (sr_byte_shift_result local)) (sr_is_real local) @
         slice_range_check_u8 (arr_list 8 (sr_bit_shift_result local)) (sr_is_real local) @
         slice_range_check_u8 (arr_list 8 (sr_carry local)) (sr_is_real local) @
         slice_range_check_u8 (arr_list 8 (sr_shifted_byte local)) (sr_is_real local) @
         assert_bool (sr_is_srl local) @ assert_bool (sr_is_sra local) @ assert_bool (sr_is_real local) @
         assert_eq (sr_is_srl local + sr_is_sra local) (sr_is_real local) @
         receive_instruction (alu_msg (sr_pc local) (sr_is_srl local * opcode_field SRL + sr_is_sra local * opcode_field SRA)
           (sr_a local) (sr_b local) (sr_c local) (1 - sr_op_a_not_0 local)) (sr_is_real local) @
         air_when (sr_op_a_not_0 local) (assert_one (sr_is_real local)))"

definition shift_right_generate_trace :: "nat option \<Rightarrow> execution_record \<Rightarrow> 'f::field shift_right_cols list res" where
  "shift_right_generate_trace size_log2 input =
     generate_trace shift_right_row shift_right_padding size_log2 (shift_right_events input)"

definition shift_right_generate_dependencies :: "nat \<Rightarrow> execution_record \<Rightarrow> byte_lookups \<Rightarrow> byte_lookups res" where
  "shift_right_generate_dependencies num_cpus input output =
     generate_dependencies num_cpus (shift_right_row :: _ \<Rightarrow> (bb shift_right_cols \<times> _) res) (shift_right_events input) output"

definition shift_right_included :: "bool option \<Rightarrow> execution_record \<Rightarrow> bool" where
  "shift_right_included in_shape shard = included in_shape (shift_right_events shard)"

section \<open>Shifted bytes\<close>

text \<open>A byte of a shift: the upper bits of one byte and the lower bits of the next.\<close>

lemma shr_carry_unat:
  assumes "k < 8"
  shows "unat (fst (shr_carry b (of_nat k))) = unat b div 2 ^ k" "unat (snd (shr_carry b (of_nat k))) = unat b mod 2 ^ k"
proof -
  have k: "unat ((of_nat k :: u8) AND 7) = k"
    using assms unsigned_and_eq [of "of_nat k :: u8" 7, where 'a = nat] take_bit_eq_mask [of 3 k]
    by (simp add: unsigned_of_nat take_bit_eq_mod mask_eq_exp_minus_1)
  show "unat (fst (shr_carry b (of_nat k))) = unat b div 2 ^ k"
    using assms by (simp add: shr_carry_def k Let_def unat_drop_bit_eq drop_bit_eq_div [where 'a = nat])
  have "drop_bit (8 - k) (push_bit (8 - k) b) = take_bit k b" using assms by (auto simp: bit_eq_iff bit_simps)
  then show "unat (snd (shr_carry b (of_nat k))) = unat b mod 2 ^ k"
    using assms by (simp add: shr_carry_def k Let_def unsigned_take_bit_eq take_bit_eq_mod [where 'a = nat])
qed

lemma shr_join:
  assumes "k < 8"
  shows "unat b div 2 ^ k + unat c mod 2 ^ k * 2 ^ (8 - k) = unat (drop_bit k b OR push_bit (8 - k) c :: u8)"
proof -
  let ?p = "(2::nat) ^ k" and ?q = "(2::nat) ^ (8 - k)"
  have pq: "?p * ?q = 256" using assms by (simp flip: power_add)
  have x: "unat (drop_bit k b) = unat b div ?p" by (simp add: unat_drop_bit_eq drop_bit_eq_div [where 'a = nat])
  have y: "unat (push_bit (8 - k) c :: u8) = unat c mod ?p * ?q"
  proof -
    have "unat (push_bit (8 - k) c :: u8) = unat c * ?q mod (?p * ?q)"
      unfolding pq by (simp add: unsigned_push_bit_eq take_bit_eq_mod [where 'a = nat] push_bit_eq_mult [where 'a = nat])
    then show ?thesis by (simp only: mult_mod_left)
  qed
  have "unat b div ?p < ?q" using unat_u8_less [of b] pq by (simp add: div_less_iff_less_mult mult.commute)
  moreover have "unat c mod ?p * ?q + ?q \<le> 256"
  proof -
    have "(unat c mod ?p + 1) * ?q \<le> ?p * ?q" by (intro mult_right_mono) (simp_all add: Suc_leI)
    then show ?thesis unfolding pq by simp
  qed
  ultimately have s: "unat (drop_bit k b) + unat (push_bit (8 - k) c :: u8) < 2 ^ 8" unfolding x y by simp
  have "drop_bit k b OR push_bit (8 - k) c = drop_bit k b + push_bit (8 - k) c"
    using assms by (intro disjunctive_add [symmetric]) (auto simp: bit_push_bit_iff bit_drop_bit_eq dest!: bit_imp_le_length [of b])
  then have "unat (drop_bit k b OR push_bit (8 - k) c :: u8) = unat (drop_bit k b) + unat (push_bit (8 - k) c :: u8)"
    using s by (simp add: unat_word_ariths)
  then show ?thesis by (simp only: x y)
qed

text \<open>The extended operand, byte by byte, and the shift of it.\<close>

definition ext_byte :: "bool \<Rightarrow> u32 \<Rightarrow> u8 arr" where
  "ext_byte sra x i = (if i < 4 then word_at (le_bytes x) i else if sra \<and> bit x 31 then 0xff else 0)"

definition ext_bit :: "bool \<Rightarrow> u32 \<Rightarrow> nat \<Rightarrow> bool" where
  "ext_bit sra x m \<longleftrightarrow> (if m < 32 then bit x m else sra \<and> bit x 31)"

lemma bit_word_at: "i < 4 \<Longrightarrow> bit (word_at (le_bytes x) i) j \<longleftrightarrow> j < 8 \<and> bit x (8 * i + j)"
  by (auto dest!: less_4_cases simp: word_at_limbs le_bytes_def bit_simps)

lemma bit_0xff: "bit (0xff :: u8) j \<longleftrightarrow> j < 8"
proof -
  have "(0xff :: u8) = - 1" by code_simp
  then show ?thesis by (simp only: bit_minus_1_iff) (simp add: possible_bit_def)
qed

lemma bit_ext_byte: "bit (ext_byte sra x i) j \<longleftrightarrow> j < 8 \<and> ext_bit sra x (8 * i + j)"
proof (cases "i < 4")
  case False
  then show ?thesis by (cases "sra \<and> bit x 31") (simp_all only: ext_byte_def ext_bit_def bit_0xff simp_thms if_True if_False, simp_all)
qed (simp add: ext_byte_def ext_bit_def bit_word_at)

definition shift_right :: "bool \<Rightarrow> u32 \<Rightarrow> nat \<Rightarrow> u32" where
  "shift_right sra x n = (if sra then signed_drop_bit n x else drop_bit n x)"

lemma len32: "LENGTH(32) = 32" "(32::nat) - 1 = 31"
  by simp_all

lemma bit_shift_right:
  assumes "m < 32"
  shows "bit (shift_right sra x n) m \<longleftrightarrow> ext_bit sra x (m + n)"
proof (cases sra)
  case True
  have "bit (signed_drop_bit n x) m \<longleftrightarrow> bit x (if LENGTH(32) - n \<le> m \<and> m < LENGTH(32) then LENGTH(32) - 1 else n + m)"
    by (rule bit_signed_drop_bit_iff)
  also have "\<dots> \<longleftrightarrow> bit x (if 32 - n \<le> m \<and> m < 32 then 31 else n + m)" by (simp only: len32)
  also have "\<dots> \<longleftrightarrow> ext_bit True x (m + n)" using assms unfolding ext_bit_def by (auto simp: add.commute)
  finally show ?thesis using True by (simp add: shift_right_def)
next
  case False
  have "bit (drop_bit n x) m \<longleftrightarrow> bit x (m + n)" by (simp only: bit_drop_bit_eq comp_def add.commute)
  then show ?thesis using False bit_imp_le_length [of x "m + n"] unfolding shift_right_def ext_bit_def by auto
qed

lemma shift_right_bytes:
  assumes "i < 4" "k < 8"
  shows "word_at (le_bytes (shift_right sra x (8 * n + k))) i
    = drop_bit k (ext_byte sra x (i + n)) OR push_bit (8 - k) (ext_byte sra x (i + n + 1))"
proof (rule bit_word_eqI)
  fix j
  assume "j < LENGTH(8)"
  then have j: "j < 8" by simp
  have l: "bit (word_at (le_bytes (shift_right sra x (8 * n + k))) i) j \<longleftrightarrow> ext_bit sra x (8 * i + j + (8 * n + k))"
    using assms(1) j by (simp add: bit_word_at bit_shift_right)
  show "bit (word_at (le_bytes (shift_right sra x (8 * n + k))) i) j
    \<longleftrightarrow> bit (drop_bit k (ext_byte sra x (i + n)) OR push_bit (8 - k) (ext_byte sra x (i + n + 1))) j"
  proof (cases "j + k < 8")
    case True
    then have e: "8 * (i + n) + (k + j) = 8 * i + j + (8 * n + k)" by simp
    show ?thesis unfolding l using True j by (auto simp: bit_or_iff bit_drop_bit_eq bit_push_bit_iff bit_ext_byte e [symmetric])
  next
    case False
    then have e: "8 * (i + n + 1) + (j - (8 - k)) = 8 * i + j + (8 * n + k)" "8 - k \<le> j" "j - (8 - k) < 8" "\<not> k + j < 8"
      using assms(2) j by simp_all
    show ?thesis
      unfolding l bit_or_iff bit_drop_bit_eq bit_push_bit_iff comp_def bit_ext_byte e(1) using e(2-4) j by (simp add: possible_bit_def)
  qed
qed

section \<open>Soundness\<close>

lemma msb_ext: "limb3 (le_bytes x) AND 0x80 \<noteq> 0 \<longleftrightarrow> bit (x :: u32) 31"
proof -
  have "(0x80 :: u8) = push_bit 7 1" by code_simp
  then have "bit (limb3 (le_bytes x) AND 0x80) j \<longleftrightarrow> j = 7 \<and> bit x 31" for j
    by (simp only: bit_and_iff bit_push_bit_iff) (auto simp: le_bytes_def bit_simps possible_bit_def)
  then show ?thesis by (auto simp: bit_eq_iff [of _ "0 :: u8"])
qed

context prime_field32
begin

lemma sends_loop [simp]: "receives k (map (\<lambda>i. Send (g i) sc) xs) = []"
  by (induction xs) simp_all

lemma one_hot_sum:
  fixes f :: "nat \<Rightarrow> 'f"
  assumes "k < N" "f k = 1" "\<And>j. j < N \<Longrightarrow> j \<noteq> k \<Longrightarrow> f j = 0"
  shows "sum_list (map (\<lambda>i. g i * f i) [0..<N]) = g k"
proof -
  have "sum_list (map (\<lambda>i. g i * f i) [0..<N]) = (\<Sum>i\<in>{..<N}. g i * f i)"
    by (simp add: interv_sum_list_conv_sum_set_nat atLeast0LessThan)
  also have "\<dots> = (\<Sum>i\<in>{..<N}. if i = k then g k else 0)" by (rule sum.cong) (use assms in auto)
  finally show ?thesis using assms(1) by simp
qed

lemma shift_right_receives:
  fixes r :: "'f shift_right_cols"
  shows "receives Instruction_kind (shift_right_eval r) = (if sr_is_real r = 0 then [] else
    [(instruction_values (alu_msg (sr_pc r) (sr_is_srl r * opcode_field SRL + sr_is_sra r * opcode_field SRA)
       (sr_a r) (sr_b r) (sr_c r) (1 - sr_op_a_not_0 r)), sr_is_real r)])"
  by (simp add: shift_right_eval_def Let_def air)

lemma shift_right_sends:
  fixes r :: "'f shift_right_cols"
  shows "sends k (shift_right_eval r) =
    sends k (send_byte (byte_opcode_field MSB) (sr_b_msb r) (limb3 (sr_b r)) 0 (sr_is_real r)) @
    concat (map (\<lambda>i. sends k (send_byte_pair (byte_opcode_field ShrCarry) (sr_shifted_byte r i) (sr_carry r i)
      (sr_byte_shift_result r i) (sum_list (map (\<lambda>i. sr_c_least_sig_byte r i * 2 ^ i) [0..<3])) (sr_is_real r))) (rev [0..<8])) @
    sends k (slice_range_check_u8 (arr_list 8 (sr_byte_shift_result r)) (sr_is_real r)) @
    sends k (slice_range_check_u8 (arr_list 8 (sr_bit_shift_result r)) (sr_is_real r)) @
    sends k (slice_range_check_u8 (arr_list 8 (sr_carry r)) (sr_is_real r)) @
    sends k (slice_range_check_u8 (arr_list 8 (sr_shifted_byte r)) (sr_is_real r))"
  unfolding shift_right_eval_def Let_def sends_append sends_concat
  by (simp add: assert_bool_def assert_one_def assert_eq_def assert_zero_def air_when_def receive_instruction_def)

lemma shift_right_real:
  fixes r :: "'f shift_right_cols"
  assumes "accepts L (shift_right_eval r)"
  shows "sr_is_real r = 0 \<or> sr_is_real r = 1" "sr_is_srl r = 0 \<and> sr_is_sra r = 0 \<and> sr_is_real r = 0
    \<or> sr_is_srl r = 1 \<and> sr_is_sra r = 0 \<or> sr_is_srl r = 0 \<and> sr_is_sra r = 1"
proof -
  have "sr_is_srl r * (sr_is_srl r - 1) = 0" "sr_is_sra r * (sr_is_sra r - 1) = 0" "sr_is_real r * (sr_is_real r - 1) = 0"
    "sr_is_srl r + sr_is_sra r = sr_is_real r"
    using assms by (simp_all add: shift_right_eval_def Let_def assert_bool_def assert_eq_def assert_zero_def del: mult_eq_0_iff)
  then show "sr_is_real r = 0 \<or> sr_is_real r = 1" "sr_is_srl r = 0 \<and> sr_is_sra r = 0 \<and> sr_is_real r = 0
    \<or> sr_is_srl r = 1 \<and> sr_is_sra r = 0 \<or> sr_is_srl r = 0 \<and> sr_is_sra r = 1"
    using two_selectors [of "sr_is_srl r" "sr_is_sra r"] by auto
qed

lemma shift_right_received:
  fixes r :: "'f shift_right_cols"
  assumes "asserts (shift_right_eval r)" "(vs, m) \<in> set (receives Instruction_kind (shift_right_eval r))"
  shows "m = 1"
  using shift_right_real(1) [OF assms(1) [unfolded asserts_def]] assms(2) unfolding shift_right_receives by (auto split: if_splits)

lemma shift_right_sent:
  fixes r :: "'f shift_right_cols"
  assumes "asserts (shift_right_eval r)" "(vs, m) \<in> set (sends k (shift_right_eval r))"
  shows "m = 1"
proof -
  have "m = sr_is_real r"
    using assms(2) unfolding shift_right_sends by (auto dest: range_sends simp: send_byte_def send_byte_pair_def split: if_splits)
  then show ?thesis using shift_right_real(1) [OF assms(1) [unfolded asserts_def]] sends_nonzero [OF assms(2)] by auto
qed

lemma shift_right_facts:
  fixes r :: "'f shift_right_cols"
  assumes "accepts L (shift_right_eval r)"
  shows "sum_list (map (\<lambda>i. 2 ^ i * sr_c_least_sig_byte r i) [0..<8]) = limb0 (sr_c r)"
    "\<forall>i<8. sr_c_least_sig_byte r i * (sr_c_least_sig_byte r i - 1) = 0"
    "\<forall>i<8. sr_shift_by_n_bits r i * (sr_shift_by_n_bits r i - 1) = 0" "sum_list (arr_list 8 (sr_shift_by_n_bits r)) = 1"
    "\<forall>i<8. sr_shift_by_n_bits r i * (sum_list (map (\<lambda>i. sr_c_least_sig_byte r i * 2 ^ i) [0..<3]) - of_nat i) = 0"
    "\<forall>i<4. sr_shift_by_n_bytes r i * (sr_shift_by_n_bytes r i - 1) = 0" "sum_list (arr_list 4 (sr_shift_by_n_bytes r)) = 1"
    "\<forall>i<4. sr_shift_by_n_bytes r i * (sr_c_least_sig_byte r 3 + sr_c_least_sig_byte r 4 * 2 - of_nat i) = 0"
    "\<forall>n<4. \<forall>i<8 - n. sr_shift_by_n_bytes r n * (sr_byte_shift_result r i
       - (if i + n < 4 then word_at (sr_b r) (i + n) else sr_is_sra r * sr_b_msb r * from_canonical_u8 0xff)) = 0"
    "\<forall>i<8. sr_shifted_byte r i + (if i + 1 < 8 then sr_carry r (i + 1)
       * sum_list (map (\<lambda>i. of_nat (2 ^ (8 - i)) * sr_shift_by_n_bits r i) [0..<8]) else 0) = sr_bit_shift_result r i"
    "\<forall>i<4. sr_op_a_not_0 r * (word_at (sr_a r) i - sr_bit_shift_result r i) = 0"
  using assms unfolding shift_right_eval_def Let_def accepts_simps accepts_concat
  by (simp_all add: assert_eq_def assert_zero_def assert_bool_def air_when_def atLeast0LessThan Ball_def del: mult_eq_0_iff upt_Suc)

lemma shift_right_lookups:
  fixes r :: "'f shift_right_cols"
  assumes "accepts (alu_lookups D) (shift_right_eval r)" "sr_is_real r = 1"
  shows "in_byte_table [byte_opcode_field MSB, sr_b_msb r, 0, limb3 (sr_b r), 0]"
    "\<forall>i<8. in_byte_table [byte_opcode_field ShrCarry, sr_shifted_byte r i, sr_carry r i, sr_byte_shift_result r i,
       sum_list (map (\<lambda>i. sr_c_least_sig_byte r i * 2 ^ i) [0..<3])]"
  using assms unfolding shift_right_eval_def Let_def accepts_simps accepts_concat
  by (simp_all add: send_byte_def send_byte_pair_def alu_lookups_def atLeast0LessThan Ball_def del: table_compare table_shift)

lemma shift_right_amount:
  fixes r :: "'f shift_right_cols"
  assumes acc: "accepts L (shift_right_eval r)" and c: "sr_c r = word_from y"
  defines "k \<equiv> unat (limb0 (le_bytes y)) mod 8" and "n \<equiv> unat (limb0 (le_bytes y)) div 8 mod 4"
  shows "sum_list (map (\<lambda>i. sr_c_least_sig_byte r i * 2 ^ i) [0..<3]) = from_canonical_u8 (of_nat k)"
    "sum_list (map (\<lambda>i. of_nat (2 ^ (8 - i)) * sr_shift_by_n_bits r i) [0..<8]) = of_nat (2 ^ (8 - k))" "sr_shift_by_n_bytes r n = 1"
proof -
  note f = shift_right_facts [OF acc]
  have "\<And>i. i < 8 \<Longrightarrow> sr_c_least_sig_byte r i * (sr_c_least_sig_byte r i - 1) = 0" using f(2) by blast
  note amount = shift_amount [OF this f(1) [unfolded c limb_word_from], folded k_def n_def]
  have kn: "k < 8" "n < 4" by (simp_all add: k_def n_def)
  then have "unat (of_nat k :: u8) = k" by (simp add: unsigned_of_nat take_bit_eq_mod)
  then show "sum_list (map (\<lambda>i. sr_c_least_sig_byte r i * 2 ^ i) [0..<3]) = from_canonical_u8 (of_nat k)"
    unfolding from_canonical_u8_def by (simp only: amount(1))
  obtain i where i: "i < 8" "sr_shift_by_n_bits r i = 1" "\<And>j. j < 8 \<Longrightarrow> j \<noteq> i \<Longrightarrow> sr_shift_by_n_bits r j = 0"
    by (rule one_hot [of 8 "sr_shift_by_n_bits r"]) (use f(3,4) in \<open>auto simp: ORDER_def\<close>)
  then have "(of_nat k :: 'f) = of_nat i" using f(5) amount(1) by auto
  then have "k = i" using i kn of_nat_inject [of k i] by (simp add: ORDER_def)
  then show "sum_list (map (\<lambda>i. of_nat (2 ^ (8 - i)) * sr_shift_by_n_bits r i) [0..<8]) = of_nat (2 ^ (8 - k))"
    using one_hot_sum [where f = "sr_shift_by_n_bits r" and k = i and N = 8 and g = "\<lambda>i. of_nat (2 ^ (8 - i))"] i by blast
  obtain j where j: "j < 4" "sr_shift_by_n_bytes r j = 1"
    by (rule one_hot [of 4 "sr_shift_by_n_bytes r"]) (use f(6,7) in \<open>auto simp: ORDER_def\<close>)
  then have "(of_nat n :: 'f) = of_nat j" using f(8) amount(2) by auto
  then show "sr_shift_by_n_bytes r n = 1" using j kn of_nat_inject [of n j] by (simp add: ORDER_def)
qed

text \<open>The byte that the carry of the next byte completes.\<close>

lemma shr_join_field:
  assumes "k < 8"
  shows "from_canonical_u8 (fst (shr_carry b (of_nat k))) + from_canonical_u8 (snd (shr_carry c (of_nat k))) * of_nat (2 ^ (8 - k))
    = (from_canonical_u8 (drop_bit k b OR push_bit (8 - k) c) :: 'f)"
  unfolding from_canonical_u8_def shr_carry_unat [OF assms] shr_join [OF assms, symmetric] by simp

lemma shift_right_result:
  fixes r :: "'f shift_right_cols"
  assumes acc: "accepts (alu_lookups D) (shift_right_eval r)" and real: "sr_is_real r = 1" and z: "1 - sr_op_a_not_0 r = 0"
    and w: "sr_b r = word_from x" "sr_c r = word_from y" and sra: "sr_is_sra r = from_bool sra"
  shows "sr_a r = word_from (shift_right sra x (unat y mod 32))"
proof -
  note f = shift_right_facts [OF acc]
  note l = shift_right_lookups [OF acc real]
  define k where "k = unat (limb0 (le_bytes y)) mod 8"
  define n where "n = unat (limb0 (le_bytes y)) div 8 mod 4"
  note amount = shift_right_amount [OF acc w(2), folded k_def n_def]
  have kn: "k < 8" "n < 4" "8 * n + k = unat y mod 32" using shift_split [of y] by (simp_all add: k_def n_def)
  have msb: "sr_b_msb r = from_bool (bit x 31)" using l(1) by (auto simp: w msb_ext)
  have byte: "sr_byte_shift_result r i = from_canonical_u8 (ext_byte sra x (i + n))" if "i < 5" for i
  proof -
    have "sr_byte_shift_result r i = (if i + n < 4 then word_at (sr_b r) (i + n) else sr_is_sra r * sr_b_msb r * from_canonical_u8 0xff)"
      using f(9) that kn(2) amount(3) by force
    then show ?thesis by (auto simp: ext_byte_def w word_at_from msb sra from_bool_def)
  qed
  have shr: "sr_shifted_byte r i = from_canonical_u8 (fst (shr_carry (ext_byte sra x (i + n)) (of_nat k)))"
    "sr_carry r i = from_canonical_u8 (snd (shr_carry (ext_byte sra x (i + n)) (of_nat k)))" if "i < 5" for i
    using l(2) that unfolding amount(1) by (auto dest!: spec [of _ i] simp: byte)
  have a: "word_at (sr_a r) i = from_canonical_u8 (word_at (le_bytes (shift_right sra x (unat y mod 32))) i)" if "i < 4" for i
  proof -
    have "word_at (sr_a r) i = sr_shifted_byte r i + sr_carry r (i + 1) * of_nat (2 ^ (8 - k))"
      using spec [OF f(10), of i] spec [OF f(11), of i] that z unfolding amount(2) by simp
    also have "\<dots> = from_canonical_u8 (word_at (le_bytes (shift_right sra x (8 * n + k))) i)"
      using that shr_join_field [OF kn(1)] by (simp only: shr shift_right_bytes [OF that kn(1)]) (simp add: shr ac_simps)
    finally show ?thesis unfolding kn(3) .
  qed
  show ?thesis using a [of 0] a [of 1] a [of 2] a [of 3] by (simp add: word_at_limbs word4_eq)
qed

lemma shift_right_sound:
  fixes r :: "'f shift_right_cols"
  assumes acc: "accepts (alu_lookups D) (shift_right_eval r)" and recv: "(vs, m) \<in> set (receives Instruction_kind (shift_right_eval r))"
  shows "\<exists>opc\<in>{SRL, SRA}. alu_answer opc vs"
proof -
  have real: "sr_is_real r = 1" using shift_right_real(1) [OF acc] recv unfolding shift_right_receives by (auto split: if_splits)
  have s: "shift_right False x (unat y mod 32) = wrapping_shr x y" "shift_right True x (unat y mod 32) = wrapping_shr_i32 x y" for x y
    by (simp_all add: shift_right_def wrapping_shr_def wrapping_shr_i32_def)
  consider "sr_is_srl r = 1" "sr_is_sra r = 0" | "sr_is_srl r = 0" "sr_is_sra r = 1" using shift_right_real(2) [OF acc] real by auto
  then show ?thesis
  proof cases
    case 1
    then have "alu_answer SRL vs"
      using recv shift_right_result [OF acc real, of _ _ False] unfolding shift_right_receives by (auto intro!: alu_answerI simp: s from_bool_def real)
    then show ?thesis by blast
  next
    case 2
    then have "alu_answer SRA vs"
      using recv shift_right_result [OF acc real, of _ _ True] unfolding shift_right_receives by (auto intro!: alu_answerI simp: s from_bool_def real)
    then show ?thesis by blast
  qed
qed

end

section \<open>Completeness\<close>

lemma nb_shift:
  "nb_bits_to_shift c = unat c mod 8" "nb_bytes_to_shift c = unat (c AND 31) div 8"
  "nb_bits_to_shift c < 8" "nb_bytes_to_shift c < 4" "8 * nb_bytes_to_shift c + nb_bits_to_shift c = unat c mod 32"
proof -
  have m: "unat (c mod 32) = unat c mod 32" by (simp add: unat_mod)
  show "nb_bits_to_shift c = unat c mod 8" unfolding nb_bits_to_shift_def m by (simp add: mod_mod_cancel)
  have "unat c mod 32 = unat c mod 8 + 8 * (unat c div 8 mod 4)" using mod_mult2_eq [of "unat c" 8 4] by simp
  then have "unat c mod 32 div 8 = unat c div 8 mod 4" by (simp only: digit(2) [of _ 8] mod_less_divisor zero_less_numeral)
  then show "nb_bytes_to_shift c = unat (c AND 31) div 8" unfolding nb_bytes_to_shift_def m and_31 .
  show "nb_bits_to_shift c < 8" unfolding nb_bits_to_shift_def by simp
  show "nb_bytes_to_shift c < 4" unfolding nb_bytes_to_shift_def m by (simp add: div_less_iff_less_mult)
  show "8 * nb_bytes_to_shift c + nb_bits_to_shift c = unat c mod 32"
    unfolding nb_bits_to_shift_def nb_bytes_to_shift_def m by (rule mult_div_mod_eq)
qed

text \<open>The bytes of the operand extended to 64 bits.\<close>

lemma u64_ext_byte: "i < 8 \<Longrightarrow> u64_byte (if sra then scast x else ucast x) i = ext_byte sra x i"
proof (rule bit_word_eqI)
  fix j
  assume i: "i < 8" and "j < LENGTH(8)"
  then have j: "j < 8" "8 * i + j < 64" by simp_all
  have "bit (ucast x :: u64) m \<longleftrightarrow> ext_bit False x m" if "m < 64" for m
    using that bit_imp_le_length [of x m] unfolding ext_bit_def by (auto simp: bit_ucast_iff)
  moreover have "bit (scast x :: u64) m \<longleftrightarrow> ext_bit True x m" if "m < 64" for m
  proof -
    have "min 31 m = (if m < 32 then m else 31)" by auto
    then show ?thesis using that unfolding ext_bit_def bit_signed_iff len32 by (simp add: possible_bit_def)
  qed
  ultimately show "bit (u64_byte (if sra then scast x else ucast x) i) j \<longleftrightarrow> bit (ext_byte sra x i) j"
    using j unfolding bit_ext_byte u64_byte_def by (cases sra) (simp_all add: bit_ucast_iff bit_drop_bit_eq)
qed

lemma msb_31: "drop_bit 7 (limb3 (le_bytes x)) AND 1 = (if bit (x :: u32) 31 then 1 else 0 :: u8)"
  by (rule bit_word_eqI) (auto simp: le_bytes_def bit_simps bit_and_iff bit_1_iff bit_drop_bit_eq intro: gr0I)

lemma shr_carry_0 [simp]: "snd (shr_carry 0 k) = 0"
  by (simp add: shr_carry_def Let_def)

lemma shr_join_mod:
  assumes "k < 8"
  shows "(of_nat ((unat (fst (shr_carry b (of_nat k))) + unat (snd (shr_carry c (of_nat k))) * 2 ^ (8 - k)) mod 256) :: u8)
    = drop_bit k b OR push_bit (8 - k) c"
proof -
  have "unat (fst (shr_carry b (of_nat k))) + unat (snd (shr_carry c (of_nat k))) * 2 ^ (8 - k) = unat (drop_bit k b OR push_bit (8 - k) c :: u8)"
    unfolding shr_carry_unat [OF assms] by (rule shr_join [OF assms])
  then have "(unat (fst (shr_carry b (of_nat k))) + unat (snd (shr_carry c (of_nat k))) * 2 ^ (8 - k)) mod 256 = unat (drop_bit k b OR push_bit (8 - k) c :: u8)"
    using unat_u8_less [of "drop_bit k b OR push_bit (8 - k) c"] by (simp only: mod_less)
  then show ?thesis by simp
qed

text \<open>The row that is generated, in terms of the shifted bytes.\<close>

lemma shift_right_row_eq:
  fixes e :: alu_event
  assumes "alu_opcode e \<in> {SRL, SRA}"
  defines "k \<equiv> nb_bits_to_shift (alu_c e)" and "n \<equiv> nb_bytes_to_shift (alu_c e)" and "sra \<equiv> alu_opcode e = SRA"
  defines "w \<equiv> \<lambda>i. if i + n < 8 then ext_byte sra (alu_b e) (i + n) else 0"
  defines "v \<equiv> \<lambda>i. drop_bit k (w i) OR push_bit (8 - k) (if i + 1 < 8 then w (i + 1) else 0)"
  shows "shift_right_row e = Inr (\<lparr>sr_pc = from_canonical_u32 (alu_pc e), sr_a = word_from (alu_a e), sr_b = word_from (alu_b e),
      sr_c = word_from (alu_c e), sr_op_a_not_0 = from_bool (\<not> alu_op_a_0 e),
      sr_shift_by_n_bits = (\<lambda>i. from_bool (k = i)), sr_shift_by_n_bytes = (\<lambda>i. from_bool (n = i)),
      sr_byte_shift_result = (\<lambda>i. from_canonical_u8 (w i)), sr_bit_shift_result = (\<lambda>i. from_canonical_u8 (v i)),
      sr_carry = (\<lambda>i. from_canonical_u8 (snd (shr_carry (w i) (of_nat k)))),
      sr_shifted_byte = (\<lambda>i. from_canonical_u8 (fst (shr_carry (w i) (of_nat k)))),
      sr_b_msb = from_canonical_u32 (drop_bit 31 (alu_b e) AND 1),
      sr_c_least_sig_byte = (\<lambda>i. from_canonical_u32 (drop_bit i (alu_c e) AND 1)),
      sr_is_srl = from_bool (\<not> sra), sr_is_sra = from_bool sra, sr_is_real = 1 :: 'f::field\<rparr>,
    [\<lparr>bl_opcode = MSB, bl_a1 = ucast (drop_bit 7 (limb3 (le_bytes (alu_b e))) AND 1), bl_a2 = 0, bl_b = limb3 (le_bytes (alu_b e)), bl_c = 0\<rparr>] @
    map (\<lambda>i. shr_event (w i) (of_nat k)) (rev [0..<8]) @ u8_range_checks (arr_list 8 w) @ u8_range_checks (arr_list 8 v) @
    u8_range_checks (arr_list 8 (\<lambda>i. snd (shr_carry (w i) (of_nat k)))) @ u8_range_checks (arr_list 8 (\<lambda>i. fst (shr_carry (w i) (of_nat k)))))"
proof -
  have k: "k < 8" unfolding k_def by (rule nb_shift)
  have w: "(if i + n < 8 then u64_byte (if alu_opcode e = SRA then scast (alu_b e) else ucast (alu_b e)) (i + n) else 0) = w i" for i
    unfolding w_def sra_def by (intro if_cong refl u64_ext_byte)
  have v: "(of_nat ((unat (fst (shr_carry (w i) (of_nat k))) + (if i + 1 < 8 then unat (snd (shr_carry (w (i + 1)) (of_nat k))) else 0)
      * 2 ^ (8 - k)) mod 256) :: u8) = v i" for i
    unfolding v_def shr_join_mod [OF k, symmetric] by auto
  have f: "alu_opcode e = SRL \<longleftrightarrow> \<not> sra" using assms(1) by (auto simp: sra_def)
  show ?thesis unfolding shift_right_row_def Let_def k_def [symmetric] n_def [symmetric] w v f by (simp only: sra_def)
qed

context prime_field32
begin

lemma shift_right_complete:
  assumes ok: "alu_ok e" "x0_ok e" "alu_opcode e \<in> {SRL, SRA}"
  shows "\<exists>r ls. shift_right_row e = Inr (r :: 'f shift_right_cols, ls) \<and> accepts (alu_lookups D) (shift_right_eval r)
    \<and> mset (sends Byte_kind (shift_right_eval r)) = mset (requests ls)
    \<and> receives Instruction_kind (shift_right_eval r) = [(instruction_values (event_msg e), 1)]"
proof -
  define k n sra where "k = nb_bits_to_shift (alu_c e)" and "n = nb_bytes_to_shift (alu_c e)" and "sra \<longleftrightarrow> alu_opcode e = SRA"
  define w where "w i = (if i + n < 8 then ext_byte sra (alu_b e) (i + n) else 0)" for i
  define v where "v i = drop_bit k (w i) OR push_bit (8 - k) (if i + 1 < 8 then w (i + 1) else 0)" for i
  obtain r ls where row: "shift_right_row e = Inr (r :: 'f shift_right_cols, ls)" by (simp add: shift_right_row_def Let_def)
  note row' = shift_right_row_eq [OF ok(3), folded k_def n_def sra_def, folded w_def, folded v_def]
  have kn: "k < 8" "n < 4" "8 * n + k = unat (alu_c e) mod 32" unfolding k_def n_def by (rule nb_shift)+
  have a: "word_at (le_bytes (alu_a e)) i = v i" if "i < 4" "\<not> alu_op_a_0 e" for i
  proof -
    have "alu_a e = shift_right sra (alu_b e) (8 * n + k)"
      using ok that(2) unfolding kn(3) by (auto simp: alu_ok_def shift_right_def sra_def wrapping_shr_def wrapping_shr_i32_def)
    then show ?thesis using that(1) kn(2) shift_right_bytes [OF that(1) kn(1), of sra "alu_b e" n] by (simp add: v_def w_def ac_simps)
  qed
  have b31: "from_canonical_u32 (drop_bit 31 (alu_b e) AND 1) = (from_bool (bit (alu_b e) 31) :: 'f)"
    by (simp only: and_one_eq) (simp add: from_bool_def from_canonical_u32_def bit_iff_odd_drop_bit odd_iff_mod_2_eq_one)
  have r: "r = \<lparr>sr_pc = from_canonical_u32 (alu_pc e), sr_a = word_from (alu_a e), sr_b = word_from (alu_b e),
      sr_c = word_from (alu_c e), sr_op_a_not_0 = from_bool (\<not> alu_op_a_0 e), sr_shift_by_n_bits = (\<lambda>i. from_bool (k = i)), sr_shift_by_n_bytes = (\<lambda>i. from_bool (n = i)),
      sr_byte_shift_result = (\<lambda>i. from_canonical_u8 (w i)), sr_bit_shift_result = (\<lambda>i. from_canonical_u8 (v i)),
      sr_carry = (\<lambda>i. from_canonical_u8 (snd (shr_carry (w i) (of_nat k)))),
      sr_shifted_byte = (\<lambda>i. from_canonical_u8 (fst (shr_carry (w i) (of_nat k)))), sr_b_msb = from_bool (bit (alu_b e) 31),
      sr_c_least_sig_byte = (\<lambda>i. from_canonical_u32 (drop_bit i (alu_c e) AND 1)),
      sr_is_srl = from_bool (\<not> sra), sr_is_sra = from_bool sra, sr_is_real = 1\<rparr>"
    using row unfolding row' b31 by simp
  have bits: "sum_list (map (\<lambda>i. from_canonical_u32 (drop_bit i (alu_c e) AND 1) * 2 ^ i) [0..<3]) = (of_nat k :: 'f)"
    "from_canonical_u8 (of_nat k) = (of_nat k :: 'f)"
    "from_canonical_u32 (drop_bit 3 (alu_c e) AND 1) + from_canonical_u32 (drop_bit 4 (alu_c e) AND 1) * 2 = (of_nat n :: 'f)"
    unfolding shift_amount_complete(2,3) k_def n_def nb_shift by (simp_all add: from_canonical_u8_def unsigned_of_nat take_bit_eq_mod)
  have mult: "sum_list (map (\<lambda>i. of_nat (2 ^ (8 - i)) * from_bool (k = i)) [0..<8]) = (of_nat (2 ^ (8 - k)) :: 'f)"
    using kn(1) by (intro one_hot_sum) auto
  have join: "from_canonical_u8 (fst (shr_carry (w i) (of_nat k))) + (if i + 1 < 8 then from_canonical_u8 (snd (shr_carry (w (i + 1)) (of_nat k)))
      * of_nat (2 ^ (8 - k)) else 0) = (from_canonical_u8 (v i) :: 'f)" for i
    using shr_join_field [OF kn(1), of "w i" "if i + 1 < 8 then w (i + 1) else 0"] unfolding v_def by (simp split: if_splits)
  have w: "from_canonical_u8 (w i) = (if i + n < 4 then word_at (word_from (alu_b e)) (i + n)
      else from_bool sra * from_bool (bit (alu_b e) 31) * from_canonical_u8 0xff :: 'f)" if "i < 8 - n" for i
    using that by (auto simp: w_def ext_byte_def word_at_from from_bool_def)
  have acc: "accepts (alu_lookups D) (shift_right_eval r)"
    unfolding shift_right_eval_def Let_def r shift_right_cols.simps shift_amount_complete(1) bits mult join limb_word_from accepts_simps accepts_concat
    using kn(1,2) byte_lookups_alu [OF requests_range_arr(2), of D] shift_amount_complete(4) [of _ "alu_c e"]
    by (intro conjI) (simp_all add: assert_eq_def assert_zero_def assert_bool_def air_when_def send_byte_def send_byte_pair_def receive_instruction_def assert_one_def
      one_hot_from_bool alu_lookups_def msb_ext bits word_at_from,
      auto simp: a w_def ext_byte_def from_bool_def intro: exI [of _ "of_nat k"] simp flip: bits(2))
  have "ls = [\<lparr>bl_opcode = MSB, bl_a1 = ucast (drop_bit 7 (limb3 (le_bytes (alu_b e))) AND 1), bl_a2 = 0, bl_b = limb3 (le_bytes (alu_b e)), bl_c = 0\<rparr>] @
    map (\<lambda>i. shr_event (w i) (of_nat k)) (rev [0..<8]) @ u8_range_checks (arr_list 8 w) @ u8_range_checks (arr_list 8 v) @
    u8_range_checks (arr_list 8 (\<lambda>i. snd (shr_carry (w i) (of_nat k)))) @ u8_range_checks (arr_list 8 (\<lambda>i. fst (shr_carry (w i) (of_nat k))))"
    using row unfolding row' by simp
  moreover have "from_canonical_u8 (drop_bit 7 (limb3 (le_bytes (alu_b e))) AND 1) = (from_bool (bit (alu_b e) 31) :: 'f)"
    by (simp add: msb_31 from_bool_def)
  ultimately have "sends Byte_kind (shift_right_eval r) = requests ls"
    unfolding shift_right_sends r shift_right_cols.simps bits requests_range_arr limb_word_from
    by (simp add: send_byte_def send_byte_pair_def requests_def shr_event_def bits comp_def del: upt_Suc)
  moreover have "receives Instruction_kind (shift_right_eval r) = [(instruction_values (event_msg e), 1)]"
    unfolding shift_right_receives using ok by (auto simp: r event_msg_def sra_def from_bool_def)
  ultimately show ?thesis using row acc by auto
qed

end

lemma shift_right_no_bytes: "receives Byte_kind (shift_right_eval r) = []"
  by (simp add: shift_right_eval_def Let_def air)

lemma shift_right_no_requests: "sends Instruction_kind (shift_right_eval r) = []"
  unfolding shift_right_eval_def Let_def sends_append sends_concat by (simp add: air)

lemma shift_right_idle: "accepts L (shift_right_eval shift_right_padding)" "receives k (shift_right_eval shift_right_padding) = []"
  by (simp_all add: shift_right_padding_def shift_right_eval_def Let_def air word_zero_def word_at_zero arr_list_def upt_rec)

interpretation shift_right: alu_chip "\<lambda>x. nat (rep_bb x)" "shift_right_eval :: bb shift_right_cols \<Rightarrow> _" shift_right_row shift_right_padding "{SRL, SRA}" "{}" "\<lambda>_. []"
  by unfold_locales
    (rule shift_right_no_bytes shift_right_idle |
     erule (1) bb.shift_right_received | erule (1) bb.shift_right_sent | erule (1) bb.shift_right_sound | erule (2) bb.shift_right_complete |
     simp add: shift_right_no_requests)+

end
