(* ===== verification/SP1_Chip_Mul.thy ===== *)
theory SP1_Chip_Mul
  imports SP1_Chip_Sr
begin

text \<open>
  The table of MUL, MULH, MULHU and MULHSU, \<open>crates/core/machine/src/alu/mul/mod.rs\<close>: the operands,
  extended to eight bytes, are multiplied byte by byte and the carries are propagated.
\<close>

section \<open>The chip\<close>

record 'f mul_cols =
  mu_pc :: 'f
  mu_a :: "'f word4"
  mu_b :: "'f word4"
  mu_c :: "'f word4"
  mu_op_a_not_0 :: 'f
  mu_carry :: "'f arr"
  mu_product :: "'f arr"
  mu_b_msb :: 'f
  mu_c_msb :: 'f
  mu_b_sign_extend :: 'f
  mu_c_sign_extend :: 'f
  mu_is_mul :: 'f
  mu_is_mulh :: 'f
  mu_is_mulhu :: 'f
  mu_is_mulhsu :: 'f
  mu_is_real :: 'f

definition mul_zero :: "'f::field mul_cols" where
  "mul_zero = \<lparr>mu_pc = 0, mu_a = word_zero, mu_b = word_zero, mu_c = word_zero, mu_op_a_not_0 = 0, mu_carry = (\<lambda>_. 0),
     mu_product = (\<lambda>_. 0), mu_b_msb = 0, mu_c_msb = 0, mu_b_sign_extend = 0, mu_c_sign_extend = 0, mu_is_mul = 0, mu_is_mulh = 0,
     mu_is_mulhu = 0, mu_is_mulhsu = 0, mu_is_real = 0\<rparr>"

definition msb_of_bytes :: "u8 word4 \<Rightarrow> u8" where
  "msb_of_bytes a = drop_bit 7 (limb3 a) AND 1"

text \<open>The vector of the bytes of an operand, resized with \<open>BYTE_MASK\<close>.\<close>

definition resize_ff :: "bool \<Rightarrow> u8 word4 \<Rightarrow> u8 list" where
  "resize_ff ext w = (if ext then limbs w @ replicate 4 0xff else limbs w)"

text \<open>The loops that add \<open>b[i] * c[j]\<close> to the entry \<open>i + j\<close>.\<close>

definition uncarried :: "nat \<Rightarrow> nat \<Rightarrow> 'a::comm_semiring_1 arr \<Rightarrow> 'a arr \<Rightarrow> 'a arr" where
  "uncarried lb lc b c k = sum_list (map (\<lambda>i. sum_list (map (\<lambda>j. if i + j = k then b i * c j else 0) [0..<lc])) [0..<lb])"

text \<open>An entry after the carry of the entry before it is added.\<close>

primrec mul_carried :: "nat arr \<Rightarrow> nat arr" where
  "mul_carried m 0 = m 0"
| "mul_carried m (Suc i) = m (Suc i) + mul_carried m i div 256"

definition msb_event :: "u8 word4 \<Rightarrow> byte_lookup_event" where
  "msb_event w = \<lparr>bl_opcode = MSB, bl_a1 = ucast (msb_of_bytes w), bl_a2 = 0, bl_b = limb3 w, bl_c = 0\<rparr>"

definition mul_row :: "alu_event \<Rightarrow> ('f::field mul_cols \<times> byte_lookup_event list) res" where
  "mul_row event =
     (let b_word = le_bytes (alu_b event);
          c_word = le_bytes (alu_c event);
          b_msb = msb_of_bytes b_word;
          c_msb = msb_of_bytes c_word;
          b_ext = (alu_opcode event = MULH \<or> alu_opcode event = MULHSU) \<and> b_msb = 1;
          c_ext = alu_opcode event = MULH \<and> c_msb = 1;
          b = resize_ff b_ext b_word;
          c = resize_ff c_ext c_word;
          v = mul_carried (uncarried (length b) (length c) (\<lambda>i. unat (b ! i)) (\<lambda>j. unat (c ! j)));
          carry = (\<lambda>i. v i div 256);
          product = (\<lambda>i. v i mod 256)
      in Inr (\<lparr>mu_pc = from_canonical_u32 (alu_pc event), mu_a = word_from (alu_a event), mu_b = word_from (alu_b event),
           mu_c = word_from (alu_c event), mu_op_a_not_0 = from_bool (\<not> alu_op_a_0 event),
           mu_carry = (\<lambda>i. of_nat (carry i)), mu_product = (\<lambda>i. of_nat (product i)),
           mu_b_msb = from_canonical_u8 b_msb, mu_c_msb = from_canonical_u8 c_msb,
           mu_b_sign_extend = (if b_ext then 1 else 0), mu_c_sign_extend = (if c_ext then 1 else 0),
           mu_is_mul = from_bool (alu_opcode event = MUL), mu_is_mulh = from_bool (alu_opcode event = MULH),
           mu_is_mulhu = from_bool (alu_opcode event = MULHU), mu_is_mulhsu = from_bool (alu_opcode event = MULHSU), mu_is_real = 1\<rparr>,
         map msb_event [b_word, c_word] @ u16_range_checks (arr_list 8 (\<lambda>i. of_nat (carry i)))
           @ u8_range_checks (arr_list 8 (\<lambda>i. of_nat (product i)))))"

definition mul_eval :: "'f::field mul_cols \<Rightarrow> 'f action list" where
  "mul_eval local =
     (let is_b_i32 = mu_is_mulh local + mu_is_mulhsu local - mu_is_mulh local * mu_is_mulhsu local;
          is_c_i32 = mu_is_mulh local;
          b = (\<lambda>i. if i < 4 then word_at (mu_b local) i else mu_b_sign_extend local * from_canonical_u8 0xff);
          c = (\<lambda>i. if i < 4 then word_at (mu_c local) i else mu_c_sign_extend local * from_canonical_u8 0xff);
          m = uncarried 8 8 b c;
          is_lower = mu_is_mul local;
          is_upper = mu_is_mulh local + mu_is_mulhu local + mu_is_mulhsu local
      in concat (map (\<lambda>(msb, byte). send_byte (byte_opcode_field MSB) msb byte 0 (mu_is_real local))
           [(mu_b_msb local, limb3 (mu_b local)), (mu_c_msb local, limb3 (mu_c local))]) @
         assert_eq (mu_b_sign_extend local) (is_b_i32 * mu_b_msb local) @
         assert_eq (mu_c_sign_extend local) (is_c_i32 * mu_c_msb local) @
         concat (map (\<lambda>i. if i = 0 then assert_eq (mu_product local i) (m i - mu_carry local i * 256)
           else assert_eq (mu_product local i) (m i + mu_carry local (i - 1) - mu_carry local i * 256)) [0..<8]) @
         concat (map (\<lambda>i. air_when (mu_op_a_not_0 local) (air_when is_lower (assert_eq (mu_product local i) (word_at (mu_a local) i))) @
           air_when (mu_op_a_not_0 local) (air_when is_upper (assert_eq (mu_product local (i + 4)) (word_at (mu_a local) i)))) [0..<4]) @
         concat (map assert_bool [mu_b_msb local, mu_c_msb local, mu_b_sign_extend local, mu_c_sign_extend local, mu_is_mul local,
           mu_is_mulh local, mu_is_mulhu local, mu_is_mulhsu local, mu_is_real local]) @
         air_when (mu_b_sign_extend local) (assert_eq (mu_b_msb local) 1) @
         air_when (mu_c_sign_extend local) (assert_eq (mu_c_msb local) 1) @
         air_when (mu_is_real local) (assert_one (mu_is_mul local + mu_is_mulh local + mu_is_mulhu local + mu_is_mulhsu local)) @
         slice_range_check_u16 (arr_list 8 (mu_carry local)) (mu_is_real local) @
         slice_range_check_u8 (arr_list 8 (mu_product local)) (mu_is_real local) @
         receive_instruction (alu_msg (mu_pc local) (mu_is_mul local * opcode_field MUL + mu_is_mulh local * opcode_field MULH
             + mu_is_mulhu local * opcode_field MULHU + mu_is_mulhsu local * opcode_field MULHSU)
           (mu_a local) (mu_b local) (mu_c local) (1 - mu_op_a_not_0 local)) (mu_is_real local) @
         air_when (mu_op_a_not_0 local) (assert_one (mu_is_real local)))"

definition mul_generate_trace :: "nat option \<Rightarrow> execution_record \<Rightarrow> 'f::field mul_cols list res" where
  "mul_generate_trace size_log2 input = generate_trace mul_row mul_zero size_log2 (mul_events input)"

definition mul_generate_dependencies :: "nat \<Rightarrow> execution_record \<Rightarrow> byte_lookups \<Rightarrow> byte_lookups res" where
  "mul_generate_dependencies num_cpus input output =
     generate_dependencies num_cpus (mul_row :: _ \<Rightarrow> (bb mul_cols \<times> _) res) (mul_events input) output"

definition mul_included :: "bool option \<Rightarrow> execution_record \<Rightarrow> bool" where
  "mul_included in_shape shard = included in_shape (mul_events shard)"

section \<open>Long multiplication\<close>

lemma uncarried_sum: "uncarried lb lc b c k = (\<Sum>i<lb. \<Sum>j<lc. if i + j = k then b i * c j else 0)"
  by (simp add: uncarried_def interv_sum_list_conv_sum_set_nat atLeast0LessThan)

lemma uncarried_of_nat: "(of_nat (uncarried lb lc b c k) :: 'a::comm_semiring_1) = uncarried lb lc (\<lambda>i. of_nat (b i)) (\<lambda>j. of_nat (c j)) k"
  unfolding uncarried_sum by (simp add: if_distrib cong: if_cong)

lemma uncarried_cong:
  assumes "\<And>i. i < lb \<Longrightarrow> b i = b' i" "\<And>j. j < lc \<Longrightarrow> c j = c' j"
  shows "uncarried lb lc b c k = uncarried lb lc b' c' k"
  unfolding uncarried_sum using assms by (intro sum.cong refl) auto

lemma uncarried_extend:
  assumes "lb \<le> N" "lc \<le> N" "\<And>i. lb \<le> i \<Longrightarrow> b i = 0" "\<And>j. lc \<le> j \<Longrightarrow> c j = 0"
  shows "uncarried lb lc b c k = uncarried N N b c k"
proof -
  have "(\<Sum>i<lb. \<Sum>j<lc. if i + j = k then b i * c j else 0) = (\<Sum>i<N. \<Sum>j<lc. if i + j = k then b i * c j else 0)"
    using assms by (intro sum.mono_neutral_left) (auto intro!: sum.neutral)
  also have "\<dots> = (\<Sum>i<N. \<Sum>j<N. if i + j = k then b i * c j else 0)"
    using assms by (intro sum.cong refl sum.mono_neutral_left) auto
  finally show ?thesis unfolding uncarried_sum .
qed

lemma mod_sum_cong:
  fixes f g :: "'a \<Rightarrow> nat"
  assumes "\<And>x. x \<in> A \<Longrightarrow> f x mod n = g x mod n"
  shows "sum f A mod n = sum g A mod n"
proof -
  have "sum f A mod n = (\<Sum>x\<in>A. f x mod n) mod n" by (rule mod_sum_eq [symmetric])
  also have "\<dots> = (\<Sum>x\<in>A. g x mod n) mod n" using assms by (simp cong: sum.cong)
  also have "\<dots> = sum g A mod n" by (rule mod_sum_eq)
  finally show ?thesis .
qed

text \<open>The entries below \<open>N\<close> determine the product modulo \<open>256 ^ N\<close>.\<close>

lemma uncarried_product:
  fixes b c :: "nat \<Rightarrow> nat"
  shows "(\<Sum>k<N. 256 ^ k * uncarried N N b c k) mod 256 ^ N = (\<Sum>i<N. 256 ^ i * b i) * (\<Sum>j<N. 256 ^ j * c j) mod 256 ^ N"
proof -
  have "(\<Sum>k<N. 256 ^ k * uncarried N N b c k) = (\<Sum>i<N. \<Sum>j<N. \<Sum>k<N. if i + j = k then 256 ^ k * (b i * c j) else 0)"
  proof -
    let ?f = "\<lambda>i j k. if i + j = k then 256 ^ k * (b i * c j) else 0"
    have "(\<Sum>k<N. 256 ^ k * uncarried N N b c k) = (\<Sum>k<N. \<Sum>i<N. \<Sum>j<N. ?f i j k)"
      unfolding uncarried_sum sum_distrib_left by (intro sum.cong refl) simp
    also have "\<dots> = (\<Sum>i<N. \<Sum>k<N. \<Sum>j<N. ?f i j k)" by (rule sum.swap)
    also have "\<dots> = (\<Sum>i<N. \<Sum>j<N. \<Sum>k<N. ?f i j k)" by (rule sum.cong [OF refl sum.swap])
    finally show ?thesis .
  qed
  also have "\<dots> = (\<Sum>i<N. \<Sum>j<N. if i + j < N then 256 ^ (i + j) * (b i * c j) else 0)" by (intro sum.cong refl) simp
  finally have l: "(\<Sum>k<N. 256 ^ k * uncarried N N b c k) = (\<Sum>i<N. \<Sum>j<N. if i + j < N then 256 ^ (i + j) * (b i * c j) else 0)" .
  have p: "(\<Sum>i<N. 256 ^ i * b i) * (\<Sum>j<N. 256 ^ j * c j) = (\<Sum>i<N. \<Sum>j<N. 256 ^ (i + j) * (b i * c j))"
    unfolding sum_product by (intro sum.cong refl) (simp only: power_add ac_simps)
  show ?thesis
    unfolding l p
  proof (rule mod_sum_cong, rule mod_sum_cong)
    fix i j
    show "(if i + j < N then 256 ^ (i + j) * (b i * c j) else 0) mod 256 ^ N = 256 ^ (i + j) * (b i * c j) mod 256 ^ N"
    proof (cases "i + j < N")
      case False
      then have "256 ^ N dvd (256 :: nat) ^ (i + j)" by (intro le_imp_power_dvd) simp
      then have "256 ^ N dvd 256 ^ (i + j) * (b i * c j)" by (rule dvd_mult2)
      then show ?thesis using False by (simp only: if_False mod_0_imp_dvd dvd_imp_mod_0 mod_0)
    qed simp
  qed
qed

text \<open>Propagating the carries does not change the number.\<close>

lemma carries_sum:
  fixes p c m :: "nat \<Rightarrow> nat"
  assumes "\<And>i. i < N \<Longrightarrow> p i + 256 * c i = m i + (if i > 0 then c (i - 1) else 0)"
  shows "(\<Sum>i<N. 256 ^ i * p i) + 256 ^ N * (if N > 0 then c (N - 1) else 0) = (\<Sum>i<N. 256 ^ i * m i)"
  using assms
proof (induction N)
  case (Suc N)
  have "256 ^ N * p N + 256 ^ Suc N * c N = 256 ^ N * m N + 256 ^ N * (if N > 0 then c (N - 1) else 0)"
    using arg_cong [OF Suc.prems [OF lessI], of "\<lambda>x. 256 ^ N * x"] by (simp only: distrib_left power_Suc mult.assoc mult.left_commute)
  then show ?case using Suc.IH Suc.prems by simp
qed simp

lemma digit_sum: "(\<Sum>i<k. 256 ^ i * (n div 256 ^ i mod 256)) = (n :: nat) mod 256 ^ k"
proof (induction k)
  case (Suc k)
  then show ?case using mod_mult2_eq [of n "256 ^ k" 256] by (simp add: mult.commute)
qed simp

lemma digits_bound:
  fixes p :: "nat \<Rightarrow> nat"
  shows "(\<And>i. i < N \<Longrightarrow> p i < 256) \<Longrightarrow> (\<Sum>i<N. 256 ^ i * p i) < 256 ^ N"
proof (induction N)
  case (Suc N)
  have "256 ^ N * p N \<le> 256 ^ N * 255" using Suc.prems [of N] by (intro mult_left_mono) auto
  moreover have "(\<Sum>i<N. 256 ^ i * p i) < 256 ^ N" using Suc by simp
  ultimately have "(\<Sum>i<N. 256 ^ i * p i) + 256 ^ N * p N < 256 ^ N * 256" by linarith
  then show ?case by simp
qed simp

lemma digits_unique:
  fixes p :: "nat \<Rightarrow> nat"
  assumes "(\<Sum>i<N. 256 ^ i * p i) = n" "\<And>i. i < N \<Longrightarrow> p i < 256" "i < N"
  shows "p i = n div 256 ^ i mod 256"
  using assms
proof (induction N arbitrary: p n i)
  case (Suc N)
  have s: "n = p 0 + 256 * (\<Sum>i<N. 256 ^ i * p (Suc i))"
    using Suc.prems(1) by (simp add: sum.lessThan_Suc_shift sum_distrib_left ac_simps del: sum.lessThan_Suc)
  have "n mod 256 = p 0" "n div 256 = (\<Sum>i<N. 256 ^ i * p (Suc i))"
    unfolding s using Suc.prems(2) [of 0] by (simp_all only: byte_step zero_less_Suc)
  then show ?case
    using Suc.IH [of "\<lambda>i. p (Suc i)" "n div 256" "i - 1"] Suc.prems(2,3) by (cases i) (simp_all add: div_mult2_eq)
qed simp

lemma unat_u64_byte: "unat (u64_byte w i) = unat w div 256 ^ i mod 256"
  by (simp add: u64_byte_def unsigned_ucast_eq take_bit_eq_mod unat_drop_bit_eq drop_bit_eq_div [where 'a = nat] power_mult)

lemma u64_sum: "(\<Sum>i<8. 256 ^ i * unat (u64_byte w i)) = unat w"
proof -
  have "unat w < 256 ^ 8" using unsigned_less [of w, where 'a = nat] by simp
  then show ?thesis unfolding unat_u64_byte digit_sum by simp
qed

lemma u64_product:
  fixes p c :: "nat \<Rightarrow> nat"
  assumes "\<And>i. i < 8 \<Longrightarrow> p i + 256 * c i = uncarried 8 8 (\<lambda>i. unat (u64_byte x i)) (\<lambda>i. unat (u64_byte y i)) i + (if i > 0 then c (i - 1) else 0)"
    and "\<And>i. i < 8 \<Longrightarrow> p i < 256" "i < 8"
  shows "p i = unat (u64_byte (x * y) i)"
proof (rule trans)
  have "(\<Sum>i<8. 256 ^ i * p i) + 256 ^ 8 * c 7
      = (\<Sum>k<8. 256 ^ k * uncarried 8 8 (\<lambda>i. unat (u64_byte x i)) (\<lambda>i. unat (u64_byte y i)) k)"
    using carries_sum [of 8 p c] assms(1) by simp
  then have "((\<Sum>i<8. 256 ^ i * p i) + 256 ^ 8 * c 7) mod 256 ^ 8 = unat x * unat y mod 256 ^ 8"
    by (simp only: uncarried_product u64_sum)
  then have "(\<Sum>i<8. 256 ^ i * p i) = unat x * unat y mod 256 ^ 8"
    using digits_bound [of 8 p] assms(2) by simp
  then have "(\<Sum>i<8. 256 ^ i * p i) = unat (x * y)" by (simp add: unat_word_ariths)
  then show "p i = unat (x * y) div 256 ^ i mod 256" by (rule digits_unique [OF _ assms(2,3)])
qed (simp only: unat_u64_byte)

section \<open>The halves of the product\<close>

definition ext64 :: "bool \<Rightarrow> u32 \<Rightarrow> u64" where
  "ext64 s x = (if s then scast x else ucast x)"

lemma ucast_mult64: "(ucast (a * b :: u64) :: u32) = ucast a * ucast b"
  by (simp add: word_unat_eq_iff unsigned_ucast_eq take_bit_eq_mod [where 'a = nat] unat_word_ariths mod_mod_cancel mod_mult_eq)

lemma ucast_ext64 [simp]: "ucast (ext64 s x) = x"
  by (rule bit_word_eqI) (simp add: ext64_def bit_ucast_iff bit_signed_iff possible_bit_def min_absorb2)

lemma signed_upper: "(ucast (signed_drop_bit 32 (w :: u64)) :: u32) = ucast (drop_bit 32 w)"
  by (rule bit_word_eqI) (simp add: bit_ucast_iff bit_signed_drop_bit_iff bit_drop_bit_eq)

lemma le_bytes_halves:
  assumes "i < 4"
  shows "word_at (le_bytes (ucast (w :: u64))) i = u64_byte w i" "word_at (le_bytes (ucast (drop_bit 32 w))) i = u64_byte w (i + 4)"
  by (rule bit_word_eqI, use assms in \<open>simp add: bit_word_at u64_byte_def bit_ucast_iff bit_drop_bit_eq add.commute add.left_commute\<close>)+

lemma uncarried_bound:
  assumes "\<And>i. b i < 256" "\<And>j. c j < (256 :: nat)"
  shows "uncarried 8 8 b c k \<le> 4161600"
proof -
  have "(if i + j = k then b i * c j else 0) \<le> 255 * 255" for i j
    using assms(1) [of i] assms(2) [of j] mult_le_mono [of "b i" 255 "c j" 255] by auto
  then have "(\<Sum>i<8. \<Sum>j<8. if i + j = k then b i * c j else 0) \<le> (\<Sum>i<8::nat. \<Sum>j<8::nat. 255 * 255)"
    by (intro sum_mono)
  then show ?thesis unfolding uncarried_sum by simp
qed

section \<open>Soundness\<close>

lemma range_u16_simps [simp]:
  "receives k (slice_range_check_u16 xs m) = []" "sends Instruction_kind (slice_range_check_u16 xs m) = []"
  by (induction xs) (simp_all add: slice_range_check_u16_def air)

lemma range_u16_sends: "(vs, m') \<in> set (sends k (slice_range_check_u16 xs m)) \<Longrightarrow> m' = m"
  by (induction xs) (auto simp: slice_range_check_u16_def air split: if_splits)

context prime_field32
begin

lemma range_check_u16_arr:
  assumes "accepts (alu_lookups D) (slice_range_check_u16 (arr_list N f) (1::'f))"
  shows "\<exists>v. \<forall>i<N. f i = of_nat (v i) \<and> v i < 65536"
proof -
  have "\<forall>i<N. \<exists>n. f i = of_nat n \<and> n < 65536"
    using assms by (auto simp: slice_range_check_u16_def arr_list_def air alu_lookups_def is_u16_def)
  then show ?thesis by metis
qed

lemma mul_receives:
  fixes r :: "'f mul_cols"
  shows "receives Instruction_kind (mul_eval r) = (if mu_is_real r = 0 then [] else
    [(instruction_values (alu_msg (mu_pc r) (mu_is_mul r * opcode_field MUL + mu_is_mulh r * opcode_field MULH
       + mu_is_mulhu r * opcode_field MULHU + mu_is_mulhsu r * opcode_field MULHSU)
       (mu_a r) (mu_b r) (mu_c r) (1 - mu_op_a_not_0 r)), mu_is_real r)])"
  unfolding mul_eval_def Let_def receives_append receives_concat by (simp add: air)

lemma mul_sends:
  fixes r :: "'f mul_cols"
  shows "sends k (mul_eval r) =
    sends k (send_byte (byte_opcode_field MSB) (mu_b_msb r) (limb3 (mu_b r)) 0 (mu_is_real r)) @
    sends k (send_byte (byte_opcode_field MSB) (mu_c_msb r) (limb3 (mu_c r)) 0 (mu_is_real r)) @
    sends k (slice_range_check_u16 (arr_list 8 (mu_carry r)) (mu_is_real r)) @
    sends k (slice_range_check_u8 (arr_list 8 (mu_product r)) (mu_is_real r))"
  unfolding mul_eval_def Let_def sends_append sends_concat
  by (simp add: assert_bool_def assert_one_def assert_eq_def assert_zero_def air_when_def receive_instruction_def if_distrib cong: if_cong)

lemma mul_real: "accepts L (mul_eval (r :: 'f mul_cols)) \<Longrightarrow> mu_is_real r = 0 \<or> mu_is_real r = 1"
  unfolding mul_eval_def Let_def accepts_simps by (simp add: assert_bool_def)

lemma mul_received:
  fixes r :: "'f mul_cols"
  assumes "asserts (mul_eval r)" "(vs, m) \<in> set (receives Instruction_kind (mul_eval r))"
  shows "m = 1"
  using mul_real [OF assms(1) [unfolded asserts_def]] assms(2) unfolding mul_receives by (auto split: if_splits)

lemma mul_sent:
  fixes r :: "'f mul_cols"
  assumes "asserts (mul_eval r)" "(vs, m) \<in> set (sends k (mul_eval r))"
  shows "m = 1"
proof -
  have "m = mu_is_real r"
    using assms(2) unfolding mul_sends by (auto dest: range_sends range_u16_sends simp: send_byte_def send_byte_pair_def split: if_splits)
  then show ?thesis using mul_real [OF assms(1) [unfolded asserts_def]] sends_nonzero [OF assms(2)] by auto
qed

lemma mul_facts:
  fixes r :: "'f mul_cols"
  assumes "accepts L (mul_eval r)"
  shows "mu_b_sign_extend r = (mu_is_mulh r + mu_is_mulhsu r - mu_is_mulh r * mu_is_mulhsu r) * mu_b_msb r"
    "mu_c_sign_extend r = mu_is_mulh r * mu_c_msb r"
    "mu_is_mul r * (mu_is_mul r - 1) = 0" "mu_is_mulh r * (mu_is_mulh r - 1) = 0" "mu_is_mulhu r * (mu_is_mulhu r - 1) = 0"
    "mu_is_mulhsu r * (mu_is_mulhsu r - 1) = 0"
    "mu_is_real r * (mu_is_mul r + mu_is_mulh r + mu_is_mulhu r + mu_is_mulhsu r - 1) = 0"
    "accepts L (slice_range_check_u16 (arr_list 8 (mu_carry r)) (mu_is_real r))"
    "accepts L (slice_range_check_u8 (arr_list 8 (mu_product r)) (mu_is_real r))"
    "accepts L (send_byte (byte_opcode_field MSB) (mu_b_msb r) (limb3 (mu_b r)) 0 (mu_is_real r))"
    "accepts L (send_byte (byte_opcode_field MSB) (mu_c_msb r) (limb3 (mu_c r)) 0 (mu_is_real r))"
  using assms unfolding mul_eval_def Let_def accepts_simps
  by (simp_all add: assert_eq_def assert_one_def assert_zero_def assert_bool_def air_when_def del: mult_eq_0_iff)

lemma mul_product_facts:
  fixes r :: "'f mul_cols"
  assumes "accepts L (mul_eval r)"
  shows "\<forall>i<8. mu_product r i = uncarried 8 8 (\<lambda>i. if i < 4 then word_at (mu_b r) i else mu_b_sign_extend r * from_canonical_u8 0xff)
       (\<lambda>i. if i < 4 then word_at (mu_c r) i else mu_c_sign_extend r * from_canonical_u8 0xff) i
       + (if i > 0 then mu_carry r (i - 1) else 0) - mu_carry r i * 256" (is "\<forall>i<8. _ = ?m i + _ - _")
    "\<forall>i<4. mu_op_a_not_0 r * (mu_is_mul r * (mu_product r i - word_at (mu_a r) i)) = 0"
    "\<forall>i<4. mu_op_a_not_0 r * ((mu_is_mulh r + mu_is_mulhu r + mu_is_mulhsu r) * (mu_product r (i + 4) - word_at (mu_a r) i)) = 0"
proof -
  have "\<forall>i\<in>set [0..<8]. accepts L (if i = 0 then assert_eq (mu_product r i) (?m i - mu_carry r i * 256)
      else assert_eq (mu_product r i) (?m i + mu_carry r (i - 1) - mu_carry r i * 256))"
    using assms unfolding mul_eval_def Let_def accepts_simps accepts_concat by (elim conjE)
  then show "\<forall>i<8. mu_product r i = ?m i + (if i > 0 then mu_carry r (i - 1) else 0) - mu_carry r i * 256"
    by (intro allI impI, drule_tac bspec, simp, rename_tac i, case_tac "i = 0") (simp_all add: assert_eq_def assert_zero_def)
  have "\<forall>i\<in>set [0..<4]. accepts L (air_when (mu_op_a_not_0 r) (air_when (mu_is_mul r) (assert_eq (mu_product r i) (word_at (mu_a r) i))))
      \<and> accepts L (air_when (mu_op_a_not_0 r) (air_when (mu_is_mulh r + mu_is_mulhu r + mu_is_mulhsu r) (assert_eq (mu_product r (i + 4)) (word_at (mu_a r) i))))"
    using assms unfolding mul_eval_def Let_def accepts_simps accepts_concat by (elim conjE)
  then show "\<forall>i<4. mu_op_a_not_0 r * (mu_is_mul r * (mu_product r i - word_at (mu_a r) i)) = 0"
    "\<forall>i<4. mu_op_a_not_0 r * ((mu_is_mulh r + mu_is_mulhu r + mu_is_mulhsu r) * (mu_product r (i + 4) - word_at (mu_a r) i)) = 0"
    by (simp_all add: assert_eq_def assert_zero_def air_when_def atLeast0LessThan Ball_def del: mult_eq_0_iff)
qed

text \<open>The product bytes are those of the 64-bit product of the extended operands.\<close>

lemma mul_step:
  assumes "from_canonical_u8 p = of_nat m + of_nat c - (of_nat c' * 256 :: 'f)" "m \<le> 4161600" "c < 65536" "c' < 65536"
  shows "unat p + 256 * c' = m + c"
proof -
  have "(of_nat (unat p + 256 * c') :: 'f) = of_nat (m + c)" using assms(1) by (simp add: from_canonical_u8_def algebra_simps)
  then show ?thesis using assms(2-4) unat_u8_less [of p] of_nat_inject [of "unat p + 256 * c'" "m + c"] by (simp add: ORDER_def)
qed

lemma mul_product_bytes:
  fixes r :: "'f mul_cols"
  assumes acc: "accepts (alu_lookups D) (mul_eval r)" and real: "mu_is_real r = 1"
    and w: "mu_b r = word_from x" "mu_c r = word_from y"
    and s: "mu_is_mulh r + mu_is_mulhsu r - mu_is_mulh r * mu_is_mulhsu r = from_bool s" "mu_is_mulh r = from_bool t"
    and i: "i < 8"
  shows "mu_product r i = from_canonical_u8 (u64_byte (ext64 s x * ext64 t y) i)"
proof -
  note f = mul_facts [OF acc]
  have msb: "mu_b_msb r = from_bool (bit x 31)" "mu_c_msb r = from_bool (bit y 31)"
    using f(10,11) by (auto simp: real w send_byte_def send_byte_pair_def alu_lookups_def msb_ext)
  obtain p where p: "\<forall>i<8. mu_product r i = from_canonical_u8 (p i)" using range_check_arr f(9) unfolding real by blast
  obtain c where c: "\<forall>i<8. mu_carry r i = of_nat (c i) \<and> c i < 65536" using range_check_u16_arr f(8) unfolding real by blast
  let ?m = "uncarried 8 8 (\<lambda>i. unat (u64_byte (ext64 s x) i)) (\<lambda>i. unat (u64_byte (ext64 t y) i))"
  have e: "(if i < 4 then word_at (mu_b r) i else mu_b_sign_extend r * from_canonical_u8 0xff) = of_nat (unat (u64_byte (ext64 s x) i))"
    "(if i < 4 then word_at (mu_c r) i else mu_c_sign_extend r * from_canonical_u8 0xff) = of_nat (unat (u64_byte (ext64 t y) i))"
    if "i < 8" for i
    using that unfolding ext64_def u64_ext_byte [OF that] from_canonical_u8_def [symmetric] f(1) [unfolded s(1)] f(2) [unfolded s(2)] msb w
    by (auto simp: ext_byte_def word_at_from from_bool_def)
  have m: "of_nat (?m i) = uncarried 8 8 (\<lambda>i. if i < 4 then word_at (mu_b r) i else mu_b_sign_extend r * from_canonical_u8 0xff)
       (\<lambda>i. if i < 4 then word_at (mu_c r) i else mu_c_sign_extend r * from_canonical_u8 0xff) i" for i
    unfolding uncarried_of_nat by (intro uncarried_cong) (simp_all only: e)
  have "unat (p i) + 256 * c i = ?m i + (if i > 0 then c (i - 1) else 0)" if "i < 8" for i
  proof (rule mul_step)
    show "from_canonical_u8 (p i) = of_nat (?m i) + of_nat (if i > 0 then c (i - 1) else 0) - of_nat (c i) * (256 :: 'f)"
      using spec [OF mul_product_facts(1) [OF acc], of i] that unfolding m by (simp add: p c)
  qed (use that c in \<open>auto intro!: uncarried_bound unat_u8_less\<close>)
  then have "unat (p i) = unat (u64_byte (ext64 s x * ext64 t y) i)"
    by (rule u64_product) (use i in \<open>auto intro: unat_u8_less\<close>)
  then have "p i = u64_byte (ext64 s x * ext64 t y) i" by (simp only: word_unat_eq_iff)
  then show ?thesis using p i by simp
qed

lemma four_selectors:
  assumes "p * (p - 1) = (0::'f)" "q * (q - 1) = 0" "u * (u - 1) = 0" "v * (v - 1) = 0" "p + q + u + v = 1"
  shows "p = 1 \<and> q = 0 \<and> u = 0 \<and> v = 0 \<or> p = 0 \<and> q = 1 \<and> u = 0 \<and> v = 0
    \<or> p = 0 \<and> q = 0 \<and> u = 1 \<and> v = 0 \<or> p = 0 \<and> q = 0 \<and> u = 0 \<and> v = 1"
proof -
  have "p = 0 \<or> p = 1" "q = 0 \<or> q = 1" "u = 0 \<or> u = 1" "v = 0 \<or> v = 1" using assms(1-4) by simp_all
  moreover have "(4::'f) \<noteq> 1" using of_nat_inject [of 4 1] by (simp add: ORDER_def)
  ultimately show ?thesis using assms(5) by auto
qed

lemma mul_result:
  fixes r :: "'f mul_cols"
  assumes acc: "accepts (alu_lookups D) (mul_eval r)" and real: "mu_is_real r = 1" and z: "1 - mu_op_a_not_0 r = 0"
    and w: "mu_b r = word_from x" "mu_c r = word_from y"
    and s: "mu_is_mulh r + mu_is_mulhsu r - mu_is_mulh r * mu_is_mulhsu r = from_bool s" "mu_is_mulh r = from_bool t"
  shows "mu_is_mul r = 1 \<Longrightarrow> mu_a r = word_from (ucast (ext64 s x * ext64 t y))"
    "mu_is_mulh r + mu_is_mulhu r + mu_is_mulhsu r = 1 \<Longrightarrow> mu_a r = word_from (ucast (drop_bit 32 (ext64 s x * ext64 t y)))"
proof -
  note p = mul_product_bytes [OF acc real w s] and f = mul_product_facts [OF acc]
  have eqI: "mu_a r = word_from v" if "\<And>i. i < 4 \<Longrightarrow> word_at (mu_a r) i = from_canonical_u8 (word_at (le_bytes v) i)" for v
    using that [of 0] that [of 1] that [of 2] that [of 3] by (simp add: word_at_limbs word4_eq)
  show "mu_a r = word_from (ucast (ext64 s x * ext64 t y))" if "mu_is_mul r = 1"
    by (rule eqI) (use that f(2) z in \<open>simp add: le_bytes_halves p\<close>)
  show "mu_a r = word_from (ucast (drop_bit 32 (ext64 s x * ext64 t y)))" if "mu_is_mulh r + mu_is_mulhu r + mu_is_mulhsu r = 1"
    by (rule eqI) (use that f(3) z in \<open>simp add: le_bytes_halves(2) p\<close>)
qed

lemma mul_sound:
  fixes r :: "'f mul_cols"
  assumes acc: "accepts (alu_lookups D) (mul_eval r)" and recv: "(vs, m) \<in> set (receives Instruction_kind (mul_eval r))"
  shows "\<exists>opc\<in>{MUL, MULH, MULHU, MULHSU}. alu_answer opc vs"
proof -
  have real: "mu_is_real r = 1" using mul_real [OF acc] recv unfolding mul_receives by (auto split: if_splits)
  note f = mul_facts [OF acc] and res = mul_result [OF acc real]
  consider "mu_is_mul r = 1" "mu_is_mulh r = 0" "mu_is_mulhu r = 0" "mu_is_mulhsu r = 0"
    | "mu_is_mul r = 0" "mu_is_mulh r = 1" "mu_is_mulhu r = 0" "mu_is_mulhsu r = 0"
    | "mu_is_mul r = 0" "mu_is_mulh r = 0" "mu_is_mulhu r = 1" "mu_is_mulhsu r = 0"
    | "mu_is_mul r = 0" "mu_is_mulh r = 0" "mu_is_mulhu r = 0" "mu_is_mulhsu r = 1"
    using four_selectors [OF f(3-6)] f(7) real by auto
  then show ?thesis
  proof cases
    case 1
    then have "alu_answer MUL vs" using recv res(1) [of _ _ False False] real unfolding mul_receives
      by (auto intro!: alu_answerI simp: ucast_mult64 from_bool_def)
    then show ?thesis by blast
  next
    case 2
    then have "alu_answer MULH vs" using recv res(2) [of _ _ True True] real unfolding mul_receives
      by (auto intro!: alu_answerI simp: ext64_def signed_upper from_bool_def)
    then show ?thesis by blast
  next
    case 3
    then have "alu_answer MULHU vs" using recv res(2) [of _ _ False False] real unfolding mul_receives
      by (auto intro!: alu_answerI simp: ext64_def signed_upper from_bool_def)
    then show ?thesis by blast
  next
    case 4
    then have "alu_answer MULHSU vs" using recv res(2) [of _ _ True False] real unfolding mul_receives
      by (auto intro!: alu_answerI simp: ext64_def signed_upper from_bool_def)
    then show ?thesis by blast
  qed
qed

end

section \<open>Completeness\<close>

lemma mul_carried_step:
  "mul_carried m i mod 256 + 256 * (mul_carried m i div 256) = m i + (if i > 0 then mul_carried m (i - 1) div 256 else 0)"
  by (cases i) simp_all

lemma mul_carried_bound: "(\<And>i. m i \<le> 4161600) \<Longrightarrow> mul_carried m i div 256 < 65536"
proof (induction i)
  case (Suc i)
  then have "mul_carried m (Suc i) < 65536 * 256" using Suc.IH [OF Suc.prems] Suc.prems [of "Suc i"] unfolding mul_carried.simps by linarith
  then show ?case by (simp add: div_less_iff_less_mult)
next
  case 0
  have "mul_carried m 0 < 65536 * 256" using 0 [of 0] by simp
  then show ?case by (simp add: div_less_iff_less_mult)
qed

lemma length_limbs: "length (limbs w) = 4"
  by (simp add: limbs_eq)

lemma resize_ext:
  assumes "b = resize_ff (s \<and> bit x 31) (le_bytes x)"
  shows "length b \<le> 8" "i < length b \<Longrightarrow> b ! i = u64_byte (ext64 s x) i" "length b \<le> i \<Longrightarrow> i < 8 \<Longrightarrow> u64_byte (ext64 s x) i = 0"
proof -
  show "length b \<le> 8" by (simp add: assms resize_ff_def limbs_eq)
  have b: "b ! i = ext_byte s x i" if "i < length b"
    using that unfolding assms resize_ff_def ext_byte_def word_at_def by (auto simp: length_limbs nth_append)
  have e: "u64_byte (ext64 s x) i = ext_byte s x i" if "i < 8" for i using u64_ext_byte [OF that] by (simp add: ext64_def)
  show "i < length b \<Longrightarrow> b ! i = u64_byte (ext64 s x) i" using b e \<open>length b \<le> 8\<close> by simp
  show "length b \<le> i \<Longrightarrow> i < 8 \<Longrightarrow> u64_byte (ext64 s x) i = 0"
    unfolding assms using e by (auto simp: resize_ff_def limbs_eq ext_byte_def split: if_splits)
qed

lemma uncarried_resize:
  assumes "b = resize_ff (s \<and> bit x 31) (le_bytes x)" "c = resize_ff (t \<and> bit y 31) (le_bytes y)"
  shows "uncarried (length b) (length c) (\<lambda>i. unat (b ! i)) (\<lambda>j. unat (c ! j))
    = uncarried 8 8 (\<lambda>i. unat (u64_byte (ext64 s x) i)) (\<lambda>i. unat (u64_byte (ext64 t y) i))"
proof
  fix k
  note b = resize_ext [OF assms(1)] and c = resize_ext [OF assms(2)]
  let ?b = "\<lambda>i. if i < 8 then unat (u64_byte (ext64 s x) i) else 0" and ?c = "\<lambda>i. if i < 8 then unat (u64_byte (ext64 t y) i) else 0"
  have "uncarried (length b) (length c) (\<lambda>i. unat (b ! i)) (\<lambda>j. unat (c ! j)) k = uncarried (length b) (length c) ?b ?c k"
    using b c by (intro uncarried_cong) auto
  also have "\<dots> = uncarried 8 8 ?b ?c k" using b c by (intro uncarried_extend) auto
  also have "\<dots> = uncarried 8 8 (\<lambda>i. unat (u64_byte (ext64 s x) i)) (\<lambda>i. unat (u64_byte (ext64 t y) i)) k"
    by (intro uncarried_cong) auto
  finally show "uncarried (length b) (length c) (\<lambda>i. unat (b ! i)) (\<lambda>j. unat (c ! j)) k
    = uncarried 8 8 (\<lambda>i. unat (u64_byte (ext64 s x) i)) (\<lambda>i. unat (u64_byte (ext64 t y) i)) k" .
qed

lemma msb_of_le_bytes: "msb_of_bytes (le_bytes x) = 1 \<longleftrightarrow> bit x 31" "from_canonical_u8 (msb_of_bytes (le_bytes x)) = from_bool (bit x 31)"
  by (simp_all add: msb_of_bytes_def msb_31 from_bool_def)

text \<open>The row that is generated, in terms of the 64-bit product.\<close>

lemma mul_row_eq:
  fixes e :: alu_event
  defines "s \<equiv> alu_opcode e = MULH \<or> alu_opcode e = MULHSU" and "t \<equiv> alu_opcode e = MULH"
  obtains v c where "mul_row e = Inr (\<lparr>mu_pc = from_canonical_u32 (alu_pc e), mu_a = word_from (alu_a e), mu_b = word_from (alu_b e),
      mu_c = word_from (alu_c e), mu_op_a_not_0 = from_bool (\<not> alu_op_a_0 e),
      mu_carry = (\<lambda>i. of_nat (c i)), mu_product = (\<lambda>i. from_canonical_u8 (v i)),
      mu_b_msb = from_bool (bit (alu_b e) 31), mu_c_msb = from_bool (bit (alu_c e) 31),
      mu_b_sign_extend = from_bool (s \<and> bit (alu_b e) 31), mu_c_sign_extend = from_bool (t \<and> bit (alu_c e) 31),
      mu_is_mul = from_bool (alu_opcode e = MUL), mu_is_mulh = from_bool (alu_opcode e = MULH),
      mu_is_mulhu = from_bool (alu_opcode e = MULHU), mu_is_mulhsu = from_bool (alu_opcode e = MULHSU), mu_is_real = 1 :: 'f::field\<rparr>,
    map msb_event [le_bytes (alu_b e), le_bytes (alu_c e)] @ u16_range_checks (arr_list 8 (\<lambda>i. of_nat (c i))) @ u8_range_checks (arr_list 8 v))"
    "\<And>i. c i < 65536" "\<And>i. unat (v i) + 256 * c i = uncarried 8 8 (\<lambda>i. unat (u64_byte (ext64 s (alu_b e)) i))
      (\<lambda>i. unat (u64_byte (ext64 t (alu_c e)) i)) i + (if i > 0 then c (i - 1) else 0)"
proof -
  let ?m = "uncarried 8 8 (\<lambda>i. unat (u64_byte (ext64 s (alu_b e)) i)) (\<lambda>i. unat (u64_byte (ext64 t (alu_c e)) i))"
  have v: "unat (of_nat (n mod 256) :: u8) = n mod 256" for n by (simp add: unsigned_of_nat take_bit_eq_mod)
  have f: "(t \<or> alu_opcode e = MULHSU) \<longleftrightarrow> s" "alu_opcode e = MULH \<longleftrightarrow> t" by (simp_all add: s_def t_def)
  show thesis
  proof (rule that [of "\<lambda>i. mul_carried ?m i div 256" "\<lambda>i. of_nat (mul_carried ?m i mod 256)"])
    show "mul_carried ?m i div 256 < 65536" for i by (rule mul_carried_bound) (rule uncarried_bound; rule unat_u8_less)
    show "unat (of_nat (mul_carried ?m i mod 256) :: u8) + 256 * (mul_carried ?m i div 256)
      = ?m i + (if i > 0 then mul_carried ?m (i - 1) div 256 else 0)" for i
      unfolding v by (rule mul_carried_step)
  qed (unfold mul_row_def Let_def msb_of_le_bytes f uncarried_resize [OF refl refl], simp only: from_bool_def from_canonical_u8_def v)
qed

context prime_field32
begin

lemma requests_u16_arr:
  assumes "\<And>i. c i < 65536"
  shows "sends Byte_kind (slice_range_check_u16 (arr_list N (\<lambda>i. of_nat (c i))) (1::'f)) = requests (u16_range_checks (arr_list N (\<lambda>i. of_nat (c i))))"
    "accepts (alu_lookups D) (slice_range_check_u16 (arr_list N (\<lambda>i. of_nat (c i))) (m::'f))"
proof -
  have "unat (of_nat (c i) :: u16) = c i" for i using assms [of i] by (simp add: unsigned_of_nat take_bit_eq_mod)
  then have v: "lookup_values (u16_range_check (of_nat (c i))) = [byte_opcode_field U16Range, of_nat (c i), 0, 0, 0 :: 'f]" for i
    by (simp add: u16_range_check_def byte_lookup_new_def lookup_values_def)
  have "sends Byte_kind (concat (map (\<lambda>i. send_byte (byte_opcode_field U16Range) (of_nat (c i)) 0 0 (1::'f)) is))
      = requests (map (\<lambda>i. u16_range_check (of_nat (c i))) is)" for "is"
    by (induction "is") (simp_all add: air v)
  then show "sends Byte_kind (slice_range_check_u16 (arr_list N (\<lambda>i. of_nat (c i))) (1::'f)) = requests (u16_range_checks (arr_list N (\<lambda>i. of_nat (c i))))"
    by (simp add: slice_range_check_u16_def u16_range_checks_def arr_list_def comp_def)
  show "accepts (alu_lookups D) (slice_range_check_u16 (arr_list N (\<lambda>i. of_nat (c i))) (m::'f))"
    using assms by (auto simp: slice_range_check_u16_def arr_list_def air alu_lookups_def is_u16_def)
qed

lemma mul_complete:
  assumes ok: "alu_ok e" "x0_ok e" "alu_opcode e \<in> {MUL, MULH, MULHU, MULHSU}"
  shows "\<exists>r ls. mul_row e = Inr (r :: 'f mul_cols, ls) \<and> accepts (alu_lookups D) (mul_eval r)
    \<and> mset (sends Byte_kind (mul_eval r)) = mset (requests ls)
    \<and> receives Instruction_kind (mul_eval r) = [(instruction_values (event_msg e), 1)]"
proof -
  define s t where "s \<longleftrightarrow> alu_opcode e = MULH \<or> alu_opcode e = MULHSU" and "t \<longleftrightarrow> alu_opcode e = MULH"
  let ?m = "uncarried 8 8 (\<lambda>i. unat (u64_byte (ext64 s (alu_b e)) i)) (\<lambda>i. unat (u64_byte (ext64 t (alu_c e)) i))"
  obtain v c where row: "mul_row e = Inr (\<lparr>mu_pc = from_canonical_u32 (alu_pc e), mu_a = word_from (alu_a e), mu_b = word_from (alu_b e),
      mu_c = word_from (alu_c e), mu_op_a_not_0 = from_bool (\<not> alu_op_a_0 e),
      mu_carry = (\<lambda>i. of_nat (c i)), mu_product = (\<lambda>i. from_canonical_u8 (v i)),
      mu_b_msb = from_bool (bit (alu_b e) 31), mu_c_msb = from_bool (bit (alu_c e) 31),
      mu_b_sign_extend = from_bool (s \<and> bit (alu_b e) 31), mu_c_sign_extend = from_bool (t \<and> bit (alu_c e) 31),
      mu_is_mul = from_bool (alu_opcode e = MUL), mu_is_mulh = from_bool (alu_opcode e = MULH),
      mu_is_mulhu = from_bool (alu_opcode e = MULHU), mu_is_mulhsu = from_bool (alu_opcode e = MULHSU), mu_is_real = 1 :: 'f\<rparr>,
    map msb_event [le_bytes (alu_b e), le_bytes (alu_c e)] @ u16_range_checks (arr_list 8 (\<lambda>i. of_nat (c i))) @ u8_range_checks (arr_list 8 v))"
    (is "_ = Inr (?r, ?ls)")
    and c: "\<And>i. c i < 65536" and step: "\<And>i. unat (v i) + 256 * c i = ?m i + (if i > 0 then c (i - 1) else 0)"
    unfolding s_def t_def by (rule mul_row_eq [of e]) blast
  have v: "v i = u64_byte (ext64 s (alu_b e) * ext64 t (alu_c e)) i" if "i < 8" for i
    using u64_product [OF step unat_u8_less that] by (simp only: word_unat_eq_iff)
  have a: "word_at (le_bytes (alu_a e)) i = v (if alu_opcode e = MUL then i else i + 4)" if "i < 4" "\<not> alu_op_a_0 e" for i
  proof (cases "alu_opcode e = MUL")
    case True
    then have "alu_a e = ucast (ext64 s (alu_b e) * ext64 t (alu_c e))" using ok that(2) by (auto simp: alu_ok_def ucast_mult64)
    then show ?thesis using that(1) True by (simp only: le_bytes_halves(1)) (simp add: v)
  next
    case False
    then have "alu_a e = ucast (drop_bit 32 (ext64 s (alu_b e) * ext64 t (alu_c e)))"
      using ok that(2) by (auto simp: alu_ok_def ext64_def signed_upper s_def t_def)
    then show ?thesis using that(1) False by (simp only: le_bytes_halves(2) if_False) (simp add: v)
  qed
  have m: "uncarried 8 8 (\<lambda>i. if i < 4 then word_at (word_from (alu_b e)) i else from_bool (s \<and> bit (alu_b e) 31) * from_canonical_u8 0xff)
       (\<lambda>i. if i < 4 then word_at (word_from (alu_c e)) i else from_bool (t \<and> bit (alu_c e) 31) * from_canonical_u8 0xff) i = (of_nat (?m i) :: 'f)" for i
  proof -
    have "(if i < 4 then word_at (word_from x) i else from_bool (q \<and> bit x 31) * from_canonical_u8 0xff) = (of_nat (unat (u64_byte (ext64 q x) i)) :: 'f)"
      if "i < 8" for i x q
      unfolding ext64_def u64_ext_byte [OF that] from_canonical_u8_def [symmetric] by (auto simp: ext_byte_def word_at_from from_bool_def)
    then show ?thesis unfolding uncarried_of_nat by (intro uncarried_cong)
  qed
  have p: "of_nat (?m 0) - of_nat (c 0) * (256 :: 'f) = from_canonical_u8 (v 0)"
    "i > 0 \<Longrightarrow> of_nat (?m i) + of_nat (c (i - Suc 0)) - of_nat (c i) * (256 :: 'f) = from_canonical_u8 (v i)" for i
    using arg_cong [OF step [of 0], of "of_nat :: nat \<Rightarrow> 'f"] arg_cong [OF step [of i], of "of_nat :: nat \<Rightarrow> 'f"]
    by (simp_all add: from_canonical_u8_def algebra_simps)
  have acc: "accepts (alu_lookups D) (mul_eval ?r)"
    unfolding mul_eval_def Let_def mul_cols.simps m accepts_simps accepts_concat limb_word_from
    using byte_lookups_alu [OF requests_range_arr(2), of D] requests_u16_arr(2) [OF c] ok(3)
    by (intro conjI) (simp_all add: assert_eq_def assert_zero_def assert_bool_def air_when_def send_byte_def send_byte_pair_def receive_instruction_def assert_one_def
      alu_lookups_def msb_ext word_at_from p, auto simp: a from_bool_def s_def t_def)
  have "sends Byte_kind (mul_eval ?r) = requests ?ls"
    unfolding mul_sends mul_cols.simps requests_range_arr requests_u16_arr(1) [OF c] limb_word_from
    by (simp add: send_byte_def send_byte_pair_def requests_def msb_event_def msb_of_le_bytes)
  moreover have "receives Instruction_kind (mul_eval ?r) = [(instruction_values (event_msg e), 1)]"
    unfolding mul_receives using ok by (auto simp: event_msg_def from_bool_def)
  ultimately show ?thesis using row acc by auto
qed

end

lemma uncarried_zero: "(\<And>i. i < lb \<Longrightarrow> b i = 0) \<Longrightarrow> uncarried lb lc b c k = 0"
  unfolding uncarried_sum by (rule sum.neutral, rule ballI, rule sum.neutral) simp

lemma mul_no_bytes: "receives Byte_kind (mul_eval r) = []"
  unfolding mul_eval_def Let_def receives_append receives_concat by (simp add: air)

lemma mul_no_requests: "sends Instruction_kind (mul_eval r) = []"
  unfolding mul_eval_def Let_def sends_append sends_concat by (simp add: air)

lemma mul_idle: "accepts L (mul_eval mul_zero)" "receives k (mul_eval mul_zero) = []"
proof -
  have *: "uncarried 8 8 (\<lambda>i. if i < 4 then word_at (mu_b mul_zero) i else mu_b_sign_extend mul_zero * from_canonical_u8 0xff) c k = 0" for c k
    by (intro uncarried_zero) (simp add: mul_zero_def word_zero_def word_at_zero)
  show "accepts L (mul_eval mul_zero)" unfolding mul_eval_def Let_def *
    by (simp_all add: mul_zero_def air word_zero_def word_at_zero)
qed (simp add: mul_eval_def Let_def mul_zero_def air)

interpretation mul: alu_chip "\<lambda>x. nat (rep_bb x)" "mul_eval :: bb mul_cols \<Rightarrow> _" mul_row mul_zero "{MUL, MULH, MULHU, MULHSU}" "{}" "\<lambda>_. []"
  by unfold_locales
    (rule mul_no_bytes mul_idle |
     erule (1) bb.mul_received | erule (1) bb.mul_sent | erule (1) bb.mul_sound | erule (2) bb.mul_complete |
     simp add: mul_no_requests)+

end
