(* ===== verification/SP1_Is_Zero.thy ===== *)
theory SP1_Is_Zero
  imports SP1_Chip_Sll
begin

text \<open>
  The operations that test a field element or a word for zero, or two words for equality:
  \<open>is_zero.rs\<close>, \<open>is_zero_word.rs\<close> and \<open>is_equal_word.rs\<close> of \<open>crates/core/machine/src/operations\<close>.
  Each is sound (the result column is the truth value) and complete (what \<open>populate\<close> writes is
  accepted).
\<close>

section \<open>The operations\<close>

record 'f is_zero_operation =
  iz_inverse :: 'f
  iz_result :: 'f

definition is_zero_populate :: "'f::field \<Rightarrow> 'f is_zero_operation" where
  "is_zero_populate a = (if a = 0 then \<lparr>iz_inverse = 0, iz_result = 1\<rparr> else \<lparr>iz_inverse = inverse a, iz_result = 0\<rparr>)"

definition is_zero_eval :: "'f::field \<Rightarrow> 'f is_zero_operation \<Rightarrow> 'f \<Rightarrow> 'f action list" where
  "is_zero_eval a cols is_real =
     (let is_zero = 1 - iz_inverse cols * a
      in air_when is_real (assert_eq is_zero (iz_result cols)) @
         air_when is_real (assert_bool (iz_result cols)) @
         air_when is_real (air_when (iz_result cols) (assert_zero a)))"

record 'f is_zero_word_operation =
  izw_is_zero_byte :: "'f is_zero_operation arr"
  izw_is_lower_half_zero :: 'f
  izw_is_upper_half_zero :: 'f
  izw_result :: 'f

definition is_zero_word_populate :: "'f::field word4 \<Rightarrow> 'f is_zero_word_operation" where
  "is_zero_word_populate a =
     (let is_zero_byte = (\<lambda>i. is_zero_populate (word_at a i))
      in \<lparr>izw_is_zero_byte = is_zero_byte,
          izw_is_lower_half_zero = iz_result (is_zero_byte 0) * iz_result (is_zero_byte 1),
          izw_is_upper_half_zero = iz_result (is_zero_byte 2) * iz_result (is_zero_byte 3),
          izw_result = from_bool (list_all (\<lambda>i. word_at a i = 0) [0..<4])\<rparr>)"

definition is_zero_word_eval :: "'f::field word4 \<Rightarrow> 'f is_zero_word_operation \<Rightarrow> 'f \<Rightarrow> 'f action list" where
  "is_zero_word_eval a cols is_real =
     concat (map (\<lambda>i. is_zero_eval (word_at a i) (izw_is_zero_byte cols i) is_real) [0..<4]) @
     assert_bool is_real @
     air_when is_real (assert_bool (izw_is_lower_half_zero cols)) @
     air_when is_real (assert_bool (izw_is_upper_half_zero cols)) @
     air_when is_real (assert_bool (izw_result cols)) @
     air_when is_real (assert_eq (izw_is_lower_half_zero cols)
       (iz_result (izw_is_zero_byte cols 0) * iz_result (izw_is_zero_byte cols 1))) @
     air_when is_real (assert_eq (izw_is_upper_half_zero cols)
       (iz_result (izw_is_zero_byte cols 2) * iz_result (izw_is_zero_byte cols 3))) @
     air_when is_real (assert_eq (izw_result cols) (izw_is_lower_half_zero cols * izw_is_upper_half_zero cols))"

definition word_diff :: "'f::field word4 \<Rightarrow> 'f word4 \<Rightarrow> 'f word4" where
  "word_diff a b = Word4 (limb0 a - limb0 b) (limb1 a - limb1 b) (limb2 a - limb2 b) (limb3 a - limb3 b)"

definition is_equal_word_populate :: "u32 \<Rightarrow> u32 \<Rightarrow> 'f::field is_zero_word_operation" where
  "is_equal_word_populate a b = is_zero_word_populate (word_diff (word_from a) (word_from b))"

definition is_equal_word_eval :: "'f::field word4 \<Rightarrow> 'f word4 \<Rightarrow> 'f is_zero_word_operation \<Rightarrow> 'f \<Rightarrow> 'f action list" where
  "is_equal_word_eval a b is_diff_zero is_real =
     assert_bool is_real @ is_zero_word_eval (word_diff a b) is_diff_zero is_real"

section \<open>They only assert\<close>

lemma is_zero_messages [simp]:
  "sends k (is_zero_eval a cols r) = []" "receives k (is_zero_eval a cols r) = []"
  by (simp_all add: is_zero_eval_def Let_def air)

lemma is_zero_word_messages [simp]:
  "sends k (is_zero_word_eval a w r) = []" "receives k (is_zero_word_eval a w r) = []"
  by (simp_all add: is_zero_word_eval_def air)

lemma is_equal_word_messages [simp]:
  "sends k (is_equal_word_eval a b w r) = []" "receives k (is_equal_word_eval a b w r) = []"
  by (simp_all add: is_equal_word_eval_def air)

section \<open>Soundness\<close>

lemma is_zero_sound:
  fixes a :: "'f::field"
  assumes "accepts L (is_zero_eval a cols 1)"
  shows "iz_result cols = from_bool (a = 0)"
  using assms by (auto simp: is_zero_eval_def Let_def air from_bool_def)

lemma is_zero_word_sound:
  fixes a :: "'f::field word4"
  assumes "accepts L (is_zero_word_eval a cols 1)"
  shows "izw_result cols = from_bool (a = word_zero)"
proof -
  have "iz_result (izw_is_zero_byte cols i) = from_bool (word_at a i = 0)" if "i < 4" for i
    using assms that by (auto simp: is_zero_word_eval_def intro: is_zero_sound)
  note r = this [of 0] this [of 1] this [of 2] this [of 3]
  show ?thesis using assms r
    by (cases a) (auto simp: is_zero_word_eval_def air from_bool_def word_at_limbs word_zero_def)
qed

lemma is_equal_word_sound:
  fixes a b :: "'f::field word4"
  assumes "accepts L (is_equal_word_eval a b cols 1)"
  shows "izw_result cols = from_bool (a = b)"
proof -
  have "izw_result cols = from_bool (word_diff a b = word_zero)"
    using assms by (intro is_zero_word_sound [of L]) (simp add: is_equal_word_eval_def)
  then show ?thesis by (simp add: word_diff_def word_zero_def word4_eq)
qed

section \<open>Completeness\<close>

lemma is_zero_populate_result [simp]: "iz_result (is_zero_populate a) = from_bool (a = 0)"
  by (simp add: is_zero_populate_def)

lemma is_zero_complete: "accepts L (is_zero_eval a (is_zero_populate a) r)"
  by (simp add: is_zero_eval_def is_zero_populate_def Let_def air)

lemma is_zero_word_result: "izw_result (is_zero_word_populate a) = from_bool (a = word_zero)"
  by (simp add: is_zero_word_populate_def Let_def upt_small word_at_limbs word_zero_def word4_eq)

lemma is_zero_word_complete: "r = 0 \<or> r = 1 \<Longrightarrow> accepts L (is_zero_word_eval a (is_zero_word_populate a) r)"
  by (auto simp: is_zero_word_eval_def is_zero_word_populate_def Let_def is_zero_complete air from_bool_def upt_small)

lemma is_equal_word_result: "izw_result (is_equal_word_populate a b :: 'f is_zero_word_operation) = from_bool (word_from a = (word_from b :: 'f::field word4))"
  by (simp add: is_equal_word_populate_def is_zero_word_result) (simp add: word_diff_def word_zero_def word4_eq)

lemma is_equal_word_complete:
  "r = 0 \<or> r = 1 \<Longrightarrow> accepts L (is_equal_word_eval (word_from a) (word_from b) (is_equal_word_populate a b) r)"
  by (auto simp: is_equal_word_eval_def is_equal_word_populate_def is_zero_word_complete assert_bool_def)

end
