(* ===== verification/SP1_Chip_Divrem.thy ===== *)
theory SP1_Chip_Divrem
  imports SP1_Chip_Mul SP1_Is_Zero
begin

text \<open>
  The table of DIV, DIVU, REM and REMU, \<open>crates/core/machine/src/alu/divrem/mod.rs\<close>.  It looks up
  the product of quotient and divisor in the table of MUL, the absolute values in the table of
  ADD and the comparison of the remainder with the divisor in the table of SLTU.
\<close>

section \<open>The columns\<close>

record 'f divrem_cols =
  dr_pc :: 'f
  dr_a :: "'f word4"
  dr_b :: "'f word4"
  dr_c :: "'f word4"
  dr_op_a_not_0 :: 'f
  dr_quotient :: "'f word4"
  dr_remainder :: "'f word4"
  dr_abs_remainder :: "'f word4"
  dr_abs_c :: "'f word4"
  dr_max_abs_c_or_1 :: "'f word4"
  dr_c_times_quotient :: "'f arr"
  dr_carry :: "'f arr"
  dr_is_c_0 :: "'f is_zero_word_operation"
  dr_is_div :: 'f
  dr_is_divu :: 'f
  dr_is_rem :: 'f
  dr_is_remu :: 'f
  dr_is_overflow :: 'f
  dr_is_overflow_b :: "'f is_zero_word_operation"
  dr_is_overflow_c :: "'f is_zero_word_operation"
  dr_b_msb :: 'f
  dr_rem_msb :: 'f
  dr_c_msb :: 'f
  dr_b_neg :: 'f
  dr_rem_neg :: 'f
  dr_c_neg :: 'f
  dr_abs_c_alu_event :: 'f
  dr_abs_rem_alu_event :: 'f
  dr_is_real :: 'f
  dr_remainder_check_multiplicity :: 'f

definition zero_word_operation :: "'f::field is_zero_word_operation" where
  "zero_word_operation = \<lparr>izw_is_zero_byte = (\<lambda>_. \<lparr>iz_inverse = 0, iz_result = 0\<rparr>), izw_is_lower_half_zero = 0,
     izw_is_upper_half_zero = 0, izw_result = 0\<rparr>"

text \<open>The template of the padding rows: 0 divided by 1.\<close>

definition divrem_padding :: "'f::field divrem_cols" where
  "divrem_padding = \<lparr>dr_pc = 0, dr_a = word_zero, dr_b = word_zero, dr_c = Word4 1 0 0 0, dr_op_a_not_0 = 0,
     dr_quotient = word_zero, dr_remainder = word_zero, dr_abs_remainder = word_zero, dr_abs_c = Word4 1 0 0 0,
     dr_max_abs_c_or_1 = Word4 1 0 0 0, dr_c_times_quotient = (\<lambda>_. 0), dr_carry = (\<lambda>_. 0),
     dr_is_c_0 = is_zero_word_populate (word_from 1), dr_is_div = 0, dr_is_divu = 1, dr_is_rem = 0, dr_is_remu = 0,
     dr_is_overflow = 0, dr_is_overflow_b = zero_word_operation, dr_is_overflow_c = zero_word_operation,
     dr_b_msb = 0, dr_rem_msb = 0, dr_c_msb = 0, dr_b_neg = 0, dr_rem_neg = 0, dr_c_neg = 0,
     dr_abs_c_alu_event = 0, dr_abs_rem_alu_event = 0, dr_is_real = 0, dr_remainder_check_multiplicity = 0\<rparr>"

section \<open>The row of an event\<close>

text \<open>The sums of the loop that adds the remainder to the product.\<close>

primrec divrem_sum :: "u8 arr \<Rightarrow> u8 arr \<Rightarrow> nat arr" where
  "divrem_sum p r 0 = unat (p 0) + unat (r 0)"
| "divrem_sum p r (Suc i) = unat (p (Suc i)) + unat (r (Suc i)) + divrem_sum p r i div 256"

definition msb_word_event :: "u32 \<Rightarrow> byte_lookup_event" where
  "msb_word_event w = \<lparr>bl_opcode = MSB, bl_a1 = ucast (get_msb w), bl_a2 = 0, bl_b = limb3 (le_bytes w), bl_c = 0\<rparr>"

text \<open>\<open>i32::abs\<close> wraps on \<open>i32::MIN\<close> in the release profile, which is \<open>unsigned_abs\<close>.\<close>

definition divrem_row :: "alu_event \<Rightarrow> ('f::field divrem_cols \<times> byte_lookup_event list) res" where
  "divrem_row event =
     (let opc = alu_opcode event; b = alu_b event; c = alu_c event;
          (quotient, remainder) = get_quotient_and_remainder b c opc;
          sig = is_signed_operation opc;
          rem_msb = from_canonical_u8 (get_msb remainder); b_msb = from_canonical_u8 (get_msb b); c_msb = from_canonical_u8 (get_msb c);
          rem_neg = (if sig then rem_msb else 0); b_neg = (if sig then b_msb else 0); c_neg = (if sig then c_msb else 0);
          is_c_0 = is_zero_word_populate (word_from c);
          c_times_quotient = u64_byte (if sig then scast quotient * scast c else ucast quotient * ucast c);
          remainder_bytes = u64_byte (if sig then scast remainder else ucast remainder)
      in if opc \<noteq> DIVU \<and> opc \<noteq> REMU \<and> opc \<noteq> REM \<and> opc \<noteq> DIV then Inl Panic else
         Inr (\<lparr>dr_pc = from_canonical_u32 (alu_pc event), dr_a = word_from (alu_a event), dr_b = word_from b, dr_c = word_from c,
           dr_op_a_not_0 = from_bool (\<not> alu_op_a_0 event), dr_quotient = word_from quotient, dr_remainder = word_from remainder,
           dr_abs_remainder = (if sig then word_from (unsigned_abs remainder) else word_from remainder),
           dr_abs_c = (if sig then word_from (unsigned_abs c) else word_from c),
           dr_max_abs_c_or_1 = (if sig then word_from (max 1 (unsigned_abs c)) else word_from (max 1 c)),
           dr_c_times_quotient = (\<lambda>i. from_canonical_u8 (c_times_quotient i)),
           dr_carry = (\<lambda>i. of_nat (divrem_sum c_times_quotient remainder_bytes i div 256)),
           dr_is_c_0 = is_c_0, dr_is_div = from_bool (opc = DIV), dr_is_divu = from_bool (opc = DIVU),
           dr_is_rem = from_bool (opc = REM), dr_is_remu = from_bool (opc = REMU),
           dr_is_overflow = (if sig then from_bool (sint b = - 2147483648 \<and> sint c = - 1) else 0),
           dr_is_overflow_b = is_equal_word_populate b 0x80000000, dr_is_overflow_c = is_equal_word_populate c (- 1),
           dr_b_msb = b_msb, dr_rem_msb = rem_msb, dr_c_msb = c_msb, dr_b_neg = b_neg, dr_rem_neg = rem_neg, dr_c_neg = c_neg,
           dr_abs_c_alu_event = c_neg * 1, dr_abs_rem_alu_event = rem_neg * 1, dr_is_real = 1,
           dr_remainder_check_multiplicity = 1 * (1 - izw_result is_c_0)\<rparr>,
         map msb_word_event [b, c, remainder] @ u8_range_checks (to_le_bytes quotient) @ u8_range_checks (to_le_bytes remainder)
           @ u8_range_checks (arr_list 8 c_times_quotient)))"

definition divrem_generate_trace :: "nat option \<Rightarrow> execution_record \<Rightarrow> 'f::field divrem_cols list res" where
  "divrem_generate_trace size_log2 input = generate_trace divrem_row divrem_padding size_log2 (divrem_events input)"

text \<open>
  The lookups are added by \<open>generate_trace\<close> itself, which \<open>MachineAir::generate_dependencies\<close> calls; its
  padding panics if the rows do not fit the fixed size.
\<close>

definition divrem_generate_dependencies :: "nat option \<Rightarrow> execution_record \<Rightarrow> byte_lookups \<Rightarrow> byte_lookups res" where
  "divrem_generate_dependencies size_log2 input output =
     rbind (collect_rows (divrem_row :: _ \<Rightarrow> (bb divrem_cols \<times> _) res) (divrem_events input)) (\<lambda>rows.
     rbind (SP1_Chip.next_power_of_two (length (divrem_events input)) size_log2) (\<lambda>_.
     Inr (add_byte_lookup_events (concat (map snd rows)) output)))"

definition divrem_included :: "bool option \<Rightarrow> execution_record \<Rightarrow> bool" where
  "divrem_included in_shape shard = included in_shape (divrem_events shard)"

section \<open>The constraints\<close>

text \<open>The blocks of \<open>eval\<close>, in their order.\<close>

definition divrem_eval_signs :: "'f::field divrem_cols \<Rightarrow> 'f action list" where
  "divrem_eval_signs local =
     (let is_signed_type = dr_is_div local + dr_is_rem local
      in concat (map (\<lambda>(msb, is_negative). assert_eq (msb * is_signed_type) is_negative)
        [(dr_b_msb local, dr_b_neg local), (dr_rem_msb local, dr_rem_neg local), (dr_c_msb local, dr_c_neg local)]))"

definition divrem_eval_mul :: "'f::field divrem_cols \<Rightarrow> 'f action list" where
  "divrem_eval_mul local =
     (let p = dr_c_times_quotient local;
          is_signed = dr_is_div local + dr_is_rem local;
          is_unsigned = dr_is_divu local + dr_is_remu local
      in send_instruction (unused_msg (opcode_field MUL) (Word4 (p 0) (p 1) (p 2) (p 3)) (dr_quotient local) (dr_c local)) (dr_is_real local) @
         send_instruction (unused_msg (is_signed * opcode_field MULH + is_unsigned * opcode_field MULHU)
           (Word4 (p 4) (p 5) (p 6) (p 7)) (dr_quotient local) (dr_c local)) (dr_is_real local))"

definition divrem_eval_overflow :: "'f::field divrem_cols \<Rightarrow> 'f action list" where
  "divrem_eval_overflow local =
     is_equal_word_eval (dr_b local) (word_from 0x80000000) (dr_is_overflow_b local) (dr_is_real local) @
     is_equal_word_eval (dr_c local) (word_from (- 1)) (dr_is_overflow_c local) (dr_is_real local) @
     assert_eq (dr_is_overflow local)
       (izw_result (dr_is_overflow_b local) * izw_result (dr_is_overflow_c local) * (dr_is_div local + dr_is_rem local))"

definition divrem_plus_remainder :: "'f::field divrem_cols \<Rightarrow> 'f arr" where
  "divrem_plus_remainder local i =
     dr_c_times_quotient local i
     + (if i < 4 then word_at (dr_remainder local) i else dr_rem_neg local * from_canonical_u8 0xff)
     - dr_carry local i * 256 + (if i > 0 then dr_carry local (i - 1) else 0)"

definition divrem_eval_add :: "'f::field divrem_cols \<Rightarrow> 'f action list" where
  "divrem_eval_add local =
     concat (map (\<lambda>i. if i < 4 then assert_eq (word_at (dr_b local) i) (divrem_plus_remainder local i)
       else (let not_overflow = 1 - dr_is_overflow local in
         air_when not_overflow (air_when (dr_b_neg local) (assert_eq (divrem_plus_remainder local i) (from_canonical_u8 0xff))) @
         air_when not_overflow (air_when (1 - dr_b_neg local) (assert_zero (divrem_plus_remainder local i))) @
         air_when (dr_is_overflow local) (assert_zero (divrem_plus_remainder local i)))) [0..<8])"

definition divrem_eval_result :: "'f::field divrem_cols \<Rightarrow> 'f action list" where
  "divrem_eval_result local =
     concat (map (\<lambda>i. air_when (dr_op_a_not_0 local) (air_when (dr_is_divu local + dr_is_div local)
         (assert_eq (word_at (dr_quotient local) i) (word_at (dr_a local) i))) @
       air_when (dr_op_a_not_0 local) (air_when (dr_is_remu local + dr_is_rem local)
         (assert_eq (word_at (dr_remainder local) i) (word_at (dr_a local) i)))) [0..<4])"

definition divrem_eval_sign_match :: "'f::field divrem_cols \<Rightarrow> 'f action list" where
  "divrem_eval_sign_match local =
     (let rem_byte_sum = sum_list (limbs (dr_remainder local))
      in air_when (dr_rem_neg local) (assert_one (dr_b_neg local)) @
         air_when rem_byte_sum (air_when (1 - dr_rem_neg local) (assert_zero (dr_b_neg local))))"

definition divrem_eval_zero :: "'f::field divrem_cols \<Rightarrow> 'f action list" where
  "divrem_eval_zero local =
     is_zero_word_eval (dr_c local) (dr_is_c_0 local) (dr_is_real local) @
     concat (map (\<lambda>i. air_when (izw_result (dr_is_c_0 local)) (air_when (dr_is_divu local + dr_is_div local)
       (assert_eq (word_at (dr_quotient local) i) (from_canonical_u8 0xff)))) [0..<4])"

definition divrem_eval_range :: "'f::field divrem_cols \<Rightarrow> 'f action list" where
  "divrem_eval_range local =
     (let is_c_0 = izw_result (dr_is_c_0 local);
          v = (\<lambda>i. if i = 0 then is_c_0 * 1 + (1 - is_c_0) * word_at (dr_abs_c local) 0 else (1 - is_c_0) * word_at (dr_abs_c local) i)
      in concat (map (\<lambda>i. when_not (dr_c_neg local) (assert_eq (word_at (dr_c local) i) (word_at (dr_abs_c local) i)) @
           when_not (dr_rem_neg local) (assert_eq (word_at (dr_remainder local) i) (word_at (dr_abs_remainder local) i))) [0..<4]) @
         send_instruction (unused_msg (opcode_field ADD) word_zero (dr_c local) (dr_abs_c local)) (dr_abs_c_alu_event local) @
         send_instruction (unused_msg (opcode_field ADD) word_zero (dr_remainder local) (dr_abs_remainder local)) (dr_abs_rem_alu_event local) @
         concat (map (\<lambda>i. assert_eq (word_at (dr_max_abs_c_or_1 local) i) (v i)) [0..<4]) @
         assert_eq ((1 - is_c_0) * dr_is_real local) (dr_remainder_check_multiplicity local) @
         assert_eq (dr_abs_c_alu_event local) (dr_c_neg local * dr_is_real local) @
         assert_eq (dr_abs_rem_alu_event local) (dr_rem_neg local * dr_is_real local) @
         send_instruction (unused_msg (opcode_field SLTU) (Word4 1 0 0 0) (dr_abs_remainder local) (dr_max_abs_c_or_1 local))
           (dr_remainder_check_multiplicity local))"

definition divrem_eval_bytes :: "'f::field divrem_cols \<Rightarrow> 'f action list" where
  "divrem_eval_bytes local =
     concat (map (\<lambda>(msb, byte). send_byte (byte_opcode_field MSB) msb byte 0 (dr_is_real local))
       [(dr_b_msb local, limb3 (dr_b local)), (dr_c_msb local, limb3 (dr_c local)), (dr_rem_msb local, limb3 (dr_remainder local))]) @
     slice_range_check_u8 (limbs (dr_quotient local)) (dr_is_real local) @
     slice_range_check_u8 (limbs (dr_remainder local)) (dr_is_real local) @
     concat (map (\<lambda>i. assert_bool (dr_carry local i)) [0..<8]) @
     slice_range_check_u8 (arr_list 8 (dr_c_times_quotient local)) (dr_is_real local)"

definition divrem_eval_flags :: "'f::field divrem_cols \<Rightarrow> 'f action list" where
  "divrem_eval_flags local =
     concat (map assert_bool [dr_is_div local, dr_is_divu local, dr_is_rem local, dr_is_remu local, dr_is_overflow local,
       dr_b_msb local, dr_rem_msb local, dr_c_msb local, dr_b_neg local, dr_rem_neg local, dr_c_neg local, dr_is_real local,
       dr_abs_c_alu_event local, dr_abs_rem_alu_event local])"

definition divrem_eval_receive :: "'f::field divrem_cols \<Rightarrow> 'f action list" where
  "divrem_eval_receive local =
     assert_eq 1 (dr_is_divu local + dr_is_remu local + dr_is_div local + dr_is_rem local) @
     receive_instruction (alu_msg (dr_pc local) (dr_is_divu local * opcode_field DIVU + dr_is_remu local * opcode_field REMU
         + dr_is_div local * opcode_field DIV + dr_is_rem local * opcode_field REM)
       (dr_a local) (dr_b local) (dr_c local) (1 - dr_op_a_not_0 local)) (dr_is_real local) @
     air_when (dr_op_a_not_0 local) (assert_one (dr_is_real local))"

definition divrem_eval :: "'f::field divrem_cols \<Rightarrow> 'f action list" where
  "divrem_eval local =
     divrem_eval_signs local @ divrem_eval_mul local @ divrem_eval_overflow local @ divrem_eval_add local @
     divrem_eval_result local @ divrem_eval_sign_match local @ divrem_eval_zero local @ divrem_eval_range local @
     divrem_eval_bytes local @ divrem_eval_flags local @ divrem_eval_receive local"

section \<open>Division with 64-bit intermediate results\<close>

text \<open>Truncating division is determined by the identity, the size and the sign of the remainder.\<close>

lemma sdiv_unique:
  fixes b c q r :: int
  assumes e: "q * c + r = b" and r: "\<bar>r\<bar> < \<bar>c\<bar>" and s: "r < 0 \<Longrightarrow> b < 0" "r > 0 \<Longrightarrow> b \<ge> 0"
  shows "q = b sdiv c" "r = b smod c"
proof -
  have c: "c \<noteq> 0" using r by auto
  have m: "\<bar>b smod c\<bar> < \<bar>c\<bar>" by (rule abs_smod_less [OF c])
  have "0 \<le> r \<and> 0 \<le> b smod c \<or> r \<le> 0 \<and> b smod c \<le> 0"
  proof -
    have "b < 0 \<longrightarrow> r \<le> 0" "b \<ge> 0 \<longrightarrow> r \<ge> 0" using s by (auto simp: not_less [symmetric])
    moreover have "b < 0 \<longrightarrow> b smod c \<le> 0" "b \<ge> 0 \<longrightarrow> b smod c \<ge> 0"
      using smod_sign [of b c] by (auto simp: sgn_if split: if_splits)
    ultimately show ?thesis by linarith
  qed
  then have "\<bar>b smod c - r\<bar> < \<bar>c\<bar>" using r m by linarith
  moreover have d: "(q - b sdiv c) * c = b smod c - r"
    using sdiv_mult_smod_eq [of b c] e by (simp add: left_diff_distrib)
  ultimately have "\<bar>q - b sdiv c\<bar> * \<bar>c\<bar> < 1 * \<bar>c\<bar>" by (metis abs_mult mult_1)
  then have "\<bar>q - b sdiv c\<bar> < 1" by (rule mult_right_less_imp_less) simp
  then show "q = b sdiv c" by simp
  then show "r = b smod c" using d by simp
qed

lemma ext64_sint: "ext64 True x = word_of_int (sint x)" "ext64 False x = word_of_int (uint x)"
  by (simp_all only: ext64_def scast_eq ucast_eq if_True if_False)

definition div_ok :: "bool \<Rightarrow> u32 \<Rightarrow> u32 \<Rightarrow> u32 \<Rightarrow> u32 \<Rightarrow> bool" where
  "div_ok s b c q r \<longleftrightarrow> ext64 s q * ext64 s c + ext64 s r = (if s \<and> b = 0x80000000 \<and> c = - 1 then ucast b else ext64 s b)
     \<and> (s \<and> sint r < 0 \<longrightarrow> sint b < 0) \<and> (s \<and> sint b < 0 \<longrightarrow> r = 0 \<or> sint r < 0)
     \<and> (c \<noteq> 0 \<longrightarrow> (if s then unsigned_abs r < unsigned_abs c else r < c))"

lemma sint_consts: "sint (0x80000000 :: u32) = - 2147483648" "sint (- 1 :: u32) = - 1" "uint (0x80000000 :: u32) = 2147483648"
  by simp_all

lemma sint_const_iff: "sint x = - 2147483648 \<longleftrightarrow> (x :: u32) = 0x80000000" "sint x = - 1 \<longleftrightarrow> x = - 1"
  using signed_word_eqI [of x "0x80000000"] signed_word_eqI [of x "- 1"] by (auto simp: sint_consts)

lemma div_ok_signed:
  assumes "div_ok True b c q r"
  shows "c \<noteq> 0 \<Longrightarrow> q = wrapping_div_i32 b c \<and> r = wrapping_rem_i32 b c" "c = 0 \<Longrightarrow> r = b"
proof -
  let ?o = "b = 0x80000000 \<and> c = - 1"
  let ?b = "if ?o then 2147483648 else sint b"
  have "ext64 True q * ext64 True c + ext64 True r = (if ?o then ucast b else ext64 True b)"
    using assms unfolding div_ok_def by simp
  also have "\<dots> = word_of_int ?b" by (simp only: ext64_sint) simp
  finally have "sint (word_of_int (sint q * sint c + sint r) :: u64) = sint (word_of_int ?b :: u64)"
    by (simp only: ext64_sint of_int_mult of_int_add)
  moreover have "\<bar>sint q * sint c + sint r\<bar> < 2 ^ 63" "\<bar>?b\<bar> < 2 ^ 63"
    using abs_mult_le [OF abs_sint_u32 [of q] abs_sint_u32 [of c]] abs_sint_u32 [of r] abs_sint_u32 [of b] by auto
  ultimately have e: "sint q * sint c + sint r = ?b" by (simp only: sint_u64_id)
  show "r = b" if "c = 0"
    using e that signed_word_eqI [of r b] by auto
  show "q = wrapping_div_i32 b c \<and> r = wrapping_rem_i32 b c" if "c \<noteq> 0"
  proof (cases ?o)
    case True
    have "\<bar>sint r\<bar> < 1"
      using assms that True by (simp add: div_ok_def word_less_def uint_unsigned_abs sint_consts)
    then have "sint r = 0" "sint q = - 2147483648" using e True by (simp_all add: sint_consts)
    then have "r = 0" "q = 0x80000000" by (simp_all add: sint_0_iff32 sint_const_iff)
    then show ?thesis using True by (simp add: wrapping_div_i32_def wrapping_rem_i32_def signed_modulo_int_def)
  next
    case False
    have "\<bar>sint r\<bar> < \<bar>sint c\<bar>" using assms that by (simp add: div_ok_def word_less_def uint_unsigned_abs)
    moreover have "sint r < 0 \<Longrightarrow> sint b < 0" "sint r > 0 \<Longrightarrow> sint b \<ge> 0"
      using assms by (auto simp: div_ok_def)
    ultimately have "sint q = sint b sdiv sint c" "sint r = sint b smod sint c"
      using sdiv_unique [of "sint q" "sint c" "sint r" "sint b"] e False by auto
    then show ?thesis unfolding wrapping_div_i32_def wrapping_rem_i32_def by (metis scast_eq scast_id)
  qed
qed

lemma div_ok_unsigned:
  assumes "div_ok False b c q r"
  shows "c \<noteq> 0 \<Longrightarrow> q = b div c \<and> r = b mod c" "c = 0 \<Longrightarrow> r = b"
proof -
  have "word_of_int (uint q * uint c + uint r) = (word_of_int (uint b) :: u64)"
    using assms by (simp only: div_ok_def ext64_sint of_int_mult of_int_add simp_thms if_False)
  then have "uint (word_of_int (uint q * uint c + uint r) :: u64) = uint (word_of_int (uint b) :: u64)" by (simp only:)
  moreover have "uint q * uint c + uint r < 2 ^ 64" "uint b < 2 ^ 64" "0 \<le> uint q * uint c + uint r"
    using abs_mult_le [OF abs_uint_u32 [of q] abs_uint_u32 [of c]] abs_uint_u32 [of r] abs_uint_u32 [of b] by (auto simp: abs_mult)
  ultimately have e: "uint q * uint c + uint r = uint b"
    unfolding uint_word_of_int by simp
  show "r = b" if "c = 0" using e that by (simp add: word_uint_eq_iff)
  show "q = b div c \<and> r = b mod c" if "c \<noteq> 0"
  proof -
    have "uint r < uint c" using assms that by (simp add: div_ok_def word_less_def)
    then have d: "uint b div uint c = uint q" using int_div_pos_eq [of "uint b" "uint c" "uint q" "uint r"] e by (simp add: mult.commute)
    moreover have "uint b mod uint c = uint r" using minus_mult_div_eq_mod [of "uint b" "uint c"] e unfolding d by (simp add: mult.commute)
    ultimately have "uint b div uint c = uint q" "uint b mod uint c = uint r" .
    then show ?thesis by (simp add: word_uint_eq_iff uint_div uint_mod)
  qed
qed

text \<open>Addition of 64-bit words, byte by byte.\<close>

lemma u64_add:
  fixes p r t :: u64 and c :: "nat \<Rightarrow> nat"
  assumes "\<And>i. i < 8 \<Longrightarrow> unat (u64_byte t i) + 256 * c i = unat (u64_byte p i) + unat (u64_byte r i) + (if i > 0 then c (i - 1) else 0)"
  shows "p + r = t"
proof -
  have "(\<Sum>i<8. 256 ^ i * unat (u64_byte t i)) + 256 ^ 8 * c 7 = (\<Sum>i<8. 256 ^ i * (unat (u64_byte p i) + unat (u64_byte r i)))"
    using carries_sum [of 8 "\<lambda>i. unat (u64_byte t i)" c "\<lambda>i. unat (u64_byte p i) + unat (u64_byte r i)"] assms by simp
  then have "unat t + 256 ^ 8 * c 7 = unat p + unat r" by (simp only: distrib_left sum.distrib u64_sum)
  then have "unat (p + r) = (unat t + 256 ^ 8 * c 7) mod 256 ^ 8" by (simp add: unat_word_ariths)
  also have "\<dots> = unat t" using unsigned_less [of t, where 'a = nat] by simp
  finally show ?thesis by (simp only: word_unat_eq_iff)
qed

lemma divrem_sum_step:
  "divrem_sum p r i mod 256 + 256 * (divrem_sum p r i div 256)
     = unat (p i) + unat (r i) + (if i > 0 then divrem_sum p r (i - 1) div 256 else 0)"
  by (cases i) simp_all

lemma divrem_sum_carry: "divrem_sum p r i div 256 \<le> 1"
proof (induction i)
  case (Suc i)
  then have "divrem_sum p r (Suc i) < 2 * 256"
    using unat_u8_less [of "p (Suc i)"] unat_u8_less [of "r (Suc i)"] unfolding divrem_sum.simps by linarith
  then show ?case by (simp add: div_less_iff_less_mult flip: less_Suc_eq_le)
next
  case 0
  have "divrem_sum p r 0 < 2 * 256" using unat_u8_less [of "p 0"] unat_u8_less [of "r 0"] by simp
  then show ?case by (simp add: div_less_iff_less_mult flip: less_Suc_eq_le)
qed

lemma divrem_sum_byte:
  assumes "i < 8"
  shows "divrem_sum (u64_byte p) (u64_byte r) i mod 256 = unat (u64_byte (p + r) i)"
proof (rule trans)
  let ?s = "divrem_sum (u64_byte p) (u64_byte r)"
  have "(\<Sum>i<8. 256 ^ i * (?s i mod 256)) + 256 ^ 8 * (?s 7 div 256) = (\<Sum>i<8. 256 ^ i * (unat (u64_byte p i) + unat (u64_byte r i)))"
    using carries_sum [of 8 "\<lambda>i. ?s i mod 256" "\<lambda>i. ?s i div 256" "\<lambda>i. unat (u64_byte p i) + unat (u64_byte r i)", OF divrem_sum_step]
    by (simp del: divrem_sum.simps)
  then have e: "(\<Sum>i<8. 256 ^ i * (?s i mod 256)) + 256 ^ 8 * (?s 7 div 256) = unat p + unat r" by (simp only: distrib_left sum.distrib u64_sum)
  have "(\<Sum>i<8. 256 ^ i * (?s i mod 256)) < 256 ^ 8" by (rule digits_bound) simp
  then have "(\<Sum>i<8. 256 ^ i * (?s i mod 256)) = (unat p + unat r) mod 256 ^ 8" unfolding e [symmetric] by simp
  then have "(\<Sum>i<8. 256 ^ i * (?s i mod 256)) = unat (p + r)" by (simp add: unat_word_ariths)
  then show "?s i mod 256 = unat (p + r) div 256 ^ i mod 256" by (rule digits_unique) (use assms in auto)
qed (simp only: unat_u64_byte)

section \<open>Messages\<close>

lemma divrem_no_messages [simp]:
  "sends k (divrem_eval_signs r) = []" "receives k (divrem_eval_signs r) = []"
  "sends k (divrem_eval_overflow r) = []" "receives k (divrem_eval_overflow r) = []"
  "sends k (divrem_eval_add r) = []" "receives k (divrem_eval_add r) = []"
  "sends k (divrem_eval_result r) = []" "receives k (divrem_eval_result r) = []"
  "sends k (divrem_eval_sign_match r) = []" "receives k (divrem_eval_sign_match r) = []"
  "sends k (divrem_eval_zero r) = []" "receives k (divrem_eval_zero r) = []"
  "sends k (divrem_eval_flags r) = []" "receives k (divrem_eval_flags r) = []"
  "receives k (divrem_eval_mul r) = []" "receives k (divrem_eval_range r) = []" "receives k (divrem_eval_bytes r) = []"
  "sends k (divrem_eval_receive r) = []"
  by (simp_all add: divrem_eval_signs_def divrem_eval_overflow_def divrem_eval_add_def divrem_eval_result_def divrem_eval_sign_match_def
      divrem_eval_zero_def divrem_eval_flags_def divrem_eval_mul_def divrem_eval_range_def divrem_eval_bytes_def divrem_eval_receive_def
      Let_def air when_not_def if_distrib [of "sends k"] if_distrib [of "receives k"] cong: if_cong)

lemma divrem_receives:
  fixes r :: "'f::field divrem_cols"
  shows "receives Instruction_kind (divrem_eval r) = (if dr_is_real r = 0 then [] else
    [(instruction_values (alu_msg (dr_pc r) (dr_is_divu r * opcode_field DIVU + dr_is_remu r * opcode_field REMU
         + dr_is_div r * opcode_field DIV + dr_is_rem r * opcode_field REM)
       (dr_a r) (dr_b r) (dr_c r) (1 - dr_op_a_not_0 r)), dr_is_real r)])"
  by (simp add: divrem_eval_def divrem_eval_receive_def air)

lemma divrem_sends:
  "sends k (divrem_eval r) = sends k (divrem_eval_mul r) @ sends k (divrem_eval_range r) @ sends k (divrem_eval_bytes r)"
  by (simp add: divrem_eval_def)

section \<open>Soundness\<close>

context prime_field32
begin

lemma divrem_bools:
  fixes r :: "'f divrem_cols"
  assumes "accepts L (divrem_eval r)"
  shows "dr_is_real r = 0 \<or> dr_is_real r = 1" "dr_c_neg r = 0 \<or> dr_c_neg r = 1" "dr_rem_neg r = 0 \<or> dr_rem_neg r = 1"
    "dr_is_div r * (dr_is_div r - 1) = 0" "dr_is_divu r * (dr_is_divu r - 1) = 0" "dr_is_rem r * (dr_is_rem r - 1) = 0"
    "dr_is_remu r * (dr_is_remu r - 1) = 0" "dr_abs_c_alu_event r = 0 \<or> dr_abs_c_alu_event r = 1"
    "dr_abs_rem_alu_event r = 0 \<or> dr_abs_rem_alu_event r = 1"
  using assms by (simp_all add: divrem_eval_def divrem_eval_flags_def assert_bool_def)

lemma divrem_is_c_0:
  fixes r :: "'f divrem_cols"
  assumes "accepts L (divrem_eval r)" "dr_is_real r = 1"
  shows "izw_result (dr_is_c_0 r) = from_bool (dr_c r = word_zero)"
  using assms by (intro is_zero_word_sound [of L]) (simp add: divrem_eval_def divrem_eval_zero_def)

lemma divrem_multiplicities:
  fixes r :: "'f divrem_cols"
  assumes "accepts L (divrem_eval r)"
  shows "dr_remainder_check_multiplicity r = (1 - izw_result (dr_is_c_0 r)) * dr_is_real r"
    "dr_abs_c_alu_event r = dr_c_neg r * dr_is_real r" "dr_abs_rem_alu_event r = dr_rem_neg r * dr_is_real r"
  using assms by (simp_all add: divrem_eval_def divrem_eval_range_def Let_def assert_eq_def)

lemma divrem_received:
  fixes r :: "'f divrem_cols"
  assumes "asserts (divrem_eval r)" "(vs, m) \<in> set (receives Instruction_kind (divrem_eval r))"
  shows "m = 1"
  using divrem_bools(1) [OF assms(1) [unfolded asserts_def]] assms(2) unfolding divrem_receives by (auto split: if_splits)

lemma divrem_sent:
  fixes r :: "'f divrem_cols"
  assumes "asserts (divrem_eval r)" "(vs, m) \<in> set (sends k (divrem_eval r))"
  shows "m = 1"
proof -
  note acc = assms(1) [unfolded asserts_def]
  have "m = dr_is_real r \<or> m = dr_abs_c_alu_event r \<or> m = dr_abs_rem_alu_event r \<or> m = dr_remainder_check_multiplicity r"
    using assms(2) unfolding divrem_sends divrem_eval_mul_def divrem_eval_range_def divrem_eval_bytes_def Let_def
    by (auto simp: air when_not_def dest: range_sends split: if_splits)
  moreover have "dr_remainder_check_multiplicity r = 0 \<or> dr_remainder_check_multiplicity r = 1"
    using divrem_bools(1) [OF acc] divrem_is_c_0 [OF acc] unfolding divrem_multiplicities(1) [OF acc]
    by (cases "dr_c r = word_zero") auto
  ultimately show ?thesis using sends_nonzero [OF assms(2)] divrem_bools(1,8,9) [OF acc] by auto
qed

text \<open>What an answered request tells.\<close>

lemma alu_answerD:
  fixes a :: "'f word4"
  assumes "alu_lookups D Instruction_kind (instruction_values (unused_msg (opcode_field opc) a b c))"
  shows "opc = ADD \<Longrightarrow> is_word b \<and> is_word c" "b = word_from x \<Longrightarrow> c = word_from y \<Longrightarrow> \<exists>v. alu_value opc x y = Inr v \<and> a = word_from v"
  using assms by (auto simp: alu_lookups_def alu_answer_def unused_msg_def)

lemma divrem_requests:
  fixes r :: "'f divrem_cols"
  assumes "accepts (alu_lookups D) (divrem_eval r)"
  defines "p \<equiv> dr_c_times_quotient r"
  shows "dr_is_real r = 1 \<Longrightarrow>
      alu_lookups D Instruction_kind (instruction_values (unused_msg (opcode_field MUL) (Word4 (p 0) (p 1) (p 2) (p 3)) (dr_quotient r) (dr_c r)))"
    "dr_is_real r = 1 \<Longrightarrow>
      alu_lookups D Instruction_kind (instruction_values (unused_msg ((dr_is_div r + dr_is_rem r) * opcode_field MULH
        + (dr_is_divu r + dr_is_remu r) * opcode_field MULHU) (Word4 (p 4) (p 5) (p 6) (p 7)) (dr_quotient r) (dr_c r)))"
    "dr_abs_c_alu_event r = 1 \<Longrightarrow> alu_lookups D Instruction_kind (instruction_values (unused_msg (opcode_field ADD) word_zero (dr_c r) (dr_abs_c r)))"
    "dr_abs_rem_alu_event r = 1 \<Longrightarrow>
      alu_lookups D Instruction_kind (instruction_values (unused_msg (opcode_field ADD) word_zero (dr_remainder r) (dr_abs_remainder r)))"
    "dr_remainder_check_multiplicity r = 1 \<Longrightarrow>
      alu_lookups D Instruction_kind (instruction_values (unused_msg (opcode_field SLTU) (Word4 1 0 0 0) (dr_abs_remainder r) (dr_max_abs_c_or_1 r)))"
  using assms(1) unfolding divrem_eval_def divrem_eval_mul_def divrem_eval_range_def Let_def p_def by (simp_all add: send_instruction_def)

text \<open>The signs, the overflow and the three comparisons of a real row.\<close>

lemma divrem_sign_facts:
  fixes r :: "'f divrem_cols"
  assumes acc: "accepts (alu_lookups D) (divrem_eval r)" and real: "dr_is_real r = 1"
    and w: "dr_b r = word_from b" "dr_c r = word_from c" "dr_remainder r = word_from m"
    and s: "dr_is_div r + dr_is_rem r = from_bool s"
  shows "dr_b_neg r = from_bool (s \<and> bit b 31)" "dr_c_neg r = from_bool (s \<and> bit c 31)" "dr_rem_neg r = from_bool (s \<and> bit m 31)"
    "dr_is_overflow r = from_bool (s \<and> b = 0x80000000 \<and> c = - 1)"
proof -
  have msb: "dr_b_msb r = from_bool (bit b 31)" "dr_c_msb r = from_bool (bit c 31)" "dr_rem_msb r = from_bool (bit m 31)"
    using acc by (auto simp: divrem_eval_def divrem_eval_bytes_def real w send_byte_def send_byte_pair_def alu_lookups_def msb_ext)
  have neg: "dr_b_neg r = dr_b_msb r * (dr_is_div r + dr_is_rem r)" "dr_c_neg r = dr_c_msb r * (dr_is_div r + dr_is_rem r)"
    "dr_rem_neg r = dr_rem_msb r * (dr_is_div r + dr_is_rem r)"
    using acc by (simp_all add: divrem_eval_def divrem_eval_signs_def Let_def assert_eq_def)
  show "dr_b_neg r = from_bool (s \<and> bit b 31)" "dr_c_neg r = from_bool (s \<and> bit c 31)" "dr_rem_neg r = from_bool (s \<and> bit m 31)"
    unfolding neg s msb by (simp_all add: from_bool_def)
  have "izw_result (dr_is_overflow_b r) = from_bool (dr_b r = word_from 0x80000000)" "izw_result (dr_is_overflow_c r) = from_bool (dr_c r = word_from (- 1))"
    using acc by (intro is_equal_word_sound [of "alu_lookups D"]; simp add: divrem_eval_def divrem_eval_overflow_def real)+
  moreover have "dr_is_overflow r = izw_result (dr_is_overflow_b r) * izw_result (dr_is_overflow_c r) * (dr_is_div r + dr_is_rem r)"
    using acc by (simp add: divrem_eval_def divrem_eval_overflow_def assert_eq_def)
  ultimately show "dr_is_overflow r = from_bool (s \<and> b = 0x80000000 \<and> c = - 1)"
    unfolding s w by (simp add: from_bool_def)
qed

lemma sum_limbs_0: "sum_list (limbs (word_from m)) = (0::'f) \<longleftrightarrow> m = 0"
proof -
  let ?n = "unat (limb0 (le_bytes m)) + unat (limb1 (le_bytes m)) + unat (limb2 (le_bytes m)) + unat (limb3 (le_bytes m))"
  have "sum_list (limbs (word_from m)) = (of_nat ?n :: 'f)" by (simp add: limbs_eq from_canonical_u8_def)
  moreover have "?n < ORDER"
    using unat_u8_less [of "limb0 (le_bytes m)"] unat_u8_less [of "limb1 (le_bytes m)"] unat_u8_less [of "limb2 (le_bytes m)"]
      unat_u8_less [of "limb3 (le_bytes m)"] by (simp add: ORDER_def)
  ultimately have "sum_list (limbs (word_from m)) = (0::'f) \<longleftrightarrow> ?n = 0" 
    using of_nat_inject [of ?n 0] by (simp add: ORDER_def)
  also have "\<dots> \<longleftrightarrow> m = 0" using unat_word_split [of m] by (auto simp: unat_eq_0)
  finally show ?thesis .
qed

lemma divrem_sign_match:
  fixes r :: "'f divrem_cols"
  assumes acc: "accepts (alu_lookups D) (divrem_eval r)" and real: "dr_is_real r = 1"
    and w: "dr_b r = word_from b" "dr_c r = word_from c" "dr_remainder r = word_from m"
    and s: "dr_is_div r + dr_is_rem r = from_bool s"
  shows "s \<Longrightarrow> bit m 31 \<Longrightarrow> bit b 31" "s \<Longrightarrow> bit b 31 \<Longrightarrow> m = 0 \<or> bit m 31"
proof -
  note n = divrem_sign_facts [OF assms]
  have "dr_rem_neg r * (dr_b_neg r - 1) = 0" "sum_list (limbs (dr_remainder r)) * ((1 - dr_rem_neg r) * dr_b_neg r) = 0"
    using acc by (simp_all add: divrem_eval_def divrem_eval_sign_match_def Let_def air del: mult_eq_0_iff)
  then show "s \<Longrightarrow> bit m 31 \<Longrightarrow> bit b 31" "s \<Longrightarrow> bit b 31 \<Longrightarrow> m = 0 \<or> bit m 31"
    unfolding n w by (auto simp: sum_limbs_0)
qed

lemma word_eqI: "(\<And>i. i < 4 \<Longrightarrow> word_at v i = word_at w i) \<Longrightarrow> v = w"
proof -
  assume "\<And>i. i < 4 \<Longrightarrow> word_at v i = word_at w i"
  from this [of 0] this [of 1] this [of 2] this [of 3] show "v = w" by (simp add: word_at_limbs word4_eq)
qed

lemma word_from_0 [simp]: "word_from 0 = (word_zero :: 'f word4)" "word_from 1 = (Word4 1 0 0 0 :: 'f word4)"
  by (simp_all add: word_from_def le_bytes_def word_zero_def)

text \<open>An absolute value, checked by an addition when the number is negative.\<close>

lemma divrem_abs:
  fixes v u :: "'f word4"
  assumes "v = word_from x" and neg: "n = (from_bool (s \<and> bit x 31) :: 'f)"
    and pos: "\<And>i. i < 4 \<Longrightarrow> (n - 1) * (word_at v i - word_at u i) = 0"
    and add: "n = 1 \<Longrightarrow> alu_lookups D Instruction_kind (instruction_values (unused_msg (opcode_field ADD) word_zero v u))"
  shows "u = word_from (if s then unsigned_abs x else x)"
proof (cases "s \<and> bit x 31")
  case True
  then have L: "alu_lookups D Instruction_kind (instruction_values (unused_msg (opcode_field ADD) word_zero v u))"
    using add neg by simp
  obtain y where y: "u = word_from y" using alu_answerD(1) [OF L] by (auto simp: is_word_def)
  have "word_zero = (word_from (x + y) :: 'f word4)" using alu_answerD(2) [OF L assms(1) y] by simp
  then have "word_from 0 = (word_from (x + y) :: 'f word4)" by (simp only: word_from_0)
  then have "x + y = 0" by (metis word_from_inject)
  moreover have "x + unsigned_abs x = 0"
    using True by (intro add_unsigned_abs) (simp add: bit_31_sint)
  ultimately have "y = unsigned_abs x" by (metis add_left_cancel)
  then show ?thesis using True y by simp
next
  case False
  then have "n - 1 \<noteq> 0" by (simp add: neg)
  then have "u = v" using pos by (intro word_eqI) simp
  moreover have "s \<Longrightarrow> unsigned_abs x = x"
    using False by (simp add: unsigned_abs_def bit_31_sint)
  ultimately show ?thesis using assms(1) by auto
qed

lemma divrem_compare:
  fixes r :: "'f divrem_cols"
  assumes acc: "accepts (alu_lookups D) (divrem_eval r)" and real: "dr_is_real r = 1"
    and w: "dr_b r = word_from b" "dr_c r = word_from c" "dr_remainder r = word_from m"
    and s: "dr_is_div r + dr_is_rem r = from_bool s" and c: "c \<noteq> 0"
  shows "if s then unsigned_abs m < unsigned_abs c else m < c"
proof -
  note n = divrem_sign_facts [OF acc real w s] and q = divrem_requests [OF acc] and u = divrem_multiplicities [OF acc]
  have not: "(dr_c_neg r - 1) * (word_at (dr_c r) i - word_at (dr_abs_c r) i) = 0"
      "(dr_rem_neg r - 1) * (word_at (dr_remainder r) i - word_at (dr_abs_remainder r) i) = 0" if "i < 4" for i
    using acc that by (simp_all add: divrem_eval_def divrem_eval_range_def Let_def when_not_def air_when_def assert_eq_def)
  have ac: "dr_abs_c r = word_from (if s then unsigned_abs c else c)"
    by (rule divrem_abs [OF w(2) n(2) not(1)]) (use q(3) u(2) real in auto)
  have ar: "dr_abs_remainder r = word_from (if s then unsigned_abs m else m)"
    by (rule divrem_abs [OF w(3) n(3) not(2)]) (use q(4) u(3) real in auto)
  have "word_from c \<noteq> (word_zero :: 'f word4)" using c word_from_inject [of c 0] by simp
  then have z: "izw_result (dr_is_c_0 r) = 0" using divrem_is_c_0 [OF acc real] by (simp add: w)
  have "word_at (dr_max_abs_c_or_1 r) i = word_at (dr_abs_c r) i" if "i < 4" for i
    using acc that by (auto simp: divrem_eval_def divrem_eval_range_def Let_def assert_eq_def z)
  then have max: "dr_max_abs_c_or_1 r = dr_abs_c r" by (rule word_eqI)
  have "dr_remainder_check_multiplicity r = 1" using u(1) z real by simp
  note L = alu_answerD(2) [OF q(5) [OF this] ar max [unfolded ac]]
  have "Word4 1 0 0 0 = (word_from (if (if s then unsigned_abs m else m) < (if s then unsigned_abs c else c) then 1 else 0) :: 'f word4)"
    using L by simp
  then show ?thesis by (auto simp: word_zero_def split: if_splits)
qed

lemma divrem_product:
  fixes r :: "'f divrem_cols"
  assumes acc: "accepts (alu_lookups D) (divrem_eval r)" and real: "dr_is_real r = 1"
    and w: "dr_c r = word_from c" "dr_quotient r = word_from q"
    and s: "dr_is_div r + dr_is_rem r = from_bool s" "dr_is_divu r + dr_is_remu r = from_bool (\<not> s)" and i: "i < 8"
  shows "dr_c_times_quotient r i = from_canonical_u8 (u64_byte (ext64 s q * ext64 s c) i)"
proof -
  let ?p = "dr_c_times_quotient r" and ?w = "ext64 s q * ext64 s c"
  note req = divrem_requests(1,2) [OF acc real]
  have "Word4 (?p 0) (?p 1) (?p 2) (?p 3) = word_from (q * c)" using alu_answerD(2) [OF req(1) w(2,1)] by simp
  then have lo: "Word4 (?p 0) (?p 1) (?p 2) (?p 3) = word_from (ucast ?w)" by (simp add: ucast_mult64)
  have "from_bool s * opcode_field MULH + from_bool (\<not> s) * opcode_field MULHU = (opcode_field (if s then MULH else MULHU) :: 'f)" by simp
  note hi = alu_answerD(2) [OF req(2) [unfolded s this] w(2,1)]
  have hi: "Word4 (?p 4) (?p 5) (?p 6) (?p 7) = word_from (ucast (drop_bit 32 ?w))"
    using hi by (cases s) (simp_all add: ext64_def signed_upper)
  have eq: "f j = from_canonical_u8 (word_at (le_bytes v) j)" if "Word4 (f 0) (f 1) (f 2) (f 3) = word_from v" "j < 4" for f :: "'f arr" and v j
    using that(1) less_4_cases [OF that(2)] by (auto simp: word_at_limbs word4_eq)
  show ?thesis
  proof (cases "i < 4")
    case True
    then show ?thesis using eq [of ?p, OF lo True] by (simp add: le_bytes_halves(1))
  next
    case False
    then have j: "i - 4 < 4" "i - 4 + 4 = i" using i by simp_all
    have "Word4 (?p (0 + 4)) (?p (1 + 4)) (?p (2 + 4)) (?p (3 + 4)) = word_from (ucast (drop_bit 32 ?w))" using hi by simp
    from eq [of "\<lambda>i. ?p (i + 4)", OF this j(1)] show ?thesis by (simp only: le_bytes_halves(2) [OF j(1)] j(2))
  qed
qed

lemma divrem_identity:
  fixes r :: "'f divrem_cols"
  assumes acc: "accepts (alu_lookups D) (divrem_eval r)" and real: "dr_is_real r = 1"
    and w: "dr_b r = word_from b" "dr_c r = word_from c" "dr_remainder r = word_from m" "dr_quotient r = word_from q"
    and s: "dr_is_div r + dr_is_rem r = from_bool s" "dr_is_divu r + dr_is_remu r = from_bool (\<not> s)"
  shows "ext64 s q * ext64 s c + ext64 s m = (if s \<and> b = 0x80000000 \<and> c = - 1 then ucast b else ext64 s b)" (is "_ = ?t")
proof -
  note n = divrem_sign_facts [OF acc real w(1-3) s(1)]
  let ?o = "s \<and> b = 0x80000000 \<and> c = - 1"
  have loop: "\<forall>i\<in>set [0..<8]. accepts (alu_lookups D) (if i < 4 then assert_eq (word_at (dr_b r) i) (divrem_plus_remainder r i)
       else (let not_overflow = 1 - dr_is_overflow r in
         air_when not_overflow (air_when (dr_b_neg r) (assert_eq (divrem_plus_remainder r i) (from_canonical_u8 0xff))) @
         air_when not_overflow (air_when (1 - dr_b_neg r) (assert_zero (divrem_plus_remainder r i))) @
         air_when (dr_is_overflow r) (assert_zero (divrem_plus_remainder r i))))"
    using acc unfolding divrem_eval_def divrem_eval_add_def accepts_simps accepts_concat by (elim conjE)
  have e: "u64_byte ?t i = ext_byte (s \<and> \<not> ?o) b i" if "i < 8" for i
    using u64_ext_byte [OF that, of "s \<and> \<not> ?o" b] unfolding ext64_def by (cases s; cases ?o) (simp_all only: simp_thms if_True if_False)
  have t: "divrem_plus_remainder r i = from_canonical_u8 (u64_byte ?t i)" if "i < 8" for i
  proof (cases "i < 4")
    case True
    then show ?thesis using bspec [OF loop, of i] that unfolding e [OF that] by (simp add: assert_eq_def w word_at_from ext_byte_def)
  next
    case False
    then show ?thesis using bspec [OF loop, of i] that unfolding n e [OF that]
      by (cases ?o; cases "s \<and> bit b 31") (auto simp: Let_def air_when_def assert_eq_def assert_zero_def ext_byte_def)
  qed
  have "dr_carry r i * (dr_carry r i - 1) = 0" if "i < 8" for i
    using acc that by (simp add: divrem_eval_def divrem_eval_bytes_def assert_bool_def del: mult_eq_0_iff)
  then have "\<forall>i<8. \<exists>k\<le>1. dr_carry r i = of_nat k" using bool_nat by blast
  then obtain k :: "nat \<Rightarrow> nat" where k: "\<And>i. i < 8 \<Longrightarrow> k i \<le> 1" "\<And>i. i < 8 \<Longrightarrow> dr_carry r i = of_nat (k i)" by metis
  have rem: "(if i < 4 then word_at (dr_remainder r) i else dr_rem_neg r * from_canonical_u8 0xff) = from_canonical_u8 (u64_byte (ext64 s m) i)"
    if "i < 8" for i
    unfolding ext64_def u64_ext_byte [OF that] n w by (auto simp: ext_byte_def word_at_from from_bool_def)
  define T where "T = ?t"
  show ?thesis
    unfolding T_def [symmetric]
  proof (rule u64_add [of _ k])
    fix i :: nat
    assume i: "i < 8"
    let ?x = "unat (u64_byte T i)" and ?y = "unat (u64_byte (ext64 s q * ext64 s c) i)" and ?z = "unat (u64_byte (ext64 s m) i)"
    have "(if i > 0 then dr_carry r (i - 1) else 0) = of_nat (if i > 0 then k (i - 1) else 0)" using i by (simp add: k(2))
    then have "of_nat ?y + of_nat ?z - of_nat (k i) * 256 + of_nat (if i > 0 then k (i - 1) else 0) = (of_nat ?x :: 'f)"
      using t [OF i, folded T_def, unfolded divrem_plus_remainder_def rem [OF i] divrem_product [OF acc real w(2,4) s i] k(2) [OF i]]
      unfolding from_canonical_u8_def by (simp only:)
    then have "(of_nat (?y + ?z + (if i > 0 then k (i - 1) else 0)) :: 'f) = of_nat (?x + 256 * k i)"
      by (simp add: algebra_simps)
    moreover have "(if i > 0 then k (i - 1) else 0) \<le> 1" using k(1) [of "i - 1"] i by simp
    then have "?y + ?z + (if i > 0 then k (i - 1) else 0) < ORDER" "?x + 256 * k i < ORDER"
      using unat_u8_less [of "u64_byte T i"] unat_u8_less [of "u64_byte (ext64 s q * ext64 s c) i"] unat_u8_less [of "u64_byte (ext64 s m) i"]
        k(1) [OF i] unfolding ORDER_def by linarith+
    ultimately show "?x + 256 * k i = ?y + ?z + (if i > 0 then k (i - 1) else 0)" using of_nat_inject by metis
  qed
qed

lemma divrem_div_ok:
  fixes r :: "'f divrem_cols"
  assumes acc: "accepts (alu_lookups D) (divrem_eval r)" and real: "dr_is_real r = 1"
    and w: "dr_b r = word_from b" "dr_c r = word_from c"
    and s: "dr_is_div r + dr_is_rem r = from_bool s" "dr_is_divu r + dr_is_remu r = from_bool (\<not> s)"
  obtains q m where "dr_quotient r = word_from q" "dr_remainder r = word_from m" "div_ok s b c q m"
proof -
  have "is_word (dr_quotient r)" "is_word (dr_remainder r)"
    using acc by (auto simp: divrem_eval_def divrem_eval_bytes_def real intro: range_check_word)
  then obtain q m where qm: "dr_quotient r = word_from q" "dr_remainder r = word_from m" by (auto simp: is_word_def)
  have "div_ok s b c q m"
    using divrem_identity [OF acc real w qm(2,1) s] divrem_sign_match [OF acc real w qm(2) s(1)] divrem_compare [OF acc real w qm(2) s(1)]
    unfolding div_ok_def bit_31_sint by auto
  then show thesis using that qm by blast
qed

text \<open>The quotient of a division by 0 is all ones.\<close>

lemma divrem_by_zero:
  fixes r :: "'f divrem_cols"
  assumes "accepts L (divrem_eval r)" "dr_is_real r = 1" "dr_c r = word_zero" "dr_is_divu r + dr_is_div r = 1"
  shows "dr_quotient r = word_from (- 1)"
proof (rule word_eqI)
  have "le_bytes (- 1) = Word4 0xff 0xff 0xff 0xff" by code_simp
  then have ff: "word_at (le_bytes (- 1)) i = 0xff" if "i < 4" for i using less_4_cases [OF that] by (auto simp: word_at_limbs)
  show "word_at (dr_quotient r) i = word_at (word_from (- 1)) i" if "i < 4" for i
    using assms that divrem_is_c_0 [OF assms(1,2)]
    by (auto simp: divrem_eval_def divrem_eval_zero_def air_when_def assert_eq_def word_at_from ff)
qed

lemma divrem_result:
  fixes r :: "'f divrem_cols"
  assumes "accepts L (divrem_eval r)" "1 - dr_op_a_not_0 r = 0"
  shows "dr_is_divu r + dr_is_div r = 1 \<Longrightarrow> dr_a r = dr_quotient r" "dr_is_remu r + dr_is_rem r = 1 \<Longrightarrow> dr_a r = dr_remainder r"
  using assms by (auto intro!: word_eqI simp: divrem_eval_def divrem_eval_result_def air_when_def assert_eq_def)

lemma div_ok_alu_value:
  assumes "div_ok s b c q m"
  shows "alu_value (if s then DIV else DIVU) b c = Inr (if c = 0 then - 1 else q)" "alu_value (if s then REM else REMU) b c = Inr m"
proof -
  have "alu_value (if s then DIV else DIVU) b c = Inr (if c = 0 then - 1 else q) \<and> alu_value (if s then REM else REMU) b c = Inr m"
  proof (cases s)
    case True
    then have "div_ok True b c q m" using assms by simp
    then show ?thesis using True div_ok_signed [of b c q m] by (cases "c = 0") simp_all
  next
    case False
    then have "div_ok False b c q m" using assms by simp
    then show ?thesis using False div_ok_unsigned [of b c q m] by (cases "c = 0") simp_all
  qed
  then show "alu_value (if s then DIV else DIVU) b c = Inr (if c = 0 then - 1 else q)" "alu_value (if s then REM else REMU) b c = Inr m"
    by blast+
qed

lemma divrem_answer:
  fixes r :: "'f divrem_cols"
  assumes acc: "accepts (alu_lookups D) (divrem_eval r)" and real: "dr_is_real r = 1" and z: "1 - dr_op_a_not_0 r = 0"
    and w: "dr_b r = word_from b" "dr_c r = word_from c"
    and s: "dr_is_div r + dr_is_rem r = from_bool s" "dr_is_divu r + dr_is_remu r = from_bool (\<not> s)"
  shows "dr_is_divu r + dr_is_div r = 1 \<Longrightarrow> \<exists>v. alu_value (if s then DIV else DIVU) b c = Inr v \<and> dr_a r = word_from v"
    "dr_is_remu r + dr_is_rem r = 1 \<Longrightarrow> \<exists>v. alu_value (if s then REM else REMU) b c = Inr v \<and> dr_a r = word_from v"
proof -
  obtain q m where qm: "dr_quotient r = word_from q" "dr_remainder r = word_from m" and ok: "div_ok s b c q m"
    by (rule divrem_div_ok [OF acc real w s])
  note v = div_ok_alu_value [OF ok]
  show "dr_is_divu r + dr_is_div r = 1 \<Longrightarrow> \<exists>v. alu_value (if s then DIV else DIVU) b c = Inr v \<and> dr_a r = word_from v"
    using divrem_result(1) [OF acc z] divrem_by_zero [OF acc real] qm(1) unfolding v by (auto simp: w)
  show "dr_is_remu r + dr_is_rem r = 1 \<Longrightarrow> \<exists>v. alu_value (if s then REM else REMU) b c = Inr v \<and> dr_a r = word_from v"
    using divrem_result(2) [OF acc z] qm(2) unfolding v by auto
qed

lemma divrem_selector:
  fixes r :: "'f divrem_cols"
  assumes "accepts L (divrem_eval r)"
  obtains opc where "opc \<in> {DIV, DIVU, REM, REMU}" "dr_is_div r = from_bool (opc = DIV)" "dr_is_divu r = from_bool (opc = DIVU)"
    "dr_is_rem r = from_bool (opc = REM)" "dr_is_remu r = from_bool (opc = REMU)"
proof -
  have sum: "1 = dr_is_divu r + dr_is_remu r + dr_is_div r + dr_is_rem r"
    using assms by (simp add: divrem_eval_def divrem_eval_receive_def assert_eq_def)
  have "\<exists>opc\<in>{DIV, DIVU, REM, REMU}. dr_is_div r = from_bool (opc = DIV) \<and> dr_is_divu r = from_bool (opc = DIVU)
    \<and> dr_is_rem r = from_bool (opc = REM) \<and> dr_is_remu r = from_bool (opc = REMU)"
    using four_selectors [OF divrem_bools(5) [OF assms] divrem_bools(7) [OF assms] divrem_bools(4) [OF assms] divrem_bools(6) [OF assms] sum [symmetric]] by auto
  then show thesis using that by blast
qed

lemma divrem_answered:
  assumes "asserts (divrem_eval (r :: 'f divrem_cols))" "(vs, m) \<in> set (receives Instruction_kind (divrem_eval r))"
  shows "\<exists>opc\<in>{DIV, DIVU, REM, REMU}. \<exists>p a b c z. vs = instruction_values (alu_msg p (opcode_field opc) a b c z)"
proof -
  obtain opc where "opc \<in> {DIV, DIVU, REM, REMU}" "dr_is_div r = from_bool (opc = DIV)" "dr_is_divu r = from_bool (opc = DIVU)"
    "dr_is_rem r = from_bool (opc = REM)" "dr_is_remu r = from_bool (opc = REMU)" by (rule divrem_selector [OF assms(1) [unfolded asserts_def]])
  then show ?thesis using assms(2) unfolding divrem_receives by (auto split: if_splits)
qed

lemma divrem_requested:
  assumes "asserts (divrem_eval (r :: 'f divrem_cols))" "(vs, m) \<in> set (sends Instruction_kind (divrem_eval r))"
  shows "\<exists>opc\<in>{ADD, MUL, MULH, MULHU, SLTU}. alu_request opc vs"
proof -
  obtain opc where "opc \<in> {DIV, DIVU, REM, REMU}" "dr_is_div r = from_bool (opc = DIV)" "dr_is_divu r = from_bool (opc = DIVU)"
    "dr_is_rem r = from_bool (opc = REM)" "dr_is_remu r = from_bool (opc = REMU)" by (rule divrem_selector [OF assms(1) [unfolded asserts_def]])
  then have "\<exists>u\<in>{MULH, MULHU}. (dr_is_div r + dr_is_rem r) * opcode_field MULH + (dr_is_divu r + dr_is_remu r) * opcode_field MULHU = opcode_field u"
    by auto
  then obtain u where u: "u \<in> {MULH, MULHU}"
    "(dr_is_div r + dr_is_rem r) * opcode_field MULH + (dr_is_divu r + dr_is_remu r) * opcode_field MULHU = (opcode_field u :: 'f)" by blast
  show ?thesis using assms(2) u(1)
    unfolding divrem_sends divrem_eval_mul_def divrem_eval_range_def divrem_eval_bytes_def Let_def u(2)
    by (auto simp: air when_not_def unused_msg_def alu_request_def split: if_splits)
qed

lemma divrem_sound:
  fixes r :: "'f divrem_cols"
  assumes acc: "accepts (alu_lookups D) (divrem_eval r)" and recv: "(vs, m) \<in> set (receives Instruction_kind (divrem_eval r))"
  shows "\<exists>opc\<in>{DIV, DIVU, REM, REMU}. alu_answer opc vs"
proof -
  have real: "dr_is_real r = 1" using divrem_bools(1) [OF acc] recv unfolding divrem_receives by (auto split: if_splits)
  note ans = divrem_answer [OF acc real]
  have sum: "dr_is_divu r + dr_is_remu r + dr_is_div r + dr_is_rem r = 1"
    using acc by (simp add: divrem_eval_def divrem_eval_receive_def assert_eq_def)
  have vs: "vs = instruction_values (alu_msg (dr_pc r) (dr_is_divu r * opcode_field DIVU + dr_is_remu r * opcode_field REMU
         + dr_is_div r * opcode_field DIV + dr_is_rem r * opcode_field REM) (dr_a r) (dr_b r) (dr_c r) (1 - dr_op_a_not_0 r))"
    using recv real unfolding divrem_receives by simp
  consider "dr_is_divu r = 1" "dr_is_remu r = 0" "dr_is_div r = 0" "dr_is_rem r = 0"
    | "dr_is_divu r = 0" "dr_is_remu r = 1" "dr_is_div r = 0" "dr_is_rem r = 0"
    | "dr_is_divu r = 0" "dr_is_remu r = 0" "dr_is_div r = 1" "dr_is_rem r = 0"
    | "dr_is_divu r = 0" "dr_is_remu r = 0" "dr_is_div r = 0" "dr_is_rem r = 1"
    using four_selectors [OF divrem_bools(5) [OF acc] divrem_bools(7) [OF acc] divrem_bools(4) [OF acc] divrem_bools(6) [OF acc] sum] by auto
  then show ?thesis
  proof cases
    case 1
    then have "alu_answer DIVU vs" unfolding vs using ans(1) [of _ _ False] by (intro alu_answerI) simp_all
    then show ?thesis by blast
  next
    case 2
    then have "alu_answer REMU vs" unfolding vs using ans(2) [of _ _ False] by (intro alu_answerI) simp_all
    then show ?thesis by blast
  next
    case 3
    then have "alu_answer DIV vs" unfolding vs using ans(1) [of _ _ True] by (intro alu_answerI) simp_all
    then show ?thesis by blast
  next
    case 4
    then have "alu_answer REM vs" unfolding vs using ans(2) [of _ _ True] by (intro alu_answerI) simp_all
    then show ?thesis by blast
  qed
qed

end

section \<open>Completeness\<close>

lemma ext64_0 [simp]: "ext64 s 0 = 0"
  by (simp add: ext64_def)

lemma div_ok_complete:
  assumes qm: "get_quotient_and_remainder b c opc = (q, m)"
  shows "div_ok (is_signed_operation opc) b c q m"
proof (cases "c = 0")
  case True
  then have "q = - 1" "m = b" using qm by (simp_all add: get_quotient_and_remainder_def)
  then show ?thesis using True by (simp add: div_ok_def)
next
  case c: False
  show ?thesis
  proof (cases "is_signed_operation opc")
    case s: True
    then have d: "q = wrapping_div_i32 b c" "m = wrapping_rem_i32 b c" using qm c by (simp_all add: get_quotient_and_remainder_def)
    have less: "unsigned_abs m < unsigned_abs c"
      using remainder_less(1) [OF c qm s] by (simp add: word_less_def uint_unsigned_abs)
    have m: "sint m = sint b smod sint c" using c by (simp add: d sint_wrapping_rem)
    then have sign: "sint m < 0 \<longrightarrow> sint b < 0" "sint b < 0 \<longrightarrow> m = 0 \<or> sint m < 0"
      using smod_sign [of "sint b" "sint c"] sint_0_iff32 [of m] by (auto simp: sgn_if split: if_splits)
    have "ext64 True q * ext64 True c + ext64 True m = (if b = 0x80000000 \<and> c = - 1 then ucast b else ext64 True b)"
    proof (cases "b = 0x80000000 \<and> c = - 1")
      case True
      then have "q = 0x80000000" "m = 0" by (simp_all add: d wrapping_div_i32_def wrapping_rem_i32_def signed_modulo_int_def)
      then show ?thesis using True by (simp add: ext64_def)
    next
      case False
      then have q: "sint q = sint b sdiv sint c" by (auto simp: d div_overflow_def sint_const_iff intro: sint_wrapping_div)
      have "sint q * sint c + sint m = sint b" unfolding q m by (rule sdiv_mult_smod_eq)
      then show ?thesis using False by (simp only: ext64_sint of_int_mult [symmetric] of_int_add [symmetric] if_False)
    qed
    then show ?thesis using s less sign by (simp add: div_ok_def)
  next
    case s: False
    then have d: "q = b div c" "m = b mod c" using qm c by (simp_all add: get_quotient_and_remainder_def)
    have "uint q * uint c + uint m = uint b" by (simp add: d uint_div uint_mod)
    then have "ext64 False q * ext64 False c + ext64 False m = ext64 False b"
      by (simp only: ext64_sint of_int_mult [symmetric] of_int_add [symmetric])
    moreover have "m < c" using remainder_less(2) [OF c qm s] by (simp add: word_less_def)
    ultimately show ?thesis using s by (simp add: div_ok_def)
  qed
qed

lemma get_msb_field: "from_canonical_u8 (get_msb x) = from_bool (bit x 31)"
  by (simp add: get_msb_bit from_bool_def)

text \<open>The row that is generated, field by field.\<close>

definition divrem_image :: "bool \<Rightarrow> alu_event \<Rightarrow> u32 \<Rightarrow> u32 \<Rightarrow> 'f::field divrem_cols" where
  "divrem_image s e q m =
     (let b = alu_b e; c = alu_c e; opc = alu_opcode e; abs = (\<lambda>x. if s then unsigned_abs x else x);
          p = ext64 s q * ext64 s c
      in \<lparr>dr_pc = from_canonical_u32 (alu_pc e), dr_a = word_from (alu_a e), dr_b = word_from b, dr_c = word_from c,
           dr_op_a_not_0 = from_bool (\<not> alu_op_a_0 e), dr_quotient = word_from q, dr_remainder = word_from m,
           dr_abs_remainder = word_from (abs m), dr_abs_c = word_from (abs c), dr_max_abs_c_or_1 = word_from (max 1 (abs c)),
           dr_c_times_quotient = (\<lambda>i. from_canonical_u8 (u64_byte p i)),
           dr_carry = (\<lambda>i. of_nat (divrem_sum (u64_byte p) (u64_byte (ext64 s m)) i div 256)),
           dr_is_c_0 = is_zero_word_populate (word_from c), dr_is_div = from_bool (opc = DIV), dr_is_divu = from_bool (opc = DIVU),
           dr_is_rem = from_bool (opc = REM), dr_is_remu = from_bool (opc = REMU),
           dr_is_overflow = from_bool (s \<and> b = 0x80000000 \<and> c = - 1),
           dr_is_overflow_b = is_equal_word_populate b 0x80000000, dr_is_overflow_c = is_equal_word_populate c (- 1),
           dr_b_msb = from_bool (bit b 31), dr_rem_msb = from_bool (bit m 31), dr_c_msb = from_bool (bit c 31),
           dr_b_neg = from_bool (s \<and> bit b 31), dr_rem_neg = from_bool (s \<and> bit m 31), dr_c_neg = from_bool (s \<and> bit c 31),
           dr_abs_c_alu_event = from_bool (s \<and> bit c 31), dr_abs_rem_alu_event = from_bool (s \<and> bit m 31), dr_is_real = 1,
           dr_remainder_check_multiplicity = 1 - izw_result (is_zero_word_populate (word_from c))\<rparr>)"

lemma divrem_row_eq:
  assumes "alu_opcode e \<in> {DIV, DIVU, REM, REMU}" "get_quotient_and_remainder (alu_b e) (alu_c e) (alu_opcode e) = (q, m)"
  shows "divrem_row e = Inr (divrem_image (is_signed_operation (alu_opcode e)) e q m :: 'f::field divrem_cols,
    map msb_word_event [alu_b e, alu_c e, m] @ u8_range_checks (to_le_bytes q) @ u8_range_checks (to_le_bytes m)
      @ u8_range_checks (arr_list 8 (u64_byte (ext64 (is_signed_operation (alu_opcode e)) q * ext64 (is_signed_operation (alu_opcode e)) (alu_c e)))))"
proof -
  have "\<not> (alu_opcode e \<noteq> DIVU \<and> alu_opcode e \<noteq> REMU \<and> alu_opcode e \<noteq> REM \<and> alu_opcode e \<noteq> DIV)" using assms(1) by auto
  then show ?thesis
    unfolding divrem_row_def divrem_image_def Let_def assms(2) prod.case get_msb_field sint_const_iff ext64_def mult_1 mult_1_right
    by (cases "is_signed_operation (alu_opcode e)") (simp_all only: if_True if_False simp_thms, simp_all add: from_bool_def)
qed

lemma word4_halves:
  "Word4 (from_canonical_u8 (u64_byte w 0)) (from_canonical_u8 (u64_byte w 1)) (from_canonical_u8 (u64_byte w 2)) (from_canonical_u8 (u64_byte w 3))
     = word_from (ucast w)"
  "Word4 (from_canonical_u8 (u64_byte w 4)) (from_canonical_u8 (u64_byte w 5)) (from_canonical_u8 (u64_byte w 6)) (from_canonical_u8 (u64_byte w 7))
     = word_from (ucast (drop_bit 32 w))"
  using le_bytes_halves [of 0 w] le_bytes_halves [of 1 w] le_bytes_halves [of 2 w] le_bytes_halves [of 3 w]
  by (simp_all add: word4_eq word_at_limbs)

text \<open>A row is accepted when it satisfies its assertions and its requests are answered.\<close>



text \<open>The requests of a division, as the events that the executor adds for them.\<close>

definition divrem_deps :: "bool \<Rightarrow> u32 \<Rightarrow> u32 \<Rightarrow> u32 \<Rightarrow> alu_event list" where
  "divrem_deps s c q m =
     (let abs = (\<lambda>x. if s then unsigned_abs x else x); p = ext64 s q * ext64 s c
      in [dep_event MUL (ucast p) q c, dep_event (if s then MULH else MULHU) (ucast (drop_bit 32 p)) q c] @
         (if s \<and> bit c 31 then [dep_event ADD 0 c (abs c)] else []) @ (if s \<and> bit m 31 then [dep_event ADD 0 m (abs m)] else []) @
         (if c \<noteq> 0 then [dep_event SLTU 1 (abs m) (max 1 (abs c))] else []))"

lemma divrem_deps_ok:
  assumes "div_ok s b c q m" "e \<in> set (divrem_deps s c q m)"
  shows "alu_ok e \<and> \<not> alu_op_a_0 e \<and> alu_opcode e \<in> {ADD, MUL, MULH, MULHU, SLTU}"
proof -
  have "c \<noteq> 0 \<longrightarrow> (if s then unsigned_abs m else m) < (if s then unsigned_abs c else c)"
    using assms(1) unfolding div_ok_def by argo
  then have "c \<noteq> 0 \<longrightarrow> (if s then unsigned_abs m else m) < max 1 (if s then unsigned_abs c else c)"
    by (metis less_le_trans max.cobounded2)
  then show ?thesis
    using assms(2) unfolding divrem_deps_def Let_def
    by (auto simp: alu_ok_dep add_unsigned_abs bit_31_sint ucast_mult64 signed_upper split: if_splits) (simp_all add: ext64_def)
qed

context prime_field32
begin

text \<open>The messages of the row are those of the events.\<close>

lemma divrem_image_requests:
  assumes "alu_opcode e \<in> {DIV, DIVU, REM, REMU}" "s = is_signed_operation (alu_opcode e)"
  shows "sends Instruction_kind (divrem_eval (divrem_image s e q m)) = map (\<lambda>e. (instruction_values (event_msg e), 1 :: 'f)) (divrem_deps s (alu_c e) q m)"
proof -
  have c: "word_from (alu_c e) = (word_zero :: 'f word4) \<longleftrightarrow> alu_c e = 0" using word_from_inject [of "alu_c e" 0] by simp
  have opc: "((from_bool (alu_opcode e = DIV) + from_bool (alu_opcode e = REM)) * opcode_field MULH
      + (from_bool (alu_opcode e = DIVU) + from_bool (alu_opcode e = REMU)) * opcode_field MULHU :: 'f) = opcode_field (if s then MULH else MULHU)"
    using assms by (auto simp: is_signed_operation_def from_bool_def)
  show ?thesis
    unfolding divrem_sends divrem_eval_mul_def divrem_eval_range_def divrem_eval_bytes_def divrem_deps_def divrem_image_def Let_def divrem_cols.simps
      opc word4_halves is_zero_word_result c
    by (simp add: send_instruction_def send_byte_def send_byte_pair_def assert_eq_def when_not_def air_when_def assert_bool_def event_msg_dep from_bool_def)
qed

lemma divrem_image_lookups:
  fixes e :: alu_event and s :: bool and q m :: u32
  defines "ls \<equiv> map msb_word_event [alu_b e, alu_c e, m] @ u8_range_checks (to_le_bytes q) @ u8_range_checks (to_le_bytes m)
      @ u8_range_checks (arr_list 8 (u64_byte (ext64 s q * ext64 s (alu_c e))))"
  shows "sends Byte_kind (divrem_eval (divrem_image s e q m :: 'f divrem_cols)) = requests ls"
  unfolding divrem_sends divrem_eval_mul_def divrem_eval_range_def divrem_eval_bytes_def divrem_image_def Let_def divrem_cols.simps sends_append
    requests_range_arr range_word ls_def
  by (simp add: send_instruction_def send_byte_def send_byte_pair_def assert_eq_def when_not_def air_when_def assert_bool_def msb_word_event_def get_msb_field)

text \<open>The blocks, one by one.\<close>

lemma divrem_image_signs: "s = (alu_opcode e = DIV \<or> alu_opcode e = REM) \<Longrightarrow> accepts L (divrem_eval_signs (divrem_image s e q m :: 'f divrem_cols))"
  by (auto simp: divrem_eval_signs_def divrem_image_def Let_def assert_eq_def from_bool_def)

lemma divrem_image_overflow:
  assumes "s = (alu_opcode e = DIV \<or> alu_opcode e = REM)"
  shows "accepts L (divrem_eval_overflow (divrem_image s e q m :: 'f divrem_cols))"
  using assms by (auto simp: divrem_eval_overflow_def divrem_image_def Let_def assert_eq_def is_equal_word_complete is_equal_word_result from_bool_def)

lemma divrem_image_plus:
  assumes "div_ok s (alu_b e) (alu_c e) q m" "i < 8"
  shows "divrem_plus_remainder (divrem_image s e q m :: 'f divrem_cols) i
    = from_canonical_u8 (ext_byte (s \<and> \<not> (alu_b e = 0x80000000 \<and> alu_c e = - 1)) (alu_b e) i)"
proof -
  let ?o = "alu_b e = 0x80000000 \<and> alu_c e = - 1"
  let ?p = "ext64 s q * ext64 s (alu_c e)"
  let ?d = "divrem_sum (u64_byte ?p) (u64_byte (ext64 s m))"
  have "u64_byte (?p + ext64 s m) i = u64_byte (ext64 (s \<and> \<not> ?o) (alu_b e)) i"
    using assms(1) unfolding div_ok_def ext64_def by (cases s; cases ?o) (simp_all only: simp_thms if_True if_False)
  then have "u64_byte (?p + ext64 s m) i = ext_byte (s \<and> \<not> ?o) (alu_b e) i"
    using u64_ext_byte [OF assms(2), of "s \<and> \<not> ?o" "alu_b e"] by (simp only: ext64_def)
  then have t: "(of_nat (?d i mod 256) :: 'f) = from_canonical_u8 (ext_byte (s \<and> \<not> ?o) (alu_b e) i)"
    unfolding divrem_sum_byte [OF assms(2)] from_canonical_u8_def by (simp only:)
  have "(if i < 4 then word_at (word_from m) i else from_bool (s \<and> bit m 31) * from_canonical_u8 0xff) = (from_canonical_u8 (u64_byte (ext64 s m) i) :: 'f)"
    unfolding ext64_def u64_ext_byte [OF assms(2)] by (auto simp: ext_byte_def word_at_from from_bool_def)
  moreover have "(of_nat (?d i mod 256 + 256 * (?d i div 256)) :: 'f)
      = of_nat (unat (u64_byte ?p i) + unat (u64_byte (ext64 s m) i) + (if i > 0 then ?d (i - 1) div 256 else 0))"
    by (simp only: divrem_sum_step)
  ultimately have "divrem_plus_remainder (divrem_image s e q m :: 'f divrem_cols) i = of_nat (?d i mod 256)"
    unfolding divrem_plus_remainder_def divrem_image_def Let_def divrem_cols.simps from_canonical_u8_def of_nat_add of_nat_mult
    by (cases "i > 0") (simp_all add: algebra_simps)
  then show ?thesis by (simp only: t)
qed

lemma divrem_image_add:
  assumes "div_ok s (alu_b e) (alu_c e) q m"
  shows "accepts L (divrem_eval_add (divrem_image s e q m :: 'f divrem_cols))"
proof -
  let ?r = "divrem_image s e q m :: 'f divrem_cols"
  have f: "dr_b ?r = word_from (alu_b e)" "dr_b_neg ?r = from_bool (s \<and> bit (alu_b e) 31)"
    "dr_is_overflow ?r = from_bool (s \<and> alu_b e = 0x80000000 \<and> alu_c e = - 1)"
    by (simp_all add: divrem_image_def Let_def)
  have "accepts L (if i < 4 then assert_eq (word_at (dr_b ?r) i) (divrem_plus_remainder ?r i)
       else (let not_overflow = 1 - dr_is_overflow ?r in
         air_when not_overflow (air_when (dr_b_neg ?r) (assert_eq (divrem_plus_remainder ?r i) (from_canonical_u8 0xff))) @
         air_when not_overflow (air_when (1 - dr_b_neg ?r) (assert_zero (divrem_plus_remainder ?r i))) @
         air_when (dr_is_overflow ?r) (assert_zero (divrem_plus_remainder ?r i))))" if "i < 8" for i
    unfolding divrem_image_plus [OF assms that] f ext_byte_def
    by (cases "i < 4"; cases "s \<and> alu_b e = 0x80000000 \<and> alu_c e = - 1"; cases "s \<and> bit (alu_b e) 31")
      (auto simp: Let_def air_when_def assert_eq_def assert_zero_def word_at_from)
  then show ?thesis unfolding divrem_eval_add_def accepts_concat by simp
qed

lemma divrem_image_result:
  assumes ok: "div_ok s (alu_b e) (alu_c e) q m" "alu_ok e" "x0_ok e" "alu_opcode e \<in> {DIV, DIVU, REM, REMU}"
    and s: "s = (alu_opcode e = DIV \<or> alu_opcode e = REM)" and z: "alu_c e = 0 \<Longrightarrow> q = - 1"
  shows "accepts L (divrem_eval_result (divrem_image s e q m :: 'f divrem_cols))" "accepts L (divrem_eval_zero (divrem_image s e q m :: 'f divrem_cols))"
proof -
  have a: "alu_a e = (if alu_opcode e = DIV \<or> alu_opcode e = DIVU then q else m)" if "\<not> alu_op_a_0 e"
    using that div_ok_alu_value [OF ok(1)] ok(2-4) z unfolding s by (auto simp: alu_ok_def split: if_splits)
  show "accepts L (divrem_eval_result (divrem_image s e q m :: 'f divrem_cols))"
    using ok(4) by (cases "alu_op_a_0 e") (auto simp: divrem_eval_result_def divrem_image_def Let_def a air_when_def assert_eq_def from_bool_def)
  have "le_bytes (- 1) = Word4 0xff 0xff 0xff 0xff" by code_simp
  then have ff: "word_at (word_from (- 1)) i = (from_canonical_u8 0xff :: 'f)" if "i < 4" for i
    using less_4_cases [OF that] by (auto simp: word_at_limbs)
  have "word_from (alu_c e) = (word_zero :: 'f word4) \<longleftrightarrow> alu_c e = 0" using word_from_inject [of "alu_c e" 0] by simp
  then show "accepts L (divrem_eval_zero (divrem_image s e q m :: 'f divrem_cols))"
    using z by (auto simp: divrem_eval_zero_def divrem_image_def Let_def air_when_def assert_eq_def is_zero_word_complete is_zero_word_result ff from_bool_def)
qed

lemma divrem_image_sign_match:
  assumes "div_ok s (alu_b e) (alu_c e) q m"
  shows "accepts L (divrem_eval_sign_match (divrem_image s e q m :: 'f divrem_cols))"
  using assms by (auto simp: divrem_eval_sign_match_def divrem_image_def Let_def air_when_def assert_one_def assert_zero_def sum_limbs_0 div_ok_def
      bit_31_sint from_bool_def)

lemma divrem_image_mul_range:
  fixes e :: alu_event and s :: bool and q m :: u32
  defines "r \<equiv> divrem_image s e q m :: 'f divrem_cols"
  assumes ok: "div_ok s (alu_b e) (alu_c e) q m" and opc: "alu_opcode e \<in> {DIV, DIVU, REM, REMU}" "s = is_signed_operation (alu_opcode e)"
    and asserts: "asserts (divrem_eval_range r)"
  shows "accepts (alu_lookups {ADD, MUL, MULH, MULHU, SLTU}) (divrem_eval_mul r @ divrem_eval_range r)"
  unfolding accepts_iff
proof (intro conjI allI ballI)
  show "asserts (divrem_eval_mul r @ divrem_eval_range r)"
    using asserts by (simp add: asserts_def divrem_eval_mul_def Let_def send_instruction_def)
  fix k x
  assume x: "x \<in> set (sends k (divrem_eval_mul r @ divrem_eval_range r))"
  then have k: "k = Instruction_kind"
    by (auto simp: divrem_eval_mul_def divrem_eval_range_def Let_def send_instruction_def assert_eq_def when_not_def air_when_def split: if_splits)
  have "x \<in> set (sends Instruction_kind (divrem_eval r))" using x unfolding k divrem_sends by auto
  then obtain d where "d \<in> set (divrem_deps s (alu_c e) q m)" "fst x = instruction_values (event_msg d)"
    unfolding r_def divrem_image_requests [OF opc] by auto
  then show "alu_lookups {ADD, MUL, MULH, MULHU, SLTU} k (fst x)"
    using divrem_deps_ok [OF ok] alu_lookups_event unfolding k by metis
qed

lemma word_at_max:
  "i < 4 \<Longrightarrow> word_at (word_from (max 1 x)) i = (if x = 0 then if i = 0 then 1 else 0 else word_at (word_from x) i :: 'f)"
proof (cases "x = 0")
  case False
  then have "unat x \<noteq> 0" by (simp add: unat_eq_0)
  then have "max 1 x = x" by (simp add: max_def word_le_nat_alt)
  then show ?thesis using False by simp
qed (auto dest!: less_4_cases simp: word_at_limbs)

lemma divrem_image_range: "asserts (divrem_eval_range (divrem_image s e q m :: 'f divrem_cols))"
proof -
  have abs: "\<not> (s \<and> bit x 31) \<Longrightarrow> (if s then unsigned_abs x else x) = x" for x
    by (cases s) (simp_all add: unsigned_abs_def bit_31_sint)
  have abs0: "(if s then unsigned_abs x else x) = 0 \<longleftrightarrow> x = 0" for x
  proof -
    have "unsigned_abs x = 0 \<longleftrightarrow> uint (unsigned_abs x) = 0" by (rule uint_0_iff32 [symmetric])
    also have "\<dots> \<longleftrightarrow> x = 0" unfolding uint_unsigned_abs abs_eq_0_iff by (rule sint_0_iff32)
    finally show ?thesis by (cases s) simp_all
  qed
  have c: "word_from (alu_c e) = (word_zero :: 'f word4) \<longleftrightarrow> alu_c e = 0" using word_from_inject [of "alu_c e" 0] by simp
  have neg: "(from_bool (s \<and> bit x 31) - 1) * (word_at (word_from x) i - word_at (word_from (if s then unsigned_abs x else x)) i) = (0 :: 'f)" for x i
    using abs [of x] by (cases "s \<and> bit x 31") simp_all
  show ?thesis
    unfolding asserts_def divrem_eval_range_def Let_def divrem_image_def divrem_cols.simps accepts_simps accepts_concat is_zero_word_result c
    using neg by (intro conjI) (simp_all add: send_instruction_def assert_eq_def when_not_def air_when_def word_at_max abs0 from_bool_def del: mult_eq_0_iff)
qed

lemma divrem_image_bytes: "accepts (alu_lookups D) (divrem_eval_bytes (divrem_image s e q m :: 'f divrem_cols))"
proof -
  have "(of_nat (divrem_sum p d i div 256) :: 'f) = 0 \<or> (of_nat (divrem_sum p d i div 256) :: 'f) = 1" for p d i
    using divrem_sum_carry [of p d i] by (cases "divrem_sum p d i div 256 = 0") (auto simp: le_Suc_eq)
  then show ?thesis
    using byte_lookups_alu [OF requests_range_arr(2), of D] byte_lookups_alu [OF range_word(3), of D]
    unfolding divrem_eval_bytes_def divrem_image_def Let_def divrem_cols.simps accepts_simps accepts_concat
    by (simp add: send_byte_def send_byte_pair_def alu_lookups_def msb_ext assert_bool_def)
qed

lemma divrem_image_flags:
  "accepts L (divrem_eval_flags (divrem_image s e q m :: 'f divrem_cols))"
  by (simp add: divrem_eval_flags_def divrem_image_def Let_def assert_bool_def from_bool_def)

lemma divrem_complete:
  assumes ok: "alu_ok e" "x0_ok e" "alu_opcode e \<in> {DIV, DIVU, REM, REMU}"
  shows "\<exists>r ls. divrem_row e = Inr (r :: 'f divrem_cols, ls) \<and> accepts (alu_lookups {ADD, MUL, MULH, MULHU, SLTU}) (divrem_eval r)
    \<and> mset (sends Byte_kind (divrem_eval r)) = mset (requests ls)
    \<and> receives Instruction_kind (divrem_eval r) = [(instruction_values (event_msg e), 1)]"
proof -
  let ?s = "is_signed_operation (alu_opcode e)"
  obtain q m where qm: "get_quotient_and_remainder (alu_b e) (alu_c e) (alu_opcode e) = (q, m)" by (metis prod.exhaust)
  let ?r = "divrem_image ?s e q m :: 'f divrem_cols"
  note div = div_ok_complete [OF qm]
  have s: "?s = (alu_opcode e = DIV \<or> alu_opcode e = REM)" by (simp add: is_signed_operation_def)
  have z: "q = - 1" if "alu_c e = 0" using qm that by (simp add: get_quotient_and_remainder_def)
  have "accepts L (divrem_eval_receive ?r)" for L
    using ok by (auto simp: divrem_eval_receive_def divrem_image_def Let_def assert_eq_def assert_one_def air_when_def receive_instruction_def from_bool_def)
  then have acc: "accepts (alu_lookups {ADD, MUL, MULH, MULHU, SLTU}) (divrem_eval ?r)"
    using divrem_image_mul_range [OF div ok(3) refl divrem_image_range] unfolding divrem_eval_def accepts_simps
    by (intro conjI divrem_image_signs [OF s] divrem_image_overflow [OF s] divrem_image_add [OF div] divrem_image_result [OF div ok s z]
        divrem_image_sign_match [OF div] divrem_image_bytes divrem_image_flags) simp_all
  have "receives Instruction_kind (divrem_eval ?r) = [(instruction_values (event_msg e), 1)]"
    unfolding divrem_receives using ok by (auto simp: divrem_image_def Let_def event_msg_def from_bool_def)
  then show ?thesis
    by (intro exI conjI) (rule divrem_row_eq [OF ok(3) qm], rule acc, simp only: divrem_image_lookups)
qed

end

lemma divrem_no_bytes: "receives Byte_kind (divrem_eval r) = []"
  by (simp add: divrem_eval_def divrem_eval_receive_def air)

lemma zero_word_idle: "accepts L (is_equal_word_eval a b zero_word_operation 0)"
  by (simp add: is_equal_word_eval_def is_zero_word_eval_def zero_word_operation_def is_zero_eval_def air upt_small Let_def)

lemma divrem_idle: "accepts L (divrem_eval (divrem_padding :: 'f::field divrem_cols))" "receives k (divrem_eval (divrem_padding :: 'f::field divrem_cols)) = []"
proof -
  have one: "word_from 1 = (Word4 1 0 0 0 :: 'f word4)" by (simp add: word_from_def word_of_bytes_def le_bytes_def)
  have r: "izw_result (is_zero_word_populate (Word4 1 0 0 0 :: 'f word4)) = 0" by (simp add: is_zero_word_result word_zero_def)
  show "accepts L (divrem_eval (divrem_padding :: 'f divrem_cols))"
    unfolding divrem_eval_def accepts_simps
    by (intro conjI) (simp_all add: divrem_eval_signs_def divrem_eval_overflow_def divrem_eval_add_def divrem_eval_result_def divrem_eval_sign_match_def
      divrem_eval_zero_def divrem_eval_flags_def divrem_eval_mul_def divrem_eval_range_def divrem_eval_bytes_def divrem_eval_receive_def
      divrem_padding_def one Let_def air when_not_def zero_word_idle is_zero_word_complete r divrem_plus_remainder_def word_zero_def upt_small word_at_limbs)
  show "receives k (divrem_eval (divrem_padding :: 'f divrem_cols)) = []"
    by (simp add: divrem_eval_def divrem_eval_receive_def divrem_padding_def air)
qed

definition divrem_emits :: "alu_event \<Rightarrow> alu_event list" where
  "divrem_emits e = (case get_quotient_and_remainder (alu_b e) (alu_c e) (alu_opcode e) of
     (q, m) \<Rightarrow> divrem_deps (is_signed_operation (alu_opcode e)) (alu_c e) q m)"

lemma divrem_emits_sends:
  assumes "alu_opcode e \<in> {DIV, DIVU, REM, REMU}" "divrem_row e = Inr (r :: bb divrem_cols, ls)"
  shows "mset (sends Instruction_kind (divrem_eval r)) = mset (map (\<lambda>d. (instruction_values (event_msg d), 1)) (divrem_emits e))"
proof -
  obtain q m where qm: "get_quotient_and_remainder (alu_b e) (alu_c e) (alu_opcode e) = (q, m)" by (metis prod.exhaust)
  show ?thesis using assms(2) unfolding divrem_row_eq [OF assms(1) qm]
    by (auto simp only: sum.inject prod.inject bb.divrem_image_requests [OF assms(1) refl] divrem_emits_def qm prod.case)
qed

interpretation divrem: alu_chip "\<lambda>x. nat (rep_bb x)" "divrem_eval :: bb divrem_cols \<Rightarrow> _" divrem_row divrem_padding "{DIV, DIVU, REM, REMU}" "{ADD, MUL, MULH, MULHU, SLTU}" divrem_emits
  by unfold_locales
    (rule divrem_no_bytes divrem_idle | erule (1) bb.divrem_requested |
     erule (1) divrem_emits_sends | erule (1) bb.divrem_received | erule (1) bb.divrem_sent | erule (1) bb.divrem_sound | erule (2) bb.divrem_complete)+

section \<open>The events of the executor\<close>

definition divrem_emitted :: "executor \<Rightarrow> alu_event \<Rightarrow> alu_event list" where
  "divrem_emitted s e = new_events (exec_record s) (exec_record (emit_divrem_dependencies e s))"

lemma divrem_new_events: "mset (divrem_emitted s e) = mset (divrem_emits e)"
proof -
  obtain q m where qm: "get_quotient_and_remainder (alu_b e) (alu_c e) (alu_opcode e) = (q, m)" by (metis prod.exhaust)
  show ?thesis unfolding divrem_emitted_def divrem_emits_def emit_divrem_dependencies_def qm prod.case Let_def divrem_deps_def new_events_def
    by (simp add: push_add_def push_mul_def push_lt_def ext64_def get_msb_1 bit_31_sint)
qed

text \<open>
  (C32) The instructions that the row of a division requests from the tables of ADD, MUL and SLTU are
  exactly those of the events that the executor adds to the record for the division.
\<close>

theorem divrem_requests_emitted:
  assumes "alu_opcode e \<in> {DIV, DIVU, REM, REMU}"
  shows "\<exists>r ls. divrem_row e = Inr (r :: bb divrem_cols, ls)
    \<and> mset (sends Instruction_kind (divrem_eval r))
      = mset (map (\<lambda>d. (instruction_values (event_msg d), 1)) (new_events (exec_record s) (exec_record (emit_divrem_dependencies e s))))"
proof -
  obtain q m where qm: "get_quotient_and_remainder (alu_b e) (alu_c e) (alu_opcode e) = (q, m)" by (metis prod.exhaust)
  obtain r ls where r: "divrem_row e = Inr (r :: bb divrem_cols, ls)" using divrem_row_eq [OF assms qm] by blast
  then show ?thesis using divrem_emits_sends [OF assms r] divrem_new_events [of s e, unfolded divrem_emitted_def] by (auto simp: mset_map)
qed

theorem divrem_requests_emitted_witness:
  "\<exists>r ls. divrem_row (dep_event REM 0 0x80000000 0xFFFFFFFF) = Inr (r :: bb divrem_cols, ls)
    \<and> mset (sends Instruction_kind (divrem_eval r))
      = mset (map (\<lambda>d. (instruction_values (event_msg d), 1)) (new_events (exec_record (with_context 48 Map.empty program_default 0 0 None True))
          (exec_record (emit_divrem_dependencies (dep_event REM 0 0x80000000 0xFFFFFFFF) (with_context 48 Map.empty program_default 0 0 None True)))))"
  by (rule divrem_requests_emitted) simp

end
