(* ===== verification/SP1_Alu_Machine.thy ===== *)
theory SP1_Alu_Machine
  imports SP1_Chip_Add_Sub SP1_Chip_Bitwise SP1_Chip_Lt SP1_Chip_Sr SP1_Chip_Divrem
begin

text \<open>
  The ALU tables of a shard together: \<open>crates/core/machine/src/riscv/mod.rs\<close> (the chips and their
  order), \<open>StarkMachine::generate_dependencies\<close> and the traces the prover generates.
\<close>

section \<open>The tables\<close>

record alu_shard =
  sh_divrem :: "bb divrem_cols list"
  sh_add_sub :: "bb add_sub_cols list"
  sh_bitwise :: "bb bitwise_cols list"
  sh_mul :: "bb mul_cols list"
  sh_shift_right :: "bb shift_right_cols list"
  sh_shift_left :: "bb shift_left_cols list"
  sh_lt :: "bb lt_cols list"

text \<open>
  \<open>MachineProver::generate_traces\<close>: only the chips that are part of the shard have a trace.  A shape of
  the record, if it has one, is given by its chips (\<open>in_shape\<close>) and their sizes (\<open>log2_rows\<close>,
  \<open>fixed_log2_rows\<close>), by the name of the chip.
\<close>

definition alu_generate_traces :: "(string \<Rightarrow> bool option) \<Rightarrow> (string \<Rightarrow> nat option) \<Rightarrow> execution_record \<Rightarrow> alu_shard res" where
  "alu_generate_traces in_shape log2_rows input =
     rbind (shard_trace (divrem_included (in_shape ''DivRem'') input) (divrem_generate_trace (log2_rows ''DivRem'') input)) (\<lambda>divrem.
     rbind (shard_trace (add_sub_included (in_shape ''AddSub'') input) (add_sub_generate_trace (log2_rows ''AddSub'') input)) (\<lambda>add_sub.
     rbind (shard_trace (bitwise_included (in_shape ''Bitwise'') input) (bitwise_generate_trace (log2_rows ''Bitwise'') input)) (\<lambda>bitwise.
     rbind (shard_trace (mul_included (in_shape ''Mul'') input) (mul_generate_trace (log2_rows ''Mul'') input)) (\<lambda>mul.
     rbind (shard_trace (shift_right_included (in_shape ''ShiftRight'') input) (shift_right_generate_trace (log2_rows ''ShiftRight'') input)) (\<lambda>shift_right.
     rbind (shard_trace (shift_left_included (in_shape ''ShiftLeft'') input) (shift_left_generate_trace (log2_rows ''ShiftLeft'') input)) (\<lambda>shift_left.
     rbind (shard_trace (lt_included (in_shape ''Lt'') input) (lt_generate_trace (log2_rows ''Lt'') input)) (\<lambda>lt.
     Inr \<lparr>sh_divrem = divrem, sh_add_sub = add_sub, sh_bitwise = bitwise, sh_mul = mul,
       sh_shift_right = shift_right, sh_shift_left = shift_left, sh_lt = lt\<rparr>)))))))"

definition alu_generate_dependencies :: "nat \<Rightarrow> (string \<Rightarrow> nat option) \<Rightarrow> execution_record \<Rightarrow> byte_lookups \<Rightarrow> byte_lookups res" where
  "alu_generate_dependencies num_cpus log2_rows input =
     chip_dependencies [divrem_generate_dependencies (log2_rows ''DivRem'') input, add_sub_generate_dependencies num_cpus input,
       bitwise_generate_dependencies num_cpus input, mul_generate_dependencies num_cpus input,
       shift_right_generate_dependencies num_cpus input, shift_left_generate_dependencies num_cpus input,
       lt_generate_dependencies num_cpus input]"

text \<open>The constraints and messages of the tables: those that request nothing, and division.\<close>

definition simple_actions :: "alu_shard \<Rightarrow> bb action list" where
  "simple_actions t = concat (map add_sub_eval (sh_add_sub t)) @ concat (map bitwise_eval (sh_bitwise t)) @
     concat (map mul_eval (sh_mul t)) @ concat (map shift_right_eval (sh_shift_right t)) @
     concat (map shift_left_eval (sh_shift_left t)) @ concat (map lt_eval (sh_lt t))"

definition divrem_actions :: "alu_shard \<Rightarrow> bb action list" where
  "divrem_actions t = concat (map divrem_eval (sh_divrem t))"

text \<open>The byte table with the multiplicities of its main trace, and all messages of a shard with those of a client.\<close>

definition byte_actions :: "(u8 \<times> u8 \<Rightarrow> byte_opcode \<Rightarrow> bb) \<Rightarrow> bb action list" where
  "byte_actions ms = concat (map (\<lambda>(b, c). byte_eval (byte_trace_row b c) (ms (b, c)))
     (List.product (map of_nat [0..<256]) (map of_nat [0..<256])))"

definition shard_messages :: "alu_shard \<Rightarrow> (u8 \<times> u8 \<Rightarrow> byte_opcode \<Rightarrow> bb) \<Rightarrow> bb action list \<Rightarrow> bb action list" where
  "shard_messages t ms cs = messages (simple_actions t) (divrem_actions t) (byte_actions ms) cs"

definition few_messages :: "bb action list \<Rightarrow> bool" where
  "few_messages as \<longleftrightarrow> length (sends Byte_kind as) < ORDER \<and> length (sends Instruction_kind as) < ORDER
     \<and> length (receives Instruction_kind as) < ORDER"

abbreviation "divrem_opcodes \<equiv> {DIV, DIVU, REM, REMU}"

abbreviation "other_opcodes \<equiv> {XOR_op, OR_op, AND_op} \<union> ({MUL, MULH, MULHU, MULHSU} \<union> ({SRL, SRA} \<union> ({SLL} \<union> {SLT, SLTU})))"

abbreviation "simple_opcodes \<equiv> {ADD, SUB} \<union> other_opcodes"

abbreviation "alu_opcodes \<equiv> simple_opcodes \<union> divrem_opcodes"

section \<open>Soundness\<close>

lemma lawful_alu_mono: "lawful (alu_right o1) used as \<Longrightarrow> o1 \<subseteq> o2 \<Longrightarrow> lawful (alu_right o2) used as"
  by (erule lawful_mono) (erule (1) alu_right_mono)

definition other_actions :: "alu_shard \<Rightarrow> bb action list" where
  "other_actions t = concat (map bitwise_eval (sh_bitwise t)) @ concat (map mul_eval (sh_mul t)) @ concat (map shift_right_eval (sh_shift_right t)) @
     concat (map shift_left_eval (sh_shift_left t)) @ concat (map lt_eval (sh_lt t))"

lemma simple_actions_other: "simple_actions t = concat (map add_sub_eval (sh_add_sub t)) @ other_actions t"
  by (simp add: simple_actions_def other_actions_def)

lemma other_lawful:
  assumes "asserts (other_actions t)"
  shows "lawful (alu_right other_opcodes) {} (other_actions t)"
proof -
  have a: "asserts (concat (map bitwise_eval (sh_bitwise t)))"
    "asserts (concat (map mul_eval (sh_mul t)))" "asserts (concat (map shift_right_eval (sh_shift_right t)))"
    "asserts (concat (map shift_left_eval (sh_shift_left t)))" "asserts (concat (map lt_eval (sh_lt t)))"
    using assms by (simp_all add: other_actions_def asserts_def)
  note l = bitwise.table.rows_lawful [OF a(1)] mul.table.rows_lawful [OF a(2)] shift_right.table.rows_lawful [OF a(3)]
    shift_left.table.rows_lawful [OF a(4)] lt.table.rows_lawful [OF a(5)]
  show ?thesis unfolding other_actions_def by (intro lawful_append l [THEN lawful_alu_mono]) auto
qed

lemma simple_lawful:
  assumes "asserts (simple_actions t)"
  shows "lawful (alu_right simple_opcodes) {} (simple_actions t)"
proof -
  have a: "asserts (concat (map add_sub_eval (sh_add_sub t)))" "asserts (other_actions t)"
    using assms by (simp_all add: simple_actions_other asserts_def)
  show ?thesis unfolding simple_actions_other
    by (intro lawful_append add_sub.table.rows_lawful [OF a(1), THEN lawful_alu_mono] other_lawful [OF a(2), THEN lawful_alu_mono]) auto
qed

lemma divrem_lawful: "asserts (divrem_actions t) \<Longrightarrow> lawful (alu_right divrem_opcodes) {ADD, MUL, MULH, MULHU, SLTU} (divrem_actions t)"
  unfolding divrem_actions_def by (rule divrem.table.rows_lawful)

lemma divrem_rows_answered:
  assumes "asserts (divrem_actions t)" "(vs, m) \<in> set (receives Instruction_kind (divrem_actions t))"
  shows "opcode_in divrem_opcodes vs"
proof -
  obtain r where "r \<in> set (sh_divrem t)" "(vs, m) \<in> set (receives Instruction_kind (divrem_eval r))"
    using assms(2) by (auto simp: divrem_actions_def)
  moreover from this(1) have "asserts (divrem_eval r)" using assms(1) by (simp add: divrem_actions_def asserts_def)
  ultimately have "\<exists>opc\<in>divrem_opcodes. \<exists>p a b c z. vs = instruction_values (alu_msg p (opcode_field opc) a b c z)" by (metis bb.divrem_answered)
  then show ?thesis unfolding opcode_in_def by (metis alu_msg_sel(1) imageI)
qed

lemma byte_actions_ok: "byte_table_ok (byte_actions ms)"
  using byte_table_ok_eval [of "map (\<lambda>(b, c). ((b, c), ms (b, c))) (List.product (map of_nat [0..<256]) (map of_nat [0..<256]))"]
  unfolding byte_actions_def by (simp add: comp_def case_prod_unfold)

lemma shard_machine:
  assumes "asserts (simple_actions t)" "asserts (divrem_actions t)" "client_ok alu_opcodes cs"
    and "balanced {Byte_kind, Instruction_kind} (shard_messages t ms cs)" "few_messages (shard_messages t ms cs)"
  shows "alu_machine simple_opcodes divrem_opcodes (alu_right divrem_opcodes) {ADD, MUL, MULH, MULHU, SLTU} (simple_actions t) (divrem_actions t) (byte_actions ms) cs"
  unfolding alu_machine_def using simple_lawful [OF assms(1)] divrem_lawful [OF assms(2)] divrem_rows_answered [OF assms(2)] assms(3-5) byte_actions_ok
  by (intro conjI ballI) (auto simp: shard_messages_def few_messages_def simp del: messages_sel)

text \<open>
  (C4) For ALU tables whose rows satisfy their constraints, in a shard whose byte lookups and
  instructions balance and are fewer than the order of the field: every ALU instruction that the
  rest of the machine sends goes on to the next instruction, and if its destination is not
  register 0 and its operands are words, its result is the one the executor computes.
\<close>

theorem alu_tables_sound:
  assumes "asserts (simple_actions t)" "asserts (divrem_actions t)" "client_ok alu_opcodes cs"
    and "balanced {Byte_kind, Instruction_kind} (shard_messages t ms cs)" "few_messages (shard_messages t ms cs)"
    and "(instruction_values i, m) \<in> set (sends Instruction_kind cs)" "im_opcode i = opcode_field opc" "opc \<in> alu_opcodes"
  shows "i = alu_msg (im_pc i) (opcode_field opc) (im_a i) (im_b i) (im_c i) (im_op_a_0 i)
    \<and> (im_op_a_0 i = 0 \<and> im_b i = word_from x \<and> im_c i = word_from y \<longrightarrow> (\<exists>v. alu_value opc x y = Inr v \<and> im_a i = word_from v))"
proof -
  have "alu_answer opc (instruction_values i)"
    using bb.machine_sound [OF shard_machine [OF assms(1-5)] assms(6,7)] bb.alu_right_opcode [OF _ assms(7)] assms(8) by blast
  then obtain p a b c z where i: "i = alu_msg p (opcode_field opc) a b c z"
    and v: "z = 0 \<and> b = word_from x \<and> c = word_from y \<longrightarrow> (\<exists>v. alu_value opc x y = Inr v \<and> a = word_from v)"
    unfolding alu_answer_def instruction_values_inject by blast
  show ?thesis using v unfolding i by (simp add: alu_msg_def)
qed

section \<open>Completeness\<close>

text \<open>
  The events of a record are valid and in the right table, and none is an addition or subtraction
  with destination register 0, or a comparison that is true with that destination (\<open>x0_ok\<close>).
\<close>

definition alu_events_ok :: "execution_record \<Rightarrow> bool" where
  "alu_events_ok r \<longleftrightarrow> (\<forall>e\<in>set (alu_tables r). alu_ok e \<and> x0_ok e)
     \<and> (\<forall>e\<in>set (add_events r @ sub_events r). alu_opcode e \<in> {ADD, SUB})
     \<and> (\<forall>e\<in>set (bitwise_events r). alu_opcode e \<in> {XOR_op, OR_op, AND_op})
     \<and> (\<forall>e\<in>set (mul_events r). alu_opcode e \<in> {MUL, MULH, MULHU, MULHSU})
     \<and> (\<forall>e\<in>set (shift_right_events r). alu_opcode e \<in> {SRL, SRA})
     \<and> (\<forall>e\<in>set (shift_left_events r). alu_opcode e \<in> {SLL})
     \<and> (\<forall>e\<in>set (lt_events r). alu_opcode e \<in> {SLT, SLTU})
     \<and> (\<forall>e\<in>set (divrem_events r). alu_opcode e \<in> {DIV, DIVU, REM, REMU})"

definition tables_fit :: "(string \<Rightarrow> bool option) \<Rightarrow> (string \<Rightarrow> nat option) \<Rightarrow> execution_record \<Rightarrow> bool" where
  "tables_fit in_shape log2_rows r \<longleftrightarrow> table_fits (divrem_included (in_shape ''DivRem'') r) (log2_rows ''DivRem'') (divrem_events r)
     \<and> table_fits (add_sub_included (in_shape ''AddSub'') r) (log2_rows ''AddSub'') (add_events r @ sub_events r)
     \<and> table_fits (bitwise_included (in_shape ''Bitwise'') r) (log2_rows ''Bitwise'') (bitwise_events r)
     \<and> table_fits (mul_included (in_shape ''Mul'') r) (log2_rows ''Mul'') (mul_events r)
     \<and> table_fits (shift_right_included (in_shape ''ShiftRight'') r) (log2_rows ''ShiftRight'') (shift_right_events r)
     \<and> table_fits (shift_left_included (in_shape ''ShiftLeft'') r) (log2_rows ''ShiftLeft'') (shift_left_events r)
     \<and> table_fits (lt_included (in_shape ''Lt'') r) (log2_rows ''Lt'') (lt_events r)"

lemmas included_defs = included_def divrem_included_def add_sub_included_def bitwise_included_def mul_included_def
  shift_right_included_def shift_left_included_def lt_included_def

lemmas generate_trace_defs = divrem_generate_trace_def add_sub_generate_trace_def bitwise_generate_trace_def mul_generate_trace_def
  shift_right_generate_trace_def shift_left_generate_trace_def lt_generate_trace_def

definition simple_events :: "execution_record \<Rightarrow> alu_event list" where
  "simple_events r = (add_events r @ sub_events r) @ bitwise_events r @ mul_events r @ shift_right_events r @ shift_left_events r @ lt_events r"

lemma eventsD:
  assumes "alu_events_ok r"
  shows "e \<in> set (add_events r @ sub_events r) \<Longrightarrow> alu_event_ok {ADD, SUB} e"
    "e \<in> set (bitwise_events r) \<Longrightarrow> alu_event_ok {XOR_op, OR_op, AND_op} e"
    "e \<in> set (mul_events r) \<Longrightarrow> alu_event_ok {MUL, MULH, MULHU, MULHSU} e"
    "e \<in> set (shift_right_events r) \<Longrightarrow> alu_event_ok {SRL, SRA} e"
    "e \<in> set (shift_left_events r) \<Longrightarrow> alu_event_ok {SLL} e"
    "e \<in> set (lt_events r) \<Longrightarrow> alu_event_ok {SLT, SLTU} e"
    "e \<in> set (divrem_events r) \<Longrightarrow> alu_event_ok {DIV, DIVU, REM, REMU} e"
proof -
  have a: "e \<in> set (alu_tables r) \<Longrightarrow> alu_ok e \<and> x0_ok e" using assms unfolding alu_events_ok_def by blast
  show "e \<in> set (add_events r @ sub_events r) \<Longrightarrow> alu_event_ok {ADD, SUB} e"
    using a assms by (auto simp: alu_event_ok_def alu_tables_def alu_events_ok_def)
  show "e \<in> set (bitwise_events r) \<Longrightarrow> alu_event_ok {XOR_op, OR_op, AND_op} e"
    using a assms by (auto simp: alu_event_ok_def alu_tables_def alu_events_ok_def)
  show "e \<in> set (mul_events r) \<Longrightarrow> alu_event_ok {MUL, MULH, MULHU, MULHSU} e"
    using a assms by (auto simp: alu_event_ok_def alu_tables_def alu_events_ok_def)
  show "e \<in> set (shift_right_events r) \<Longrightarrow> alu_event_ok {SRL, SRA} e"
    using a assms by (auto simp: alu_event_ok_def alu_tables_def alu_events_ok_def)
  show "e \<in> set (shift_left_events r) \<Longrightarrow> alu_event_ok {SLL} e"
    using a assms by (auto simp: alu_event_ok_def alu_tables_def alu_events_ok_def)
  show "e \<in> set (lt_events r) \<Longrightarrow> alu_event_ok {SLT, SLTU} e"
    using a assms by (auto simp: alu_event_ok_def alu_tables_def alu_events_ok_def)
  show "e \<in> set (divrem_events r) \<Longrightarrow> alu_event_ok {DIV, DIVU, REM, REMU} e"
    using a assms by (auto simp: alu_event_ok_def alu_tables_def alu_events_ok_def)
qed

text \<open>Every table is generated and complete.\<close>

lemmas generate_dependencies_defs = divrem_generate_dependencies_def add_sub_generate_dependencies_def bitwise_generate_dependencies_def
  mul_generate_dependencies_def shift_right_generate_dependencies_def shift_left_generate_dependencies_def lt_generate_dependencies_def

lemma no_emits: "concat (map (\<lambda>_. []) es) = []"
  by simp

lemma shard_tables:
  assumes ok: "alu_events_ok r" and fit: "tables_fit in_shape log2_rows r"
  shows "\<exists>rows ls. complete_table {} (map event_msg (add_events r @ sub_events r)) [] (add_sub_eval :: bb add_sub_cols \<Rightarrow> _)
      (shard_trace (add_sub_included (in_shape ''AddSub'') r) (add_sub_generate_trace (log2_rows ''AddSub'') r)) (add_sub_generate_dependencies n r Map.empty) rows ls"
    "\<exists>rows ls. complete_table {} (map event_msg (bitwise_events r)) [] (bitwise_eval :: bb bitwise_cols \<Rightarrow> _)
      (shard_trace (bitwise_included (in_shape ''Bitwise'') r) (bitwise_generate_trace (log2_rows ''Bitwise'') r)) (bitwise_generate_dependencies n r Map.empty) rows ls"
    "\<exists>rows ls. complete_table {} (map event_msg (mul_events r)) [] (mul_eval :: bb mul_cols \<Rightarrow> _)
      (shard_trace (mul_included (in_shape ''Mul'') r) (mul_generate_trace (log2_rows ''Mul'') r)) (mul_generate_dependencies n r Map.empty) rows ls"
    "\<exists>rows ls. complete_table {} (map event_msg (shift_right_events r)) [] (shift_right_eval :: bb shift_right_cols \<Rightarrow> _)
      (shard_trace (shift_right_included (in_shape ''ShiftRight'') r) (shift_right_generate_trace (log2_rows ''ShiftRight'') r)) (shift_right_generate_dependencies n r Map.empty) rows ls"
    "\<exists>rows ls. complete_table {} (map event_msg (shift_left_events r)) [] (shift_left_eval :: bb shift_left_cols \<Rightarrow> _)
      (shard_trace (shift_left_included (in_shape ''ShiftLeft'') r) (shift_left_generate_trace (log2_rows ''ShiftLeft'') r)) (shift_left_generate_dependencies n r Map.empty) rows ls"
    "\<exists>rows ls. complete_table {} (map event_msg (lt_events r)) [] (lt_eval :: bb lt_cols \<Rightarrow> _)
      (shard_trace (lt_included (in_shape ''Lt'') r) (lt_generate_trace (log2_rows ''Lt'') r)) (lt_generate_dependencies n r Map.empty) rows ls"
    "\<exists>rows ls. complete_table {ADD, MUL, MULH, MULHU, SLTU} (map event_msg (divrem_events r)) (concat (map divrem_emits (divrem_events r))) (divrem_eval :: bb divrem_cols \<Rightarrow> _)
      (shard_trace (divrem_included (in_shape ''DivRem'') r) (divrem_generate_trace (log2_rows ''DivRem'') r)) (divrem_generate_dependencies (log2_rows ''DivRem'') r Map.empty) rows ls"
  unfolding generate_trace_defs generate_dependencies_defs
  subgoal unfolding Let_def
    by (rule add_sub.table.table_complete [OF eventsD(1) [OF ok] _ batch_records, unfolded no_emits])
      (use fit in \<open>simp_all add: tables_fit_def concat_chunks\<close>)
  subgoal by (rule bitwise.table.table_complete [OF eventsD(2) [OF ok] _ generate_records, unfolded no_emits]) (use fit in \<open>simp_all add: tables_fit_def\<close>)
  subgoal by (rule mul.table.table_complete [OF eventsD(3) [OF ok] _ generate_records, unfolded no_emits]) (use fit in \<open>simp_all add: tables_fit_def\<close>)
  subgoal by (rule shift_right.table.table_complete [OF eventsD(4) [OF ok] _ generate_records, unfolded no_emits]) (use fit in \<open>simp_all add: tables_fit_def\<close>)
  subgoal by (rule shift_left.table.table_complete [OF eventsD(5) [OF ok] _ generate_records, unfolded no_emits]) (use fit in \<open>simp_all add: tables_fit_def\<close>)
  subgoal by (rule lt.table.table_complete [OF eventsD(6) [OF ok] _ generate_records, unfolded no_emits]) (use fit in \<open>simp_all add: tables_fit_def\<close>)
  subgoal by (rule divrem.table.table_complete [OF eventsD(7) [OF ok] _ sequential_records [where incl = "divrem_included (in_shape ''DivRem'') r"]]) (use fit in \<open>simp_all add: tables_fit_def\<close>)
  done

lemma shard_complete:
  assumes ok: "alu_events_ok r" and fit: "tables_fit in_shape log2_rows r"
  shows "\<exists>t l1 l2. alu_generate_traces in_shape log2_rows r = Inr t \<and> honest {} (map event_msg (simple_events r)) [] l1 (simple_actions t)
    \<and> honest {ADD, MUL, MULH, MULHU, SLTU} (map event_msg (divrem_events r)) (concat (map divrem_emits (divrem_events r))) l2 (divrem_actions t)
    \<and> (\<forall>blu ls0. holds_lookups blu ls0 \<longrightarrow> (\<exists>blu'. alu_generate_dependencies n log2_rows r blu = Inr blu' \<and> holds_lookups blu' (ls0 @ l2 @ l1)))"
proof -
  note st = shard_tables [OF ok fit, unfolded complete_table_def]
  obtain ra :: "bb add_sub_cols list" and la where a: "shard_trace (add_sub_included (in_shape ''AddSub'') r) (add_sub_generate_trace (log2_rows ''AddSub'') r) = Inr ra"
    "honest {} (map event_msg (add_events r @ sub_events r)) [] la (concat (map add_sub_eval ra))" "records (add_sub_generate_dependencies n r Map.empty) la" using st(1) [where n = n] by blast
  obtain rb :: "bb bitwise_cols list" and lb where b: "shard_trace (bitwise_included (in_shape ''Bitwise'') r) (bitwise_generate_trace (log2_rows ''Bitwise'') r) = Inr rb"
    "honest {} (map event_msg (bitwise_events r)) [] lb (concat (map bitwise_eval rb))" "records (bitwise_generate_dependencies n r Map.empty) lb" using st(2) [where n = n] by blast
  obtain rm :: "bb mul_cols list" and lm where m: "shard_trace (mul_included (in_shape ''Mul'') r) (mul_generate_trace (log2_rows ''Mul'') r) = Inr rm"
    "honest {} (map event_msg (mul_events r)) [] lm (concat (map mul_eval rm))" "records (mul_generate_dependencies n r Map.empty) lm" using st(3) [where n = n] by blast
  obtain rsr :: "bb shift_right_cols list" and lsr where sr: "shard_trace (shift_right_included (in_shape ''ShiftRight'') r) (shift_right_generate_trace (log2_rows ''ShiftRight'') r) = Inr rsr"
    "honest {} (map event_msg (shift_right_events r)) [] lsr (concat (map shift_right_eval rsr))" "records (shift_right_generate_dependencies n r Map.empty) lsr" using st(4) [where n = n] by blast
  obtain rsl :: "bb shift_left_cols list" and lsl where sl: "shard_trace (shift_left_included (in_shape ''ShiftLeft'') r) (shift_left_generate_trace (log2_rows ''ShiftLeft'') r) = Inr rsl"
    "honest {} (map event_msg (shift_left_events r)) [] lsl (concat (map shift_left_eval rsl))" "records (shift_left_generate_dependencies n r Map.empty) lsl" using st(5) [where n = n] by blast
  obtain rlt :: "bb lt_cols list" and llt where lt: "shard_trace (lt_included (in_shape ''Lt'') r) (lt_generate_trace (log2_rows ''Lt'') r) = Inr rlt"
    "honest {} (map event_msg (lt_events r)) [] llt (concat (map lt_eval rlt))" "records (lt_generate_dependencies n r Map.empty) llt" using st(6) [where n = n] by blast
  obtain rd :: "bb divrem_cols list" and ld where d: "shard_trace (divrem_included (in_shape ''DivRem'') r) (divrem_generate_trace (log2_rows ''DivRem'') r) = Inr rd"
    "honest {ADD, MUL, MULH, MULHU, SLTU} (map event_msg (divrem_events r)) (concat (map divrem_emits (divrem_events r))) ld (concat (map divrem_eval rd))" "records (divrem_generate_dependencies (log2_rows ''DivRem'') r Map.empty) ld" using st(7) by blast
  let ?t = "\<lparr>sh_divrem = rd, sh_add_sub = ra, sh_bitwise = rb, sh_mul = rm, sh_shift_right = rsr, sh_shift_left = rsl, sh_lt = rlt\<rparr>"
  let ?ls = "la @ lb @ lm @ lsr @ lsl @ llt"
  have "alu_generate_traces in_shape log2_rows r = Inr ?t"
    by (simp add: alu_generate_traces_def a(1) b(1) m(1) sr(1) sl(1) lt(1) d(1))
  moreover have "honest {} (map event_msg (simple_events r)) [] ?ls (simple_actions ?t)"
    using honest_append [OF a(2) honest_append [OF b(2) honest_append [OF m(2) honest_append [OF sr(2) honest_append [OF sl(2) lt(2)]]]]]
    by (simp add: simple_events_def simple_actions_def)
  moreover have "\<exists>blu'. alu_generate_dependencies n log2_rows r blu = Inr blu' \<and> holds_lookups blu' (ls0 @ ld @ ?ls)" if "holds_lookups blu ls0" for blu ls0
  proof -
    have "list_all2 (\<lambda>chip ls. records (chip Map.empty) ls)
      [divrem_generate_dependencies (log2_rows ''DivRem'') r, add_sub_generate_dependencies n r, bitwise_generate_dependencies n r, mul_generate_dependencies n r,
       shift_right_generate_dependencies n r, shift_left_generate_dependencies n r, lt_generate_dependencies n r] [ld, la, lb, lm, lsr, lsl, llt]"
      using a(3) b(3) m(3) sr(3) sl(3) lt(3) d(3) by (simp only: list_all2_Cons list_all2_Nil simp_thms)
    from chip_dependencies_hold [OF this that] show ?thesis by (simp add: alu_generate_dependencies_def)
  qed
  ultimately show ?thesis
    by (intro exI [of _ ?t] exI [of _ ?ls] exI [of _ ld] conjI allI impI) (simp_all only: divrem_actions_def alu_shard.simps d)
qed

abbreviation event_send :: "alu_event \<Rightarrow> bb list \<times> bb" where
  "event_send e \<equiv> (instruction_values (event_msg e), 1)"

lemma byte_generate_trace_actions: "byte_generate_trace blu = byte_actions (byte_multiplicity blu)"
  by (simp add: byte_generate_trace_def byte_actions_def)

lemma alu_tables_events: "mset (alu_tables r) = mset (simple_events r) + mset (divrem_events r)"
  by (simp add: alu_tables_def simple_events_def)

lemma divrem_emitted_events: "mset (concat (map (divrem_emitted s) es)) = mset (concat (map divrem_emits es))"
  by (induction es) (simp_all add: divrem_new_events)

lemma honest_shard_balanced:
  assumes ok: "alu_events_ok r" and fit: "tables_fit in_shape log2_rows r"
    and cs: "receives Byte_kind cs = []" "mset (sends Byte_kind cs) = mset (requests ls)" "\<And>e. e \<in> set ls \<Longrightarrow> byte_event_ok e"
    and instr: "mset (sends Instruction_kind cs) + mset (map event_send (concat (map (divrem_emitted s) (divrem_events r))))
      = mset (map event_send (alu_tables r)) + mset (receives Instruction_kind cs)"
  shows "\<exists>t blu. alu_generate_traces in_shape log2_rows r = Inr t
    \<and> alu_generate_dependencies num_cpus log2_rows r (add_byte_lookup_events ls Map.empty) = Inr blu
    \<and> asserts (simple_actions t) \<and> asserts (divrem_actions t)
    \<and> balanced {Byte_kind, Instruction_kind} (shard_messages t (byte_multiplicity blu) cs)"
proof -
  obtain t l1 l2 where t: "alu_generate_traces in_shape log2_rows r = Inr t" and h1: "honest {} (map event_msg (simple_events r)) [] l1 (simple_actions t)"
    and h2: "honest {ADD, MUL, MULH, MULHU, SLTU} (map event_msg (divrem_events r)) (concat (map divrem_emits (divrem_events r))) l2 (divrem_actions t)"
    and deps: "\<forall>blu ls0. holds_lookups blu ls0 \<longrightarrow> (\<exists>blu'. alu_generate_dependencies num_cpus log2_rows r blu = Inr blu' \<and> holds_lookups blu' (ls0 @ l2 @ l1))"
    using shard_complete [OF ok fit, where n = num_cpus] by blast
  obtain blu where blu: "alu_generate_dependencies num_cpus log2_rows r (add_byte_lookup_events ls Map.empty) = Inr blu" "holds_lookups blu (ls @ l2 @ l1)"
    using deps holds_events [OF holds_Nil, of ls] by auto
  have "interaction_count Byte_kind vs (shard_messages t (byte_multiplicity blu) cs) = 0" for vs
  proof -
    have "interaction_count Byte_kind vs ((simple_actions t @ divrem_actions t @ cs) @ byte_generate_trace blu) = 0"
      by (rule bb.lookups_balance [OF blu(2)])
        (use h1 h2 cs bb.honest_lookups [OF h1] bb.honest_lookups [OF h2] in \<open>auto simp: honest_def\<close>)
    then show ?thesis by (simp add: shard_messages_def messages_def byte_generate_trace_actions ac_simps)
  qed
  moreover have "interaction_count Instruction_kind vs (shard_messages t (byte_multiplicity blu) cs) = 0" for vs
  proof (rule same_messages_balance)
    have "receives Instruction_kind (byte_actions (byte_multiplicity blu)) = []" "sends Instruction_kind (byte_actions (byte_multiplicity blu)) = []"
      using byte_actions_ok unfolding byte_table_ok_def by blast+
    then show "mset (sends Instruction_kind (shard_messages t (byte_multiplicity blu) cs)) = mset (receives Instruction_kind (shard_messages t (byte_multiplicity blu) cs))"
      using h1 h2 instr unfolding shard_messages_def messages_sel by (simp add: honest_def alu_tables_events divrem_emitted_events add.commute image_mset.compositionality comp_def)
  qed
  ultimately show ?thesis using t blu(1) h1 h2 by (auto simp: balanced_def honest_def accepts_iff)
qed

text \<open>
  (C5) From the record of a shard whose ALU events are valid, in the right table, and exactly those of the
  instructions that the rest of the machine sends or that the executor emits for the divisions, every
  ALU table and its lookups are generated without a panic, all constraints hold, and the byte
  lookups and instructions of the shard balance.  Two kinds of events with destination register 0 that
  the executor does emit are excluded (\<open>x0_ok\<close> in \<open>alu_events_ok\<close>): additions and subtractions, whose
  recorded lookups are not sent, and comparisons that are true, for which the table panics; the other
  events may have destination register 0.  Every table with events is in the shard and large enough
  (\<open>tables_fit\<close>).
\<close>

theorem alu_tables_complete:
  assumes "alu_events_ok r" "tables_fit in_shape log2_rows r"
    and "receives Byte_kind cs = []" "mset (sends Byte_kind cs) = mset (requests ls)" "\<forall>e\<in>set ls. byte_event_ok e"
    and "mset (sends Instruction_kind cs) + mset (map event_send (concat (map (divrem_emitted s) (divrem_events r))))
      = mset (map event_send (alu_tables r)) + mset (receives Instruction_kind cs)"
  shows "\<exists>t blu. alu_generate_traces in_shape log2_rows r = Inr t
    \<and> alu_generate_dependencies num_cpus log2_rows r (add_byte_lookup_events ls Map.empty) = Inr blu
    \<and> asserts (simple_actions t) \<and> asserts (divrem_actions t)
    \<and> balanced {Byte_kind, Instruction_kind} (shard_messages t (byte_multiplicity blu) cs)"
  by (rule honest_shard_balanced [OF assms(1-4) _ assms(6)]) (use assms(5) in blast)

text \<open>A division of 7 by 2, with the events the executor emits for it, and a client that sends it.\<close>

definition demo_division :: execution_record where
  "demo_division = (record_new program_default)\<lparr>divrem_events := [dep_event DIVU 3 7 2],
     mul_events := [dep_event MUL 6 3 2, dep_event MULHU 0 3 2], lt_events := [dep_event SLTU 1 1 2]\<rparr>"

definition demo_client :: "alu_event \<Rightarrow> bb action list" where
  "demo_client e = send_instruction (event_msg e) 1"

lemma demo_client_sends [simp]:
  "sends k (demo_client e) = (if k = Instruction_kind then [event_send e] else [])" "receives k (demo_client e) = []"
  by (simp_all add: demo_client_def send_instruction_def)

lemma demo_division_ok: "alu_events_ok demo_division"
  by (simp add: alu_events_ok_def demo_division_def record_new_def alu_tables_def alu_ok_def x0_ok_def dep_event_def)

lemma demo_division_emitted:
  "mset (concat (map (divrem_emitted s) (divrem_events demo_division))) = mset [dep_event MUL 6 3 2, dep_event MULHU 0 3 2, dep_event SLTU 1 1 2]"
  unfolding divrem_emitted_events
  by (simp add: demo_division_def divrem_emits_def divrem_deps_def dep_event_def get_quotient_and_remainder_def is_signed_operation_def ext64_def)

theorem alu_tables_complete_witness:
  "\<exists>t blu. alu_generate_traces (\<lambda>_. None) (\<lambda>_. None) demo_division = Inr t
    \<and> alu_generate_dependencies 4 (\<lambda>_. None) demo_division (add_byte_lookup_events [] Map.empty) = Inr blu
    \<and> asserts (simple_actions t) \<and> asserts (divrem_actions t)
    \<and> balanced {Byte_kind, Instruction_kind} (shard_messages t (byte_multiplicity blu) (demo_client (dep_event DIVU 3 7 2)))"
proof (rule alu_tables_complete [where s = "with_context 48 Map.empty program_default 0 0 None True"])
  show "tables_fit (\<lambda>_. None) (\<lambda>_. None) demo_division" by (simp add: tables_fit_def table_fits_def fits_def included_defs demo_division_def record_new_def)
  show "mset (sends Instruction_kind (demo_client (dep_event DIVU 3 7 2)))
      + mset (map event_send (concat (map (divrem_emitted (with_context 48 Map.empty program_default 0 0 None True)) (divrem_events demo_division))))
    = mset (map event_send (alu_tables demo_division)) + mset (receives Instruction_kind (demo_client (dep_event DIVU 3 7 2)))"
    unfolding mset_map demo_division_emitted by (simp add: demo_division_def alu_tables_def record_new_def)
qed (simp_all add: demo_division_ok)

text \<open>An addition, in tables of one row.\<close>

definition demo_addition :: execution_record where
  "demo_addition = (record_new program_default)\<lparr>add_events := [dep_event ADD 3 1 2]\<rparr>"

lemma length_messages: "length (sends k as) \<le> length as" "length (receives k as) \<le> length as"
proof -
  show "length (sends k as) \<le> length as" by (induction k as rule: sends.induct) (auto simp: le_SucI)
  show "length (receives k as) \<le> length as" by (induction k as rule: receives.induct) (auto simp: le_SucI)
qed

lemma demo_addition_traces:
  "\<exists>row. alu_generate_traces (\<lambda>_. Some True) (\<lambda>_. Some 0) demo_addition = Inr \<lparr>sh_divrem = [divrem_padding], sh_add_sub = [row], sh_bitwise = [bitwise_zero],
     sh_mul = [mul_zero], sh_shift_right = [shift_right_padding], sh_shift_left = [shift_left_padding], sh_lt = [lt_zero]\<rparr>"
proof -
  obtain row ls where "add_sub_row (dep_event ADD 3 1 2) = Inr (row :: bb add_sub_cols, ls)"
    using add_sub.complete [of "dep_event ADD 3 1 2"] by (auto simp: alu_ok_def x0_ok_def dep_event_def)
  then show ?thesis
    by (simp add: alu_generate_traces_def demo_addition_def record_new_def generate_trace_def next_power_of_two_def
      generate_trace_defs included_defs shard_trace_def)
qed

lemma demo_addition_machine:
  "\<exists>t ms. asserts (simple_actions t) \<and> asserts (divrem_actions t) \<and> client_ok alu_opcodes (demo_client (dep_event ADD 3 1 2))
    \<and> balanced {Byte_kind, Instruction_kind} (shard_messages t ms (demo_client (dep_event ADD 3 1 2)))
    \<and> few_messages (shard_messages t ms (demo_client (dep_event ADD 3 1 2)))"
proof -
  let ?cs = "demo_client (dep_event ADD 3 1 2)"
  have "alu_events_ok demo_addition" "tables_fit (\<lambda>_. Some True) (\<lambda>_. Some 0) demo_addition"
    by (simp_all add: alu_events_ok_def demo_addition_def record_new_def alu_tables_def alu_ok_def x0_ok_def dep_event_def tables_fit_def table_fits_def fits_def included_defs)
  from honest_shard_balanced [OF this, of ?cs "[]" _ 4] obtain t blu where t: "alu_generate_traces (\<lambda>_. Some True) (\<lambda>_. Some 0) demo_addition = Inr t"
    "asserts (simple_actions t)" "asserts (divrem_actions t)" "balanced {Byte_kind, Instruction_kind} (shard_messages t (byte_multiplicity blu) ?cs)"
    by (auto simp: demo_addition_def record_new_def alu_tables_def)
  have "few_messages (shard_messages t (byte_multiplicity blu) ?cs)"
  proof -
    obtain row where row: "t = \<lparr>sh_divrem = [divrem_padding], sh_add_sub = [row], sh_bitwise = [bitwise_zero],
      sh_mul = [mul_zero], sh_shift_right = [shift_right_padding], sh_shift_left = [shift_left_padding], sh_lt = [lt_zero]\<rparr>"
      using demo_addition_traces t(1) by auto
    have "sends k (byte_actions ms) = []" "receives Instruction_kind (byte_actions ms) = []" for k ms
      using byte_actions_ok unfolding byte_table_ok_def by blast+
    then have m: "length (sends k (shard_messages t (byte_multiplicity blu) ?cs)) \<le> length (sends k (add_sub_eval row)) + 1"
      "length (receives Instruction_kind (shard_messages t (byte_multiplicity blu) ?cs)) = length (receives Instruction_kind (add_sub_eval row))" for k
      unfolding shard_messages_def row simple_actions_def divrem_actions_def
      by (simp_all add: bitwise.table.idle_sends mul.table.idle_sends shift_right.table.idle_sends shift_left.table.idle_sends lt.table.idle_sends divrem.table.idle_sends
        bitwise_idle mul_idle shift_right_idle shift_left_idle lt_idle divrem_idle)
    have "length (add_sub_eval row) < 100"
      by (simp add: add_sub_eval_def add_eval_def Let_def air limbs_eq)
    then show ?thesis
      using m(1) [of Byte_kind] m(1) [of Instruction_kind] m(2) length_messages(1) [of Byte_kind "add_sub_eval row"]
        length_messages(1) [of Instruction_kind "add_sub_eval row"] length_messages(2) [of Instruction_kind "add_sub_eval row"]
      unfolding few_messages_def ORDER_def by linarith
  qed
  moreover have "client_ok alu_opcodes ?cs"
    by (auto simp: client_ok_def event_msg_def dep_event_def from_bool_def)
  ultimately show ?thesis using t by blast
qed

theorem alu_tables_sound_witness:
  "\<exists>v. alu_value ADD 1 2 = Inr v \<and> (word_from 3 :: bb word4) = word_from v"
proof -
  obtain t ms where "asserts (simple_actions t)" "asserts (divrem_actions t)" "client_ok alu_opcodes (demo_client (dep_event ADD 3 1 2))"
    "balanced {Byte_kind, Instruction_kind} (shard_messages t ms (demo_client (dep_event ADD 3 1 2)))"
    "few_messages (shard_messages t ms (demo_client (dep_event ADD 3 1 2)))" using demo_addition_machine by blast
  from alu_tables_sound [OF this, of "event_msg (dep_event ADD 3 1 2)" 1 ADD 1 2]
  show ?thesis by (simp add: event_msg_def dep_event_def alu_msg_def)
qed

section \<open>A shard without additions\<close>

text \<open>
  (C33) A shard without a shape whose record has no addition: \<open>AddSubChip::included\<close> then looks at the
  additions only, so the shard has no table for its subtractions.  If the rest of the machine sends a
  subtraction, the byte lookups and instructions of the shard do not balance, whatever else its
  tables, which satisfy their constraints, and the byte table contain (with fewer messages than the
  order of the field).
\<close>

theorem subtraction_without_addition:
  assumes "add_events r = []" "in_shape ''AddSub'' = None" "alu_generate_traces in_shape log2_rows r = Inr t"
    and "asserts (simple_actions t)" "asserts (divrem_actions t)" "client_ok alu_opcodes cs" "few_messages (shard_messages t ms cs)"
    and "(instruction_values i, m) \<in> set (sends Instruction_kind cs)" "im_opcode i = opcode_field SUB"
  shows "sh_add_sub t = [] \<and> \<not> balanced {Byte_kind, Instruction_kind} (shard_messages t ms cs)"
proof -
  have t: "sh_add_sub t = []"
    using assms(1-3) by (auto simp: alu_generate_traces_def included_defs shard_trace_def rbind_eq_Inr)
  then have o: "simple_actions t = other_actions t" by (simp add: simple_actions_other)
  moreover have False if b: "balanced {Byte_kind, Instruction_kind} (shard_messages t ms cs)"
  proof -
    note m = shard_machine [OF assms(4-6) b assms(7)]
    have "(\<exists>k. (instruction_values i, k) \<in> set (receives Instruction_kind (simple_actions t)))
        \<or> (\<exists>k. (instruction_values i, k) \<in> set (receives Instruction_kind (divrem_actions t)))"
      by (rule bb.machine_received [OF m]) (use assms(8,9) in \<open>auto simp: shard_messages_def\<close>)
    then show False
    proof (elim disjE exE)
      fix k assume r: "(instruction_values i, k) \<in> set (receives Instruction_kind (simple_actions t))"
      have "alu_right other_opcodes (instruction_values i)"
        using lawfulD(6) [OF other_lawful bb.machine_accepts [OF m, unfolded o] r [unfolded o]] assms(4) unfolding o by blast
      then show False using assms(9) by (auto simp: alu_right_def alu_answer_def)
    next
      fix k assume "(instruction_values i, k) \<in> set (receives Instruction_kind (divrem_actions t))"
      then show False using divrem_rows_answered [OF assms(5)] assms(9) by (fastforce simp: opcode_in_def)
    qed
  qed
  ultimately show ?thesis using t by blast
qed

text \<open>A record of one subtraction, of 2 from 3.\<close>

theorem subtraction_without_addition_witness:
  "\<exists>t. alu_generate_traces (\<lambda>_. None) (\<lambda>_. None) ((record_new program_default)\<lparr>sub_events := [dep_event SUB 1 3 2]\<rparr>) = Inr t \<and> sh_add_sub t = []
    \<and> \<not> balanced {Byte_kind, Instruction_kind} (shard_messages t (\<lambda>_ _. 0) (demo_client (dep_event SUB 1 3 2)))"
proof -
  let ?r = "(record_new program_default)\<lparr>sub_events := [dep_event SUB 1 3 2]\<rparr>" and ?cs = "demo_client (dep_event SUB 1 3 2)"
  let ?t = "\<lparr>sh_divrem = [], sh_add_sub = [], sh_bitwise = [], sh_mul = [], sh_shift_right = [], sh_shift_left = [], sh_lt = []\<rparr>"
  have t: "alu_generate_traces (\<lambda>_. None) (\<lambda>_. None) ?r = Inr ?t"
    by (simp add: alu_generate_traces_def included_defs shard_trace_def record_new_def)
  have b: "sends k (byte_actions (\<lambda>_ _. 0)) = []" "receives Instruction_kind (byte_actions (\<lambda>_ _. 0)) = []" for k
    using byte_actions_ok unfolding byte_table_ok_def by blast+
  have f: "few_messages (shard_messages ?t (\<lambda>_ _. 0) ?cs)"
    by (simp add: few_messages_def shard_messages_def simple_actions_def divrem_actions_def b ORDER_def)
  have c: "client_ok alu_opcodes ?cs" by (auto simp: client_ok_def event_msg_def dep_event_def from_bool_def)
  have "sh_add_sub ?t = [] \<and> \<not> balanced {Byte_kind, Instruction_kind} (shard_messages ?t (\<lambda>_ _. 0) ?cs)"
    by (rule subtraction_without_addition [OF _ _ t _ _ c f, where i = "event_msg (dep_event SUB 1 3 2)" and m = 1])
      (simp_all add: simple_actions_def divrem_actions_def asserts_def record_new_def event_msg_def alu_msg_def dep_event_def)
  with t show ?thesis by blast
qed

end
