(* ===== verification/SP1_Word_Range.thy ===== *)
theory SP1_Word_Range
  imports SP1_Lookup
begin

text \<open>
  What the control-flow chips share: \<open>BabyBearWordRangeChecker\<close> of
  \<open>crates/core/machine/src/operations/baby_bear_word.rs\<close>, which checks that a word of bytes is less
  than the order of the field, and the messages of instructions that set the program counter.
\<close>

section \<open>The range checker\<close>

record 'f word_range_checker =
  wr_most_sig_byte_lt_120 :: 'f

definition word_range_zero :: "'f::field word_range_checker" where
  "word_range_zero = \<lparr>wr_most_sig_byte_lt_120 = 0\<rparr>"

definition word_range_populate :: "('f \<Rightarrow> nat) \<Rightarrow> 'f word4 \<Rightarrow> 'f::field word_range_checker \<times> byte_lookup_event list" where
  "word_range_populate as_canonical_u32 value =
     (let ms_byte_u8 = of_nat (as_canonical_u32 (limb3 value)) :: u8
      in (\<lparr>wr_most_sig_byte_lt_120 = from_bool (ms_byte_u8 < 120)\<rparr>,
          [\<lparr>bl_opcode = LTU, bl_a1 = (if ms_byte_u8 < 120 then 1 else 0), bl_a2 = 0, bl_b = ms_byte_u8, bl_c = 120\<rparr>]))"

definition word_range_check :: "'f::field word4 \<Rightarrow> 'f word_range_checker \<Rightarrow> 'f \<Rightarrow> 'f action list" where
  "word_range_check value cols is_real =
     (let ms_byte = limb3 value; lt_120 = wr_most_sig_byte_lt_120 cols
      in send_byte (byte_opcode_field LTU) lt_120 ms_byte (from_canonical_u8 120) is_real @
         air_when is_real (
           when_not lt_120 (assert_eq ms_byte (from_canonical_u8 120)) @
           when_not lt_120 (assert_zero (limb0 value) @ assert_zero (limb1 value) @ assert_zero (limb2 value))))"

lemma word_range_receives [simp]: "receives k (word_range_check v cols m) = []"
  by (simp add: word_range_check_def Let_def air when_not_def)

lemma word_range_sends:
  "sends Instruction_kind (word_range_check v cols m) = []"
  "(vs, n) \<in> set (sends k (word_range_check v cols m)) \<Longrightarrow> n = m"
  by (auto simp: word_range_check_def Let_def air when_not_def split: if_splits)

lemma word_range_idle [simp]: "accepts L (word_range_check v cols 0)" "sends k (word_range_check v cols 0) = []"
  by (simp_all add: word_range_check_def Let_def air when_not_def)

context prime_field32
begin

lemma as_canonical_byte: "as_canonical_u32 (from_canonical_u8 b) = unat b"
  using unat_u8_less [of b] by (simp add: from_canonical_u8_def canonical_of_nat ORDER_def del: of_nat_unat)

lemma reduce_word_from: "reduce (word_from w) = (from_canonical_u32 w :: 'f)"
proof -
  have "(of_nat (unat w) :: 'f) = of_nat (unat (limb0 (le_bytes w)) + 256 * unat (limb1 (le_bytes w))
    + 65536 * unat (limb2 (le_bytes w)) + 16777216 * unat (limb3 (le_bytes w)))" by (simp only: flip: unat_word_split)
  then show ?thesis by (simp add: reduce_def from_canonical_u32_def from_canonical_u8_def)
qed

lemma from_canonical_u32_inject:
  "unat v < ORDER \<Longrightarrow> unat w < ORDER \<Longrightarrow> from_canonical_u32 v = (from_canonical_u32 w :: 'f) \<longleftrightarrow> v = w"
  by (simp add: from_canonical_u32_def of_nat_inject word_unat_eq_iff del: of_nat_unat)

lemma word_top:
  fixes w :: u32
  shows "limb3 (le_bytes w) < 120 \<Longrightarrow> unat w < ORDER"
    "limb3 (le_bytes w) = 120 \<Longrightarrow> limb0 (le_bytes w) = 0 \<Longrightarrow> limb1 (le_bytes w) = 0 \<Longrightarrow> limb2 (le_bytes w) = 0 \<Longrightarrow> unat w < ORDER"
    "unat w < ORDER \<Longrightarrow> limb3 (le_bytes w) < 120 \<or> limb3 (le_bytes w) = 120 \<and> limb0 (le_bytes w) = 0 \<and> limb1 (le_bytes w) = 0 \<and> limb2 (le_bytes w) = 0"
proof -
  let ?a = "unat (limb0 (le_bytes w))" and ?b = "unat (limb1 (le_bytes w))" and ?c = "unat (limb2 (le_bytes w))" and ?d = "unat (limb3 (le_bytes w))"
  note u = unat_word_split [of w] and l = unat_u8_less [of "limb0 (le_bytes w)"] unat_u8_less [of "limb1 (le_bytes w)"] unat_u8_less [of "limb2 (le_bytes w)"]
  have lt: "limb3 (le_bytes w) < 120 \<longleftrightarrow> ?d < 120" by (simp add: word_less_nat_alt)
  show "unat w < ORDER" if "limb3 (le_bytes w) < 120" using that u l unfolding lt ORDER_def by linarith
  show "unat w < ORDER" if "limb3 (le_bytes w) = 120" "limb0 (le_bytes w) = 0" "limb1 (le_bytes w) = 0" "limb2 (le_bytes w) = 0"
    using that u by (simp add: ORDER_def)
  show "limb3 (le_bytes w) < 120 \<or> limb3 (le_bytes w) = 120 \<and> limb0 (le_bytes w) = 0 \<and> limb1 (le_bytes w) = 0 \<and> limb2 (le_bytes w) = 0"
    if "unat w < ORDER"
  proof (cases "?d < 120")
    case False
    then have "?d = 120 \<and> ?a = 0 \<and> ?b = 0 \<and> ?c = 0" using that u unfolding ORDER_def by linarith
    then show ?thesis by (simp add: word_unat_eq_iff)
  qed (simp add: lt)
qed

lemma word_range_sound:
  assumes acc: "accepts L (word_range_check (word_from w) cols (m::'f))" and L: "bytes_sound L" and m: "m \<noteq> 0"
  shows "unat w < ORDER"
proof -
  have b: "in_byte_table [byte_opcode_field LTU, wr_most_sig_byte_lt_120 cols, 0, limb3 (word_from w), from_canonical_u8 120]"
    using acc m by (intro bytes_soundD [OF L]) (simp add: word_range_check_def Let_def air)
  then have lt: "wr_most_sig_byte_lt_120 cols = from_bool (limb3 (le_bytes w) < 120)" by auto
  show ?thesis
  proof (cases "limb3 (le_bytes w) < 120")
    case False
    then have "from_canonical_u8 (limb3 (le_bytes w)) = (from_canonical_u8 120 :: 'f)" "from_canonical_u8 (limb0 (le_bytes w)) = (from_canonical_u8 0 :: 'f)"
      "from_canonical_u8 (limb1 (le_bytes w)) = (from_canonical_u8 0 :: 'f)" "from_canonical_u8 (limb2 (le_bytes w)) = (from_canonical_u8 0 :: 'f)"
      using acc m lt by (simp_all add: word_range_check_def Let_def air when_not_def)
    then show ?thesis using word_top(2) [of w] unfolding from_canonical_u8_inject by blast
  qed (rule word_top(1))
qed

lemma word_range_complete:
  assumes w: "unat w < ORDER" and p: "word_range_populate as_canonical_u32 (word_from w) = (cols, ls)"
  shows "asserts (word_range_check (word_from w) cols (1::'f))" "sends Byte_kind (word_range_check (word_from w) cols (1::'f)) = requests ls"
proof -
  have e: "cols = \<lparr>wr_most_sig_byte_lt_120 = from_bool (limb3 (le_bytes w) < 120)\<rparr>"
    "ls = [\<lparr>bl_opcode = LTU, bl_a1 = (if limb3 (le_bytes w) < 120 then 1 else 0), bl_a2 = 0, bl_b = limb3 (le_bytes w), bl_c = 120\<rparr>]"
    using p by (auto simp: word_range_populate_def Let_def as_canonical_byte)
  show "asserts (word_range_check (word_from w) cols (1::'f))"
    using word_top(3) [OF w] unfolding e by (auto simp: word_range_check_def Let_def air when_not_def asserts_def)
  show "sends Byte_kind (word_range_check (word_from w) cols (1::'f)) = requests ls"
    unfolding e by (simp add: word_range_check_def Let_def air when_not_def lookup_values_def from_bool_def from_canonical_u8_def)
qed

end

section \<open>Honest rows\<close>

lemma alu_lookups_other: "k \<noteq> Byte_kind \<Longrightarrow> k \<noteq> Instruction_kind \<Longrightarrow> alu_lookups D k vs"
  by (simp add: alu_lookups_def)

text \<open>An event that a chip requests: valid, and not for register 0.\<close>

definition dep_event_ok :: "opcode set \<Rightarrow> alu_event \<Rightarrow> bool" where
  "dep_event_ok opcs e \<longleftrightarrow> alu_ok e \<and> \<not> alu_op_a_0 e \<and> alu_opcode e \<in> opcs"

context prime_field32
begin

lemma word_range_lookups:
  assumes "word_range_populate as_canonical_u32 (word_from w :: 'f word4) = (cols, ls)" "l \<in> set ls"
  shows "byte_event_ok l"
  using assms by (auto simp: word_range_populate_def Let_def byte_event_ok_def)

text \<open>A row is honest when its assertions hold, its lookups are valid, and it requests valid ALU events.\<close>

lemma honestI:
  assumes "asserts as" "receives Byte_kind as = []" "receives Instruction_kind as = map once msgs"
    and ls: "sends Byte_kind as = requests ls" "\<And>l. l \<in> set ls \<Longrightarrow> byte_event_ok l"
    and es: "sends Instruction_kind as = map (\<lambda>e. once (event_msg e)) es" "\<And>e. e \<in> set es \<Longrightarrow> dep_event_ok used e"
  shows "honest used msgs es ls (as :: 'f action list)"
proof -
  have "alu_lookups used k (fst x)" if x: "x \<in> set (sends k as)" for k x
  proof (cases "k = Byte_kind \<or> k = Instruction_kind")
    case True
    then show ?thesis
    proof
      assume "k = Byte_kind"
      then obtain l where "l \<in> set ls" "fst x = lookup_values l" using x by (auto simp: ls(1) requests_def)
      then show ?thesis using \<open>k = Byte_kind\<close> ls(2) byte_event_ok_iff [of l] by (simp add: alu_lookups_def)
    next
      assume "k = Instruction_kind"
      then obtain e where "e \<in> set es" "fst x = instruction_values (event_msg e)" using x by (auto simp: es(1))
      then show ?thesis using \<open>k = Instruction_kind\<close> es(2) alu_lookups_event [of e used] by (simp add: dep_event_ok_def)
    qed
  qed (simp add: alu_lookups_other)
  then have "accepts (alu_lookups used) as" using assms(1) unfolding accepts_iff by blast
  then show ?thesis using assms by (simp add: honest_def)
qed

end

section \<open>Instructions that set the program counter\<close>

definition flow_msg :: "'f::field \<Rightarrow> 'f \<Rightarrow> 'f \<Rightarrow> 'f word4 \<Rightarrow> 'f word4 \<Rightarrow> 'f word4 \<Rightarrow> 'f \<Rightarrow> 'f \<Rightarrow> 'f instruction_msg" where
  "flow_msg p n opc a b c op_a_0 op_a_immutable = \<lparr>im_shard = 0, im_clk = 0, im_pc = p, im_next_pc = n,
     im_num_extra_cycles = 0, im_opcode = opc, im_a = a, im_b = b, im_c = c, im_op_a_0 = op_a_0,
     im_op_a_immutable = op_a_immutable, im_is_memory = 0, im_is_syscall = 0, im_is_halt = 0\<rparr>"

lemma flow_msg_inject [simp]:
  "flow_msg p n opc a b c z i = flow_msg p' n' opc' a' b' c' z' i' \<longleftrightarrow>
     p = p' \<and> n = n' \<and> opc = opc' \<and> a = a' \<and> b = b' \<and> c = c' \<and> z = z' \<and> i = i'"
  by (auto simp: flow_msg_def)

lemma flow_msg_sel [simp]:
  "im_opcode (flow_msg p n opc a b c z i) = opc" "im_op_a_0 (flow_msg p n opc a b c z i) = z"
  by (simp_all add: flow_msg_def)

text \<open>What the requests to the tables of ADD and of SLT and SLTU say.\<close>

context prime_field32
begin

lemma add_answered:
  assumes "alu_lookups D Instruction_kind (instruction_values (unused_msg (opcode_field ADD) a b (c :: 'f word4)))"
  obtains x y where "b = word_from x" "c = word_from y" "a = word_from (x + y)"
proof -
  obtain opc where "alu_answer opc (instruction_values (unused_msg (opcode_field ADD) a b c))"
    using assms by (auto simp: alu_lookups_def)
  then have "is_word b \<and> is_word c" "\<And>x y. b = word_from x \<Longrightarrow> c = word_from y \<Longrightarrow> a = word_from (x + y)"
    by (auto simp: alu_answer_def unused_msg_def)
  then show ?thesis using that by (auto simp: is_word_def)
qed

lemma compare_answered:
  assumes "alu_lookups D Instruction_kind (instruction_values (unused_msg (opcode_field (if s then SLT else SLTU)) (extend_expr t) (word_from x) (word_from y)))"
  shows "t = (from_bool (if s then slt_i32 x y else x < y) :: 'f)"
proof -
  let ?r = "if s then slt_i32 x y else x < y"
  obtain opc where "alu_answer opc (instruction_values (unused_msg (opcode_field (if s then SLT else SLTU)) (extend_expr t) (word_from x) (word_from y)))"
    using assms by (auto simp: alu_lookups_def)
  then have "extend_expr t = (word_from (bool_u32 ?r) :: 'f word4)"
    by (auto simp: alu_answer_def unused_msg_def bool_u32_def split: if_splits)
  then show ?thesis by (simp add: extend_expr_def word_from_def le_bytes_def bool_u32_def from_bool_def split: if_splits)
qed

end

section \<open>The bound\<close>

lemma word_range_accepts:
  assumes "unat w < ORDER"
  shows "\<exists>cols. accepts (alu_lookups {}) (word_range_check (word_from w) cols (1::bb))"
proof -
  obtain cols ls where p: "word_range_populate (\<lambda>x. nat (rep_bb x)) (word_from w) = (cols :: bb word_range_checker, ls)" by (metis prod.exhaust)
  have "honest {} [] [] ls (word_range_check (word_from w) cols (1::bb))"
    by (rule bb.honestI [OF bb.word_range_complete(1) [OF assms p] _ _ bb.word_range_complete(2) [OF assms p]])
      (simp_all add: word_range_sends bb.word_range_lookups [OF p])
  then show ?thesis unfolding honest_def by blast
qed

text \<open>
  (C34) The range checker accepts a word of bytes, for some value of its column, just if the word is
  less than the order of the field.
\<close>

theorem word_range_exact:
  "(\<exists>cols. accepts (alu_lookups {}) (word_range_check (word_from w) cols (1::bb))) \<longleftrightarrow> unat w < ORDER"
  using bb.word_range_sound [OF _ bb.bytes_sound_alu, of "{}" w _ 1] word_range_accepts [of w] by auto

end
