(* ===== verification/SP1_Chip_Branch.thy ===== *)
theory SP1_Chip_Branch
  imports SP1_Word_Range SP1_Cpu
begin

text \<open>
  The table of the branch instructions, \<open>crates/core/machine/src/control_flow/branch\<close>
  (\<open>columns.rs\<close>, \<open>trace.rs\<close>, \<open>air.rs\<close>).
\<close>

section \<open>The chip\<close>

record 'f branch_cols =
  bc_pc :: "'f word4"
  bc_pc_range_checker :: "'f word_range_checker"
  bc_next_pc :: "'f word4"
  bc_next_pc_range_checker :: "'f word_range_checker"
  bc_op_a_value :: "'f word4"
  bc_op_b_value :: "'f word4"
  bc_op_c_value :: "'f word4"
  bc_op_a_0 :: 'f
  bc_is_beq :: 'f
  bc_is_bne :: 'f
  bc_is_blt :: 'f
  bc_is_bge :: 'f
  bc_is_bltu :: 'f
  bc_is_bgeu :: 'f
  bc_is_branching :: 'f
  bc_not_branching :: 'f
  bc_a_eq_b :: 'f
  bc_a_gt_b :: 'f
  bc_a_lt_b :: 'f

definition branch_zero :: "'f::field branch_cols" where
  "branch_zero = \<lparr>bc_pc = word_zero, bc_pc_range_checker = word_range_zero, bc_next_pc = word_zero,
     bc_next_pc_range_checker = word_range_zero, bc_op_a_value = word_zero, bc_op_b_value = word_zero,
     bc_op_c_value = word_zero, bc_op_a_0 = 0, bc_is_beq = 0, bc_is_bne = 0, bc_is_blt = 0, bc_is_bge = 0,
     bc_is_bltu = 0, bc_is_bgeu = 0, bc_is_branching = 0, bc_not_branching = 0, bc_a_eq_b = 0, bc_a_gt_b = 0, bc_a_lt_b = 0\<rparr>"

definition branch_row :: "('f \<Rightarrow> nat) \<Rightarrow> branch_event \<Rightarrow> ('f::field branch_cols \<times> byte_lookup_event list) res" where
  "branch_row as_canonical_u32 event =
     (let a_eq_b = (br_a event = br_b event);
          use_signed_comparison = (br_opcode event = BLT \<or> br_opcode event = BGE);
          a_lt_b = (if use_signed_comparison then slt_i32 (br_a event) (br_b event) else br_a event < br_b event);
          a_gt_b = (if use_signed_comparison then slt_i32 (br_b event) (br_a event) else br_a event > br_b event)
      in rbind (case br_opcode event of
            BEQ \<Rightarrow> Inr a_eq_b | BNE \<Rightarrow> Inr (\<not> a_eq_b)
          | BLT \<Rightarrow> Inr a_lt_b | BLTU \<Rightarrow> Inr a_lt_b
          | BGE \<Rightarrow> Inr (a_eq_b \<or> a_gt_b) | BGEU \<Rightarrow> Inr (a_eq_b \<or> a_gt_b)
          | _ \<Rightarrow> Inl Panic) (\<lambda>branching.
         let (pc_range_checker, ls1) = word_range_populate as_canonical_u32 (word_from (br_pc event));
             (next_pc_range_checker, ls2) = word_range_populate as_canonical_u32 (word_from (br_next_pc event))
         in Inr (\<lparr>bc_pc = word_from (br_pc event), bc_pc_range_checker = pc_range_checker,
              bc_next_pc = word_from (br_next_pc event), bc_next_pc_range_checker = next_pc_range_checker,
              bc_op_a_value = word_from (br_a event), bc_op_b_value = word_from (br_b event), bc_op_c_value = word_from (br_c event),
              bc_op_a_0 = from_bool (br_op_a_0 event),
              bc_is_beq = from_bool (br_opcode event = BEQ), bc_is_bne = from_bool (br_opcode event = BNE),
              bc_is_blt = from_bool (br_opcode event = BLT), bc_is_bge = from_bool (br_opcode event = BGE),
              bc_is_bltu = from_bool (br_opcode event = BLTU), bc_is_bgeu = from_bool (br_opcode event = BGEU),
              bc_is_branching = from_bool branching, bc_not_branching = from_bool (\<not> branching),
              bc_a_eq_b = from_bool a_eq_b, bc_a_gt_b = from_bool a_gt_b, bc_a_lt_b = from_bool a_lt_b\<rparr>, ls1 @ ls2)))"

definition branch_is_real :: "'f::field branch_cols \<Rightarrow> 'f" where
  "branch_is_real local = bc_is_beq local + bc_is_bne local + bc_is_blt local + bc_is_bge local + bc_is_bltu local + bc_is_bgeu local"

definition branch_opcode_value :: "'f::field branch_cols \<Rightarrow> 'f" where
  "branch_opcode_value local = bc_is_beq local * opcode_field BEQ + bc_is_bne local * opcode_field BNE
     + bc_is_blt local * opcode_field BLT + bc_is_bge local * opcode_field BGE
     + bc_is_bltu local * opcode_field BLTU + bc_is_bgeu local * opcode_field BGEU"

text \<open>The blocks of \<open>eval\<close>, in their order.\<close>

definition branch_eval_selectors :: "'f::field branch_cols \<Rightarrow> 'f action list" where
  "branch_eval_selectors local = assert_bool (bc_is_beq local) @ assert_bool (bc_is_bne local) @ assert_bool (bc_is_blt local) @
     assert_bool (bc_is_bge local) @ assert_bool (bc_is_bltu local) @ assert_bool (bc_is_bgeu local) @ assert_bool (branch_is_real local)"

definition branch_eval_receive :: "'f::field branch_cols \<Rightarrow> 'f action list" where
  "branch_eval_receive local = receive_instruction (flow_msg (reduce (bc_pc local)) (reduce (bc_next_pc local)) (branch_opcode_value local)
     (bc_op_a_value local) (bc_op_b_value local) (bc_op_c_value local) (bc_op_a_0 local) 1) (branch_is_real local)"

definition branch_eval_pc :: "'f::field branch_cols \<Rightarrow> 'f action list" where
  "branch_eval_pc local =
     (let is_real = branch_is_real local
      in word_range_check (bc_pc local) (bc_pc_range_checker local) is_real @
         word_range_check (bc_next_pc local) (bc_next_pc_range_checker local) is_real @
         send_instruction (unused_msg (opcode_field ADD) (bc_next_pc local) (bc_pc local) (bc_op_c_value local)) (bc_is_branching local) @
         air_when is_real (air_when (bc_not_branching local) (assert_eq (reduce (bc_pc local) + 4) (reduce (bc_next_pc local)))) @
         air_when (bc_not_branching local) (assert_one is_real) @
         when_not is_real (assert_zero (bc_is_branching local)) @
         air_when is_real (assert_one (bc_is_branching local + bc_not_branching local)) @
         air_when is_real (assert_bool (bc_is_branching local)) @
         air_when is_real (assert_bool (bc_not_branching local)))"

definition branch_eval_branching :: "'f::field branch_cols \<Rightarrow> 'f action list" where
  "branch_eval_branching local =
     air_when (bc_is_beq local * bc_is_branching local) (assert_one (bc_a_eq_b local)) @
     air_when (bc_is_beq local) (when_not (bc_is_branching local) (assert_one (bc_a_gt_b local + bc_a_lt_b local))) @
     air_when (bc_is_bne local * bc_is_branching local) (assert_one (bc_a_gt_b local + bc_a_lt_b local)) @
     air_when (bc_is_bne local) (when_not (bc_is_branching local) (assert_one (bc_a_eq_b local))) @
     air_when ((bc_is_blt local + bc_is_bltu local) * bc_is_branching local) (assert_one (bc_a_lt_b local)) @
     air_when (bc_is_blt local + bc_is_bltu local) (when_not (bc_is_branching local) (assert_one (bc_a_eq_b local + bc_a_gt_b local))) @
     air_when ((bc_is_bge local + bc_is_bgeu local) * bc_is_branching local) (assert_one (bc_a_gt_b local + bc_a_eq_b local)) @
     air_when (bc_is_bge local + bc_is_bgeu local) (when_not (bc_is_branching local) (assert_one (bc_a_lt_b local)))"

definition branch_eval_compare :: "'f::field branch_cols \<Rightarrow> 'f action list" where
  "branch_eval_compare local =
     (let is_real = branch_is_real local;
          use_signed_comparison = bc_is_blt local + bc_is_bge local;
          opc = use_signed_comparison * opcode_field SLT + (1 - use_signed_comparison) * opcode_field SLTU
      in air_when (is_real * bc_a_eq_b local) (assert_word_eq (bc_op_a_value local) (bc_op_b_value local)) @
         send_instruction (unused_msg opc (extend_expr (bc_a_lt_b local)) (bc_op_a_value local) (bc_op_b_value local)) is_real @
         send_instruction (unused_msg opc (extend_expr (bc_a_gt_b local)) (bc_op_b_value local) (bc_op_a_value local)) is_real)"

definition branch_eval :: "'f::field branch_cols \<Rightarrow> 'f action list" where
  "branch_eval local = branch_eval_selectors local @ branch_eval_receive local @ branch_eval_pc local @
     branch_eval_branching local @ branch_eval_compare local"

text \<open>
  \<open>generate_trace\<close> records the lookups as well: a map for every chunk of the rows, of which those
  of padding are empty.
\<close>

definition branch_generate_trace :: "nat option \<Rightarrow> execution_record \<Rightarrow> bb branch_cols list res" where
  "branch_generate_trace size_log2 input = generate_trace (branch_row (\<lambda>x. nat (rep_bb x))) branch_zero size_log2 (branch_events input)"

definition branch_generate_dependencies :: "nat \<Rightarrow> nat option \<Rightarrow> execution_record \<Rightarrow> byte_lookups \<Rightarrow> byte_lookups res" where
  "branch_generate_dependencies num_cpus size_log2 input output =
     trace_dependencies num_cpus (branch_row (\<lambda>x. nat (rep_bb x))) size_log2 (branch_events input) output"

definition branch_included :: "bool option \<Rightarrow> execution_record \<Rightarrow> bool" where
  "branch_included in_shape shard = included in_shape (branch_events shard)"

section \<open>The contract\<close>

abbreviation "branch_opcodes \<equiv> {BEQ, BNE, BLT, BGE, BLTU, BGEU}"

text \<open>
  A right answer: if the operands are words and the program counter is less than the order of the
  field, the next program counter is the one of the executor, and that of a branch taken is less than
  the order too.
\<close>

definition branch_target :: "opcode \<Rightarrow> u32 \<Rightarrow> u32 \<Rightarrow> u32 \<Rightarrow> u32 \<Rightarrow> u32 res" where
  "branch_target opc p a b c = rbind (branch_taken opc a b) (\<lambda>branch. Inr (if branch then p + c else p + 4))"

definition branch_right :: "'f::field list \<Rightarrow> bool" where
  "branch_right vs \<longleftrightarrow> (\<exists>opc\<in>branch_opcodes. \<exists>p n a b c z. vs = instruction_values (flow_msg p n (opcode_field opc) a b c z 1)
     \<and> (\<forall>q x y w. p = from_canonical_u32 q \<and> unat q < ORDER \<and> a = word_from x \<and> b = word_from y \<and> c = word_from w
         \<longrightarrow> (\<exists>t. branch_target opc q x y w = Inr t \<and> n = from_canonical_u32 t \<and> (t = q + 4 \<or> unat t < ORDER))))"

text \<open>An event of the executor whose program counters are in the field, its message, and the events emitted for it.\<close>

definition branch_event_ok :: "branch_event \<Rightarrow> bool" where
  "branch_event_ok e \<longleftrightarrow> br_opcode e \<in> branch_opcodes \<and> unat (br_pc e) < ORDER \<and> unat (br_next_pc e) < ORDER
     \<and> branch_target (br_opcode e) (br_pc e) (br_a e) (br_b e) (br_c e) = Inr (br_next_pc e)"

definition branch_msg :: "branch_event \<Rightarrow> 'f::field instruction_msg" where
  "branch_msg e = flow_msg (from_canonical_u32 (br_pc e)) (from_canonical_u32 (br_next_pc e)) (opcode_field (br_opcode e))
     (word_from (br_a e)) (word_from (br_b e)) (word_from (br_c e)) (from_bool (br_op_a_0 e)) 1"

definition branch_emits :: "branch_event \<Rightarrow> alu_event list" where
  "branch_emits e =
     (let s = (br_opcode e = BLT \<or> br_opcode e = BGE); lt = (\<lambda>x y. if s then slt_i32 x y else x < y); opc = (if s then SLT else SLTU)
      in (if branch_taken (br_opcode e) (br_a e) (br_b e) = Inr True then [dep_event ADD (br_pc e + br_c e) (br_pc e) (br_c e)] else []) @
         [dep_event opc (bool_u32 (lt (br_a e) (br_b e))) (br_a e) (br_b e), dep_event opc (bool_u32 (lt (br_b e) (br_a e))) (br_b e) (br_a e)])"

lemma branch_receives:
  "receives k (branch_eval r) = (if k = Instruction_kind \<and> branch_is_real r \<noteq> 0 then
     [(instruction_values (flow_msg (reduce (bc_pc r)) (reduce (bc_next_pc r)) (branch_opcode_value r)
        (bc_op_a_value r) (bc_op_b_value r) (bc_op_c_value r) (bc_op_a_0 r) 1), branch_is_real r)] else [])"
  by (auto simp: branch_eval_def branch_eval_selectors_def branch_eval_receive_def branch_eval_pc_def branch_eval_branching_def branch_eval_compare_def
    Let_def air when_not_def assert_word_eq_def limbs_eq)

definition branch_selected :: "opcode \<Rightarrow> 'f::field branch_cols \<Rightarrow> bool" where
  "branch_selected opc r \<longleftrightarrow> bc_is_beq r = from_bool (opc = BEQ) \<and> bc_is_bne r = from_bool (opc = BNE) \<and> bc_is_blt r = from_bool (opc = BLT)
     \<and> bc_is_bge r = from_bool (opc = BGE) \<and> bc_is_bltu r = from_bool (opc = BLTU) \<and> bc_is_bgeu r = from_bool (opc = BGEU)"

lemma branch_selected_values:
  assumes "branch_selected opc r" "opc \<in> branch_opcodes"
  shows "branch_is_real r = 1" "branch_opcode_value r = opcode_field opc"
    "(bc_is_blt r + bc_is_bge r) * opcode_field SLT + (1 - (bc_is_blt r + bc_is_bge r)) * opcode_field SLTU
       = opcode_field (if opc = BLT \<or> opc = BGE then SLT else SLTU)"
  using assms by (auto simp: branch_selected_def branch_is_real_def branch_opcode_value_def)

lemma branch_sends:
  "sends k (branch_eval r) = sends k (word_range_check (bc_pc r) (bc_pc_range_checker r) (branch_is_real r))
     @ sends k (word_range_check (bc_next_pc r) (bc_next_pc_range_checker r) (branch_is_real r))
     @ sends k (send_instruction (unused_msg (opcode_field ADD) (bc_next_pc r) (bc_pc r) (bc_op_c_value r)) (bc_is_branching r))
     @ sends k (branch_eval_compare r)"
  by (simp add: branch_eval_def branch_eval_selectors_def branch_eval_receive_def branch_eval_pc_def branch_eval_branching_def
    Let_def air when_not_def)

context prime_field32
begin

lemma bool_of_nat: "x * (x - 1) = (0::'f) \<Longrightarrow> \<exists>n. n \<le> 1 \<and> x = of_nat n"
  by (auto intro: exI [of _ 0] exI [of _ 1])

lemma branch_selectors:
  assumes "accepts L (branch_eval_selectors (r :: 'f branch_cols))"
  shows "branch_is_real r = 0 \<or> (\<exists>opc\<in>branch_opcodes. branch_selected opc r)"
proof -
  note b = assms [unfolded branch_eval_selectors_def assert_bool_def append.simps accepts_simps]
  obtain n1 n2 n3 n4 n5 n6 where n: "n1 \<le> 1" "bc_is_beq r = of_nat n1" "n2 \<le> 1" "bc_is_bne r = of_nat n2" "n3 \<le> 1" "bc_is_blt r = of_nat n3"
    "n4 \<le> 1" "bc_is_bge r = of_nat n4" "n5 \<le> 1" "bc_is_bltu r = of_nat n5" "n6 \<le> 1" "bc_is_bgeu r = of_nat n6"
    using b bool_of_nat by metis
  let ?n = "n1 + n2 + n3 + n4 + n5 + n6"
  have real: "branch_is_real r = of_nat ?n" by (simp add: branch_is_real_def n)
  have "?n < ORDER" using n by (simp add: ORDER_def)
  moreover have "of_nat ?n = (of_nat 0 :: 'f) \<or> of_nat ?n = (of_nat 1 :: 'f)" using b bool_expr [of "branch_is_real r"] unfolding real by simp
  ultimately have "?n = 0 \<or> ?n = 1" using of_nat_inject [of ?n 0] of_nat_inject [of ?n 1] by (simp add: ORDER_def)
  moreover have "n1 = 0 \<or> n1 = 1" "n2 = 0 \<or> n2 = 1" "n3 = 0 \<or> n3 = 1" "n4 = 0 \<or> n4 = 1" "n5 = 0 \<or> n5 = 1" "n6 = 0 \<or> n6 = 1" using n by linarith+
  ultimately show ?thesis unfolding real branch_selected_def n by (elim disjE) simp_all
qed

lemma branch_parts:
  assumes "accepts L (branch_eval (r :: 'f branch_cols))"
  shows "accepts L (branch_eval_selectors r)" "accepts L (branch_eval_pc r)" "accepts L (branch_eval_branching r)" "accepts L (branch_eval_compare r)"
  using assms by (simp_all add: branch_eval_def)

lemma branch_flags:
  assumes "accepts L (branch_eval (r :: 'f branch_cols))"
  shows "branch_is_real r = 0 \<and> bc_is_branching r = 0 \<or> branch_is_real r = 1 \<and> (bc_is_branching r = 0 \<and> bc_not_branching r = 1 \<or> bc_is_branching r = 1)"
proof -
  have "branch_is_real r = 0 \<or> branch_is_real r = 1"
    using branch_selectors [OF branch_parts(1) [OF assms]] branch_selected_values(1) [of _ r] by blast
  then show ?thesis using branch_parts(2) [OF assms] by (auto simp: branch_eval_pc_def Let_def air when_not_def)
qed

lemma branch_sent:
  assumes "asserts (branch_eval (r :: 'f branch_cols))" "(vs, m) \<in> set (sends k (branch_eval r))"
  shows "m = 1"
proof -
  have "m = branch_is_real r \<or> m = bc_is_branching r" using assms(2) unfolding branch_sends
    by (auto simp: air branch_eval_compare_def Let_def assert_word_eq_def limbs_eq dest: word_range_sends(2) split: if_splits)
  moreover have "m \<noteq> 0" using assms(2) sends_nonzero by metis
  ultimately show ?thesis using branch_flags assms(1) unfolding asserts_def by metis
qed

lemma branch_received:
  assumes "asserts (branch_eval (r :: 'f branch_cols))" "(vs, m) \<in> set (receives Instruction_kind (branch_eval r))"
  shows "m = 1"
  using assms branch_flags [of "\<lambda>_ _. True" r] by (auto simp: branch_receives asserts_def split: if_splits)

lemma branch_requested:
  assumes "asserts (branch_eval (r :: 'f branch_cols))" "(vs, m) \<in> set (sends Instruction_kind (branch_eval r))"
  shows "\<exists>opc\<in>{ADD, SLT, SLTU}. alu_request opc vs"
proof (cases "branch_is_real r = 0")
  case True
  then have "bc_is_branching r = 0" using branch_flags assms(1) unfolding asserts_def by (metis zero_neq_one)
  then show ?thesis using assms(2) True unfolding branch_sends
    by (simp add: word_range_sends air branch_eval_compare_def Let_def assert_word_eq_def limbs_eq)
next
  case False
  then obtain opc where opc: "opc \<in> branch_opcodes" "branch_selected opc r"
    using branch_selectors [OF branch_parts(1)] assms(1) unfolding asserts_def by metis
  show ?thesis using assms(2) unfolding branch_sends branch_eval_compare_def Let_def branch_selected_values [OF opc(2,1)]
    by (auto simp: word_range_sends air assert_word_eq_def limbs_eq alu_request_def unused_msg_def split: if_splits)
qed

end

lemma branch_no_bytes: "receives Byte_kind (branch_eval r) = []"
  by (simp add: branch_receives)

lemma branch_idle: "accepts L (branch_eval (branch_zero :: 'f::field branch_cols))" "receives k (branch_eval (branch_zero :: 'f::field branch_cols)) = []"
proof -
  have r: "branch_is_real (branch_zero :: 'f branch_cols) = 0" by (simp add: branch_is_real_def branch_zero_def)
  show "receives k (branch_eval (branch_zero :: 'f branch_cols)) = []" by (simp add: branch_receives r)
  show "accepts L (branch_eval (branch_zero :: 'f branch_cols))"
    unfolding branch_eval_def branch_eval_selectors_def branch_eval_receive_def branch_eval_pc_def branch_eval_compare_def branch_eval_branching_def r
    by (simp add: branch_zero_def Let_def air when_not_def assert_word_eq_def limbs_eq word_zero_def)
qed

lemma slt_linear: "slt_i32 x y \<or> x = y \<or> slt_i32 y x" "\<not> (slt_i32 x y \<and> slt_i32 y x)" "\<not> slt_i32 x x"
  using signed_word_eqI [of x y] by (auto simp: slt_i32_def)

lemma extend_bool: "extend_expr (from_bool b) = word_from (bool_u32 b)"
  by (simp add: extend_expr_def word_from_def le_bytes_def bool_u32_def from_bool_def)

section \<open>Soundness\<close>

context prime_field32
begin

lemma branch_decision:
  assumes acc: "accepts L (branch_eval_branching (r :: 'f branch_cols))" and opc: "branch_selected opc r" "opc \<in> branch_opcodes"
    and lt: "bc_a_lt_b r = from_bool (if opc = BLT \<or> opc = BGE then slt_i32 x y else x < y)"
    and gt: "bc_a_gt_b r = from_bool (if opc = BLT \<or> opc = BGE then slt_i32 y x else y < x)"
    and eq: "bc_a_eq_b r = 1 \<Longrightarrow> x = y" and b: "bc_is_branching r = from_bool t"
  shows "branch_taken opc x y = Inr t"
proof -
  have s: "bc_is_beq r = from_bool (opc = BEQ)" "bc_is_bne r = from_bool (opc = BNE)" "bc_is_blt r = from_bool (opc = BLT)"
    "bc_is_bge r = from_bool (opc = BGE)" "bc_is_bltu r = from_bool (opc = BLTU)" "bc_is_bgeu r = from_bool (opc = BGEU)"
    using opc(1) by (simp_all add: branch_selected_def)
  show ?thesis
    using opc(2) acc eq b unfolding branch_eval_branching_def lt gt s
    by (cases t) (auto simp: air when_not_def slt_i32_def from_bool_def split: if_splits)
qed

lemma branch_sound:
  assumes acc: "accepts (alu_lookups D) (branch_eval (r :: 'f branch_cols))" and recv: "(vs, m) \<in> set (receives Instruction_kind (branch_eval r))"
  shows "branch_right vs"
proof -
  have real: "branch_is_real r \<noteq> 0" using recv by (auto simp: branch_receives split: if_splits)
  then obtain opc where opc: "opc \<in> branch_opcodes" "branch_selected opc r" using branch_selectors [OF branch_parts(1) [OF acc]] by blast
  note v = branch_selected_values [OF opc(2,1)]
  have vs: "vs = instruction_values (flow_msg (reduce (bc_pc r)) (reduce (bc_next_pc r)) (opcode_field opc) (bc_op_a_value r) (bc_op_b_value r) (bc_op_c_value r) (bc_op_a_0 r) 1)"
    using recv by (simp add: branch_receives v)
  note pcs = branch_parts(2) [OF acc, unfolded branch_eval_pc_def Let_def v accepts_simps]
  note cmp = branch_parts(4) [OF acc, unfolded branch_eval_compare_def Let_def v accepts_simps]
  have "\<exists>t. branch_target opc q x y w = Inr t \<and> reduce (bc_next_pc r) = from_canonical_u32 t \<and> (t = q + 4 \<or> unat t < ORDER)"
    if q: "reduce (bc_pc r) = from_canonical_u32 q" "unat q < ORDER" and w: "bc_op_a_value r = word_from x" "bc_op_b_value r = word_from y" "bc_op_c_value r = word_from w" for q x y w
  proof -
    have lt: "bc_a_lt_b r = from_bool (if opc = BLT \<or> opc = BGE then slt_i32 x y else x < y)"
      "bc_a_gt_b r = from_bool (if opc = BLT \<or> opc = BGE then slt_i32 y x else y < x)"
      by (rule compare_answered [of D], use cmp in \<open>simp add: air w\<close>)+
    have eq: "x = y" if "bc_a_eq_b r = 1"
      using cmp that word_from_inject [of x y] by (simp add: assert_word_eq_def limbs_eq air w word4_eq)
    note taken = branch_decision [OF branch_parts(3) [OF acc] opc(2,1) lt eq]
    consider "bc_is_branching r = 0" "bc_not_branching r = 1" | "bc_is_branching r = 1" using branch_flags [OF acc] v(1) by auto
    then show ?thesis
    proof cases
      case 1
      have "unat (q + 4) = unat q + 4" using q(2) by (simp add: unat_word_ariths ORDER_def)
      then have "reduce (bc_next_pc r) = from_canonical_u32 (q + 4)" using pcs 1 q(1) by (simp add: air from_canonical_u32_def)
      then show ?thesis using taken [of False] 1 by (simp add: branch_target_def)
    next
      case 2
      then obtain p w' where pw: "bc_pc r = word_from p" "bc_op_c_value r = word_from w'" "bc_next_pc r = word_from (p + w')"
        using pcs by (auto simp: air elim!: add_answered)
      have less: "unat p < ORDER" "unat (p + w') < ORDER"
        by (rule word_range_sound [of "alu_lookups D" p "bc_pc_range_checker r" 1], use pcs pw in simp_all)
          (rule word_range_sound [of "alu_lookups D" "p + w'" "bc_next_pc_range_checker r" 1], use pcs pw in simp_all)
      then have "p = q" using q from_canonical_u32_inject [of p q] by (simp add: pw reduce_word_from)
      moreover have "w' = w" using pw(2) w(3) by simp
      ultimately show ?thesis using taken [of True] 2 pw less by (simp add: branch_target_def reduce_word_from)
    qed
  qed
  then show ?thesis unfolding branch_right_def vs using opc(1) by blast
qed

section \<open>Completeness\<close>

lemma branch_decision_complete:
  assumes opc: "branch_selected opc (r :: 'f branch_cols)" "opc \<in> branch_opcodes" and t: "branch_taken opc x y = Inr t"
    and v: "bc_a_lt_b r = from_bool (if opc = BLT \<or> opc = BGE then slt_i32 x y else x < y)"
      "bc_a_gt_b r = from_bool (if opc = BLT \<or> opc = BGE then slt_i32 y x else y < x)"
      "bc_a_eq_b r = from_bool (x = y)" "bc_is_branching r = from_bool t"
  shows "accepts L (branch_eval_branching r)"
proof -
  have s: "bc_is_beq r = from_bool (opc = BEQ)" "bc_is_bne r = from_bool (opc = BNE)" "bc_is_blt r = from_bool (opc = BLT)"
    "bc_is_bge r = from_bool (opc = BGE)" "bc_is_bltu r = from_bool (opc = BLTU)" "bc_is_bgeu r = from_bool (opc = BGEU)"
    using opc(1) by (simp_all add: branch_selected_def)
  show ?thesis
    using opc(2) t slt_linear(1,2) [of x y] slt_linear(3) [of x] unfolding branch_eval_branching_def s v
    by (elim insertE emptyE) (auto simp: air when_not_def from_bool_def)
qed

lemma branch_complete:
  assumes "branch_event_ok e"
  shows "\<exists>r ls. branch_row as_canonical_u32 e = Inr (r :: 'f branch_cols, ls) \<and> honest {ADD, SLT, SLTU} [branch_msg e] (branch_emits e) ls (branch_eval r)"
proof -
  note ok = assms [unfolded branch_event_ok_def]
  obtain t where t: "branch_taken (br_opcode e) (br_a e) (br_b e) = Inr t" "br_next_pc e = (if t then br_pc e + br_c e else br_pc e + 4)"
    using ok by (auto simp: branch_target_def res_simps)
  obtain c1 l1 where p1: "word_range_populate as_canonical_u32 (word_from (br_pc e)) = (c1, l1)" by (metis prod.exhaust)
  obtain c2 l2 where p2: "word_range_populate as_canonical_u32 (word_from (br_next_pc e)) = (c2, l2)" by (metis prod.exhaust)
  let ?s = "br_opcode e = BLT \<or> br_opcode e = BGE"
  let ?lt = "\<lambda>x y. if ?s then slt_i32 x y else x < y"
  let ?r = "\<lparr>bc_pc = word_from (br_pc e), bc_pc_range_checker = c1, bc_next_pc = word_from (br_next_pc e), bc_next_pc_range_checker = c2,
    bc_op_a_value = word_from (br_a e), bc_op_b_value = word_from (br_b e), bc_op_c_value = word_from (br_c e), bc_op_a_0 = from_bool (br_op_a_0 e),
    bc_is_beq = from_bool (br_opcode e = BEQ), bc_is_bne = from_bool (br_opcode e = BNE), bc_is_blt = from_bool (br_opcode e = BLT),
    bc_is_bge = from_bool (br_opcode e = BGE), bc_is_bltu = from_bool (br_opcode e = BLTU), bc_is_bgeu = from_bool (br_opcode e = BGEU),
    bc_is_branching = from_bool t, bc_not_branching = from_bool (\<not> t), bc_a_eq_b = from_bool (br_a e = br_b e),
    bc_a_gt_b = from_bool (?lt (br_b e) (br_a e)), bc_a_lt_b = from_bool (?lt (br_a e) (br_b e))\<rparr> :: 'f branch_cols"
  have row: "branch_row as_canonical_u32 e = Inr (?r, l1 @ l2)"
    using ok t(1) slt_linear(1,2) [of "br_a e" "br_b e"] slt_linear(3) [of "br_a e"] unfolding branch_row_def Let_def p1 p2 by auto
  have sel: "branch_selected (br_opcode e) ?r" by (simp add: branch_selected_def)
  note v = branch_selected_values [OF sel, OF conjunct1 [OF ok]]
  have inst: "sends Instruction_kind (branch_eval ?r) = map (\<lambda>d. once (event_msg d)) (branch_emits e)"
    unfolding branch_sends branch_eval_compare_def Let_def v branch_emits_def t(1)
    by (simp add: t(2) word_range_sends air assert_word_eq_def limbs_eq event_msg_dep extend_bool)
  have bytes: "sends Byte_kind (branch_eval ?r) = requests (l1 @ l2)"
    unfolding branch_sends branch_eval_compare_def Let_def v using ok p1 p2
    by (simp add: word_range_complete(2) air assert_word_eq_def limbs_eq)
  have four: "unat (br_pc e + 4) = unat (br_pc e) + 4" using ok by (simp add: unat_word_ariths ORDER_def)
  have "asserts (branch_eval ?r)"
    unfolding asserts_def branch_eval_def accepts_simps
  proof (intro conjI)
    show "accepts (\<lambda>_ _. True) (branch_eval_selectors ?r)" unfolding branch_eval_selectors_def v by (simp add: air from_bool_def)
    show "accepts (\<lambda>_ _. True) (branch_eval_receive ?r)" by (simp add: branch_eval_receive_def air)
    show "accepts (\<lambda>_ _. True) (branch_eval_pc ?r)"
      unfolding branch_eval_pc_def Let_def v accepts_simps
      using word_range_complete(1) [OF _ p1] word_range_complete(1) [OF _ p2] ok
      by (simp add: asserts_def air when_not_def from_bool_def t(2) reduce_word_from from_canonical_u32_def four del: of_nat_unat)
    show "accepts (\<lambda>_ _. True) (branch_eval_branching ?r)"
      by (rule branch_decision_complete [OF sel _ t(1)]) (use ok in simp_all)
    show "accepts (\<lambda>_ _. True) (branch_eval_compare ?r)"
      unfolding branch_eval_compare_def Let_def v by (simp add: air assert_word_eq_def limbs_eq from_bool_def)
  qed
  then have "honest {ADD, SLT, SLTU} [branch_msg e] (branch_emits e) (l1 @ l2) (branch_eval ?r)"
  proof (rule honestI [OF _ _ _ bytes _ inst])
    show "receives Byte_kind (branch_eval ?r) = []" by (rule branch_no_bytes)
    show "receives Instruction_kind (branch_eval ?r) = map once [branch_msg e]"
      unfolding branch_receives v by (simp add: branch_msg_def reduce_word_from)
    show "byte_event_ok l" if "l \<in> set (l1 @ l2)" for l using that word_range_lookups p1 p2 by auto
    show "dep_event_ok {ADD, SLT, SLTU} d" if "d \<in> set (branch_emits e)" for d
      using that by (auto simp: branch_emits_def Let_def dep_event_ok_def alu_ok_dep bool_u32_def split: if_splits)
  qed
  then show ?thesis using row by blast
qed

end

interpretation branch: instruction_chip "\<lambda>x. nat (rep_bb x)" "branch_eval :: bb branch_cols \<Rightarrow> _" "branch_row (\<lambda>x. nat (rep_bb x))" branch_zero
  "{ADD, SLT, SLTU}" branch_right branch_event_ok branch_msg branch_emits
  by unfold_locales
    (rule branch_no_bytes branch_idle | erule (1) bb.branch_requested | erule (1) bb.branch_received | erule (1) bb.branch_sent |
     erule (1) bb.branch_sound | erule bb.branch_complete)+

lemma branch_answered:
  assumes "asserts (branch_eval (r :: bb branch_cols))" "(vs, m) \<in> set (receives Instruction_kind (branch_eval r))"
  shows "opcode_in branch_opcodes vs"
proof -
  have real: "branch_is_real r \<noteq> 0" using assms(2) by (auto simp: branch_receives split: if_splits)
  then obtain opc where opc: "opc \<in> branch_opcodes" "branch_selected opc r"
    using bb.branch_selectors [OF bb.branch_parts(1)] assms(1) unfolding asserts_def by metis
  have "im_opcode (flow_msg (reduce (bc_pc r)) (reduce (bc_next_pc r)) (branch_opcode_value r) (bc_op_a_value r) (bc_op_b_value r)
      (bc_op_c_value r) (bc_op_a_0 r) 1) \<in> opcode_field ` branch_opcodes"
    unfolding branch_selected_values(2) [OF opc(2,1)] flow_msg_sel using opc(1) by (rule imageI)
  moreover have "vs = instruction_values (flow_msg (reduce (bc_pc r)) (reduce (bc_next_pc r)) (branch_opcode_value r) (bc_op_a_value r) (bc_op_b_value r)
      (bc_op_c_value r) (bc_op_a_0 r) 1)" using assms(2) by (auto simp: branch_receives split: if_splits)
  ultimately show ?thesis unfolding opcode_in_def by blast
qed

text \<open>The executor emits just the events that the row requests.\<close>

lemma branch_new_events:
  assumes "br_opcode e \<in> branch_opcodes"
  shows "\<exists>s'. emit_branch_dependencies e s = Inr s' \<and> mset (new_events (exec_record s) (exec_record s')) = mset (branch_emits e)"
  using assms slt_linear(1,2) [of "br_a e" "br_b e"] slt_linear(3) [of "br_a e"] unfolding emit_branch_dependencies_def branch_emits_def Let_def
  by (elim insertE emptyE) (auto simp: new_events_def push_add_def push_lt_def)

end
