(* ===== verification/SP1_Chip_Jump.thy ===== *)
theory SP1_Chip_Jump
  imports SP1_Word_Range
begin

text \<open>
  The table of the jumps, \<open>crates/core/machine/src/control_flow/jump\<close> (\<open>columns.rs\<close>,
  \<open>trace.rs\<close>, \<open>air.rs\<close>).
\<close>

section \<open>The jump chip\<close>

record 'f jump_cols =
  jc_pc :: "'f word4"
  jc_pc_range_checker :: "'f word_range_checker"
  jc_next_pc :: "'f word4"
  jc_next_pc_range_checker :: "'f word_range_checker"
  jc_op_a_value :: "'f word4"
  jc_op_b_value :: "'f word4"
  jc_op_c_value :: "'f word4"
  jc_op_a_0 :: 'f
  jc_is_jal :: 'f
  jc_is_jalr :: 'f
  jc_op_a_range_checker :: "'f word_range_checker"

definition jump_zero :: "'f::field jump_cols" where
  "jump_zero = \<lparr>jc_pc = word_zero, jc_pc_range_checker = word_range_zero, jc_next_pc = word_zero, jc_next_pc_range_checker = word_range_zero,
     jc_op_a_value = word_zero, jc_op_b_value = word_zero, jc_op_c_value = word_zero, jc_op_a_0 = 0, jc_is_jal = 0, jc_is_jalr = 0,
     jc_op_a_range_checker = word_range_zero\<rparr>"

definition jump_target :: "opcode \<Rightarrow> u32 \<Rightarrow> u32 \<Rightarrow> u32 \<Rightarrow> u32 res" where
  "jump_target opc p b c = (case opc of JAL \<Rightarrow> Inr (p + b) | JALR \<Rightarrow> Inr (b + c) | _ \<Rightarrow> Inl Panic)"

definition jump_row :: "('f \<Rightarrow> nat) \<Rightarrow> jump_event \<Rightarrow> ('f::field jump_cols \<times> byte_lookup_event list) res" where
  "jump_row as_canonical_u32 event =
     (let (op_a_range_checker, ls1) = word_range_populate as_canonical_u32 (word_from (jp_a event));
          (pc_range_checker, ls2) = word_range_populate as_canonical_u32 (word_from (jp_pc event))
      in rbind (jump_target (jp_opcode event) (jp_pc event) (jp_b event) (jp_c event)) (\<lambda>next_pc.
         let (next_pc_range_checker, ls3) = word_range_populate as_canonical_u32 (word_from next_pc)
         in Inr (\<lparr>jc_pc = word_from (jp_pc event), jc_pc_range_checker = pc_range_checker, jc_next_pc = word_from next_pc,
              jc_next_pc_range_checker = next_pc_range_checker, jc_op_a_value = word_from (jp_a event), jc_op_b_value = word_from (jp_b event),
              jc_op_c_value = word_from (jp_c event), jc_op_a_0 = from_bool (jp_op_a_0 event), jc_is_jal = from_bool (jp_opcode event = JAL),
              jc_is_jalr = from_bool (jp_opcode event = JALR), jc_op_a_range_checker = op_a_range_checker\<rparr>, ls1 @ ls2 @ ls3)))"

definition jump_eval :: "'f::field jump_cols \<Rightarrow> 'f action list" where
  "jump_eval local =
     (let is_real = jc_is_jal local + jc_is_jalr local;
          opc = jc_is_jal local * opcode_field JAL + jc_is_jalr local * opcode_field JALR
      in assert_bool (jc_is_jal local) @ assert_bool (jc_is_jalr local) @ assert_bool is_real @
         receive_instruction (flow_msg (reduce (jc_pc local)) (reduce (jc_next_pc local)) opc (jc_op_a_value local) (jc_op_b_value local)
           (jc_op_c_value local) (jc_op_a_0 local) 0) is_real @
         air_when is_real (when_not (jc_op_a_0 local) (assert_eq (reduce (jc_op_a_value local)) (reduce (jc_pc local) + 4))) @
         word_range_check (jc_op_a_value local) (jc_op_a_range_checker local) is_real @
         word_range_check (jc_pc local) (jc_pc_range_checker local) is_real @
         word_range_check (jc_next_pc local) (jc_next_pc_range_checker local) is_real @
         send_instruction (unused_msg (opcode_field ADD) (jc_next_pc local) (jc_pc local) (jc_op_b_value local)) (jc_is_jal local) @
         send_instruction (unused_msg (opcode_field ADD) (jc_next_pc local) (jc_op_b_value local) (jc_op_c_value local)) (jc_is_jalr local))"

definition jump_generate_trace :: "nat option \<Rightarrow> execution_record \<Rightarrow> bb jump_cols list res" where
  "jump_generate_trace size_log2 input = generate_trace (jump_row (\<lambda>x. nat (rep_bb x))) jump_zero size_log2 (jump_events input)"

definition jump_generate_dependencies :: "nat \<Rightarrow> nat option \<Rightarrow> execution_record \<Rightarrow> byte_lookups \<Rightarrow> byte_lookups res" where
  "jump_generate_dependencies num_cpus size_log2 input output =
     trace_dependencies num_cpus (jump_row (\<lambda>x. nat (rep_bb x))) size_log2 (jump_events input) output"

definition jump_included :: "bool option \<Rightarrow> execution_record \<Rightarrow> bool" where
  "jump_included in_shape shard = included in_shape (jump_events shard)"

text \<open>
  A right answer: if the operands are words and the program counter is less than the order of the
  field, the next program counter is the target, which is less than the order, and unless the
  destination is register 0, the result is the address of the next instruction, if that is less
  than the order.
\<close>

definition jump_right :: "'f::field list \<Rightarrow> bool" where
  "jump_right vs \<longleftrightarrow> (\<exists>opc\<in>{JAL, JALR}. \<exists>p n a b c z. vs = instruction_values (flow_msg p n (opcode_field opc) a b c z 0)
     \<and> (\<forall>q y w. p = from_canonical_u32 q \<and> unat q < ORDER \<and> b = word_from y \<and> c = word_from w
         \<longrightarrow> (\<exists>t. jump_target opc q y w = Inr t \<and> unat t < ORDER \<and> n = from_canonical_u32 t))
     \<and> (\<forall>q x. z = 0 \<and> p = from_canonical_u32 q \<and> unat q + 4 < ORDER \<and> a = word_from x \<longrightarrow> x = q + 4))"

definition jump_event_ok :: "jump_event \<Rightarrow> bool" where
  "jump_event_ok e \<longleftrightarrow> jp_opcode e \<in> {JAL, JALR} \<and> unat (jp_pc e) < ORDER \<and> unat (jp_next_pc e) < ORDER \<and> unat (jp_a e) < ORDER
     \<and> jump_target (jp_opcode e) (jp_pc e) (jp_b e) (jp_c e) = Inr (jp_next_pc e) \<and> (\<not> jp_op_a_0 e \<longrightarrow> jp_a e = jp_pc e + 4)"

definition jump_msg :: "jump_event \<Rightarrow> 'f::field instruction_msg" where
  "jump_msg e = flow_msg (from_canonical_u32 (jp_pc e)) (from_canonical_u32 (jp_next_pc e)) (opcode_field (jp_opcode e))
     (word_from (jp_a e)) (word_from (jp_b e)) (word_from (jp_c e)) (from_bool (jp_op_a_0 e)) 0"

definition jump_emits :: "jump_event \<Rightarrow> alu_event list" where
  "jump_emits e = (if jp_opcode e = JAL then [dep_event ADD (jp_pc e + jp_b e) (jp_pc e) (jp_b e)]
     else [dep_event ADD (jp_b e + jp_c e) (jp_b e) (jp_c e)])"

lemma jump_receives:
  "receives k (jump_eval r) = (if k = Instruction_kind \<and> jc_is_jal r + jc_is_jalr r \<noteq> 0 then
     [(instruction_values (flow_msg (reduce (jc_pc r)) (reduce (jc_next_pc r)) (jc_is_jal r * opcode_field JAL + jc_is_jalr r * opcode_field JALR)
        (jc_op_a_value r) (jc_op_b_value r) (jc_op_c_value r) (jc_op_a_0 r) 0), jc_is_jal r + jc_is_jalr r)] else [])"
  by (auto simp: jump_eval_def Let_def air when_not_def)

lemma jump_sends:
  "sends k (jump_eval r) = sends k (word_range_check (jc_op_a_value r) (jc_op_a_range_checker r) (jc_is_jal r + jc_is_jalr r))
     @ sends k (word_range_check (jc_pc r) (jc_pc_range_checker r) (jc_is_jal r + jc_is_jalr r))
     @ sends k (word_range_check (jc_next_pc r) (jc_next_pc_range_checker r) (jc_is_jal r + jc_is_jalr r))
     @ sends k (send_instruction (unused_msg (opcode_field ADD) (jc_next_pc r) (jc_pc r) (jc_op_b_value r)) (jc_is_jal r))
     @ sends k (send_instruction (unused_msg (opcode_field ADD) (jc_next_pc r) (jc_op_b_value r) (jc_op_c_value r)) (jc_is_jalr r))"
  by (simp add: jump_eval_def Let_def air when_not_def)

context prime_field32
begin

lemma jump_selectors:
  assumes "accepts L (jump_eval (r :: 'f jump_cols))"
  shows "jc_is_jal r = 0 \<and> jc_is_jalr r = 0 \<or> jc_is_jal r = 1 \<and> jc_is_jalr r = 0 \<or> jc_is_jal r = 0 \<and> jc_is_jalr r = 1"
  using assms by (intro two_selectors) (simp_all add: jump_eval_def Let_def assert_bool_def)

lemma jump_sent:
  assumes "asserts (jump_eval (r :: 'f jump_cols))" "(vs, m) \<in> set (sends k (jump_eval r))"
  shows "m = 1"
proof -
  have "m = jc_is_jal r + jc_is_jalr r \<or> m = jc_is_jal r \<or> m = jc_is_jalr r" using assms(2) unfolding jump_sends
    by (auto simp: air dest: word_range_sends(2) split: if_splits)
  moreover have "m \<noteq> 0" using assms(2) sends_nonzero by metis
  ultimately show ?thesis using jump_selectors [OF assms(1) [unfolded asserts_def]] by auto
qed

lemma jump_received:
  assumes "asserts (jump_eval (r :: 'f jump_cols))" "(vs, m) \<in> set (receives Instruction_kind (jump_eval r))"
  shows "m = 1"
  using jump_selectors [OF assms(1) [unfolded asserts_def]] assms(2) by (auto simp: jump_receives split: if_splits)

lemma jump_sound:
  assumes acc: "accepts (alu_lookups D) (jump_eval (r :: 'f jump_cols))" and recv: "(vs, m) \<in> set (receives Instruction_kind (jump_eval r))"
  shows "jump_right vs"
proof -
  define opc where "opc = (if jc_is_jal r = 1 then JAL else JALR)"
  have sel: "jc_is_jal r = from_bool (opc = JAL)" "jc_is_jalr r = from_bool (opc = JALR)" "opc \<in> {JAL, JALR}"
    using jump_selectors [OF acc] recv by (auto simp: jump_receives opc_def split: if_splits)
  then have real: "jc_is_jal r + jc_is_jalr r = 1" by auto
  have vs: "vs = instruction_values (flow_msg (reduce (jc_pc r)) (reduce (jc_next_pc r)) (opcode_field opc) (jc_op_a_value r) (jc_op_b_value r) (jc_op_c_value r) (jc_op_a_0 r) 0)"
    using recv sel by (auto simp: jump_receives split: if_splits)
  note a = acc [unfolded jump_eval_def Let_def real accepts_simps]
  have range: "unat x < ORDER" if "jc_op_a_value r = word_from x" for x
    by (rule word_range_sound [of "alu_lookups D" x "jc_op_a_range_checker r" 1]) (use a that in simp_all)
  have range_pc: "unat x < ORDER" if "jc_pc r = word_from x" for x
    by (rule word_range_sound [of "alu_lookups D" x "jc_pc_range_checker r" 1]) (use a that in simp_all)
  have range_next: "unat x < ORDER" if "jc_next_pc r = word_from x" for x
    by (rule word_range_sound [of "alu_lookups D" x "jc_next_pc_range_checker r" 1]) (use a that in simp_all)
  have "\<exists>t. jump_target opc q y w = Inr t \<and> unat t < ORDER \<and> reduce (jc_next_pc r) = from_canonical_u32 t"
    if q: "reduce (jc_pc r) = from_canonical_u32 q" "unat q < ORDER" and w: "jc_op_b_value r = word_from y" "jc_op_c_value r = word_from w" for q y w
  proof (cases "opc = JAL")
    case True
    then obtain p y' where p: "jc_pc r = word_from p" "jc_op_b_value r = word_from y'" "jc_next_pc r = word_from (p + y')"
      using a sel by (auto simp: air elim!: add_answered)
    have "p = q" using q range_pc p from_canonical_u32_inject [of p q] by (simp add: reduce_word_from)
    then show ?thesis using True p w(1) range_next by (simp add: jump_target_def reduce_word_from)
  next
    case False
    then have "opc = JALR" using sel by blast
    moreover from this obtain y' w' where "jc_op_b_value r = word_from y'" "jc_op_c_value r = word_from w'" "jc_next_pc r = word_from (y' + w')"
      using a sel by (auto simp: air elim!: add_answered)
    ultimately show ?thesis using w range_next by (simp add: jump_target_def reduce_word_from)
  qed
  moreover have "x = q + 4" if "jc_op_a_0 r = 0" "reduce (jc_pc r) = from_canonical_u32 q" "unat q + 4 < ORDER" "jc_op_a_value r = word_from x" for q x
  proof -
    have u: "unat (q + 4) = unat q + 4" using that(3) by (simp add: unat_word_ariths ORDER_def)
    have "reduce (jc_op_a_value r) = reduce (jc_pc r) + 4" using a that(1) by (simp add: air when_not_def)
    then have "from_canonical_u32 x = (from_canonical_u32 (q + 4) :: 'f)"
      using that by (simp add: reduce_word_from from_canonical_u32_def u)
    then show ?thesis using from_canonical_u32_inject [OF range, of x "q + 4"] that(3,4) u by simp
  qed
  ultimately show ?thesis unfolding jump_right_def vs using sel(3) by blast
qed

lemma jump_complete:
  assumes "jump_event_ok e"
  shows "\<exists>r ls. jump_row as_canonical_u32 e = Inr (r :: 'f jump_cols, ls) \<and> honest {ADD} [jump_msg e] (jump_emits e) ls (jump_eval r)"
proof -
  note ok = assms [unfolded jump_event_ok_def]
  obtain c1 l1 where p1: "word_range_populate as_canonical_u32 (word_from (jp_a e)) = (c1, l1)" by (metis prod.exhaust)
  obtain c2 l2 where p2: "word_range_populate as_canonical_u32 (word_from (jp_pc e)) = (c2, l2)" by (metis prod.exhaust)
  obtain c3 l3 where p3: "word_range_populate as_canonical_u32 (word_from (jp_next_pc e)) = (c3, l3)" by (metis prod.exhaust)
  let ?r = "\<lparr>jc_pc = word_from (jp_pc e), jc_pc_range_checker = c2, jc_next_pc = word_from (jp_next_pc e), jc_next_pc_range_checker = c3,
    jc_op_a_value = word_from (jp_a e), jc_op_b_value = word_from (jp_b e), jc_op_c_value = word_from (jp_c e), jc_op_a_0 = from_bool (jp_op_a_0 e),
    jc_is_jal = from_bool (jp_opcode e = JAL), jc_is_jalr = from_bool (jp_opcode e = JALR), jc_op_a_range_checker = c1\<rparr> :: 'f jump_cols"
  have row: "jump_row as_canonical_u32 e = Inr (?r, l1 @ l2 @ l3)" using ok by (simp add: jump_row_def Let_def p1 p2 p3)
  have real: "jc_is_jal ?r + jc_is_jalr ?r = 1" using ok by auto
  have four: "unat (jp_pc e + 4) = unat (jp_pc e) + 4" using ok by (simp add: unat_word_ariths ORDER_def)
  have "asserts (jump_eval ?r)"
    unfolding asserts_def jump_eval_def Let_def real accepts_simps
    using word_range_complete(1) [OF _ p1] word_range_complete(1) [OF _ p2] word_range_complete(1) [OF _ p3] ok
    by (auto simp: asserts_def air when_not_def from_bool_def reduce_word_from from_canonical_u32_def four simp del: of_nat_unat)
  then have "honest {ADD} [jump_msg e] (jump_emits e) (l1 @ l2 @ l3) (jump_eval ?r)"
  proof (rule honestI)
    show "receives Byte_kind (jump_eval ?r) = []" by (simp add: jump_receives)
    show "receives Instruction_kind (jump_eval ?r) = map once [jump_msg e]"
      unfolding jump_receives real using ok by (auto simp: jump_msg_def reduce_word_from)
    show "sends Byte_kind (jump_eval ?r) = requests (l1 @ l2 @ l3)"
      unfolding jump_sends real using ok p1 p2 p3 by (simp add: word_range_complete(2) air)
    show "byte_event_ok l" if "l \<in> set (l1 @ l2 @ l3)" for l using that word_range_lookups p1 p2 p3 by auto
    show "sends Instruction_kind (jump_eval ?r) = map (\<lambda>e. once (event_msg e)) (jump_emits e)"
      unfolding jump_sends real using ok by (auto simp: word_range_sends air event_msg_dep jump_emits_def jump_target_def)
    show "dep_event_ok {ADD} d" if "d \<in> set (jump_emits e)" for d
      using that by (auto simp: jump_emits_def dep_event_ok_def alu_ok_dep split: if_splits)
  qed
  then show ?thesis using row by blast
qed

lemma jump_requested:
  assumes "(vs, m) \<in> set (sends Instruction_kind (jump_eval (r :: 'f jump_cols)))"
  shows "\<exists>opc\<in>{ADD}. alu_request opc vs"
  using assms unfolding jump_sends by (auto simp: word_range_sends air alu_request_def unused_msg_def split: if_splits)

end

lemma jump_no_bytes: "receives Byte_kind (jump_eval r) = []"
  by (simp add: jump_receives)

lemma jump_idle: "accepts L (jump_eval (jump_zero :: 'f::field jump_cols))" "receives k (jump_eval (jump_zero :: 'f::field jump_cols)) = []"
  by (simp_all add: jump_eval_def jump_zero_def Let_def air when_not_def)

interpretation jump: instruction_chip "\<lambda>x. nat (rep_bb x)" "jump_eval :: bb jump_cols \<Rightarrow> _" "jump_row (\<lambda>x. nat (rep_bb x))" jump_zero
  "{ADD}" jump_right jump_event_ok jump_msg jump_emits
  by unfold_locales
    (rule jump_no_bytes jump_idle | erule bb.jump_requested | erule (1) bb.jump_received | erule (1) bb.jump_sent |
     erule (1) bb.jump_sound | erule bb.jump_complete)+

lemma jump_answered:
  assumes "asserts (jump_eval (r :: bb jump_cols))" "(vs, m) \<in> set (receives Instruction_kind (jump_eval r))"
  shows "opcode_in {JAL, JALR} vs"
proof -
  let ?i = "flow_msg (reduce (jc_pc r)) (reduce (jc_next_pc r)) (jc_is_jal r * opcode_field JAL + jc_is_jalr r * opcode_field JALR)
    (jc_op_a_value r) (jc_op_b_value r) (jc_op_c_value r) (jc_op_a_0 r) 0"
  have "vs = instruction_values ?i" using assms(2) by (auto simp: jump_receives split: if_splits)
  moreover have "im_opcode ?i \<in> opcode_field ` {JAL, JALR}"
    using bb.jump_selectors [OF assms(1) [unfolded asserts_def]] assms(2) by (auto simp: jump_receives)
  ultimately show ?thesis unfolding opcode_in_def by blast
qed

lemma jump_new_events:
  assumes "jp_opcode e \<in> {JAL, JALR}"
  shows "\<exists>s'. emit_jump_dependencies e s = Inr s' \<and> mset (new_events (exec_record s) (exec_record s')) = mset (jump_emits e)"
  using assms by (auto simp: emit_jump_dependencies_def jump_emits_def Let_def new_events_def push_add_def)

end
