(* ===== verification/SP1_Chip_Auipc.thy ===== *)
theory SP1_Chip_Auipc
  imports SP1_Word_Range
begin

text \<open>
  The table of AUIPC, UNIMP and EBREAK, \<open>crates/core/machine/src/control_flow/auipc.rs\<close>.
\<close>

section \<open>The chip\<close>

record 'f auipc_cols =
  ac_pc :: "'f word4"
  ac_op_a_value :: "'f word4"
  ac_op_b_value :: "'f word4"
  ac_op_c_value :: "'f word4"
  ac_op_a_not_0 :: 'f
  ac_pc_range_checker :: "'f word_range_checker"
  ac_is_auipc :: 'f
  ac_is_unimp :: 'f
  ac_is_ebreak :: 'f

definition auipc_zero :: "'f::field auipc_cols" where
  "auipc_zero = \<lparr>ac_pc = word_zero, ac_op_a_value = word_zero, ac_op_b_value = word_zero, ac_op_c_value = word_zero, ac_op_a_not_0 = 0,
     ac_pc_range_checker = word_range_zero, ac_is_auipc = 0, ac_is_unimp = 0, ac_is_ebreak = 0\<rparr>"

definition auipc_row :: "('f \<Rightarrow> nat) \<Rightarrow> auipc_event \<Rightarrow> ('f::field auipc_cols \<times> byte_lookup_event list) res" where
  "auipc_row as_canonical_u32 event =
     (let (pc_range_checker, blu) = (if au_opcode event = AUIPC then word_range_populate as_canonical_u32 (word_from (au_pc event))
            else (word_range_zero, []))
      in Inr (\<lparr>ac_pc = word_from (au_pc event), ac_op_a_value = word_from (au_a event), ac_op_b_value = word_from (au_b event),
           ac_op_c_value = word_from (au_c event), ac_op_a_not_0 = from_bool (\<not> au_op_a_0 event), ac_pc_range_checker = pc_range_checker,
           ac_is_auipc = from_bool (au_opcode event = AUIPC), ac_is_unimp = from_bool (au_opcode event = UNIMP),
           ac_is_ebreak = from_bool (au_opcode event = EBREAK)\<rparr>, blu))"

definition auipc_eval :: "'f::field auipc_cols \<Rightarrow> 'f action list" where
  "auipc_eval local =
     (let is_real = ac_is_auipc local + ac_is_unimp local + ac_is_ebreak local;
          opc = opcode_field AUIPC * ac_is_auipc local + opcode_field UNIMP * ac_is_unimp local + opcode_field EBREAK * ac_is_ebreak local
      in assert_bool (ac_is_auipc local) @ assert_bool (ac_is_unimp local) @ assert_bool (ac_is_ebreak local) @ assert_bool is_real @
         receive_instruction (flow_msg (reduce (ac_pc local)) (reduce (ac_pc local) + 4) opc (ac_op_a_value local) (ac_op_b_value local)
           (ac_op_c_value local) (1 - ac_op_a_not_0 local) 0) is_real @
         assert_zero (ac_is_unimp local) @ assert_zero (ac_is_ebreak local) @
         word_range_check (ac_pc local) (ac_pc_range_checker local) (ac_is_auipc local) @
         send_instruction (unused_msg (opcode_field ADD) (ac_op_a_value local) (ac_pc local) (ac_op_b_value local)) (ac_op_a_not_0 local) @
         air_when (ac_op_a_not_0 local) (assert_one is_real))"

definition auipc_generate_trace :: "nat option \<Rightarrow> execution_record \<Rightarrow> bb auipc_cols list res" where
  "auipc_generate_trace size_log2 input = generate_trace (auipc_row (\<lambda>x. nat (rep_bb x))) auipc_zero size_log2 (auipc_events input)"

definition auipc_generate_dependencies :: "nat \<Rightarrow> nat option \<Rightarrow> execution_record \<Rightarrow> byte_lookups \<Rightarrow> byte_lookups res" where
  "auipc_generate_dependencies num_cpus size_log2 input output =
     trace_dependencies num_cpus (auipc_row (\<lambda>x. nat (rep_bb x))) size_log2 (auipc_events input) output"

definition auipc_included :: "bool option \<Rightarrow> execution_record \<Rightarrow> bool" where
  "auipc_included in_shape shard = included in_shape (auipc_events shard)"

section \<open>The contract\<close>

text \<open>
  A right answer: it is for AUIPC, goes on to the next instruction, and unless the destination is
  register 0, the result is the program counter plus the immediate.
\<close>

definition auipc_right :: "'f::field list \<Rightarrow> bool" where
  "auipc_right vs \<longleftrightarrow> (\<exists>p a b c z. vs = instruction_values (flow_msg p (p + 4) (opcode_field AUIPC) a b c z 0)
     \<and> (\<forall>q y. z = 0 \<and> p = from_canonical_u32 q \<and> unat q < ORDER \<and> b = word_from y \<longrightarrow> a = word_from (q + y)))"

text \<open>
  An event of the executor at a program counter in the field, and whose destination is not register 0:
  for that one the executor emits an addition that the row does not request (\<open>SP1_Flow_Machine\<close>).
\<close>

definition auipc_event_ok :: "auipc_event \<Rightarrow> bool" where
  "auipc_event_ok e \<longleftrightarrow> au_opcode e = AUIPC \<and> unat (au_pc e) < ORDER \<and> \<not> au_op_a_0 e \<and> au_a e = au_pc e + au_b e"

definition auipc_msg :: "auipc_event \<Rightarrow> 'f::field instruction_msg" where
  "auipc_msg e = flow_msg (from_canonical_u32 (au_pc e)) (from_canonical_u32 (au_pc e) + 4) (opcode_field (au_opcode e))
     (word_from (au_a e)) (word_from (au_b e)) (word_from (au_c e)) (from_bool (au_op_a_0 e)) 0"

definition auipc_emits :: "auipc_event \<Rightarrow> alu_event list" where
  "auipc_emits e = [dep_event ADD (au_a e) (au_pc e) (au_b e)]"

lemma auipc_receives:
  "receives k (auipc_eval r) = (if k = Instruction_kind \<and> ac_is_auipc r + ac_is_unimp r + ac_is_ebreak r \<noteq> 0 then
     [(instruction_values (flow_msg (reduce (ac_pc r)) (reduce (ac_pc r) + 4)
        (opcode_field AUIPC * ac_is_auipc r + opcode_field UNIMP * ac_is_unimp r + opcode_field EBREAK * ac_is_ebreak r)
        (ac_op_a_value r) (ac_op_b_value r) (ac_op_c_value r) (1 - ac_op_a_not_0 r) 0), ac_is_auipc r + ac_is_unimp r + ac_is_ebreak r)] else [])"
  by (auto simp: auipc_eval_def Let_def air when_not_def)

lemma auipc_sends:
  "sends k (auipc_eval r) = sends k (word_range_check (ac_pc r) (ac_pc_range_checker r) (ac_is_auipc r))
     @ sends k (send_instruction (unused_msg (opcode_field ADD) (ac_op_a_value r) (ac_pc r) (ac_op_b_value r)) (ac_op_a_not_0 r))"
  by (simp add: auipc_eval_def Let_def air)

context prime_field32
begin

lemma auipc_selectors:
  assumes "accepts L (auipc_eval (r :: 'f auipc_cols))"
  shows "ac_is_unimp r = 0" "ac_is_ebreak r = 0" "ac_is_auipc r = 0 \<and> ac_op_a_not_0 r = 0 \<or> ac_is_auipc r = 1"
  using assms by (auto simp: auipc_eval_def Let_def air)

lemma auipc_received:
  assumes "asserts (auipc_eval (r :: 'f auipc_cols))" "(vs, m) \<in> set (receives Instruction_kind (auipc_eval r))"
  shows "m = 1"
  using auipc_selectors [OF assms(1) [unfolded asserts_def]] assms(2) by (auto simp: auipc_receives split: if_splits)

lemma auipc_sent:
  assumes a: "asserts (auipc_eval (r :: 'f auipc_cols))" and fl: "flags_bool (auipc_eval r)" and m: "(vs, m) \<in> set (sends k (auipc_eval r))"
  shows "m = 1"
proof -
  note s = auipc_selectors [OF a [unfolded asserts_def]]
  have "m = ac_is_auipc r \<or> m = ac_op_a_not_0 r" using m unfolding auipc_sends by (auto simp: air dest: word_range_sends(2) split: if_splits)
  moreover have nz: "m \<noteq> 0" using m sends_nonzero by metis
  ultimately have "ac_is_auipc r = 1" using s by auto
  then have "(instruction_values (flow_msg (reduce (ac_pc r)) (reduce (ac_pc r) + 4) (opcode_field AUIPC) (ac_op_a_value r) (ac_op_b_value r) (ac_op_c_value r) (1 - ac_op_a_not_0 r) 0), 1)
    \<in> set (receives Instruction_kind (auipc_eval r))" using s by (simp add: auipc_receives)
  then have "1 - ac_op_a_not_0 r = 0 \<or> 1 - ac_op_a_not_0 r = 1" using fl flow_msg_sel(2) unfolding flags_bool_def by metis
  then show ?thesis using \<open>ac_is_auipc r = 1\<close> \<open>m = ac_is_auipc r \<or> m = ac_op_a_not_0 r\<close> nz by auto
qed

lemma auipc_requested:
  assumes "(vs, m) \<in> set (sends Instruction_kind (auipc_eval (r :: 'f auipc_cols)))"
  shows "\<exists>opc\<in>{ADD}. alu_request opc vs"
  using assms unfolding auipc_sends by (auto simp: word_range_sends air alu_request_def unused_msg_def split: if_splits)

lemma auipc_sound:
  assumes acc: "accepts (alu_lookups D) (auipc_eval (r :: 'f auipc_cols))" and recv: "(vs, m) \<in> set (receives Instruction_kind (auipc_eval r))"
  shows "auipc_right vs"
proof -
  have s: "ac_is_unimp r = 0" "ac_is_ebreak r = 0" "ac_is_auipc r = 1"
    using auipc_selectors [OF acc] recv by (auto simp: auipc_receives split: if_splits)
  have vs: "vs = instruction_values (flow_msg (reduce (ac_pc r)) (reduce (ac_pc r) + 4) (opcode_field AUIPC) (ac_op_a_value r) (ac_op_b_value r) (ac_op_c_value r) (1 - ac_op_a_not_0 r) 0)"
    using recv by (simp add: auipc_receives s)
  have "ac_op_a_value r = word_from (q + y)"
    if q: "1 - ac_op_a_not_0 r = 0" "reduce (ac_pc r) = from_canonical_u32 q" "unat q < ORDER" "ac_op_b_value r = word_from y" for q y
  proof -
    have "ac_op_a_not_0 r = 1" using q(1) by simp
    then obtain p y' where p: "ac_pc r = word_from p" "ac_op_b_value r = word_from y'" "ac_op_a_value r = word_from (p + y')"
      using acc by (auto simp: auipc_eval_def Let_def air elim!: add_answered)
    have "unat p < ORDER" by (rule word_range_sound [of "alu_lookups D" p "ac_pc_range_checker r" 1]) (use acc s p in \<open>simp_all add: auipc_eval_def Let_def\<close>)
    then have "p = q" using q p from_canonical_u32_inject [of p q] by (simp add: reduce_word_from)
    then show ?thesis using p q(4) by simp
  qed
  then show ?thesis unfolding auipc_right_def vs by blast
qed

text \<open>The row of an AUIPC event: it requests the addition, unless the destination is register 0.\<close>

lemma auipc_row_complete:
  assumes "au_opcode e = AUIPC" "unat (au_pc e) < ORDER" "\<not> au_op_a_0 e \<longrightarrow> au_a e = au_pc e + au_b e"
  shows "\<exists>r ls. auipc_row as_canonical_u32 e = Inr (r :: 'f auipc_cols, ls)
    \<and> honest {ADD} [auipc_msg e] (if au_op_a_0 e then [] else auipc_emits e) ls (auipc_eval r)"
proof -
  obtain c1 ls where p: "word_range_populate as_canonical_u32 (word_from (au_pc e)) = (c1, ls)" by (metis prod.exhaust)
  let ?r = "\<lparr>ac_pc = word_from (au_pc e), ac_op_a_value = word_from (au_a e), ac_op_b_value = word_from (au_b e),
    ac_op_c_value = word_from (au_c e), ac_op_a_not_0 = from_bool (\<not> au_op_a_0 e), ac_pc_range_checker = c1,
    ac_is_auipc = 1, ac_is_unimp = 0, ac_is_ebreak = 0\<rparr> :: 'f auipc_cols"
  have row: "auipc_row as_canonical_u32 e = Inr (?r, ls)" using assms by (simp add: auipc_row_def Let_def p)
  have "asserts (auipc_eval ?r)"
    using word_range_complete(1) [OF assms(2) p] unfolding asserts_def auipc_eval_def Let_def accepts_simps by (simp add: air from_bool_def)
  then have "honest {ADD} [auipc_msg e] (if au_op_a_0 e then [] else auipc_emits e) ls (auipc_eval ?r)"
  proof (rule honestI)
    show "receives Byte_kind (auipc_eval ?r) = []" by (simp add: auipc_receives)
    show "receives Instruction_kind (auipc_eval ?r) = map once [auipc_msg e]"
      using assms(1) by (simp add: auipc_receives auipc_msg_def reduce_word_from from_bool_def)
    show "sends Byte_kind (auipc_eval ?r) = requests ls" using word_range_complete(2) [OF assms(2) p] by (simp add: auipc_sends air)
    show "byte_event_ok l" if "l \<in> set ls" for l using word_range_lookups [OF p that] .
    show "sends Instruction_kind (auipc_eval ?r) = map (\<lambda>d. once (event_msg d)) (if au_op_a_0 e then [] else auipc_emits e)"
      by (simp add: auipc_sends word_range_sends air event_msg_dep auipc_emits_def from_bool_def)
    show "dep_event_ok {ADD} d" if "d \<in> set (if au_op_a_0 e then [] else auipc_emits e)" for d
      using that assms(3) by (auto simp: auipc_emits_def dep_event_ok_def alu_ok_dep split: if_splits)
  qed
  then show ?thesis using row by blast
qed

lemma auipc_complete:
  assumes "auipc_event_ok e"
  shows "\<exists>r ls. auipc_row as_canonical_u32 e = Inr (r :: 'f auipc_cols, ls) \<and> honest {ADD} [auipc_msg e] (auipc_emits e) ls (auipc_eval r)"
  using auipc_row_complete [of e] assms by (simp add: auipc_event_ok_def)

end

lemma auipc_no_bytes: "receives Byte_kind (auipc_eval r) = []"
  by (simp add: auipc_receives)

lemma auipc_idle: "accepts L (auipc_eval (auipc_zero :: 'f::field auipc_cols))" "receives k (auipc_eval (auipc_zero :: 'f::field auipc_cols)) = []"
  by (simp_all add: auipc_eval_def auipc_zero_def Let_def air when_not_def)

interpretation auipc: instruction_chip "\<lambda>x. nat (rep_bb x)" "auipc_eval :: bb auipc_cols \<Rightarrow> _" "auipc_row (\<lambda>x. nat (rep_bb x))" auipc_zero
  "{ADD}" auipc_right auipc_event_ok auipc_msg auipc_emits
  by unfold_locales
    (rule auipc_no_bytes auipc_idle | erule bb.auipc_requested | erule (1) bb.auipc_received | erule (2) bb.auipc_sent |
     erule (1) bb.auipc_sound | erule bb.auipc_complete)+

lemma auipc_answered:
  assumes "asserts (auipc_eval (r :: bb auipc_cols))" "(vs, m) \<in> set (receives Instruction_kind (auipc_eval r))"
  shows "opcode_in {AUIPC} vs"
proof -
  have s: "ac_is_unimp r = 0" "ac_is_ebreak r = 0" "ac_is_auipc r = 1"
    using bb.auipc_selectors [OF assms(1) [unfolded asserts_def]] assms(2) by (auto simp: auipc_receives split: if_splits)
  let ?i = "flow_msg (reduce (ac_pc r)) (reduce (ac_pc r) + 4) (opcode_field AUIPC) (ac_op_a_value r) (ac_op_b_value r) (ac_op_c_value r) (1 - ac_op_a_not_0 r) 0"
  have "vs = instruction_values ?i" using assms(2) by (simp add: auipc_receives s)
  moreover have "im_opcode ?i \<in> opcode_field ` {AUIPC}" by simp
  ultimately show ?thesis unfolding opcode_in_def by blast
qed

lemma auipc_new_events: "new_events (exec_record s) (exec_record (emit_auipc_dependency e s)) = auipc_emits e"
  by (simp add: emit_auipc_dependency_def auipc_emits_def new_events_def push_add_def)

end
