(* ===== verification/SP1_Flow_Machine.thy ===== *)
theory SP1_Flow_Machine
  imports SP1_Alu_Machine SP1_Chip_Branch SP1_Chip_Jump SP1_Chip_Auipc
begin

text \<open>
  The ALU tables of a shard together with the control-flow tables (AUIPC, branches, jumps), whose
  additions and comparisons the ALU tables answer.
\<close>

section \<open>The tables\<close>

record flow_shard =
  sh_auipc :: "bb auipc_cols list"
  sh_branch :: "bb branch_cols list"
  sh_jump :: "bb jump_cols list"

definition flow_generate_traces :: "(string \<Rightarrow> bool option) \<Rightarrow> (string \<Rightarrow> nat option) \<Rightarrow> execution_record \<Rightarrow> flow_shard res" where
  "flow_generate_traces in_shape log2_rows input =
     rbind (shard_trace (auipc_included (in_shape ''Auipc'') input) (auipc_generate_trace (log2_rows ''Auipc'') input)) (\<lambda>auipc.
     rbind (shard_trace (branch_included (in_shape ''Branch'') input) (branch_generate_trace (log2_rows ''Branch'') input)) (\<lambda>branch.
     rbind (shard_trace (jump_included (in_shape ''Jump'') input) (jump_generate_trace (log2_rows ''Jump'') input)) (\<lambda>jump.
     Inr \<lparr>sh_auipc = auipc, sh_branch = branch, sh_jump = jump\<rparr>)))"

definition flow_generate_dependencies :: "nat \<Rightarrow> (string \<Rightarrow> nat option) \<Rightarrow> execution_record \<Rightarrow> byte_lookups \<Rightarrow> byte_lookups res" where
  "flow_generate_dependencies num_cpus log2_rows input =
     chip_dependencies [auipc_generate_dependencies num_cpus (log2_rows ''Auipc'') input,
       branch_generate_dependencies num_cpus (log2_rows ''Branch'') input, jump_generate_dependencies num_cpus (log2_rows ''Jump'') input]"

definition machine_generate_dependencies :: "nat \<Rightarrow> (string \<Rightarrow> nat option) \<Rightarrow> execution_record \<Rightarrow> byte_lookups \<Rightarrow> byte_lookups res" where
  "machine_generate_dependencies num_cpus log2_rows input blu =
     rbind (alu_generate_dependencies num_cpus log2_rows input blu) (flow_generate_dependencies num_cpus log2_rows input)"

definition flow_actions :: "flow_shard \<Rightarrow> bb action list" where
  "flow_actions f = concat (map auipc_eval (sh_auipc f)) @ concat (map branch_eval (sh_branch f)) @ concat (map jump_eval (sh_jump f))"

definition machine_messages :: "alu_shard \<Rightarrow> flow_shard \<Rightarrow> (u8 \<times> u8 \<Rightarrow> byte_opcode \<Rightarrow> bb) \<Rightarrow> bb action list \<Rightarrow> bb action list" where
  "machine_messages t f ms cs = messages (simple_actions t) (divrem_actions t @ flow_actions f) (byte_actions ms) cs"

abbreviation "flow_opcodes \<equiv> {AUIPC} \<union> (branch_opcodes \<union> {JAL, JALR})"

abbreviation "requested_opcodes \<equiv> {ADD, MUL, MULH, MULHU, SLT, SLTU}"

section \<open>Soundness\<close>

definition flow_right :: "bb list \<Rightarrow> bool" where
  "flow_right vs \<longleftrightarrow> auipc_right vs \<or> branch_right vs \<or> jump_right vs"

lemma flow_lawful:
  assumes "asserts (flow_actions f)"
  shows "lawful flow_right {ADD, SLT, SLTU} (flow_actions f)"
proof -
  have a: "asserts (concat (map auipc_eval (sh_auipc f)))" "asserts (concat (map branch_eval (sh_branch f)))" "asserts (concat (map jump_eval (sh_jump f)))"
    using assms by (simp_all add: flow_actions_def asserts_def)
  show ?thesis unfolding flow_actions_def
  proof (intro lawful_append)
    show "lawful flow_right {ADD, SLT, SLTU} (concat (map auipc_eval (sh_auipc f)))"
      by (rule lawful_mono [OF bb.lawful_used [OF auipc.rows_lawful [OF a(1)]]]) (auto simp: flow_right_def)
    show "lawful flow_right {ADD, SLT, SLTU} (concat (map branch_eval (sh_branch f)))"
      by (rule lawful_mono [OF branch.rows_lawful [OF a(2)]]) (auto simp: flow_right_def)
    show "lawful flow_right {ADD, SLT, SLTU} (concat (map jump_eval (sh_jump f)))"
      by (rule lawful_mono [OF bb.lawful_used [OF jump.rows_lawful [OF a(3)]]]) (auto simp: flow_right_def)
  qed
qed

lemma opcode_in_mono: "opcode_in o1 vs \<Longrightarrow> o1 \<subseteq> o2 \<Longrightarrow> opcode_in o2 vs"
  unfolding opcode_in_def by blast

lemma flow_answered:
  assumes "asserts (flow_actions f)" "(vs, m) \<in> set (receives Instruction_kind (flow_actions f))"
  shows "opcode_in flow_opcodes vs"
proof -
  consider r where "r \<in> set (sh_auipc f)" "(vs, m) \<in> set (receives Instruction_kind (auipc_eval r))"
    | r where "r \<in> set (sh_branch f)" "(vs, m) \<in> set (receives Instruction_kind (branch_eval r))"
    | r where "r \<in> set (sh_jump f)" "(vs, m) \<in> set (receives Instruction_kind (jump_eval r))"
    using assms(2) by (auto simp: flow_actions_def)
  then show ?thesis
  proof cases
    case 1
    moreover from this(1) have "asserts (auipc_eval r)" using assms(1) by (simp add: flow_actions_def asserts_def)
    ultimately show ?thesis using auipc_answered opcode_in_mono [of _ vs flow_opcodes] by (metis Un_upper1)
  next
    case 2
    moreover from this(1) have "asserts (branch_eval r)" using assms(1) by (simp add: flow_actions_def asserts_def)
    ultimately show ?thesis using branch_answered by (blast intro: opcode_in_mono)
  next
    case 3
    moreover from this(1) have "asserts (jump_eval r)" using assms(1) by (simp add: flow_actions_def asserts_def)
    ultimately show ?thesis using jump_answered by (blast intro: opcode_in_mono)
  qed
qed

text \<open>The result and the next program counter of an instruction, as the executor computes them.\<close>

definition instruction_result :: "opcode \<Rightarrow> u32 \<Rightarrow> u32 \<Rightarrow> u32 \<Rightarrow> u32 \<Rightarrow> (u32 \<times> u32) res" where
  "instruction_result opc p a b c =
     (if opc \<in> branch_opcodes then rbind (branch_target opc p a b c) (\<lambda>t. Inr (a, t))
      else if opc \<in> {JAL, JALR} then rbind (jump_target opc p b c) (\<lambda>t. Inr (p + 4, t))
      else if opc = AUIPC then Inr (p + b, p + 4)
      else rbind (alu_value opc b c) (\<lambda>v. Inr (v, p + 4)))"

definition machine_right :: "bb list \<Rightarrow> bool" where
  "machine_right vs \<longleftrightarrow> alu_right divrem_opcodes vs \<or> flow_right vs"

definition machine_ok :: "alu_shard \<Rightarrow> flow_shard \<Rightarrow> (u8 \<times> u8 \<Rightarrow> byte_opcode \<Rightarrow> bb) \<Rightarrow> bb action list \<Rightarrow> bool" where
  "machine_ok t f ms cs \<longleftrightarrow> asserts (simple_actions t) \<and> asserts (divrem_actions t) \<and> asserts (flow_actions f)
     \<and> client_ok (alu_opcodes \<union> flow_opcodes) cs \<and> balanced {Byte_kind, Instruction_kind} (machine_messages t f ms cs)
     \<and> few_messages (machine_messages t f ms cs)"

lemma machine_ok_alu:
  assumes "machine_ok t f ms cs"
  shows "alu_machine simple_opcodes (divrem_opcodes \<union> flow_opcodes) machine_right requested_opcodes (simple_actions t) (divrem_actions t @ flow_actions f) (byte_actions ms) cs"
proof -
  note m = assms [unfolded machine_ok_def]
  have "lawful machine_right requested_opcodes (divrem_actions t @ flow_actions f)"
  proof (rule lawful_append)
    show "lawful machine_right requested_opcodes (divrem_actions t)"
      by (rule lawful_mono [OF bb.lawful_used [OF divrem_lawful]]) (use m in \<open>auto simp: machine_right_def\<close>)
    show "lawful machine_right requested_opcodes (flow_actions f)"
      by (rule lawful_mono [OF bb.lawful_used [OF flow_lawful]]) (use m in \<open>auto simp: machine_right_def\<close>)
  qed
  moreover have "opcode_in (divrem_opcodes \<union> flow_opcodes) vs" if "(vs, k) \<in> set (receives Instruction_kind (divrem_actions t @ flow_actions f))" for vs k
  proof -
    have "opcode_in divrem_opcodes vs \<or> opcode_in flow_opcodes vs" using that divrem_rows_answered flow_answered m by (auto simp only: receives_append set_append Un_iff)
    then show ?thesis by (blast intro: opcode_in_mono)
  qed
  moreover have "client_ok (simple_opcodes \<union> (divrem_opcodes \<union> flow_opcodes)) cs" using m by (simp only: Un_assoc)
  ultimately show ?thesis
    unfolding alu_machine_def using simple_lawful [of t] m byte_actions_ok
    by (intro conjI ballI) (auto simp: machine_messages_def few_messages_def simp del: messages_sel)
qed

lemma alu_value_total: "opc \<in> alu_opcodes \<Longrightarrow> \<exists>v. alu_value opc x y = Inr v"
  by auto

lemma from_canonical_add_4: "unat q + 4 < ORDER \<Longrightarrow> from_canonical_u32 (q + 4) = (from_canonical_u32 q + 4 :: bb)"
  by (simp add: from_canonical_u32_def unat_word_ariths ORDER_def)

lemma right_result:
  assumes i: "im_opcode i = opcode_field opc" "im_pc i = from_canonical_u32 q" "unat q + 4 < ORDER"
    and w: "im_a i = word_from x" "im_b i = word_from y" "im_c i = word_from w"
  shows "alu_right alu_opcodes (instruction_values i :: bb list) \<or> flow_right (instruction_values i) \<Longrightarrow>
    \<exists>v n. instruction_result opc q x y w = Inr (v, n) \<and> im_next_pc i = from_canonical_u32 n \<and> (im_op_a_0 i = 0 \<longrightarrow> x = v)"
proof -
  have q: "unat q < ORDER" using i(3) by simp
  assume "alu_right alu_opcodes (instruction_values i :: bb list) \<or> flow_right (instruction_values i)"
  then consider "alu_right alu_opcodes (instruction_values i :: bb list)" | "auipc_right (instruction_values i)" | "branch_right (instruction_values i)" | "jump_right (instruction_values i)"
    unfolding flow_right_def by blast
  then show ?thesis
  proof cases
    case 1
    then obtain opc' where opc': "opc' \<in> alu_opcodes" "alu_answer opc' (instruction_values i)" unfolding alu_right_def by blast
    obtain p a b c z where a: "i = alu_msg p (opcode_field opc') a b c z" "\<And>x y. z = 0 \<and> b = word_from x \<and> c = word_from y \<longrightarrow> (\<exists>v. alu_value opc' x y = Inr v \<and> a = word_from v)"
      using opc'(2) unfolding alu_answer_def instruction_values_inject by blast
    have "opc' = opc" using i(1) unfolding a(1) by simp
    moreover obtain v where "alu_value opc' y w = Inr v" using alu_value_total [OF opc'(1)] by blast
    moreover have "opc' \<notin> branch_opcodes" "opc' \<notin> {JAL, JALR}" "opc' \<noteq> AUIPC" using opc'(1) by auto
    ultimately show ?thesis using a(2) [of y w] i w from_canonical_add_4 [OF i(3)] unfolding a(1) by (auto simp: instruction_result_def alu_msg_def)
  next
    case 2
    then obtain p a b c z where a: "i = flow_msg p (p + 4) (opcode_field AUIPC) a b c z 0"
      "\<And>q y. z = 0 \<and> p = from_canonical_u32 q \<and> unat q < ORDER \<and> b = word_from y \<longrightarrow> a = word_from (q + y)"
      unfolding auipc_right_def instruction_values_inject by blast
    then have "opc = AUIPC" using i(1) by simp
    then show ?thesis using a(2) [of q y] i(2) w q from_canonical_add_4 [OF i(3)] unfolding a(1) by (auto simp: instruction_result_def flow_msg_def)
  next
    case 3
    then obtain opc' p n a b c z where a: "opc' \<in> branch_opcodes" "i = flow_msg p n (opcode_field opc') a b c z 1"
      "\<And>q x y w. p = from_canonical_u32 q \<and> unat q < ORDER \<and> a = word_from x \<and> b = word_from y \<and> c = word_from w
         \<longrightarrow> (\<exists>t. branch_target opc' q x y w = Inr t \<and> n = from_canonical_u32 t \<and> (t = q + 4 \<or> unat t < ORDER))"
      unfolding branch_right_def instruction_values_inject by blast
    have "opc' = opc" using i(1) unfolding a(2) by simp
    moreover obtain t where "branch_target opc' q x y w = Inr t" "n = from_canonical_u32 t"
      using a(3) [of q x y w] i(2) w q unfolding a(2) by (auto simp: flow_msg_def)
    ultimately show ?thesis using a(1) w unfolding a(2) by (simp add: instruction_result_def flow_msg_def)
  next
    case 4
    then obtain opc' p n a b c z where a: "opc' \<in> {JAL, JALR}" "i = flow_msg p n (opcode_field opc') a b c z 0"
      "\<And>q y w. p = from_canonical_u32 q \<and> unat q < ORDER \<and> b = word_from y \<and> c = word_from w
         \<longrightarrow> (\<exists>t. jump_target opc' q y w = Inr t \<and> unat t < ORDER \<and> n = from_canonical_u32 t)"
      "\<And>q x. z = 0 \<and> p = from_canonical_u32 q \<and> unat q + 4 < ORDER \<and> a = word_from x \<longrightarrow> x = q + 4"
      unfolding jump_right_def instruction_values_inject by blast
    have "opc' = opc" using i(1) unfolding a(2) by simp
    moreover obtain t where "jump_target opc' q y w = Inr t" "n = from_canonical_u32 t"
      using a(3) [of q y w] i(2) w q unfolding a(2) by (auto simp: flow_msg_def)
    moreover have "opc' \<notin> branch_opcodes" using a(1) by auto
    ultimately show ?thesis using a(1) a(4) [of q x] i w unfolding a(2) by (auto simp: instruction_result_def flow_msg_def)
  qed
qed

lemma machine_answers:
  assumes m: "machine_ok t f ms cs" and i: "(instruction_values i, k) \<in> set (sends Instruction_kind cs)" "im_opcode i = opcode_field opc" "opc \<in> alu_opcodes \<union> flow_opcodes"
  shows "alu_right alu_opcodes (instruction_values i) \<or> flow_right (instruction_values i)"
proof -
  note s = bb.machine_sound [OF machine_ok_alu [OF m] i(1,2)]
  show ?thesis
  proof (cases "opc \<in> simple_opcodes")
    case True
    then show ?thesis using s(1) unfolding alu_right_def by blast
  next
    case False
    then have "machine_right (instruction_values i)" using s(2) i(3) by blast
    then show ?thesis unfolding machine_right_def using alu_right_mono [of divrem_opcodes _ alu_opcodes] by blast
  qed
qed

text \<open>
  (C2) For ALU and control-flow tables whose rows satisfy their constraints, in a shard whose byte
  lookups and instructions balance and are fewer than the order of the field: every instruction of
  these tables that the rest of the machine sends, at a program counter in the field and with
  operands that are words, goes on to the program counter that the executor computes, and unless
  its destination is register 0, its result is the one the executor computes.
\<close>

theorem machine_tables_sound:
  assumes "machine_ok t f ms cs" "(instruction_values i, m) \<in> set (sends Instruction_kind cs)"
    and "im_opcode i = opcode_field opc" "opc \<in> alu_opcodes \<union> flow_opcodes"
    and "im_pc i = from_canonical_u32 q" "unat q + 4 < ORDER"
    and "im_a i = word_from x" "im_b i = word_from y" "im_c i = word_from w"
  shows "\<exists>v n. instruction_result opc q x y w = Inr (v, n) \<and> im_next_pc i = from_canonical_u32 n \<and> (im_op_a_0 i = 0 \<longrightarrow> x = v)"
  using right_result [OF assms(3,5-9) machine_answers [OF assms(1-4)]] .

section \<open>Completeness\<close>

definition flow_events_ok :: "execution_record \<Rightarrow> bool" where
  "flow_events_ok r \<longleftrightarrow> (\<forall>e\<in>set (auipc_events r). auipc_event_ok e) \<and> (\<forall>e\<in>set (branch_events r). branch_event_ok e)
     \<and> (\<forall>e\<in>set (jump_events r). jump_event_ok e)"

definition flow_tables_fit :: "(string \<Rightarrow> bool option) \<Rightarrow> (string \<Rightarrow> nat option) \<Rightarrow> execution_record \<Rightarrow> bool" where
  "flow_tables_fit in_shape log2_rows r \<longleftrightarrow> table_fits (auipc_included (in_shape ''Auipc'') r) (log2_rows ''Auipc'') (auipc_events r)
     \<and> table_fits (branch_included (in_shape ''Branch'') r) (log2_rows ''Branch'') (branch_events r)
     \<and> table_fits (jump_included (in_shape ''Jump'') r) (log2_rows ''Jump'') (jump_events r)"

definition flow_msgs :: "execution_record \<Rightarrow> bb instruction_msg list" where
  "flow_msgs r = map auipc_msg (auipc_events r) @ map branch_msg (branch_events r) @ map jump_msg (jump_events r)"

definition flow_emits :: "execution_record \<Rightarrow> alu_event list" where
  "flow_emits r = concat (map auipc_emits (auipc_events r)) @ concat (map branch_emits (branch_events r)) @ concat (map jump_emits (jump_events r))"

text \<open>The events that the executor in state \<open>s\<close> emits for the instructions of the control-flow tables.\<close>

definition emitted_by :: "executor \<Rightarrow> executor res \<Rightarrow> alu_event list" where
  "emitted_by s res = (case res of Inr s' \<Rightarrow> new_events (exec_record s) (exec_record s') | Inl _ \<Rightarrow> [])"

definition flow_emitted :: "executor \<Rightarrow> execution_record \<Rightarrow> alu_event list" where
  "flow_emitted s r = concat (map (\<lambda>e. emitted_by s (Inr (emit_auipc_dependency e s))) (auipc_events r))
     @ concat (map (\<lambda>e. emitted_by s (emit_branch_dependencies e s)) (branch_events r))
     @ concat (map (\<lambda>e. emitted_by s (emit_jump_dependencies e s)) (jump_events r))"

lemma mset_concat_cong: "(\<And>x. x \<in> set xs \<Longrightarrow> mset (f x) = mset (g x)) \<Longrightarrow> mset (concat (map f xs)) = mset (concat (map g xs))"
  by (induction xs) simp_all

lemma flow_emitted_events:
  assumes "flow_events_ok r"
  shows "mset (flow_emitted s r) = mset (flow_emits r)"
proof -
  have "mset (emitted_by s (emit_branch_dependencies e s)) = mset (branch_emits e)" if "e \<in> set (branch_events r)" for e
    using branch_new_events [of e s] assms that by (auto simp: emitted_by_def flow_events_ok_def branch_event_ok_def)
  moreover have "mset (emitted_by s (emit_jump_dependencies e s)) = mset (jump_emits e)" if "e \<in> set (jump_events r)" for e
    using jump_new_events [of e s] assms that by (auto simp: emitted_by_def flow_events_ok_def jump_event_ok_def)
  moreover have "emitted_by s (Inr (emit_auipc_dependency e s)) = auipc_emits e" for e
    by (simp add: emitted_by_def auipc_new_events)
  ultimately show ?thesis unfolding flow_emitted_def flow_emits_def mset_append by (intro arg_cong2 [of _ _ _ _ "(+)"] mset_concat_cong) simp_all
qed

lemma honest_used:
  assumes "honest used msgs es ls as" "used \<subseteq> used'"
  shows "honest used' msgs es ls as"
proof -
  have "accepts (alu_lookups used') as"
    by (rule accepts_mono [of "alu_lookups used"]) (use assms in \<open>auto simp: honest_def alu_lookups_def\<close>)
  then show ?thesis using assms(1) by (simp add: honest_def)
qed

lemma flow_tables:
  assumes ok: "flow_events_ok r" and fit: "flow_tables_fit in_shape log2_rows r"
  shows "\<exists>rows ls. complete_table {ADD} (map auipc_msg (auipc_events r)) (concat (map auipc_emits (auipc_events r))) (auipc_eval :: bb auipc_cols \<Rightarrow> _)
      (shard_trace (auipc_included (in_shape ''Auipc'') r) (auipc_generate_trace (log2_rows ''Auipc'') r)) (auipc_generate_dependencies n (log2_rows ''Auipc'') r Map.empty) rows ls"
    "\<exists>rows ls. complete_table {ADD, SLT, SLTU} (map branch_msg (branch_events r)) (concat (map branch_emits (branch_events r))) (branch_eval :: bb branch_cols \<Rightarrow> _)
      (shard_trace (branch_included (in_shape ''Branch'') r) (branch_generate_trace (log2_rows ''Branch'') r)) (branch_generate_dependencies n (log2_rows ''Branch'') r Map.empty) rows ls"
    "\<exists>rows ls. complete_table {ADD} (map jump_msg (jump_events r)) (concat (map jump_emits (jump_events r))) (jump_eval :: bb jump_cols \<Rightarrow> _)
      (shard_trace (jump_included (in_shape ''Jump'') r) (jump_generate_trace (log2_rows ''Jump'') r)) (jump_generate_dependencies n (log2_rows ''Jump'') r Map.empty) rows ls"
  unfolding auipc_generate_trace_def branch_generate_trace_def jump_generate_trace_def auipc_generate_dependencies_def branch_generate_dependencies_def jump_generate_dependencies_def
  subgoal by (rule auipc.table_complete [OF _ _ trace_records]) (use ok fit in \<open>auto simp: flow_events_ok_def flow_tables_fit_def\<close>)
  subgoal by (rule branch.table_complete [OF _ _ trace_records]) (use ok fit in \<open>auto simp: flow_events_ok_def flow_tables_fit_def\<close>)
  subgoal by (rule jump.table_complete [OF _ _ trace_records]) (use ok fit in \<open>auto simp: flow_events_ok_def flow_tables_fit_def\<close>)
  done

lemma flow_complete:
  assumes ok: "flow_events_ok r" and fit: "flow_tables_fit in_shape log2_rows r"
  shows "\<exists>f ls. flow_generate_traces in_shape log2_rows r = Inr f \<and> honest {ADD, SLT, SLTU} (flow_msgs r) (flow_emits r) ls (flow_actions f)
    \<and> (\<forall>blu ls0. holds_lookups blu ls0 \<longrightarrow> (\<exists>blu'. flow_generate_dependencies n log2_rows r blu = Inr blu' \<and> holds_lookups blu' (ls0 @ ls)))"
proof -
  note ft = flow_tables [OF ok fit, where n = n, unfolded complete_table_def]
  obtain ra :: "bb auipc_cols list" and la where a: "shard_trace (auipc_included (in_shape ''Auipc'') r) (auipc_generate_trace (log2_rows ''Auipc'') r) = Inr ra"
    "honest {ADD} (map auipc_msg (auipc_events r)) (concat (map auipc_emits (auipc_events r))) la (concat (map auipc_eval ra))"
    "records (auipc_generate_dependencies n (log2_rows ''Auipc'') r Map.empty) la" using ft(1) by blast
  obtain rb :: "bb branch_cols list" and lb where b: "shard_trace (branch_included (in_shape ''Branch'') r) (branch_generate_trace (log2_rows ''Branch'') r) = Inr rb"
    "honest {ADD, SLT, SLTU} (map branch_msg (branch_events r)) (concat (map branch_emits (branch_events r))) lb (concat (map branch_eval rb))"
    "records (branch_generate_dependencies n (log2_rows ''Branch'') r Map.empty) lb" using ft(2) by blast
  obtain rj :: "bb jump_cols list" and lj where j: "shard_trace (jump_included (in_shape ''Jump'') r) (jump_generate_trace (log2_rows ''Jump'') r) = Inr rj"
    "honest {ADD} (map jump_msg (jump_events r)) (concat (map jump_emits (jump_events r))) lj (concat (map jump_eval rj))"
    "records (jump_generate_dependencies n (log2_rows ''Jump'') r Map.empty) lj" using ft(3) by blast
  let ?f = "\<lparr>sh_auipc = ra, sh_branch = rb, sh_jump = rj\<rparr>"
  have "flow_generate_traces in_shape log2_rows r = Inr ?f" by (simp add: flow_generate_traces_def a(1) b(1) j(1))
  moreover have "honest {ADD, SLT, SLTU} (flow_msgs r) (flow_emits r) (la @ lb @ lj) (flow_actions ?f)"
    unfolding flow_msgs_def flow_emits_def flow_actions_def flow_shard.simps
    by (intro honest_append b(2) honest_used [OF a(2)] honest_used [OF j(2)]) auto
  moreover have "\<exists>blu'. flow_generate_dependencies n log2_rows r blu = Inr blu' \<and> holds_lookups blu' (ls0 @ la @ lb @ lj)" if "holds_lookups blu ls0" for blu ls0
  proof -
    have "list_all2 (\<lambda>chip ls. records (chip Map.empty) ls) [auipc_generate_dependencies n (log2_rows ''Auipc'') r,
      branch_generate_dependencies n (log2_rows ''Branch'') r, jump_generate_dependencies n (log2_rows ''Jump'') r] [la, lb, lj]"
      using a(3) b(3) j(3) by (simp only: list_all2_Cons list_all2_Nil simp_thms)
    from chip_dependencies_hold [OF this that] show ?thesis by (simp add: flow_generate_dependencies_def)
  qed
  ultimately show ?thesis by blast
qed

lemma honest_machine_balanced:
  assumes ok: "alu_events_ok r" "flow_events_ok r" and fit: "tables_fit in_shape log2_rows r" "flow_tables_fit in_shape log2_rows r"
    and cs: "receives Byte_kind cs = []" "mset (sends Byte_kind cs) = mset (requests ls)" "\<And>e. e \<in> set ls \<Longrightarrow> byte_event_ok e"
    and instr: "mset (sends Instruction_kind cs) + mset (map event_send (concat (map (divrem_emitted s) (divrem_events r)) @ flow_emitted s r))
      = mset (map event_send (alu_tables r)) + mset (map once (flow_msgs r)) + mset (receives Instruction_kind cs)"
  shows "\<exists>t f blu. alu_generate_traces in_shape log2_rows r = Inr t \<and> flow_generate_traces in_shape log2_rows r = Inr f
    \<and> machine_generate_dependencies num_cpus log2_rows r (add_byte_lookup_events ls Map.empty) = Inr blu
    \<and> asserts (simple_actions t) \<and> asserts (divrem_actions t) \<and> asserts (flow_actions f)
    \<and> balanced {Byte_kind, Instruction_kind} (machine_messages t f (byte_multiplicity blu) cs)"
proof -
  obtain t l1 l2 where t: "alu_generate_traces in_shape log2_rows r = Inr t" and h1: "honest {} (map event_msg (simple_events r)) [] l1 (simple_actions t)"
    and h2: "honest {ADD, MUL, MULH, MULHU, SLTU} (map event_msg (divrem_events r)) (concat (map divrem_emits (divrem_events r))) l2 (divrem_actions t)"
    and d1: "\<forall>blu ls0. holds_lookups blu ls0 \<longrightarrow> (\<exists>blu'. alu_generate_dependencies num_cpus log2_rows r blu = Inr blu' \<and> holds_lookups blu' (ls0 @ l2 @ l1))"
    using shard_complete [OF ok(1) fit(1), where n = num_cpus] by blast
  obtain f l3 where f: "flow_generate_traces in_shape log2_rows r = Inr f" and h3: "honest {ADD, SLT, SLTU} (flow_msgs r) (flow_emits r) l3 (flow_actions f)"
    and d2: "\<forall>blu ls0. holds_lookups blu ls0 \<longrightarrow> (\<exists>blu'. flow_generate_dependencies num_cpus log2_rows r blu = Inr blu' \<and> holds_lookups blu' (ls0 @ l3))"
    using flow_complete [OF ok(2) fit(2), where n = num_cpus] by blast
  obtain blu1 where blu1: "alu_generate_dependencies num_cpus log2_rows r (add_byte_lookup_events ls Map.empty) = Inr blu1" "holds_lookups blu1 (ls @ l2 @ l1)"
    using d1 holds_events [OF holds_Nil, of ls] by auto
  obtain blu where blu: "flow_generate_dependencies num_cpus log2_rows r blu1 = Inr blu" "holds_lookups blu ((ls @ l2 @ l1) @ l3)"
    using d2 blu1(2) by blast
  have "interaction_count Byte_kind vs (machine_messages t f (byte_multiplicity blu) cs) = 0" for vs
  proof -
    have "interaction_count Byte_kind vs ((simple_actions t @ (divrem_actions t @ flow_actions f) @ cs) @ byte_generate_trace blu) = 0"
      by (rule bb.lookups_balance [OF blu(2)])
        (use h1 h2 h3 cs bb.honest_lookups [OF h1] bb.honest_lookups [OF h2] bb.honest_lookups [OF h3] in \<open>auto simp: honest_def\<close>)
    then show ?thesis by (simp add: machine_messages_def messages_def byte_generate_trace_actions ac_simps)
  qed
  moreover have "interaction_count Instruction_kind vs (machine_messages t f (byte_multiplicity blu) cs) = 0" for vs
  proof (rule same_messages_balance)
    have "receives Instruction_kind (byte_actions (byte_multiplicity blu)) = []" "sends Instruction_kind (byte_actions (byte_multiplicity blu)) = []"
      using byte_actions_ok unfolding byte_table_ok_def by blast+
    then show "mset (sends Instruction_kind (machine_messages t f (byte_multiplicity blu) cs)) = mset (receives Instruction_kind (machine_messages t f (byte_multiplicity blu) cs))"
      using h1 h2 h3 instr flow_emitted_events [OF ok(2), of s] unfolding machine_messages_def messages_sel
      by (simp add: honest_def alu_tables_events divrem_emitted_events ac_simps image_mset.compositionality comp_def)
  qed
  ultimately show ?thesis using t f blu(1) blu1(1) h1 h2 h3 by (auto simp: balanced_def honest_def accepts_iff machine_generate_dependencies_def)
qed

text \<open>
  (C3) From the record of a shard whose ALU and control-flow events are valid, with the instructions
  that the rest of the machine sends and those that the executor emits as dependencies being just those
  of the events, all these tables and their lookups are generated without a panic, all constraints
  hold, and the byte lookups and instructions of the shard balance.  Excluded are events with
  destination register 0 that the executor does emit and the tables do not handle (AUIPC, additions
  and subtractions, comparisons that are true), and program counters, targets and return addresses that
  are not in the field; every table with events is in the shard and large enough.
\<close>

theorem machine_tables_complete:
  assumes "alu_events_ok r" "flow_events_ok r" "tables_fit in_shape log2_rows r" "flow_tables_fit in_shape log2_rows r"
    and "receives Byte_kind cs = []" "mset (sends Byte_kind cs) = mset (requests ls)" "\<forall>e\<in>set ls. byte_event_ok e"
    and "mset (sends Instruction_kind cs) + mset (map event_send (concat (map (divrem_emitted s) (divrem_events r)) @ flow_emitted s r))
      = mset (map event_send (alu_tables r)) + mset (map once (flow_msgs r)) + mset (receives Instruction_kind cs)"
  shows "\<exists>t f blu. alu_generate_traces in_shape log2_rows r = Inr t \<and> flow_generate_traces in_shape log2_rows r = Inr f
    \<and> machine_generate_dependencies num_cpus log2_rows r (add_byte_lookup_events ls Map.empty) = Inr blu
    \<and> asserts (simple_actions t) \<and> asserts (divrem_actions t) \<and> asserts (flow_actions f)
    \<and> balanced {Byte_kind, Instruction_kind} (machine_messages t f (byte_multiplicity blu) cs)"
  by (rule honest_machine_balanced [OF assms(1-6) _ assms(8)]) (use assms(7) in blast)

text \<open>A jump at address 0, with the addition that the executor emits for it.\<close>

definition demo_jump_event :: jump_event where
  "demo_jump_event = \<lparr>jp_pc = 0, jp_next_pc = 8, jp_opcode = JAL, jp_a = 4, jp_b = 8, jp_c = 0, jp_op_a_0 = False\<rparr>"

definition demo_jump :: execution_record where
  "demo_jump = (record_new program_default)\<lparr>jump_events := [demo_jump_event], add_events := [dep_event ADD 8 0 8]\<rparr>"

definition demo_jump_client :: "bb action list" where
  "demo_jump_client = send_instruction (jump_msg demo_jump_event) 1"

lemma demo_jump_client_sends [simp]:
  "sends k demo_jump_client = (if k = Instruction_kind then [once (jump_msg demo_jump_event)] else [])" "receives k demo_jump_client = []"
  by (simp_all add: demo_jump_client_def send_instruction_def)

lemma demo_jump_ok:
  "alu_events_ok demo_jump" "flow_events_ok demo_jump"
  "tables_fit (\<lambda>_. Some True) (\<lambda>_. Some 0) demo_jump" "flow_tables_fit (\<lambda>_. Some True) (\<lambda>_. Some 0) demo_jump"
  "divrem_events demo_jump = []" "flow_emitted s demo_jump = [dep_event ADD 8 0 8]" "alu_tables demo_jump = [dep_event ADD 8 0 8]"
  "flow_msgs demo_jump = [jump_msg demo_jump_event]"
  by (simp_all add: alu_events_ok_def flow_events_ok_def demo_jump_def record_new_def alu_tables_def alu_ok_def x0_ok_def dep_event_def demo_jump_event_def jump_event_ok_def
    jump_target_def ORDER_def tables_fit_def table_fits_def fits_def included_defs flow_tables_fit_def auipc_included_def branch_included_def jump_included_def
    flow_emitted_def flow_msgs_def emitted_by_def emit_jump_dependencies_def new_events_def push_add_def)

theorem machine_tables_complete_witness:
  "\<exists>t f blu. alu_generate_traces (\<lambda>_. Some True) (\<lambda>_. Some 0) demo_jump = Inr t \<and> flow_generate_traces (\<lambda>_. Some True) (\<lambda>_. Some 0) demo_jump = Inr f
    \<and> machine_generate_dependencies 4 (\<lambda>_. Some 0) demo_jump (add_byte_lookup_events [] Map.empty) = Inr blu
    \<and> asserts (simple_actions t) \<and> asserts (divrem_actions t) \<and> asserts (flow_actions f)
    \<and> balanced {Byte_kind, Instruction_kind} (machine_messages t f (byte_multiplicity blu) demo_jump_client)"
  by (rule machine_tables_complete [OF demo_jump_ok(1-4), where s = "with_context 48 Map.empty program_default 0 0 None True"])
    (simp_all add: demo_jump_ok)

lemma demo_jump_traces:
  assumes "alu_generate_traces (\<lambda>_. Some True) (\<lambda>_. Some 0) demo_jump = Inr t" "flow_generate_traces (\<lambda>_. Some True) (\<lambda>_. Some 0) demo_jump = Inr f"
  obtains row jrow where "t = \<lparr>sh_divrem = [divrem_padding], sh_add_sub = [row], sh_bitwise = [bitwise_zero], sh_mul = [mul_zero],
      sh_shift_right = [shift_right_padding], sh_shift_left = [shift_left_padding], sh_lt = [lt_zero]\<rparr>"
    "f = \<lparr>sh_auipc = [auipc_zero], sh_branch = [branch_zero], sh_jump = [jrow]\<rparr>"
proof -
  obtain row ls where "add_sub_row (dep_event ADD 8 0 8) = Inr (row :: bb add_sub_cols, ls)"
    using add_sub.complete [of "dep_event ADD 8 0 8"] by (auto simp: alu_ok_def x0_ok_def dep_event_def)
  moreover have "jump_event_ok demo_jump_event" using demo_jump_ok(2) by (simp add: flow_events_ok_def demo_jump_def)
  then obtain jrow jls where "jump_row (\<lambda>x. nat (rep_bb x)) demo_jump_event = Inr (jrow :: bb jump_cols, jls)" using jump.chip_complete by blast
  ultimately show ?thesis using assms
    by (intro that [of row jrow]) (auto simp: alu_generate_traces_def flow_generate_traces_def demo_jump_def record_new_def generate_trace_def next_power_of_two_def
      generate_trace_defs included_defs shard_trace_def auipc_generate_trace_def branch_generate_trace_def jump_generate_trace_def
      auipc_included_def branch_included_def jump_included_def)
qed

lemma demo_jump_machine: "\<exists>t f ms. machine_ok t f ms demo_jump_client"
proof -
  have "mset (sends Instruction_kind demo_jump_client) + mset (map event_send (concat (map (divrem_emitted s) (divrem_events demo_jump)) @ flow_emitted s demo_jump))
      = mset (map event_send (alu_tables demo_jump)) + mset (map once (flow_msgs demo_jump)) + mset (receives Instruction_kind demo_jump_client)" for s
    by (simp add: demo_jump_ok)
  from honest_machine_balanced [OF demo_jump_ok(1-4) _ _ _ this, of "[]" 4] obtain t f blu where
    t: "alu_generate_traces (\<lambda>_. Some True) (\<lambda>_. Some 0) demo_jump = Inr t" "flow_generate_traces (\<lambda>_. Some True) (\<lambda>_. Some 0) demo_jump = Inr f"
    and a: "asserts (simple_actions t)" "asserts (divrem_actions t)" "asserts (flow_actions f)"
      "balanced {Byte_kind, Instruction_kind} (machine_messages t f (byte_multiplicity blu) demo_jump_client)" by auto
  obtain row jrow where rows: "t = \<lparr>sh_divrem = [divrem_padding], sh_add_sub = [row], sh_bitwise = [bitwise_zero], sh_mul = [mul_zero],
      sh_shift_right = [shift_right_padding], sh_shift_left = [shift_left_padding], sh_lt = [lt_zero]\<rparr>"
    "f = \<lparr>sh_auipc = [auipc_zero], sh_branch = [branch_zero], sh_jump = [jrow]\<rparr>" using demo_jump_traces [OF t] by metis
  have "sends k (byte_actions ms) = []" "receives Instruction_kind (byte_actions ms) = []" for k ms
    using byte_actions_ok unfolding byte_table_ok_def by blast+
  then have m: "length (sends k (machine_messages t f (byte_multiplicity blu) demo_jump_client)) \<le> length (sends k (add_sub_eval row)) + length (sends k (jump_eval jrow)) + 1"
    "length (receives Instruction_kind (machine_messages t f (byte_multiplicity blu) demo_jump_client)) = length (receives Instruction_kind (add_sub_eval row)) + length (receives Instruction_kind (jump_eval jrow))" for k
    unfolding machine_messages_def rows simple_actions_def divrem_actions_def flow_actions_def
    by (simp_all add: bitwise.table.idle_sends mul.table.idle_sends shift_right.table.idle_sends shift_left.table.idle_sends lt.table.idle_sends divrem.table.idle_sends
      bitwise_idle mul_idle shift_right_idle shift_left_idle lt_idle divrem_idle auipc.idle_sends branch.idle_sends auipc_idle branch_idle)
  have l: "length (add_sub_eval row) < 100" "length (jump_eval jrow) < 100"
    by (simp_all add: add_sub_eval_def add_eval_def jump_eval_def word_range_check_def when_not_def Let_def air limbs_eq)
  have "few_messages (machine_messages t f (byte_multiplicity blu) demo_jump_client)"
    using m(1) [of Byte_kind] m(1) [of Instruction_kind] m(2) l length_messages [of Byte_kind "add_sub_eval row"]
      length_messages [of Instruction_kind "add_sub_eval row"] length_messages [of Instruction_kind "jump_eval jrow"] length_messages [of Byte_kind "jump_eval jrow"]
    unfolding few_messages_def ORDER_def by linarith
  moreover have "client_ok (alu_opcodes \<union> flow_opcodes) demo_jump_client"
    by (auto simp: client_ok_def jump_msg_def demo_jump_event_def from_bool_def)
  ultimately show ?thesis using a unfolding machine_ok_def by blast
qed

theorem machine_tables_sound_witness:
  "\<exists>v n. instruction_result JAL 0 4 8 0 = Inr (v, n) \<and> (from_canonical_u32 8 :: bb) = from_canonical_u32 n \<and> 4 = v"
proof -
  obtain t f ms where "machine_ok t f ms demo_jump_client" using demo_jump_machine by blast
  from machine_tables_sound [OF this, of "jump_msg demo_jump_event" 1 JAL 0 4 8 0]
  show ?thesis by (simp add: jump_msg_def demo_jump_event_def flow_msg_def ORDER_def)
qed

section \<open>AUIPC to register 0\<close>

text \<open>
  (C38) For an AUIPC to register 0, \<open>emit_auipc_dependency\<close> adds an addition to the record, but the
  row of the instruction requests none.
\<close>

theorem auipc_x0_not_requested:
  assumes "au_opcode e = AUIPC" "au_op_a_0 e" "unat (au_pc e) < ORDER"
  shows "new_events (exec_record s) (exec_record (emit_auipc_dependency e s)) = [dep_event ADD (au_a e) (au_pc e) (au_b e)]
    \<and> (\<exists>r ls. auipc_row (\<lambda>x. nat (rep_bb x)) e = Inr (r, ls) \<and> asserts (auipc_eval r) \<and> sends Instruction_kind (auipc_eval r) = [])"
  using bb.auipc_row_complete [OF assms(1,3)] assms(2) by (auto simp: auipc_new_events auipc_emits_def honest_def accepts_iff)

theorem auipc_x0_not_requested_witness:
  "new_events (exec_record (with_context 48 Map.empty program_default 0 0 None True))
      (exec_record (emit_auipc_dependency \<lparr>au_pc = 4, au_opcode = AUIPC, au_a = 8, au_b = 4, au_c = 4, au_op_a_0 = True\<rparr>
        (with_context 48 Map.empty program_default 0 0 None True))) = [dep_event ADD 8 4 4]
    \<and> (\<exists>r ls. auipc_row (\<lambda>x. nat (rep_bb x)) \<lparr>au_pc = 4, au_opcode = AUIPC, au_a = 8, au_b = 4, au_c = 4, au_op_a_0 = True\<rparr> = Inr (r, ls)
      \<and> asserts (auipc_eval r) \<and> sends Instruction_kind (auipc_eval r) = [])"
  using auipc_x0_not_requested [of "\<lparr>au_pc = 4, au_opcode = AUIPC, au_a = 8, au_b = 4, au_c = 4, au_op_a_0 = True\<rparr>" "with_context 48 Map.empty program_default 0 0 None True"]
  by (simp add: ORDER_def)

end
