(* ===== verification/Spec2Isabelle.thy ===== *)
theory Spec2Isabelle
  imports SP1_Checkpoint SP1_Modes SP1_Trace SP1_Flow_Machine
begin

text \<open>
  A verification library for the SP1 zero-knowledge virtual machine (MetalSP1).

  \<^bold>\<open>The program.\<close>  SP1 proves executions of RISC-V programs.  The executor
  (\<open>src/crates/core/executor/src\<close>) runs a program given as a list of transpiled RV32IM
  instructions, serves its system calls and precompiles (hashes, elliptic curves, 256-bit
  arithmetic), and, when it traces, records the events from which the tables of the proof are
  generated, cut into shards.  A program may open an \<^emph>\<open>unconstrained\<close> block, whose effects are
  undone when it closes it.  A run in checkpoint mode returns states from which the shards
  can be traced later.  This library models the executor completely, from the opcodes to
  the entry points \<open>run\<close>, \<open>run_fast\<close>, \<open>run_checkpoint\<close> and \<open>execute_state\<close>, with the curve
  arithmetic of \<open>src/crates/curves\<close> that its precompiles use.  Of the proof system it models the
  ALU, control-flow and byte tables (\<open>src/crates/core/machine/src\<close>): how their rows are made
  from the events, their constraints, and the messages by which they look each other up.

  \<^bold>\<open>The theories.\<close>  The first group models the code, in the order in which the code builds on
  itself; file names are relative to the executor's \<open>src\<close>.

  \<^item> \<open>SP1_Prelude\<close>: machine integers (\<open>u8\<close> to \<open>u64\<close> as words), Rust's shifts, casts and
    little-endian bytes, results with panics (\<open>res\<close>), byte counting; the simp collections.
  \<^item> \<open>SP1_Instruction\<close>: \<open>opcode.rs\<close>, \<open>register.rs\<close>, \<open>instruction.rs\<close> and the transpiler
    \<open>disassembler/rrs.rs\<close> over the callbacks of the \<open>rrs_lib\<close> decoder.
  \<^item> \<open>SP1_Memory\<close>: \<open>memory.rs\<close>, the page table and the register file.  The locale \<open>word_store\<close> is
    the contract of a word memory; it is interpreted on the pages and on plain maps.
  \<^item> \<open>SP1_Syscall_Code\<close>: \<open>syscalls/code.rs\<close>.  \<open>SP1_Events\<close>: \<open>events/*.rs\<close>, \<open>record.rs\<close>,
    \<open>program.rs\<close> and the public values.
  \<^item> \<open>SP1_Executor\<close>: \<open>state.rs\<close> and the accesses of \<open>executor.rs\<close> to registers and memory
    (\<open>mr\<close>, \<open>mw\<close>, \<open>rr\<close>, \<open>rw\<close> and their traced and CPU versions).
  \<^item> \<open>SP1_Alu\<close>, \<open>SP1_Load_Store\<close>, \<open>SP1_Dependencies\<close>: the values of ALU, load and store
    instructions, and \<open>dependencies.rs\<close>.
  \<^item> \<open>SP1_Curves\<close>: \<open>src/crates/curves/src\<close>.  \<open>SP1_Strings\<close>, \<open>SP1_Context\<close>, \<open>SP1_Precompiles\<close>,
    \<open>SP1_Syscalls\<close>: the files of \<open>syscalls/\<close> and the table from codes to implementations.
  \<^item> \<open>SP1_Cpu\<close>: \<open>execute_instruction\<close> and what it calls.  \<open>SP1_Run\<close>: \<open>execute_cycle\<close> with
    shard boundaries and limits, \<open>bump_record\<close>, \<open>initialize\<close>, \<open>postprocess\<close>, \<open>execute\<close>,
    the estimates of \<open>cost.rs\<close>.  \<open>SP1_Drivers\<close>: \<open>execute_state\<close>, \<open>recover\<close>, the run loops.

  The second group reasons about it.

  \<^item> \<open>SP1_Isa\<close>: the RV32IM architecture as a function on pc, registers and byte memory, with its
    exceptions for misaligned targets, and the refinement of it by \<open>execute_instruction\<close>, which does
    not check targets, for aligned ones.
  \<^item> \<open>SP1_Frame\<close>: the locales \<open>operations\<close> and \<open>frame\<close>: a relation kept by each primitive
    access of the executor is kept by every instruction and system call.  \<open>SP1_Steps\<close>: the
    executor as a relation of primitive steps, and every instruction as a run of them.
  \<^item> \<open>SP1_Invariants\<close>: invariants over any number of cycles; register 0.
    \<open>SP1_Unconstrained\<close>: unconstrained blocks are transparent.  \<open>SP1_Termination\<close>: a cycle
    limit makes \<open>execute\<close> return.  \<open>SP1_Checkpoint\<close>: a checkpoint is the memory before the batch.
    \<open>SP1_Modes\<close>: the modes agree.  \<open>SP1_Trace\<close>: the trace is one contiguous execution.

  The third group models the tables of the proof; file names are relative to
  \<open>src/crates/core/machine/src\<close>.

  \<^item> \<open>SP1_Field\<close>: the locale \<open>prime_field32\<close>, and its interpretation on the type \<open>bb\<close>, the integers modulo
    the order of BabyBear, which is shown to be prime.  \<open>SP1_Air\<close>: the constraint builder; \<open>eval\<close> of a
    chip is the list of its assertions and messages (\<open>air/word.rs\<close> and \<open>src/crates/stark/src/air\<close>).
  \<^item> \<open>SP1_Bytes\<close>: the byte table (\<open>bytes/\<close>) and the recording of lookups; the locale \<open>byte_record\<close> is
    the trait \<open>ByteRecord\<close>.  \<open>SP1_Operations\<close>, \<open>SP1_Is_Zero\<close>, \<open>SP1_Word_Range\<close>: \<open>operations/\<close>, for each
    that its constraints determine the result and that the filled columns satisfy them.
  \<^item> \<open>SP1_Chip\<close>: padding and generation of traces, and the locale \<open>alu_chip\<close>, the contract of an ALU table.
    \<open>SP1_Lookup\<close>: the locale \<open>instruction_chip\<close>, of which \<open>alu_chip\<close> is a sublocale: a table whose rows
    satisfy the constraints answers correctly, and a table generated from valid events is
    accepted and balances; and a machine of such tables, a byte table and a client.
  \<^item> \<open>SP1_Chip_Add_Sub\<close>, \<open>SP1_Chip_Bitwise\<close>, \<open>SP1_Chip_Lt\<close>, \<open>SP1_Chip_Sll\<close>, \<open>SP1_Chip_Sr\<close>,
    \<open>SP1_Chip_Mul\<close>, \<open>SP1_Chip_Divrem\<close>: \<open>alu/\<close>.  \<open>SP1_Chip_Branch\<close>, \<open>SP1_Chip_Jump\<close>,
    \<open>SP1_Chip_Auipc\<close>: \<open>control_flow/\<close>.  Each defines the columns, \<open>event_to_row\<close>, \<open>eval\<close>,
    \<open>generate_trace\<close>, \<open>generate_dependencies\<close> and \<open>included\<close>, and interprets the contract.
  \<^item> \<open>SP1_Alu_Machine\<close>, \<open>SP1_Flow_Machine\<close>: the tables of a shard together.  If all constraints hold and
    the messages balance, every instruction that the rest of the machine sends has the result
    and the next program counter of the executor; and from the events of the executor the
    tables are generated, accepted and balanced.  Completeness leaves out events with destination
    register 0 that the tables do not handle: for additions and subtractions the lookups recorded are
    not those sent (\<open>SP1_Chip_Add_Sub\<close>), for comparisons that are true the trace panics
    (\<open>SP1_Chip_Lt\<close>), and for AUIPC nothing requests the addition that is recorded; and without a shape
    a shard without additions has no table for subtractions.

  \<^bold>\<open>State and effects.\<close>  \<open>Executor\<close> is the record \<open>executor\<close>, with \<open>ExecutionState\<close>,
  \<open>ExecutionRecord\<close> and \<open>ForkState\<close> as records inside; functions pass it explicitly and return
  \<open>Inl\<close> an error or \<open>Inr\<close> a result with the new executor.  Panics of Rust are the error
  \<open>Panic\<close>.  Hash maps are maps; where the code depends on their order they are association
  lists.  Integers wrap, as in the release profile.

  \<^bold>\<open>Loops.\<close>  The loops of \<open>execute\<close> and of the run functions may not end: they are partial functions
  into \<open>option\<close>, and \<open>None\<close> is a run that does not return.  \<open>execute_terminates\<close> and
  \<open>run_terminates\<close> show that with a cycle limit they return.  All other loops are structural
  or have a measure; no fuel is used.

  \<^bold>\<open>Code outside the sources\<close> is the parameter \<open>env\<close> of the system calls: the hooks, the verifier of
  deferred proofs, the Keccak permutation and the decompression of the \<open>k256\<close>, \<open>p256\<close> and
  \<open>amcl\<close> crates.  No theorem assumes anything of it, except that a hook is a function of its bytes:
  \<open>Hook\<close> would allow one to keep a state and to read the executor, which those of
  \<open>HookRegistry::default\<close> do not do.

  \<^bold>\<open>Not modelled.\<close>  Logging, profiling and progress output; the ELF parser and the
  serialization, which call third-party crates; the hooks; the variants of the curve
  operations on \<open>rug\<close> integers (feature \<open>bigint-rug\<close>); the chips of the CPU, of the memory, of the
  system calls and of the precompiles, which are the client of the modelled tables and stand in
  the theorems as a parameter, the list of their messages; the STARK prover and verifier, the recursion circuits, the SDK, the command line and the network client.
\<close>

end
